(* ===== verification/Prelude.thy ===== *)
theory Prelude
  imports Main "HOL-Library.Word"
begin

text \<open>
  The shared ground of the development: Go errors as values, the program monad in which the
  effectful Go functions are written, and the two kinds of statement proved about programs.

  A Go function that reads or changes state and may fail is a program: it takes the state and
  returns \<open>None\<close> when the Go function does not return at all (a loop that never ends), and
  otherwise the value or the error together with the state it leaves behind.  An error does not
  undo anything: the state after an error is the state the code has reached at that point.
\<close>

section \<open>Errors\<close>

text \<open>
  \<open>ImapErr\<close> is a tagged NO or BAD response (\<open>imap.Error\<close>); \<open>NetErr\<close> is any other error of the
  IMAP library (connection lost, protocol error); \<open>SqlErr\<close> an error of the database driver;
  \<open>OsErr\<close> an error of the operating system; \<open>CtxErr\<close> the error of a cancelled context; \<open>Msg\<close> an
  error made from a text; \<open>Wrap\<close> is \<open>fmt.Errorf\<close> with the verb \<open>%w\<close>: format, other arguments,
  wrapped error.
\<close>

datatype status_type = StatusNO | StatusBAD

datatype gerr =
    ImapErr status_type string
  | NetErr string
  | SqlErr string
  | OsErr string
  | CtxErr
  | Msg string "string list"
  | Wrap string "string list" gerr

fun root_cause :: "gerr \<Rightarrow> gerr" where
  "root_cause (Wrap _ _ e) = root_cause e"
| "root_cause e = e"

type_synonym u32 = "32 word"

section \<open>Programs\<close>

type_synonym ('s, 'a) prog = "'s \<Rightarrow> ((gerr + 'a) \<times> 's) option"

definition returnM :: "'a \<Rightarrow> ('s, 'a) prog" where
  "returnM a = (\<lambda>s. Some (Inr a, s))"

definition throwM :: "gerr \<Rightarrow> ('s, 'a) prog" where
  "throwM e = (\<lambda>s. Some (Inl e, s))"

definition bindM :: "('s, 'a) prog \<Rightarrow> ('a \<Rightarrow> ('s, 'b) prog) \<Rightarrow> ('s, 'b) prog" where
  "bindM m f = (\<lambda>s. case m s of
      None \<Rightarrow> None
    | Some (r, s') \<Rightarrow> (case r of Inl e \<Rightarrow> Some (Inl e, s') | Inr a \<Rightarrow> f a s'))"

definition getM :: "('s \<Rightarrow> 'a) \<Rightarrow> ('s, 'a) prog" where
  "getM f = (\<lambda>s. Some (Inr (f s), s))"

definition modifyM :: "('s \<Rightarrow> 's) \<Rightarrow> ('s, unit) prog" where
  "modifyM f = (\<lambda>s. Some (Inr (), f s))"

text \<open>The result of a call as a value, for code that looks at \<open>err\<close> before it goes on.\<close>

definition tryM :: "('s, 'a) prog \<Rightarrow> ('s, gerr + 'a) prog" where
  "tryM m = (\<lambda>s. case m s of None \<Rightarrow> None | Some (r, s') \<Rightarrow> Some (Inr r, s'))"

text \<open>\<open>if err != nil { return fmt.Errorf(format, args, err) }\<close>\<close>

definition wrapM :: "string \<Rightarrow> string list \<Rightarrow> ('s, 'a) prog \<Rightarrow> ('s, 'a) prog" where
  "wrapM fmt args m = (\<lambda>s. case m s of
      None \<Rightarrow> None
    | Some (r, s') \<Rightarrow> Some (case r of Inl e \<Rightarrow> Inl (Wrap fmt args e) | Inr a \<Rightarrow> Inr a, s'))"

definition whenM :: "bool \<Rightarrow> ('s, unit) prog \<Rightarrow> ('s, unit) prog" where
  "whenM b m = (if b then m else returnM ())"

text \<open>A \<open>for\<close> loop over a slice whose body may return early with an error.\<close>

fun forM :: "'a list \<Rightarrow> ('a \<Rightarrow> ('s, unit) prog) \<Rightarrow> ('s, unit) prog" where
  "forM [] f = returnM ()"
| "forM (x # xs) f = bindM (f x) (\<lambda>_. forM xs f)"

text \<open>The same with a loop variable carried from one iteration to the next.\<close>

fun foldM :: "('b \<Rightarrow> 'a \<Rightarrow> ('s, 'b) prog) \<Rightarrow> 'b \<Rightarrow> 'a list \<Rightarrow> ('s, 'b) prog" where
  "foldM f b [] = returnM b"
| "foldM f b (x # xs) = bindM (f b x) (\<lambda>b'. foldM f b' xs)"

text \<open>A program on one component of a larger state.\<close>

definition zoomM :: "('t \<Rightarrow> 's) \<Rightarrow> ('s \<Rightarrow> 't \<Rightarrow> 't) \<Rightarrow> ('s, 'a) prog \<Rightarrow> ('t, 'a) prog" where
  "zoomM get put m = (\<lambda>t. case m (get t) of
      None \<Rightarrow> None
    | Some (r, s') \<Rightarrow> Some (r, put s' t))"

lemmas prog_defs = returnM_def throwM_def bindM_def getM_def modifyM_def tryM_def wrapM_def
  whenM_def zoomM_def

lemma bindM_mono [partial_function_mono]:
  assumes "mono_option (\<lambda>f. m f s)" and "\<And>a t. mono_option (\<lambda>f. g f a t)"
  shows "mono_option (\<lambda>f. bindM (m f) (g f) s)"
proof -
  have eq: "bindM (m f) (g f) s = Option.bind (m f s)
      (\<lambda>p. case p of (r, s') \<Rightarrow> (case r of Inl e \<Rightarrow> Some (Inl e, s') | Inr a \<Rightarrow> g f a s'))" for f
    by (auto simp: bindM_def split: option.splits prod.splits)
  show ?thesis
    unfolding eq using assms(1)
  proof (rule bind_mono)
    fix p
    show "mono_option (\<lambda>f. case p of (r, s') \<Rightarrow>
        (case r of Inl e \<Rightarrow> Some (Inl e, s') | Inr a \<Rightarrow> g f a s'))"
      using assms(2)
      by (cases p; cases "fst p") (auto intro: option.const_mono)
  qed
qed

lemma bindM_SomeI [simp]:
  "m s = Some (Inr a, s') \<Longrightarrow> bindM m f s = f a s'"
  "m s = Some (Inl e, s') \<Longrightarrow> bindM m f s = Some (Inl e, s')"
  "m s = None \<Longrightarrow> bindM m f s = None"
  by (simp_all add: bindM_def)

lemma bindM_returnM [simp]: "bindM (returnM a) f = f a"
  by (simp add: bindM_def returnM_def)

lemma bindM_throwM [simp]: "bindM (throwM e) f = throwM e"
  by (simp add: bindM_def throwM_def)

lemma bindM_getM: "bindM (getM g) f s = f (g s) s"
  by (simp add: bindM_def getM_def)

lemma bindM_modifyM: "bindM (modifyM g) f s = f () (g s)"
  by (simp add: bindM_def modifyM_def)

lemma bindM_assoc: "bindM (bindM m f) g = bindM m (\<lambda>a. bindM (f a) g)"
  by (auto simp: bindM_def fun_eq_iff split: option.splits prod.splits sum.splits)

text \<open>Two continuations that agree on what the first program can return.\<close>

lemma bindM_cong_on: "(\<And>a s'. m s = Some (Inr a, s') \<Longrightarrow> f a s' = g a s') \<Longrightarrow> bindM m f s = bindM m g s"
  by (auto simp: bindM_def split: option.split sum.split)

lemma bindM_InrE:
  assumes "bindM m f s = Some (Inr b, s'')"
  obtains a s' where "m s = Some (Inr a, s')" and "f a s' = Some (Inr b, s'')"
  using assms by (auto simp: bindM_def split: option.splits prod.splits sum.splits)

section \<open>Statements about programs\<close>

text \<open>
  \<open>hoare P m Q E\<close>: started in a state that satisfies \<open>P\<close>, if \<open>m\<close> returns then \<open>Q\<close> holds of its
  value and state, or \<open>E\<close> of its error and state.  \<open>settles P m\<close>: started in \<open>P\<close> it does return,
  and \<open>P\<close> still holds.  \<open>steps R m\<close>: whatever the result, the final state is related to the first by \<open>R\<close>.
\<close>

definition hoare :: "('s \<Rightarrow> bool) \<Rightarrow> ('s, 'a) prog \<Rightarrow> ('a \<Rightarrow> 's \<Rightarrow> bool) \<Rightarrow> (gerr \<Rightarrow> 's \<Rightarrow> bool) \<Rightarrow> bool" where
  "hoare P m Q E \<longleftrightarrow> (\<forall>s. P s \<longrightarrow> (case m s of
      None \<Rightarrow> True
    | Some (Inl e, s') \<Rightarrow> E e s'
    | Some (Inr a, s') \<Rightarrow> Q a s'))"

definition settles :: "('s \<Rightarrow> bool) \<Rightarrow> ('s, 'a) prog \<Rightarrow> bool" where
  "settles P m \<longleftrightarrow> (\<forall>s. P s \<longrightarrow> (\<exists>r s'. m s = Some (r, s') \<and> P s'))"

definition steps :: "('s \<Rightarrow> 's \<Rightarrow> bool) \<Rightarrow> ('s, 'a) prog \<Rightarrow> bool" where
  "steps R m \<longleftrightarrow> (\<forall>s r s'. m s = Some (r, s') \<longrightarrow> R s s')"

named_theorems hoare_intro "rules that prove a hoare statement of a composed program"
named_theorems steps_intro "rules that prove a steps statement of a composed program"

subsection \<open>Partial correctness\<close>

lemma hoareI:
  assumes "\<And>s a s'. P s \<Longrightarrow> m s = Some (Inr a, s') \<Longrightarrow> Q a s'"
    and "\<And>s e s'. P s \<Longrightarrow> m s = Some (Inl e, s') \<Longrightarrow> E e s'"
  shows "hoare P m Q E"
  using assms by (auto simp: hoare_def split: option.splits sum.splits)

lemma hoareD: "hoare P m Q E \<Longrightarrow> P s \<Longrightarrow>
    (case m s of None \<Rightarrow> True | Some (Inl e, s') \<Rightarrow> E e s' | Some (Inr a, s') \<Rightarrow> Q a s')"
  by (simp add: hoare_def)

lemma hoare_InrD: "hoare P m Q E \<Longrightarrow> P s \<Longrightarrow> m s = Some (Inr a, s') \<Longrightarrow> Q a s'"
  by (fastforce simp: hoare_def)

lemma hoare_InlD: "hoare P m Q E \<Longrightarrow> P s \<Longrightarrow> m s = Some (Inl e, s') \<Longrightarrow> E e s'"
  by (fastforce simp: hoare_def)

lemma hoare_conseq:
  assumes "hoare P' m Q' E'" and "\<And>s. P s \<Longrightarrow> P' s"
    and "\<And>a s. Q' a s \<Longrightarrow> Q a s" and "\<And>e s. E' e s \<Longrightarrow> E e s"
  shows "hoare P m Q E"
  using assms by (fastforce intro!: hoareI dest: hoare_InrD hoare_InlD)

lemma hoare_pre: "hoare P' m Q E \<Longrightarrow> (\<And>s. P s \<Longrightarrow> P' s) \<Longrightarrow> hoare P m Q E"
  by (rule hoare_conseq)

lemma hoare_post:
  "hoare P m Q' E \<Longrightarrow> (\<And>a s. Q' a s \<Longrightarrow> Q a s) \<Longrightarrow> hoare P m Q E"
  by (rule hoare_conseq)

lemma hoare_bindM [hoare_intro]:
  assumes "hoare P m Q E" and "\<And>a. hoare (Q a) (f a) T E"
  shows "hoare P (bindM m f) T E"
proof (rule hoareI)
  fix s a s'
  assume "P s" and "bindM m f s = Some (Inr a, s')"
  then show "T a s'"
    using assms by (auto elim!: bindM_InrE dest: hoare_InrD)
next
  fix s e s'
  assume "P s" and "bindM m f s = Some (Inl e, s')"
  then show "E e s'"
    using assms
    by (auto simp: bindM_def split: option.splits prod.splits sum.splits dest: hoare_InrD hoare_InlD)
qed

lemma hoare_returnM [hoare_intro]: "hoare (Q a) (returnM a) Q E"
  by (simp add: hoare_def returnM_def)

lemma hoare_throwM [hoare_intro]: "hoare (E e) (throwM e) Q E"
  by (simp add: hoare_def throwM_def)

lemma hoare_getM [hoare_intro]: "hoare (\<lambda>s. Q (f s) s) (getM f) Q E"
  by (simp add: hoare_def getM_def)

lemma hoare_pure: "(b \<Longrightarrow> hoare P m Q E) \<Longrightarrow> hoare (\<lambda>s. P s \<and> b) m Q E"
  by (auto simp: hoare_def)

lemma hoare_pure': "(b \<Longrightarrow> hoare P m Q E) \<Longrightarrow> hoare (\<lambda>s. b \<and> P s) m Q E"
  by (auto simp: hoare_def)

lemma hoare_modifyM [hoare_intro]: "hoare (\<lambda>s. Q () (f s)) (modifyM f) Q E"
  by (simp add: hoare_def modifyM_def)

lemma hoare_wrapM [hoare_intro]:
  "hoare P m Q (\<lambda>e. E (Wrap fmt args e)) \<Longrightarrow> hoare P (wrapM fmt args m) Q E"
  by (auto simp: hoare_def wrapM_def split: option.splits prod.splits sum.splits)

lemma hoare_tryM [hoare_intro]:
  assumes "hoare P m (\<lambda>a. Q (Inr a)) (\<lambda>e. Q (Inl e))"
  shows "hoare P (tryM m) Q E"
proof (rule hoareI)
  fix s r s'
  assume "P s" and "tryM m s = Some (Inr r, s')"
  then have "m s = Some (r, s')"
    by (auto simp: tryM_def split: option.splits)
  with assms \<open>P s\<close> show "Q r s'"
    by (cases r) (auto dest: hoare_InrD hoare_InlD)
qed (auto simp: tryM_def split: option.splits)

lemma hoare_if [hoare_intro]:
  "(b \<Longrightarrow> hoare P m Q E) \<Longrightarrow> (\<not> b \<Longrightarrow> hoare P n Q E) \<Longrightarrow> hoare P (if b then m else n) Q E"
  by simp

lemma hoare_forM:
  assumes "\<And>x. x \<in> set xs \<Longrightarrow> hoare I (f x) (\<lambda>_. I) E"
  shows "hoare I (forM xs f) (\<lambda>_. I) E"
  using assms
proof (induction xs)
  case Nil
  then show ?case by (simp add: hoare_def returnM_def)
next
  case (Cons x xs)
  then have "hoare I (f x) (\<lambda>_. I) E" and "hoare I (forM xs f) (\<lambda>_. I) E"
    by simp_all
  then show ?case
    by (simp add: hoare_bindM)
qed

lemma hoare_conj:
  "hoare P m Q E \<Longrightarrow> hoare P' m Q' E' \<Longrightarrow>
   hoare (\<lambda>s. P s \<and> P' s) m (\<lambda>a s. Q a s \<and> Q' a s) (\<lambda>e s. E e s \<and> E' e s)"
  by (auto simp: hoare_def split: option.splits sum.splits)

lemma hoare_zoomM:
  assumes "hoare (\<lambda>s. P' s \<and> s = g) m Q' E'"
    and "\<And>a s'. Q' a s' \<Longrightarrow> P' g \<Longrightarrow> Q a (put s' t)"
    and "\<And>e s'. E' e s' \<Longrightarrow> P' g \<Longrightarrow> E e (put s' t)"
    and "get t = g" and "P' g"
  shows "case zoomM get put m t of None \<Rightarrow> True | Some (Inl e, t') \<Rightarrow> E e t' | Some (Inr a, t') \<Rightarrow> Q a t'"
  using assms
  by (auto simp: zoomM_def split: option.splits sum.splits prod.splits dest: hoare_InrD hoare_InlD)

subsection \<open>Relations kept by every step\<close>

lemma stepsI: "(\<And>s r s'. m s = Some (r, s') \<Longrightarrow> R s s') \<Longrightarrow> steps R m"
  by (auto simp: steps_def)

lemma stepsD: "steps R m \<Longrightarrow> m s = Some (r, s') \<Longrightarrow> R s s'"
  by (auto simp: steps_def)

lemma steps_conj: "steps A m \<Longrightarrow> steps B m \<Longrightarrow> steps (\<lambda>s s'. A s s' \<and> B s s') m"
  by (simp add: steps_def)

lemma steps_weaken: "steps R m \<Longrightarrow> (\<And>s s'. R s s' \<Longrightarrow> R' s s') \<Longrightarrow> steps R' m"
  by (auto simp: steps_def)

lemma steps_of_hoare:
  "(\<And>s0. hoare (\<lambda>s. s = s0) m (\<lambda>_. R s0) (\<lambda>_. R s0)) \<Longrightarrow> steps R m"
  by (fastforce simp: steps_def hoare_def split: option.splits sum.splits)

lemma hoare_of_steps:
  "steps (\<lambda>s s'. P s \<longrightarrow> P s') m \<Longrightarrow> hoare P m (\<lambda>_. P) (\<lambda>_. P)"
  by (auto intro!: hoareI dest: stepsD)

text \<open>
  A relation that holds between a state and itself and can be chained is kept by a composed
  program as soon as its parts keep it.  The interface is a locale: the component theories
  interpret it for the relations they need.
\<close>

locale step_relation =
  fixes R :: "'s \<Rightarrow> 's \<Rightarrow> bool"
  assumes R_refl: "R s s"
    and R_trans: "R s t \<Longrightarrow> R t u \<Longrightarrow> R s u"
begin

lemma steps_returnM: "steps R (returnM a)"
  by (auto simp: steps_def returnM_def R_refl)

lemma steps_throwM: "steps R (throwM e)"
  by (auto simp: steps_def throwM_def R_refl)

lemma steps_getM: "steps R (getM f)"
  by (auto simp: steps_def getM_def R_refl)

lemma steps_bindM:
  assumes "steps R m" and "\<And>a. steps R (f a)"
  shows "steps R (bindM m f)"
proof (rule stepsI)
  fix s r s'
  assume "bindM m f s = Some (r, s')"
  then show "R s s'"
    using stepsD [OF assms(1)] stepsD [OF assms(2)]
    by (fastforce simp: bindM_def split: option.splits prod.splits sum.splits intro: R_trans)
qed

lemma steps_modifyM: "(\<And>s. R s (f s)) \<Longrightarrow> steps R (modifyM f)"
  by (auto simp: steps_def modifyM_def)

lemma steps_wrapM: "steps R m \<Longrightarrow> steps R (wrapM fmt args m)"
  by (auto simp: steps_def wrapM_def split: option.splits prod.splits)

lemma steps_tryM: "steps R m \<Longrightarrow> steps R (tryM m)"
  by (auto simp: steps_def tryM_def split: option.splits prod.splits)

lemma steps_if: "(b \<Longrightarrow> steps R m) \<Longrightarrow> (\<not> b \<Longrightarrow> steps R n) \<Longrightarrow> steps R (if b then m else n)"
  by simp

lemma steps_whenM: "(b \<Longrightarrow> steps R m) \<Longrightarrow> steps R (whenM b m)"
  by (simp add: whenM_def steps_returnM)

lemma steps_forM: "(\<And>x. x \<in> set xs \<Longrightarrow> steps R (f x)) \<Longrightarrow> steps R (forM xs f)"
  by (induction xs) (simp_all add: steps_returnM steps_bindM)

lemma steps_foldM: "(\<And>b x. x \<in> set xs \<Longrightarrow> steps R (f b x)) \<Longrightarrow> steps R (foldM f b xs)"
  by (induction xs arbitrary: b) (simp_all add: steps_returnM steps_bindM)

lemma steps_case_sum:
  "(\<And>e. steps R (f e)) \<Longrightarrow> (\<And>a. steps R (g a)) \<Longrightarrow> steps R (case x of Inl e \<Rightarrow> f e | Inr a \<Rightarrow> g a)"
  by (cases x) simp_all

lemma steps_case_prod: "(\<And>a b. steps R (f a b)) \<Longrightarrow> steps R (case x of (a, b) \<Rightarrow> f a b)"
  by (cases x) simp

lemma steps_case_option:
  "steps R n \<Longrightarrow> (\<And>a. steps R (f a)) \<Longrightarrow> steps R (case x of None \<Rightarrow> n | Some a \<Rightarrow> f a)"
  by (cases x) simp_all

lemma steps_case_list:
  "steps R n \<Longrightarrow> (\<And>a as. steps R (f a as)) \<Longrightarrow> steps R (case x of [] \<Rightarrow> n | a # as \<Rightarrow> f a as)"
  by (cases x) simp_all

lemmas steps_compose = steps_returnM steps_throwM steps_getM steps_bindM steps_wrapM steps_tryM
  steps_if steps_whenM steps_forM steps_foldM steps_case_sum steps_case_prod steps_case_option
  steps_case_list

end

text \<open>Every invariant is such a relation: if it held before, it holds after.\<close>

interpretation inv_rel: step_relation "\<lambda>s s'. I s \<longrightarrow> I s'" for I :: "'s \<Rightarrow> bool"
  by unfold_locales auto

text \<open>So is every projection of the state that a program leaves alone.\<close>

interpretation frame_rel: step_relation "\<lambda>s s'. f s' = f s" for f :: "'s \<Rightarrow> 'b"
  by unfold_locales auto

subsection \<open>Programs that return and keep an invariant\<close>

lemma settlesI: "(\<And>s. P s \<Longrightarrow> \<exists>r s'. m s = Some (r, s') \<and> P s') \<Longrightarrow> settles P m"
  by (simp add: settles_def)

lemma settlesD: "settles P m \<Longrightarrow> P s \<Longrightarrow> \<exists>r s'. m s = Some (r, s') \<and> P s'"
  by (simp add: settles_def)

lemma settles_of_steps:
  assumes "\<And>s. m s \<noteq> None" and "steps (\<lambda>s s'. P s \<longrightarrow> P s') m"
  shows "settles P m"
  using assms by (fastforce simp: settles_def steps_def)

lemma settles_steps: "settles P m \<Longrightarrow> steps (\<lambda>s s'. P s \<longrightarrow> P s') m"
  by (fastforce simp: settles_def steps_def)

lemma settles_basic:
  "settles P (returnM a)" "settles P (throwM e)" "settles P (getM f)"
  by (auto simp: settles_def prog_defs)

lemma settles_modifyM: "(\<And>s. P s \<Longrightarrow> P (f s)) \<Longrightarrow> settles P (modifyM f)"
  by (simp add: settles_def modifyM_def)

lemma settles_bindM: "settles P m \<Longrightarrow> (\<And>a. settles P (f a)) \<Longrightarrow> settles P (bindM m f)"
  by (rule settlesI) (fastforce simp: settles_def bindM_def split: sum.split option.split)

lemma settles_tryM: "settles P m \<Longrightarrow> settles P (tryM m)"
  by (fastforce simp: settles_def tryM_def split: option.split)

lemma settles_wrapM: "settles P m \<Longrightarrow> settles P (wrapM fmt args m)"
  by (rule settlesI) (fastforce simp: settles_def wrapM_def split: sum.split option.split)

lemma settles_if: "(b \<Longrightarrow> settles P m) \<Longrightarrow> (\<not> b \<Longrightarrow> settles P n) \<Longrightarrow> settles P (if b then m else n)"
  by simp

lemma settles_case_sum: "(\<And>e. r = Inl e \<Longrightarrow> settles P (f e)) \<Longrightarrow> (\<And>a. r = Inr a \<Longrightarrow> settles P (g a)) \<Longrightarrow>
    settles P (case r of Inl e \<Rightarrow> f e | Inr a \<Rightarrow> g a)"
  by (cases r) auto

lemma settles_case_option: "(r = None \<Longrightarrow> settles P m) \<Longrightarrow> (\<And>a. r = Some a \<Longrightarrow> settles P (f a)) \<Longrightarrow>
    settles P (case r of None \<Rightarrow> m | Some a \<Rightarrow> f a)"
  by (cases r) auto

lemma settles_case_list: "(xs = [] \<Longrightarrow> settles P m) \<Longrightarrow> (\<And>y ys. xs = y # ys \<Longrightarrow> settles P (f y ys)) \<Longrightarrow>
    settles P (case xs of [] \<Rightarrow> m | y # ys \<Rightarrow> f y ys)"
  by (cases xs) auto

lemma settles_case_prod: "(\<And>a b. p = (a, b) \<Longrightarrow> settles P (f a b)) \<Longrightarrow> settles P (case p of (a, b) \<Rightarrow> f a b)"
  by (cases p) auto

lemma settles_forM: "(\<And>x. x \<in> set xs \<Longrightarrow> settles P (f x)) \<Longrightarrow> settles P (forM xs f)"
  by (induction xs) (auto intro!: settles_basic settles_bindM)

lemma settles_foldM: "(\<And>b x. x \<in> set xs \<Longrightarrow> settles P (f b x)) \<Longrightarrow> settles P (foldM f b xs)"
  by (induction xs arbitrary: b) (auto intro!: settles_basic settles_bindM)

lemmas settles_compose = settles_basic settles_bindM settles_tryM settles_wrapM settles_if settles_case_sum
  settles_case_option settles_case_list settles_case_prod settles_forM settles_foldM

section \<open>Loops\<close>

text \<open>
  A \<open>for\<close> loop whose condition depends on what its body finds: the body returns the loop variables of
  the next round (\<open>Inl\<close>) or the result (\<open>Inr\<close>).  A loop that never ends has no result.
\<close>

partial_function (option) untilM ::
  "('x \<Rightarrow> ('s, 'x + 'a) prog) \<Rightarrow> 'x \<Rightarrow> 's \<Rightarrow> ((gerr + 'a) \<times> 's) option" where
  "untilM body x s = bindM (body x) (\<lambda>r t. case r of Inl x' \<Rightarrow> untilM body x' t | Inr a \<Rightarrow> Some (Inr a, t)) s"

text \<open>The value of a function that may not return.\<close>

definition ofOption :: "'a option \<Rightarrow> ('s, 'a) prog" where
  "ofOption r = (\<lambda>s. map_option (\<lambda>a. (Inr a, s)) r)"

lemma untilM_unfold:
  "untilM body x = bindM (body x) (\<lambda>r. case r of Inl x' \<Rightarrow> untilM body x' | Inr a \<Rightarrow> returnM a)"
proof
  fix s
  have k: "(\<lambda>r. case r of Inl x' \<Rightarrow> untilM body x' | Inr a \<Rightarrow> returnM a) =
      (\<lambda>r t. case r of Inl x' \<Rightarrow> untilM body x' t | Inr a \<Rightarrow> Some (Inr a, t))"
    by (auto simp: fun_eq_iff returnM_def split: sum.split)
  show "untilM body x s = bindM (body x) (\<lambda>r. case r of Inl x' \<Rightarrow> untilM body x' | Inr a \<Rightarrow> returnM a) s"
    unfolding k by (rule untilM.simps)
qed

lemma hoare_untilM:
  assumes body: "\<And>x. hoare (I x) (body x) (\<lambda>r. case r of Inl x' \<Rightarrow> I x' | Inr a \<Rightarrow> Q a) E"
  shows "hoare (I x) (untilM body x) Q E"
proof -
  define post where "post = (\<lambda>p. case p of (Inl e, s') \<Rightarrow> E e s' | (Inr a, s') \<Rightarrow> Q a s')"
  have "body' = body \<longrightarrow> I x s \<longrightarrow> post p" if "untilM body' x s = Some p" for body' x s p
  proof (rule untilM.raw_induct [where P = "\<lambda>body' x s p. body' = body \<longrightarrow> I x s \<longrightarrow> post p"
        and xa = "((body', x), s)" and y = p, unfolded prod.case, OF _ that], intro impI)
    fix loop body' x s p
    assume IH: "\<And>body' x s p. loop body' x s = Some p \<Longrightarrow> body' = body \<longrightarrow> I x s \<longrightarrow> post p"
      and eq: "bindM (body' x) (\<lambda>r t. case r of Inl x' \<Rightarrow> loop body' x' t | Inr a \<Rightarrow> Some (Inr a, t)) s = Some p"
      and eqs: "body' = body" and inv: "I x s"
    have "hoare (case r of Inl x' \<Rightarrow> I x' | Inr a \<Rightarrow> Q a)
        (\<lambda>t. case r of Inl x' \<Rightarrow> loop body x' t | Inr a \<Rightarrow> Some (Inr a, t)) Q E" for r
      by (cases r) (auto simp: hoare_def post_def split: prod.splits sum.splits option.splits dest!: IH)
    from hoare_bindM [OF body this] have "hoare (I x) (bindM (body x)
        (\<lambda>r t. case r of Inl x' \<Rightarrow> loop body x' t | Inr a \<Rightarrow> Some (Inr a, t))) Q E" .
    then show "post p"
      using eq inv eqs unfolding post_def
      by (cases p; cases "fst p") (auto dest: hoare_InrD hoare_InlD)
  qed
  then show ?thesis
    by (fastforce intro!: hoareI simp: post_def)
qed

text \<open>A loop ends when a measure of its variables and the state goes down with every round.\<close>

lemma settles_untilM:
  assumes body: "\<And>x. settles P (body x)"
    and less: "\<And>x x' s s'. P s \<Longrightarrow> body x s = Some (Inr (Inl x'), s') \<Longrightarrow> (\<mu> x' s' :: 'n :: wellorder) < \<mu> x s"
  shows "settles P (untilM body x)"
proof -
  have "\<exists>r s'. untilM body x s = Some (r, s') \<and> P s'" if "P s" for s
    using that
  proof (induction "\<mu> x s" arbitrary: x s rule: less_induct)
    case less': less
    obtain r s' where b: "body x s = Some (r, s')" "P s'" using settlesD [OF body less'.prems] by blast
    show ?case
    proof (cases r)
      case (Inr q)
      show ?thesis
      proof (cases q)
        case (Inl x')
        then show ?thesis
          using b Inr less'.hyps [OF less [OF less'.prems]] by (auto simp: untilM.simps [of body x])
      qed (use b Inr in \<open>simp add: untilM.simps [of body x]\<close>)
    qed (use b in \<open>simp add: untilM.simps [of body x]\<close>)
  qed
  then show ?thesis by (simp add: settles_def)
qed

lemma ofOption_Some [simp]: "ofOption (Some a) = returnM a"
  by (simp add: ofOption_def returnM_def fun_eq_iff)

lemma hoare_ofOption [hoare_intro]: "hoare (\<lambda>s. \<forall>a. r = Some a \<longrightarrow> Q a s) (ofOption r) Q E"
  by (auto simp: hoare_def ofOption_def split: option.splits)

context step_relation begin

lemma steps_untilM:
  assumes "\<And>x. steps R (body x)"
  shows "steps R (untilM body x)"
proof (rule steps_of_hoare)
  fix s0
  have "hoare (R s0) (body x) (\<lambda>r. case r of Inl x' \<Rightarrow> R s0 | Inr a \<Rightarrow> R s0) (\<lambda>_. R s0)" for x
    by (rule hoareI) (auto dest: stepsD [OF assms] intro: R_trans split: sum.split)
  then have "hoare (R s0) (untilM body x) (\<lambda>_. R s0) (\<lambda>_. R s0)"
    by (rule hoare_untilM)
  then show "hoare (\<lambda>s. s = s0) (untilM body x) (\<lambda>_. R s0) (\<lambda>_. R s0)"
    by (rule hoare_pre) (simp add: R_refl)
qed

lemma steps_ofOption: "steps R (ofOption r)"
  by (auto simp: steps_def ofOption_def R_refl)

lemmas steps_compose' = steps_compose steps_untilM steps_ofOption

end

section \<open>Choices the Go runtime makes\<close>

text \<open>
  The order in which \<open>range\<close> visits a map is not specified.  It is given to the model as a list of
  positions; a list that is not a permutation of the positions is ignored, so every choice is an
  order in which Go may visit the entries, each exactly once.
\<close>

definition in_order :: "nat list \<Rightarrow> 'a list \<Rightarrow> 'a list" where
  "in_order p xs = (if sort p = [0..<length xs] then map (\<lambda>i. xs ! i) p else xs)"

lemma set_in_order [simp]: "set (in_order p xs) = set xs"
proof (cases "sort p = [0..<length xs]")
  case True
  then have "set p = {0..<length xs}"
    by (metis set_sort set_upt)
  then show ?thesis
    using True by (auto simp: in_order_def in_set_conv_nth)
qed (simp add: in_order_def)

lemma distinct_in_order [simp]: "distinct (in_order p xs) = distinct xs"
proof (cases "sort p = [0..<length xs]")
  case True
  then have "set p = {0..<length xs}" and "distinct p"
    by (metis set_sort set_upt, metis distinct_sort distinct_upt)
  then have "distinct (map (\<lambda>i. xs ! i) p) = inj_on (\<lambda>i. xs ! i) {0..<length xs}"
    by (simp add: distinct_map)
  also have "\<dots> = distinct xs"
    unfolding distinct_conv_nth inj_on_def by (auto; metis)
  finally show ?thesis
    using True by (simp add: in_order_def)
qed (simp add: in_order_def)

lemma length_in_order [simp]: "length (in_order p xs) = length xs"
proof (cases "sort p = [0..<length xs]")
  case True
  then have "length p = length xs"
    by (metis length_sort length_upt minus_nat.diff_0)
  then show ?thesis by (simp add: in_order_def)
qed (simp add: in_order_def)

end
