(* ===== verification/GoStrings.thy ===== *)
theory GoStrings
  imports Prelude "HOL-Library.Char_ord" "HOL-Library.List_Lexorder" "HOL-Library.Sublist"
begin

text \<open>
  The parts of Go's strings, \<open>unicode/utf8\<close>, \<open>strings\<close> and \<open>strconv\<close> that the program uses.  A Go
  string is its bytes, so it is a HOL \<open>string\<close> (a list of 8-bit characters), compared bytewise.
  \<open>range\<close> over a string visits runes: \<open>segs\<close> cuts a string into runes with the bytes each one
  occupies, invalid bytes giving \<open>RuneError\<close> with width one, as the language defines it.
\<close>

section \<open>Runes\<close>

definition byte :: "char \<Rightarrow> nat" where
  "byte c = of_char c"

definition RuneError :: nat where
  "RuneError = 65533"

definition cont_byte :: "nat \<Rightarrow> bool" where
  "cont_byte b \<longleftrightarrow> 128 \<le> b \<and> b \<le> 191"

text \<open>Number of bytes announced by a lead byte, and the range its second byte must be in.\<close>

definition lead_len :: "nat \<Rightarrow> nat" where
  "lead_len b = (if b < 224 then 2 else if b < 240 then 3 else 4)"

definition second_ok :: "nat \<Rightarrow> nat \<Rightarrow> bool" where
  "second_ok b0 b1 \<longleftrightarrow>
     (if b0 = 224 then 160 else if b0 = 240 then 144 else 128) \<le> b1 \<and>
     b1 \<le> (if b0 = 237 then 159 else if b0 = 244 then 143 else 191)"

fun decode_rune :: "string \<Rightarrow> nat \<times> nat" where
  "decode_rune [] = (RuneError, 0)"
| "decode_rune (c # cs) =
    (let b0 = byte c in
     if b0 < 128 then (b0, 1)
     else if b0 < 194 \<or> 244 < b0 \<or> length (c # cs) < lead_len b0 then (RuneError, 1)
     else
       let b1 = byte (cs ! 0) in
       if \<not> second_ok b0 b1 then (RuneError, 1)
       else if lead_len b0 = 2 then (b0 mod 32 * 64 + b1 mod 64, 2)
       else
         let b2 = byte (cs ! 1) in
         if \<not> cont_byte b2 then (RuneError, 1)
         else if lead_len b0 = 3 then (b0 mod 16 * 4096 + b1 mod 64 * 64 + b2 mod 64, 3)
         else
           let b3 = byte (cs ! 2) in
           if \<not> cont_byte b3 then (RuneError, 1)
           else (b0 mod 8 * 262144 + b1 mod 64 * 4096 + b2 mod 64 * 64 + b3 mod 64, 4))"

fun segs :: "string \<Rightarrow> (nat \<times> string) list" where
  "segs [] = []"
| "segs (c # cs) =
    (case decode_rune (c # cs) of (r, n) \<Rightarrow>
      (r, c # take (n - 1) cs) # segs (drop (n - 1) cs))"

definition runes :: "string \<Rightarrow> nat list" where
  "runes s = map fst (segs s)"

definition encode_rune :: "nat \<Rightarrow> string" where
  "encode_rune r = map char_of
     (if r < 128 then [r]
      else if r < 2048 then [192 + r div 64, 128 + r mod 64]
      else if r < 65536 then [224 + r div 4096, 128 + r div 64 mod 64, 128 + r mod 64]
      else [240 + r div 262144, 128 + r div 4096 mod 64, 128 + r div 64 mod 64, 128 + r mod 64])"

lemma byte_less [simp]: "byte c < 256"
  by (simp add: byte_def)

lemma byte_inj [simp]: "byte c = byte d \<longleftrightarrow> c = d"
  by (simp add: byte_def)

lemma decode_ascii: "byte c < 128 \<Longrightarrow> decode_rune (c # cs) = (byte c, 1)"
  by simp

declare decode_rune.simps(2) [simp del]

lemma lead_cases:
  assumes "194 \<le> b" and "b \<le> 244"
  obtains "lead_len b = 2" "b < 224" | "lead_len b = 3" "224 \<le> b" "b < 240" | "lead_len b = 4" "240 \<le> b"
  using assms by (force simp: lead_len_def)

text \<open>
  A byte of 128 or more starts a segment of such bytes only, and stands for a rune of 128 or more.
\<close>

lemma low_bits: "k * m \<le> b \<Longrightarrow> b < k * m + m \<Longrightarrow> b mod m = b - k * (m::nat)"
  by (metis add_diff_inverse_nat mod_less mod_mult_self3 not_less add_less_cancel_left)

lemma rune2_ge: "194 \<le> b0 \<Longrightarrow> b0 < 224 \<Longrightarrow> 128 \<le> b0 mod 32 * 64 + (x::nat)"
  using low_bits [of 6 32 b0] by simp

lemma rune3_ge: "224 \<le> b0 \<Longrightarrow> b0 < 240 \<Longrightarrow> second_ok b0 b1 \<Longrightarrow>
  128 \<le> b0 mod 16 * 4096 + b1 mod 64 * 64 + (x::nat)"
  using low_bits [of 14 16 b0] low_bits [of 2 64 b1]
  by (cases "b0 = 224") (auto simp: second_ok_def)

lemma rune4_ge: "240 \<le> b0 \<Longrightarrow> b0 \<le> 244 \<Longrightarrow> second_ok b0 b1 \<Longrightarrow>
  128 \<le> b0 mod 8 * 262144 + b1 mod 64 * 4096 + (x::nat)"
  using low_bits [of 30 8 b0] low_bits [of 2 64 b1]
  by (cases "b0 = 240") (auto simp: second_ok_def)

definition good_decode :: "string \<Rightarrow> nat \<times> nat \<Rightarrow> bool" where
  "good_decode s p \<longleftrightarrow> 128 \<le> fst p \<and> 1 \<le> snd p \<and> snd p \<le> length s \<and>
     (\<forall>x \<in> set (take (snd p) s). 128 \<le> byte x)"

lemma second_ok_ge: "second_ok b0 b1 \<Longrightarrow> 128 \<le> b1"
  by (auto simp: second_ok_def split: if_splits)

lemma good_decode_error: "128 \<le> byte c \<Longrightarrow> good_decode (c # cs) (RuneError, Suc 0)"
  by (simp add: good_decode_def RuneError_def)

lemma good_decode_2: "128 \<le> byte c \<Longrightarrow> 128 \<le> r \<Longrightarrow> Suc 0 \<le> length cs \<Longrightarrow> 128 \<le> byte (cs ! 0) \<Longrightarrow>
  good_decode (c # cs) (r, 2)"
  by (cases cs) (auto simp: good_decode_def)

lemma good_decode_3: "128 \<le> byte c \<Longrightarrow> 128 \<le> r \<Longrightarrow> 2 \<le> length cs \<Longrightarrow> 128 \<le> byte (cs ! 0) \<Longrightarrow>
  128 \<le> byte (cs ! 1) \<Longrightarrow> good_decode (c # cs) (r, 3)"
  by (cases cs; cases "tl cs") (auto simp: good_decode_def numeral_eq_Suc)

lemma good_decode_4: "128 \<le> byte c \<Longrightarrow> 128 \<le> r \<Longrightarrow> 3 \<le> length cs \<Longrightarrow> 128 \<le> byte (cs ! 0) \<Longrightarrow>
  128 \<le> byte (cs ! 1) \<Longrightarrow> 128 \<le> byte (cs ! 2) \<Longrightarrow> good_decode (c # cs) (r, 4)"
  by (cases cs; cases "tl cs"; cases "tl (tl cs)") (auto simp: good_decode_def numeral_eq_Suc)

lemma decode_nonascii:
  assumes "128 \<le> byte c"
  shows "good_decode (c # cs) (decode_rune (c # cs))"
proof (cases "byte c < 194 \<or> 244 < byte c \<or> length (c # cs) < lead_len (byte c) \<or>
    \<not> second_ok (byte c) (byte (cs ! 0))")
  case True
  then show ?thesis
    using assms by (auto simp: decode_rune.simps(2) good_decode_error Let_def)
next
  case False
  then have b0: "194 \<le> byte c" "byte c \<le> 244" and len: "lead_len (byte c) \<le> Suc (length cs)"
    and ok: "second_ok (byte c) (byte (cs ! 0))" by auto
  note b1 = second_ok_ge [OF ok]
  from b0 show ?thesis
  proof (cases rule: lead_cases)
    case 1
    then show ?thesis
      using assms b0 len ok b1
      by (auto simp: decode_rune.simps(2) Let_def good_decode_error
          intro!: good_decode_2 [simplified] rune2_ge)
  next
    case 2
    then show ?thesis
      using assms b0 len ok b1
      by (auto simp: decode_rune.simps(2) Let_def good_decode_error cont_byte_def
          intro!: good_decode_3 rune3_ge)
  next
    case 3
    then have "3 \<le> length cs" using len by simp
    then show ?thesis
      using 3 assms b0 ok b1
      by (auto simp: decode_rune.simps(2) Let_def good_decode_error cont_byte_def
          intro!: good_decode_4 rune4_ge [unfolded add.assoc] simp: add.assoc)
  qed
qed

lemma decode_width:
  "s \<noteq> [] \<Longrightarrow> 1 \<le> snd (decode_rune s) \<and> snd (decode_rune s) \<le> length s"
  by (cases s; cases "byte (hd s) < 128")
    (auto simp: decode_ascii not_less dest: decode_nonascii simp: good_decode_def)

lemma concat_segs [simp]: "concat (map snd (segs s)) = s"
  by (induction s rule: segs.induct) (auto split: prod.split)

lemma segs_nonempty: "p \<in> set (segs s) \<Longrightarrow> snd p \<noteq> []"
  by (induction s rule: segs.induct) (auto split: prod.splits)

text \<open>Decoding reads no further than the rune it returns.\<close>

lemma decode_take:
  assumes "snd (decode_rune s) \<le> m"
  shows "decode_rune (take m s) = decode_rune s"
proof (cases s)
  case (Cons c cs)
  with assms decode_width [of s] have m: "1 \<le> m" by simp
  then obtain k where k: "m = Suc k" by (cases m) auto
  show ?thesis
    using assms Cons k
    by (auto simp: decode_rune.simps(2) Let_def lead_len_def min_def split: if_splits)
qed simp

lemma segs_drop: "segs (concat (map snd (drop k (segs s)))) = drop k (segs s)"
proof (induction s arbitrary: k rule: segs.induct)
  case (2 c cs)
  obtain r n where d: "decode_rune (c # cs) = (r, n)" by force
  show ?case
  proof (cases k)
    case 0
    then show ?thesis by (simp only: drop_0 concat_segs)
  next
    case (Suc j)
    then show ?thesis using 2 [OF d [symmetric], of j] d by simp
  qed
qed simp

lemma segs_append_take:
  "segs (concat (map snd (take k (segs s)))) = take k (segs s)"
proof (induction s arbitrary: k rule: segs.induct)
  case (2 c cs)
  obtain r n where d: "decode_rune (c # cs) = (r, n)" by force
  with decode_width [of "c # cs"] have n: "1 \<le> n" "n \<le> Suc (length cs)" by simp_all
  show ?case
  proof (cases k)
    case (Suc j)
    let ?rest = "concat (map snd (take j (segs (drop (n - 1) cs))))"
    have pre: "prefix ?rest (drop (n - 1) cs)"
    proof -
      have "drop (n - 1) cs = concat (map snd (take j (segs (drop (n - 1) cs)) @ drop j (segs (drop (n - 1) cs))))"
        by (simp only: append_take_drop_id concat_segs)
      then show ?thesis by (metis concat_append map_append prefixI)
    qed
    then obtain m where m: "?rest = take m (drop (n - 1) cs)"
      by (metis prefix_def append_eq_conv_conj)
    have eq: "c # take (n - 1) cs @ ?rest = take (n + m) (c # cs)"
      using n m by (cases n) (simp_all add: take_add)
    have dec: "decode_rune (c # take (n - 1) cs @ ?rest) = (r, n)"
      unfolding eq using d by (subst decode_take) auto
    have l: "length (take (n - 1) cs) = n - 1" using n by simp
    show ?thesis
      using Suc d dec l 2 [OF d [symmetric], of j] by simp
  qed simp
qed simp

section \<open>strings\<close>

definition IsSpace :: "nat \<Rightarrow> bool" where
  "IsSpace r \<longleftrightarrow> r \<in> {9, 10, 11, 12, 13, 32, 133, 160, 5760, 8232, 8233, 8239, 8287, 12288} \<or>
     (8192 \<le> r \<and> r \<le> 8202)"

definition trim_segs :: "(nat \<Rightarrow> bool) \<Rightarrow> (nat \<times> string) list \<Rightarrow> (nat \<times> string) list" where
  "trim_segs P g = rev (dropWhile (P \<circ> fst) (rev (dropWhile (P \<circ> fst) g)))"

definition TrimFunc :: "(nat \<Rightarrow> bool) \<Rightarrow> string \<Rightarrow> string" where
  "TrimFunc P s = concat (map snd (trim_segs P (segs s)))"

definition TrimSpace :: "string \<Rightarrow> string" where
  "TrimSpace s = TrimFunc IsSpace s"

definition ascii_lower :: "char \<Rightarrow> char" where
  "ascii_lower c = (if 65 \<le> byte c \<and> byte c \<le> 90 then char_of (byte c + 32) else c)"

text \<open>
  \<open>strings.ToLower\<close>: the bytes of an ASCII string one by one, otherwise rune by rune.  The Unicode
  table for runes of 128 and more is the argument \<open>ul\<close> (\<open>unicode.ToLower\<close>).
\<close>

definition ToLower :: "(nat \<Rightarrow> nat) \<Rightarrow> string \<Rightarrow> string" where
  "ToLower ul s =
     (if \<forall>c \<in> set s. byte c < 128 then map ascii_lower s
      else concat (map (\<lambda>r. if r < 128 then [ascii_lower (char_of r)] else encode_rune (ul r)) (runes s)))"

definition HasPrefix :: "string \<Rightarrow> string \<Rightarrow> bool" where
  "HasPrefix s p \<longleftrightarrow> take (length p) s = p"

text \<open>
  \<open>strings.EqualFold\<close> against a word none of whose letters folds to a rune outside ASCII (the only
  word compared so is INBOX): the bytes with the letters lowered.
\<close>

definition EqualFold :: "string \<Rightarrow> string \<Rightarrow> bool" where
  "EqualFold s t \<longleftrightarrow> map ascii_lower s = map ascii_lower t"

fun Join :: "string list \<Rightarrow> string \<Rightarrow> string" where
  "Join [] sep = []"
| "Join [x] sep = x"
| "Join (x # xs) sep = x @ sep @ Join xs sep"

lemma dropWhile_as_drop: "\<exists>k. dropWhile P xs = drop k xs"
  by (metis dropWhile_eq_drop)

lemma trim_segs_infix: "\<exists>j k. trim_segs P g = take j (drop k g)"
proof -
  obtain k where k: "dropWhile (P \<circ> fst) g = drop k g"
    using dropWhile_as_drop by blast
  obtain j where "dropWhile (P \<circ> fst) (rev (drop k g)) = drop j (rev (drop k g))"
    using dropWhile_as_drop by blast
  then have "trim_segs P g = rev (drop j (rev (drop k g)))"
    by (simp only: trim_segs_def k)
  also have "\<dots> = take (length (drop k g) - j) (drop k g)"
    by (simp only: rev_drop [of j] rev_rev_ident length_rev)
  finally have "trim_segs P g = take (length (drop k g) - j) (drop k g)" .
  then show ?thesis by blast
qed

lemma segs_TrimFunc: "segs (TrimFunc P s) = trim_segs P (segs s)"
proof -
  obtain j k where t: "trim_segs P (segs s) = take j (drop k (segs s))"
    using trim_segs_infix by blast
  let ?s' = "concat (map snd (drop k (segs s)))"
  have "take j (drop k (segs s)) = take j (segs ?s')"
    by (simp add: segs_drop)
  then show ?thesis
    unfolding TrimFunc_def t by (simp add: segs_append_take)
qed

lemma trim_segs_idem: "trim_segs P (trim_segs P g) = trim_segs P g"
proof -
  let ?h = "dropWhile (P \<circ> fst) g"
  let ?t = "trim_segs P g"
  have "?t = [] \<or> \<not> (P \<circ> fst) (hd ?t)"
  proof (cases "?t = []")
    case False
    then have "?t = take (length ?t) ?h"
      by (metis trim_segs_def append_eq_conv_conj rev_append rev_rev_ident takeWhile_dropWhile_id)
    then have "hd ?t = hd ?h" and "?h \<noteq> []"
      using False by (metis hd_take length_greater_0_conv, metis take_Nil)
    then show ?thesis using hd_dropWhile [of "P \<circ> fst" g] by metis
  qed simp
  then have 1: "dropWhile (P \<circ> fst) ?t = ?t"
    by (metis dropWhile_eq_self_iff)
  have "rev ?t = dropWhile (P \<circ> fst) (rev ?h)"
    by (simp add: trim_segs_def)
  then have "dropWhile (P \<circ> fst) (rev ?t) = rev ?t"
    by (simp add: dropWhile_idem)
  then show ?thesis
    using 1 by (simp add: trim_segs_def [of P "?t"])
qed

lemma TrimFunc_idem: "TrimFunc P (TrimFunc P s) = TrimFunc P s"
  by (metis TrimFunc_def segs_TrimFunc trim_segs_idem)

lemma TrimSpace_idem [simp]: "TrimSpace (TrimSpace s) = TrimSpace s"
  by (simp add: TrimSpace_def TrimFunc_idem)

lemma HasPrefix_append [simp]: "HasPrefix (p @ s) p"
  by (simp add: HasPrefix_def)

section \<open>strconv\<close>

definition digit_char :: "nat \<Rightarrow> char" where
  "digit_char d = char_of (48 + d)"

fun FormatUint :: "nat \<Rightarrow> string" where
  "FormatUint n = (if n < 10 then [digit_char n] else FormatUint (n div 10) @ [digit_char (n mod 10)])"

declare FormatUint.simps [simp del]

definition FormatInt :: "int \<Rightarrow> string" where
  "FormatInt i = (if i < 0 then CHR ''-'' # FormatUint (nat (- i)) else FormatUint (nat i))"

definition is_digit :: "char \<Rightarrow> bool" where
  "is_digit c \<longleftrightarrow> 48 \<le> byte c \<and> byte c \<le> 57"

text \<open>
  \<open>strconv.ParseUint(s, 10, bits)\<close>: no sign, no underscore, at least one digit, and a value that
  fits; \<open>None\<close> stands for both its errors.
\<close>

definition ParseUint :: "string \<Rightarrow> nat \<Rightarrow> nat option" where
  "ParseUint s bits =
     (if s = [] \<or> \<not> (\<forall>c \<in> set s. is_digit c) then None
      else let n = foldl (\<lambda>a c. a * 10 + (byte c - 48)) 0 s in
        if n < 2 ^ bits then Some n else None)"

lemma byte_digit_char: "d < 10 \<Longrightarrow> byte (digit_char d) = 48 + d"
  by (simp add: byte_def digit_char_def)

lemma is_digit_digit_char: "d < 10 \<Longrightarrow> is_digit (digit_char d)"
  by (simp add: is_digit_def byte_digit_char)

lemma FormatUint_digits: "FormatUint n \<noteq> [] \<and> (\<forall>c \<in> set (FormatUint n). is_digit c)"
proof (induction n rule: FormatUint.induct)
  case (1 n)
  then show ?case
    by (subst (1 2) FormatUint.simps) (auto simp: is_digit_digit_char)
qed

lemma FormatUint_value: "foldl (\<lambda>a c. a * 10 + (byte c - 48)) 0 (FormatUint n) = n"
proof (induction n rule: FormatUint.induct)
  case (1 n)
  then show ?case
    by (subst FormatUint.simps) (auto simp: byte_digit_char)
qed

lemma ParseUint_FormatUint: "n < 2 ^ bits \<Longrightarrow> ParseUint (FormatUint n) bits = Some n"
  using FormatUint_digits [of n] by (simp add: ParseUint_def FormatUint_value)

lemma FormatUint_inj: "FormatUint m = FormatUint n \<longleftrightarrow> m = n"
  by (metis FormatUint_value)

lemma FormatInt_inj: "FormatInt i = FormatInt j \<longleftrightarrow> i = j"
proof
  assume eq: "FormatInt i = FormatInt j"
  have minus: "CHR ''-'' # x \<noteq> FormatUint n" for x n
  proof
    assume "CHR ''-'' # x = FormatUint n"
    then have "is_digit (CHR ''-'')"
      using FormatUint_digits [of n] by (metis list.set_intros(1))
    then show False by (simp add: is_digit_def byte_def)
  qed
  show "i = j"
    using eq minus minus [symmetric]
    by (auto simp: FormatInt_def FormatUint_inj split: if_splits)
qed simp

end
