(* ===== verification/Mail.thy ===== *)
theory Mail
  imports GoStrings
begin

text \<open>
  The data that passes between the IMAP wrapper and the reconciler (\<open>internal/imapx/client.go\<close>), the
  reconciler's options and summary (\<open>internal/reconcile/reconcile.go\<close>), and the calls that reach
  outside the repository: the records \<open>runtime\<close>, \<open>Source\<close> and \<open>Dest\<close>.
\<close>

section \<open>Messages and folders\<close>

text \<open>
  A \<open>time.Time\<close> is its Unix second, the only thing the program reads of it; \<open>IsZero\<close> is Go's zero
  time, 1 January of year 1.
\<close>

type_synonym time = int

definition IsZero :: "time \<Rightarrow> bool" where
  "IsZero t \<longleftrightarrow> t = - 62135596800"

type_synonym flag = string

definition backslash :: char where
  "backslash = CHR 0x5C"

definition FlagSeen :: flag where
  "FlagSeen = backslash # ''Seen''"

definition FlagWildcard :: flag where
  "FlagWildcard = backslash # ''*''"

record MsgMeta =
  m_UID :: u32
  m_MessageID :: string
  m_From :: string
  m_Subject :: string
  m_InternalDate :: time
  m_Size :: int
  m_Flags :: "flag list"

record FullMessage =
  f_UID :: u32
  f_Raw :: string
  f_Flags :: "flag list"
  f_InternalDate :: time

record FolderInfo =
  fi_Name :: string
  fi_Attrs :: "string list"

section \<open>Options and summary\<close>

text \<open>
  \<open>OnProgress\<close> is the callback or \<open>None\<close> for nil; it changes what is outside the reconciler (the
  heartbeat, the log) and returns nothing.
\<close>

record 'w Options =
  UIDBatch :: int
  DestGuard :: bool
  CarrySeen :: bool
  SyncLabels :: bool
  SourceFolder :: string
  LabelExclude :: "string list"
  DestFolder :: string
  ArchiveRouting :: bool
  SourceInbox :: string
  ArchiveFolder :: string
  SentRouting :: bool
  SentSrcFolder :: string
  SentFolder :: string
  LabelPropagate :: bool
  KeywordPrefix :: string
  KeywordReplacement :: string
  OnProgress :: "(string \<Rightarrow> string \<Rightarrow> int \<Rightarrow> 'w \<Rightarrow> 'w) option"

record Summary =
  UIDValidityChanged :: bool
  Candidates :: int
  Copied :: int
  SkippedDup :: int
  MovedToArchive :: int
  MovedToInbox :: int
  MovedToSent :: int
  KeywordsSet :: int
  KeywordsUpdated :: int

definition empty_Summary :: Summary where
  "empty_Summary = \<lparr> UIDValidityChanged = False, Candidates = 0, Copied = 0, SkippedDup = 0,
     MovedToArchive = 0, MovedToInbox = 0, MovedToSent = 0, KeywordsSet = 0, KeywordsUpdated = 0 \<rparr>"

section \<open>Calls that leave the repository\<close>

text \<open>
  Type \<open>'w\<close> is the outside world: the two mail servers and connections, the database file's
  medium, the clock, the signal that cancels the context.  The model never looks inside it.

  \<open>rt_sql w\<close> is asked before each SQL statement, and each begin and commit, takes effect: an error
  means that it fails and changes nothing.  \<open>rt_ctx\<close> is \<open>ctx.Err()\<close>, \<open>rt_now\<close> the clock,
  \<open>rt_perm\<close> the order of the next \<open>range\<close> over a map or of the rows of the next query without
  \<open>ORDER BY\<close>.  \<open>rt_sha256\<close> and \<open>rt_lower\<close> are the digest and the Unicode lower-case table.

  A crash of the process is a world from which on every such call fails: no further change of the
  database or of the servers can happen.
\<close>

record 'w runtime =
  rt_sql :: "'w \<Rightarrow> gerr option \<times> 'w"
  rt_ctx :: "'w \<Rightarrow> gerr option \<times> 'w"
  rt_now :: "'w \<Rightarrow> int \<times> 'w"
  rt_perm :: "'w \<Rightarrow> nat list \<times> 'w"
  rt_sha256 :: "string \<Rightarrow> string"
  rt_lower :: "nat \<Rightarrow> nat"

text \<open>
  The interfaces of package \<open>reconcile\<close>, one field per method.  \<open>FetchFullStream\<close> calls a function
  on every message; here it returns the messages on which the callback was called, in order, with
  the error the call ended with.  \<open>BeginAppend\<close> returns a \<open>PendingAppend\<close>, here the number of the
  pending command with its folder and address, and \<open>WaitAppend\<close> is the \<open>Wait\<close> of such a value.
\<close>

record pendingAppend =
  pa_cmd :: nat
  pa_folder :: string
  pa_addr :: string

record 'w Source =
  src_SelectFolder :: "('w, u32 \<times> u32 \<times> u32) prog"
  src_SelectNamedFolder :: "string \<Rightarrow> ('w, u32 \<times> u32 \<times> u32) prog"
  src_ListFolders :: "('w, FolderInfo list) prog"
  src_SearchAllUIDs :: "('w, u32 list) prog"
  src_FetchMetaRange :: "u32 \<Rightarrow> u32 \<Rightarrow> ('w, MsgMeta list) prog"
  src_FetchFullStream :: "u32 list \<Rightarrow> ('w, FullMessage list \<times> gerr option) prog"

record 'w Dest =
  dst_SelectNamedFolder :: "string \<Rightarrow> ('w, u32 \<times> u32 \<times> u32) prog"
  dst_FetchMetaRange :: "u32 \<Rightarrow> u32 \<Rightarrow> ('w, MsgMeta list) prog"
  dst_SearchMessageIDsIn :: "string \<Rightarrow> string list \<Rightarrow> ('w, string set) prog"
  dst_AppendTo :: "string \<Rightarrow> FullMessage \<Rightarrow> flag list \<Rightarrow> ('w, unit) prog"
  dst_BeginAppend :: "string \<Rightarrow> FullMessage \<Rightarrow> flag list \<Rightarrow> ('w, pendingAppend) prog"
  dst_WaitAppend :: "pendingAppend \<Rightarrow> ('w, unit) prog"
  dst_MoveMessageID :: "string \<Rightarrow> string \<Rightarrow> string \<Rightarrow> ('w, bool) prog"
  dst_MoveUIDs :: "string \<Rightarrow> u32 list \<Rightarrow> string \<Rightarrow> ('w, unit) prog"
  dst_StoreKeywordByMessageID :: "string \<Rightarrow> string \<Rightarrow> bool \<Rightarrow> flag \<Rightarrow> ('w, bool) prog"
  dst_StoreKeywordsUIDs :: "u32 list \<Rightarrow> flag list \<Rightarrow> ('w, unit) prog"
  dst_SupportsArbitraryKeywords :: "'w \<Rightarrow> bool"

end
