(* ===== verification/Key.thy ===== *)
theory Key
  imports Mail
begin

text \<open>
  Dedup keys (\<open>internal/reconcile/key.go\<close>): the trimmed Message-ID, or a digest of date, sender,
  subject and size for a message without one.  The digest function is the argument \<open>sha\<close>.
\<close>

definition synthPrefix :: string where
  "synthPrefix = ''synth-sha256:''"

definition hex_digit :: "nat \<Rightarrow> char" where
  "hex_digit d = (if d < 10 then char_of (48 + d) else char_of (87 + d))"

definition EncodeToString :: "string \<Rightarrow> string" where
  "EncodeToString bs = concat (map (\<lambda>c. [hex_digit (byte c div 16), hex_digit (byte c mod 16)]) bs)"

text \<open>\<open>fmt.Fprintf(h, "%d|%d:%s|%d:%s|%d", ...)\<close>: what is written to the digest.\<close>

definition synth_input :: "MsgMeta \<Rightarrow> string" where
  "synth_input m =
     FormatInt (m_InternalDate m) @ ''|'' @
     FormatInt (int (length (m_From m))) @ '':'' @ m_From m @ ''|'' @
     FormatInt (int (length (m_Subject m))) @ '':'' @ m_Subject m @ ''|'' @
     FormatInt (m_Size m)"

definition DedupKey :: "(string \<Rightarrow> string) \<Rightarrow> MsgMeta \<Rightarrow> string" where
  "DedupKey sha m =
     (let id = TrimSpace (m_MessageID m) in
      if id \<noteq> [] then id else synthPrefix @ EncodeToString (sha (synth_input m)))"

definition IsRealMessageID :: "string \<Rightarrow> bool" where
  "IsRealMessageID key \<longleftrightarrow> \<not> HasPrefix key synthPrefix"

section \<open>The input of the digest determines the fields\<close>

lemma FormatInt_chars: "c \<in> set (FormatInt i) \<Longrightarrow> is_digit c \<or> c = CHR ''-''"
  using FormatUint_digits by (auto simp: FormatInt_def split: if_splits)

lemma FormatInt_no_sep: "CHR ''|'' \<notin> set (FormatInt i)" "CHR '':'' \<notin> set (FormatInt i)"
  by (auto dest!: FormatInt_chars simp: is_digit_def byte_def)

text \<open>A text up to the first separator is determined by the whole.\<close>

lemma split_at_sep:
  assumes "c \<notin> set a" and "c \<notin> set b" and "a @ c # x = b @ c # y"
  shows "a = b \<and> x = y"
  using assms
proof (induction a arbitrary: b)
  case Nil
  then show ?case by (cases b) auto
next
  case (Cons z a)
  then show ?case by (cases b) auto
qed

lemma split_length_prefixed:
  assumes "FormatInt (int (length a)) @ CHR '':'' # a @ x = FormatInt (int (length b)) @ CHR '':'' # b @ y"
  shows "a = b \<and> x = y"
proof -
  have "FormatInt (int (length a)) = FormatInt (int (length b)) \<and> a @ x = b @ y"
    using assms by (intro split_at_sep) (simp_all add: FormatInt_no_sep)
  then have "length a = length b" and "a @ x = b @ y"
    by (simp_all add: FormatInt_inj)
  then show ?thesis by simp
qed

text \<open>So the fields can be read off the text one after the other.\<close>

lemma synth_input_fields:
  assumes "synth_input a = synth_input b"
  shows "m_InternalDate a = m_InternalDate b \<and> m_From a = m_From b \<and>
     m_Subject a = m_Subject b \<and> m_Size a = m_Size b"
proof -
  define tl where "tl m = FormatInt (int (length (m_Subject m))) @ CHR '':'' # m_Subject m @
    CHR ''|'' # FormatInt (m_Size m)" for m :: MsgMeta
  define md where "md m = FormatInt (int (length (m_From m))) @ CHR '':'' # m_From m @
    CHR ''|'' # tl m" for m :: MsgMeta
  have "FormatInt (m_InternalDate a) @ CHR ''|'' # md a = FormatInt (m_InternalDate b) @ CHR ''|'' # md b"
    using assms by (simp add: synth_input_def tl_def md_def)
  then have 1: "FormatInt (m_InternalDate a) = FormatInt (m_InternalDate b) \<and> md a = md b"
    by (intro split_at_sep) (simp_all add: FormatInt_no_sep)
  then have 2: "m_From a = m_From b \<and> CHR ''|'' # tl a = CHR ''|'' # tl b"
    unfolding md_def by (intro split_length_prefixed) simp
  then have 3: "m_Subject a = m_Subject b \<and>
      CHR ''|'' # FormatInt (m_Size a) = CHR ''|'' # FormatInt (m_Size b)"
    unfolding tl_def by (intro split_length_prefixed) simp
  from 1 2 3 show ?thesis by (simp add: FormatInt_inj)
qed

lemma synth_input_cong:
  "m_InternalDate a = m_InternalDate b \<Longrightarrow> m_From a = m_From b \<Longrightarrow>
   m_Subject a = m_Subject b \<Longrightarrow> m_Size a = m_Size b \<Longrightarrow> synth_input a = synth_input b"
  by (simp add: synth_input_def)

text \<open>
  The text hashed for a message without a Message-ID is unambiguous.  Two messages write the
  same bytes exactly when date, From, Subject and size agree, whatever characters From and Subject
  contain; no crafted header can shift content across a field boundary.
\<close>

lemma synth_input_injective:
  "synth_input a = synth_input b \<longleftrightarrow>
     m_InternalDate a = m_InternalDate b \<and> m_From a = m_From b \<and>
     m_Subject a = m_Subject b \<and> m_Size a = m_Size b"
  using synth_input_fields [of a b] synth_input_cong [of a b] by blast

section \<open>Real and synthesized keys\<close>

lemma hex_digit_inj: "d < 16 \<Longrightarrow> e < 16 \<Longrightarrow> hex_digit d = hex_digit e \<longleftrightarrow> d = e"
proof -
  assume "d < 16" "e < 16"
  then have "d < 256" "e < 256" "87 + d < 256" "87 + e < 256" by simp_all
  then have "byte (hex_digit x) = (if x < 10 then 48 + x else 87 + x)" if "x < 16" for x
    using that by (simp add: hex_digit_def byte_def)
  then show ?thesis
    using \<open>d < 16\<close> \<open>e < 16\<close> byte_inj [of "hex_digit d" "hex_digit e"] by (auto split: if_splits)
qed

lemma EncodeToString_inj: "EncodeToString a = EncodeToString b \<longleftrightarrow> a = b"
proof
  show "EncodeToString a = EncodeToString b \<Longrightarrow> a = b"
  proof (induction a arbitrary: b)
    case Nil
    then show ?case by (cases b) (auto simp: EncodeToString_def)
  next
    case (Cons c a)
    then obtain d b' where b: "b = d # b'" by (cases b) (auto simp: EncodeToString_def)
    have lt: "byte x div 16 < 16" for x using byte_less [of x] by linarith
    from Cons.prems b have "byte c div 16 = byte d div 16" "byte c mod 16 = byte d mod 16"
      and "EncodeToString a = EncodeToString b'"
      by (auto simp: EncodeToString_def hex_digit_inj lt)
    then show ?case
      using Cons.IH b by (metis byte_inj div_mult_mod_eq)
  qed
qed simp

lemma DedupKey_real: "TrimSpace (m_MessageID m) \<noteq> [] \<Longrightarrow> DedupKey sha m = TrimSpace (m_MessageID m)"
  by (simp add: DedupKey_def Let_def)

lemma DedupKey_synth: "TrimSpace (m_MessageID m) = [] \<Longrightarrow>
  DedupKey sha m = synthPrefix @ EncodeToString (sha (synth_input m))"
  by (simp add: DedupKey_def)

lemma DedupKey_nonempty [simp]: "DedupKey sha m \<noteq> []"
  by (simp add: DedupKey_def Let_def synthPrefix_def)

text \<open>
  C35: two messages without a Message-ID get the same dedup key only if date, sender, subject and
  size agree, as long as the digest does not collide on the two texts; and such a key is never taken
  for a Message-ID that the destination could be searched for.
\<close>

theorem synthesized_key_identifies:
  assumes "TrimSpace (m_MessageID a) = []" and "TrimSpace (m_MessageID b) = []"
    and no_collision: "sha (synth_input a) = sha (synth_input b) \<Longrightarrow> synth_input a = synth_input b"
  shows "(DedupKey sha a = DedupKey sha b \<longleftrightarrow>
       m_InternalDate a = m_InternalDate b \<and> m_From a = m_From b \<and>
       m_Subject a = m_Subject b \<and> m_Size a = m_Size b) \<and>
     \<not> IsRealMessageID (DedupKey sha a)"
proof -
  have "synth_input a = synth_input b \<longleftrightarrow> DedupKey sha a = DedupKey sha b"
    using assms by (auto simp: DedupKey_synth EncodeToString_inj)
  moreover have "synth_input a = synth_input b \<longleftrightarrow>
      m_InternalDate a = m_InternalDate b \<and> m_From a = m_From b \<and>
      m_Subject a = m_Subject b \<and> m_Size a = m_Size b"
    using synth_input_fields [of a b] synth_input_cong [of a b] by blast
  ultimately show ?thesis
    using assms(1) by (simp add: DedupKey_synth IsRealMessageID_def)
qed

theorem synthesized_key_identifies_witness:
  "let a = \<lparr> m_UID = 1, m_MessageID = '' '', m_From = ''ann'', m_Subject = ''hi'', m_InternalDate = 7,
             m_Size = 3, m_Flags = [] \<rparr>;
       b = a\<lparr> m_From := ''an'', m_Subject := ''n|hi'' \<rparr>
   in DedupKey id a \<noteq> DedupKey id b \<and> \<not> IsRealMessageID (DedupKey id a)"
proof -
  define a where "a = \<lparr> m_UID = 1, m_MessageID = '' '', m_From = ''ann'', m_Subject = ''hi'',
    m_InternalDate = 7, m_Size = 3, m_Flags = [] \<rparr>"
  define b where "b = a\<lparr> m_From := ''an'', m_Subject := ''n|hi'' \<rparr>"
  have t: "TrimSpace '' '' = []"
    by (simp add: TrimSpace_def TrimFunc_def trim_segs_def byte_def IsSpace_def decode_ascii)
  have "TrimSpace (m_MessageID a) = []" "TrimSpace (m_MessageID b) = []"
    by (simp_all add: a_def b_def t)
  from synthesized_key_identifies [OF this, of id]
  have "DedupKey id a \<noteq> DedupKey id b \<and> \<not> IsRealMessageID (DedupKey id a)"
    by (simp add: a_def b_def)
  then show ?thesis by (simp add: Let_def a_def b_def)
qed

end
