(* ===== verification/Labels.thy ===== *)
theory Labels
  imports Mail
begin

text \<open>
  Which source folders are labels, and how a label becomes an IMAP keyword
  (\<open>internal/reconcile/labels.go\<close>), with the two helpers of the keyword backfill
  \<open>missingKeywords\<close> and \<open>flagSig\<close> (\<open>internal/reconcile/membership.go\<close>).  The argument \<open>ul\<close> is the
  Unicode lower-case table that \<open>strings.ToLower\<close> uses.
\<close>

section \<open>Label folders\<close>

definition excludedAttrs :: "string set" where
  "excludedAttrs = (\<lambda>a. backslash # a) `
     {''Noselect'', ''NonExistent'', ''All'', ''Archive'', ''Drafts'', ''Flagged'', ''Junk'',
      ''Sent'', ''Trash'', ''Important''}"

definition labelExcludeSet :: "'w Options \<Rightarrow> string set" where
  "labelExcludeSet o' = set (LabelExclude o')"

definition isLabelFolder :: "FolderInfo \<Rightarrow> string \<Rightarrow> string set \<Rightarrow> bool" where
  "isLabelFolder f sourceFolder exclude =
     (if fi_Name f = sourceFolder \<or> EqualFold (fi_Name f) ''INBOX'' then False
      else if fi_Name f \<in> exclude then False
      else \<not> (\<exists>a \<in> set (fi_Attrs f). a \<in> excludedAttrs))"

section \<open>Keywords\<close>

definition keepRune :: "nat \<Rightarrow> bool" where
  "keepRune r \<longleftrightarrow> r < 128 \<and>
     (97 \<le> r \<and> r \<le> 122 \<or> 65 \<le> r \<and> r \<le> 90 \<or> 48 \<le> r \<and> r \<le> 57 \<or> r = 45 \<or> r = 95)"

text \<open>The loop of \<open>keywordFor\<close>: \<open>lastRepl\<close> says that the last byte written is a replacement.\<close>

fun keywordLoop :: "char \<Rightarrow> bool \<Rightarrow> nat list \<Rightarrow> string" where
  "keywordLoop rc lastRepl [] = []"
| "keywordLoop rc lastRepl (r # rs) =
     (if keepRune r then char_of r # keywordLoop rc False rs
      else if \<not> lastRepl then rc # keywordLoop rc True rs
      else keywordLoop rc lastRepl rs)"

text \<open>
  \<open>strings.Trim(s, string(rc))\<close>.  For an ASCII \<open>rc\<close> the bytes equal to it are cut off; otherwise
  \<open>string(rc)\<close> is the two-byte rune of that number and runes are compared.
\<close>

definition TrimByte :: "char \<Rightarrow> string \<Rightarrow> string" where
  "TrimByte c s = rev (dropWhile (\<lambda>d. d = c) (rev (dropWhile (\<lambda>d. d = c) s)))"

definition TrimRc :: "char \<Rightarrow> string \<Rightarrow> string" where
  "TrimRc rc s = (if byte rc < 128 then TrimByte rc s else TrimFunc (\<lambda>r. r = byte rc) s)"

definition keywordFor :: "(nat \<Rightarrow> nat) \<Rightarrow> string \<Rightarrow> string \<Rightarrow> string" where
  "keywordFor ul label repl =
     (let rc = (case repl of [] \<Rightarrow> CHR ''_'' | c # _ \<Rightarrow> c)
      in ToLower ul (TrimRc rc (keywordLoop rc False (runes label))))"

definition labelKeyword :: "(nat \<Rightarrow> nat) \<Rightarrow> 'w Options \<Rightarrow> string \<Rightarrow> flag" where
  "labelKeyword ul o' label =
     (let slug = keywordFor ul label (KeywordReplacement o')
      in if slug = [] then [] else KeywordPrefix o' @ slug)"

fun labelKeywordsLoop :: "(nat \<Rightarrow> nat) \<Rightarrow> 'w Options \<Rightarrow> flag set \<Rightarrow> string list \<Rightarrow> flag list" where
  "labelKeywordsLoop ul o' seen [] = []"
| "labelKeywordsLoop ul o' seen (l # ls) =
     (let kw = labelKeyword ul o' l in
      if kw = [] \<or> kw \<in> seen then labelKeywordsLoop ul o' seen ls
      else kw # labelKeywordsLoop ul o' (insert kw seen) ls)"

definition labelKeywords :: "(nat \<Rightarrow> nat) \<Rightarrow> 'w Options \<Rightarrow> string list \<Rightarrow> flag list" where
  "labelKeywords ul o' labels = labelKeywordsLoop ul o' {} labels"

definition missingKeywords :: "(nat \<Rightarrow> nat) \<Rightarrow> 'w Options \<Rightarrow> string list \<Rightarrow> flag list \<Rightarrow> flag list" where
  "missingKeywords ul o' labels flags =
     (let present = set (map (ToLower ul) flags)
      in filter (\<lambda>kw. ToLower ul kw \<notin> present) (labelKeywords ul o' labels))"

definition flagSig :: "flag list \<Rightarrow> string" where
  "flagSig flags = Join (sort flags) [CHR 0x00]"

section \<open>Characters of a keyword\<close>

definition isKeywordChar :: "char \<Rightarrow> bool" where
  "isKeywordChar c \<longleftrightarrow> keepRune (byte c)"

definition keyword_rc :: "string \<Rightarrow> char" where
  "keyword_rc repl = (case repl of [] \<Rightarrow> CHR ''_'' | c # _ \<Rightarrow> c)"

lemma keepRune_ascii: "keepRune r \<Longrightarrow> r < 128"
  by (simp add: keepRune_def)

lemma byte_char_of: "r < 256 \<Longrightarrow> byte (char_of r) = r"
  by (simp add: byte_def)

lemma char_of_byte [simp]: "char_of (byte c) = c"
  by (simp add: byte_def)

lemma byte_keepRune: "keepRune r \<Longrightarrow> byte (char_of r) = r"
  using keepRune_ascii [of r] by (simp add: byte_char_of)

lemma keywordLoop_chars: "c \<in> set (keywordLoop rc b rs) \<Longrightarrow> isKeywordChar c \<or> c = rc"
  by (induction rc b rs rule: keywordLoop.induct)
    (auto simp: isKeywordChar_def byte_keepRune split: if_splits)

lemma set_TrimByte: "set (TrimByte c s) \<subseteq> set s"
  unfolding TrimByte_def by (metis set_dropWhileD set_rev subsetI)

lemma TrimByte_ends:
  "TrimByte c s \<noteq> [] \<Longrightarrow> hd (TrimByte c s) \<noteq> c \<and> last (TrimByte c s) \<noteq> c"
proof -
  let ?h = "dropWhile (\<lambda>d. d = c) s"
  let ?t = "TrimByte c s"
  assume ne: "?t \<noteq> []"
  have "?h = ?t @ rev (takeWhile (\<lambda>d. d = c) (rev ?h))"
    unfolding TrimByte_def by (metis rev_append rev_rev_ident takeWhile_dropWhile_id)
  then have "hd ?t = hd ?h" and "?h \<noteq> []"
    using ne by (metis hd_append2, metis append_is_Nil_conv)
  then have "hd ?t \<noteq> c"
    using hd_dropWhile [of "\<lambda>d. d = c" s] by auto
  moreover have "last ?t = hd (dropWhile (\<lambda>d. d = c) (rev ?h))"
    using ne by (simp add: TrimByte_def last_rev)
  then have "last ?t \<noteq> c"
    using ne hd_dropWhile [of "\<lambda>d. d = c" "rev ?h"] by (auto simp: TrimByte_def)
  ultimately show ?thesis by simp
qed

lemma TrimByte_id:
  assumes "s = [] \<or> hd s \<noteq> c \<and> last s \<noteq> c"
  shows "TrimByte c s = s"
proof (cases s)
  case (Cons a xs)
  with assms have 1: "dropWhile (\<lambda>d. d = c) s = s" by simp
  from Cons assms have "dropWhile (\<lambda>d. d = c) (rev s) = rev s"
    by (metis (mono_tags, lifting) dropWhile_eq_self_iff hd_rev list.discI)
  with 1 show ?thesis by (simp add: TrimByte_def)
qed (simp add: TrimByte_def)

lemma keyword_ascii: "isKeywordChar c \<Longrightarrow> byte c < 128"
  by (simp add: isKeywordChar_def keepRune_def)

lemma ascii_lower_keyword:
  "isKeywordChar c \<Longrightarrow> isKeywordChar (ascii_lower c) \<and> \<not> (65 \<le> byte (ascii_lower c) \<and> byte (ascii_lower c) \<le> 90)"
  by (auto simp: isKeywordChar_def keepRune_def ascii_lower_def byte_char_of)

lemma ToLower_keyword: "\<forall>c \<in> set s. isKeywordChar c \<Longrightarrow> ToLower ul s = map ascii_lower s"
  using keyword_ascii by (simp add: ToLower_def)

lemma ascii_lower_idem [simp]: "ascii_lower (ascii_lower c) = ascii_lower c"
  by (auto simp: ascii_lower_def byte_char_of)

text \<open>The slug, when the replacement is one of the characters that the configuration allows.\<close>

lemma keywordFor_valid:
  assumes "isKeywordChar (keyword_rc repl)"
  shows "keywordFor ul label repl =
    map ascii_lower (TrimByte (keyword_rc repl) (keywordLoop (keyword_rc repl) False (runes label)))"
proof -
  let ?rc = "keyword_rc repl"
  let ?t = "TrimByte ?rc (keywordLoop ?rc False (runes label))"
  have "\<forall>c \<in> set ?t. isKeywordChar c"
    using set_TrimByte keywordLoop_chars assms by blast
  then show ?thesis
    using keyword_ascii [OF assms]
    by (simp add: keywordFor_def TrimRc_def ToLower_keyword keyword_rc_def [symmetric] Let_def)
qed

lemma keywordFor_chars:
  assumes "isKeywordChar (keyword_rc repl)"
  shows "\<forall>c \<in> set (keywordFor ul label repl).
    97 \<le> byte c \<and> byte c \<le> 122 \<or> 48 \<le> byte c \<and> byte c \<le> 57 \<or> c = CHR ''-'' \<or> c = CHR ''_''"
proof
  fix c
  assume "c \<in> set (keywordFor ul label repl)"
  then obtain d where d: "c = ascii_lower d" and
      "d \<in> set (TrimByte (keyword_rc repl) (keywordLoop (keyword_rc repl) False (runes label)))"
    by (auto simp: keywordFor_valid [OF assms])
  then have "isKeywordChar d"
    using set_TrimByte keywordLoop_chars assms by blast
  then have "isKeywordChar c" and "\<not> (65 \<le> byte c \<and> byte c \<le> 90)"
    using ascii_lower_keyword d by blast+
  moreover have "byte c = 45 \<longleftrightarrow> c = CHR ''-''" and "byte c = 95 \<longleftrightarrow> c = CHR ''_''"
    using byte_inj [of c "CHR ''-''"] byte_inj [of c "CHR ''_''"] by (simp_all add: byte_def)
  ultimately show "97 \<le> byte c \<and> byte c \<le> 122 \<or> 48 \<le> byte c \<and> byte c \<le> 57 \<or>
      c = CHR ''-'' \<or> c = CHR ''_''"
    by (auto simp: isKeywordChar_def keepRune_def)
qed

text \<open>
  C39: every keyword is a valid IMAP flag.  With a replacement character that the configuration
  accepts, the slug of any label (any bytes, any encoding) consists of lower-case letters, digits,
  minus and underscore only.
\<close>

theorem keywordFor_charset:
  assumes "isKeywordChar (keyword_rc repl)"
  shows "\<forall>c \<in> set (keywordFor ul label repl).
    97 \<le> byte c \<and> byte c \<le> 122 \<or> 48 \<le> byte c \<and> byte c \<le> 57 \<or> c = CHR ''-'' \<or> c = CHR ''_''"
  by (rule keywordFor_chars [OF assms])

theorem keywordFor_charset_witness:
  "isKeywordChar (keyword_rc ''-'') \<and> keywordFor id ''[Work]/Projects'' ''-'' = ''work-projects'' \<and>
   list_all (\<lambda>c. 97 \<le> byte c \<and> byte c \<le> 122 \<or> 48 \<le> byte c \<and> byte c \<le> 57 \<or>
      c = CHR ''-'' \<or> c = CHR ''_'') (keywordFor id ''[Work]/Projects'' ''-'')"
proof -
  have rc: "isKeywordChar (keyword_rc ''-'')" by code_simp
  have "keywordFor id ''[Work]/Projects'' ''-'' = ''work-projects''" by code_simp
  then show ?thesis
    using rc keywordFor_charset [OF rc, of id "''[Work]/Projects''"] unfolding list_all_iff by blast
qed

section \<open>Bytes and runes\<close>

text \<open>
  \<open>range\<close> decodes runes, but the slug does not depend on the decoding: the same loop over the bytes
  writes the same slug, because the bytes of a rune outside ASCII are themselves outside ASCII and
  runs of replaced runes are collapsed.
\<close>

lemma keywordLoop_skip:
  "(\<forall>x \<in> set bs. 128 \<le> byte x) \<Longrightarrow>
   keywordLoop rc True (map byte bs @ rs) = keywordLoop rc True rs"
  by (induction bs) (auto simp: keepRune_def)

lemma keywordLoop_bytes: "keywordLoop rc b (runes s) = keywordLoop rc b (map byte s)"
proof (induction s arbitrary: b rule: segs.induct)
  case 1
  show ?case by (simp add: runes_def)
next
  case (2 c cs)
  obtain r n where d: "decode_rune (c # cs) = (r, n)" by force
  note IH = 2 [OF d [symmetric]]
  show ?case
  proof (cases "byte c < 128")
    case True
    with d have "r = byte c" "n = 1" by (simp_all add: decode_ascii)
    then show ?thesis using IH d by (simp add: runes_def)
  next
    case False
    then have "good_decode (c # cs) (r, n)"
      using decode_nonascii [of c cs] d by simp
    then have r: "128 \<le> r" and n: "1 \<le> n" and bs: "\<forall>x \<in> set (take (n - 1) cs). 128 \<le> byte x"
      by (auto simp: good_decode_def take_Cons' split: if_splits)
    have split: "map byte cs = map byte (take (n - 1) cs) @ map byte (drop (n - 1) cs)"
      by (metis append_take_drop_id map_append)
    have "keywordLoop rc True (map byte cs) = keywordLoop rc True (map byte (drop (n - 1) cs))"
      unfolding split by (rule keywordLoop_skip [OF bs])
    then show ?thesis
      using False r d IH by (auto simp: runes_def keepRune_def)
  qed
qed

section \<open>Keyword lists\<close>

lemma labelKeywordsLoop_set:
  "set (labelKeywordsLoop ul o' seen ls) = labelKeyword ul o' ` set ls - insert [] seen"
  by (induction ul o' seen ls rule: labelKeywordsLoop.induct) (auto simp: Let_def)

lemma labelKeywordsLoop_distinct: "distinct (labelKeywordsLoop ul o' seen ls)"
  by (induction ul o' seen ls rule: labelKeywordsLoop.induct)
    (auto simp: Let_def labelKeywordsLoop_set)

lemma set_labelKeywords: "set (labelKeywords ul o' ls) = labelKeyword ul o' ` set ls - {[]}"
  by (simp add: labelKeywords_def labelKeywordsLoop_set)

lemma distinct_labelKeywords: "distinct (labelKeywords ul o' ls)"
  by (simp add: labelKeywords_def labelKeywordsLoop_distinct)

text \<open>
  C38: the keyword backfill is complete, add-only and idempotent.  The missing keywords are exactly
  the keywords of the labels that no flag equals up to case, each once; once they have been added
  nothing is missing.
\<close>

theorem missingKeywords_complete:
  "set (missingKeywords ul o' labels flags) =
     {kw \<in> labelKeyword ul o' ` set labels. kw \<noteq> [] \<and> ToLower ul kw \<notin> ToLower ul ` set flags} \<and>
   distinct (missingKeywords ul o' labels flags) \<and>
   missingKeywords ul o' labels (flags @ missingKeywords ul o' labels flags) = []"
  by (auto simp: missingKeywords_def set_labelKeywords distinct_labelKeywords Let_def filter_empty_conv)

section \<open>Keyword signatures\<close>

lemma Join_inj:
  assumes "\<forall>x \<in> set xs \<union> set ys. z \<notin> set x \<and> x \<noteq> []"
    and "Join xs [z] = Join ys [z]"
  shows "xs = ys"
  using assms
proof (induction xs "[z]" arbitrary: ys rule: Join.induct)
  case 1
  then show ?case by (cases ys rule: list.exhaust [case_product list.exhaust]; cases "tl ys") auto
next
  case (2 x)
  then obtain y ys' where y: "ys = y # ys'" by (cases ys) auto
  show ?case
  proof (cases ys')
    case Nil
    then show ?thesis using 2 y by simp
  next
    case (Cons y2 ys2)
    then have "z \<in> set x" using 2 y by auto
    then show ?thesis using 2 by auto
  qed
next
  case (3 x x2 xs)
  then obtain y ys' where y: "ys = y # ys'" by (cases ys) auto
  show ?case
  proof (cases ys')
    case Nil
    then have "z \<in> set y" using 3 y by auto
    then show ?thesis using 3 y by auto
  next
    case (Cons y2 ys2)
    then have "x @ z # Join (x2 # xs) [z] = y @ z # Join ys' [z]"
      using 3 y by simp
    moreover have "z \<notin> set x" "z \<notin> set y"
      using 3 y by auto
    ultimately have "x = y" and "Join (x2 # xs) [z] = Join ys' [z]"
      by (auto simp: append_eq_append_conv2 Cons_eq_append_conv append_eq_Cons_conv)
    then show ?thesis using 3 y by auto
  qed
qed

end
