(* ===== verification/Store.thy ===== *)
theory Store
  imports Mail "HOL-Library.AList"
begin

text \<open>
  The persistent sync state (\<open>internal/state/store.go\<close>).  A table is the list of its rows; each SQL
  statement of the source is one function on the database.  A method runs its statements one by one
  and any of them may fail (\<open>rt_sql\<close>); a transaction that does not reach its commit leaves the
  database as it was.
\<close>

section \<open>Rows and tables\<close>

record KeyRecord =
  kr_Key :: string
  kr_UID :: u32
  kr_CopiedAtUnix :: int

record PendingOp =
  po_ID :: int
  po_Kind :: string
  po_MessageID :: string
  po_Folder :: string
  po_Op :: string

record MemberChangeItem =
  mi_Key :: string
  mi_UID :: u32
  mi_Add :: bool
  mi_PendingKind :: string

record member_row =
  mr_folder :: string
  mr_message_id :: string
  mr_uid :: u32

text \<open>\<open>db_seq\<close> is the largest id ever given to a pending row (\<open>AUTOINCREMENT\<close>).\<close>

record db =
  db_copied :: "KeyRecord list"
  db_meta :: "(string \<times> string) list"
  db_members :: "member_row list"
  db_pending :: "PendingOp list"
  db_seq :: int
  db_folders :: "(string \<times> u32 \<times> u32) list"

record 'w st =
  st_db :: db
  st_world :: 'w
  st_sum :: Summary

section \<open>Statements\<close>

definition sql_insertCopied :: "KeyRecord \<Rightarrow> db \<Rightarrow> db" where
  "sql_insertCopied r d =
     (if \<exists>q \<in> set (db_copied d). kr_Key q = kr_Key r then d
      else d\<lparr> db_copied := db_copied d @ [r] \<rparr>)"

definition sql_upsertMember :: "string \<Rightarrow> string \<Rightarrow> u32 \<Rightarrow> db \<Rightarrow> db" where
  "sql_upsertMember folder key uid d =
     (if \<exists>q \<in> set (db_members d). mr_folder q = folder \<and> mr_message_id q = key
      then d\<lparr> db_members := map (\<lambda>q. if mr_folder q = folder \<and> mr_message_id q = key
                                  then q\<lparr> mr_uid := uid \<rparr> else q) (db_members d) \<rparr>
      else d\<lparr> db_members := db_members d @
               [\<lparr> mr_folder = folder, mr_message_id = key, mr_uid = uid \<rparr>] \<rparr>)"

definition sql_deleteMember :: "string \<Rightarrow> string \<Rightarrow> db \<Rightarrow> db" where
  "sql_deleteMember folder key d =
     d\<lparr> db_members := filter (\<lambda>q. \<not> (mr_folder q = folder \<and> mr_message_id q = key)) (db_members d) \<rparr>"

definition sql_insertPending :: "string \<Rightarrow> string \<Rightarrow> string \<Rightarrow> string \<Rightarrow> db \<Rightarrow> db" where
  "sql_insertPending kind key folder op d =
     d\<lparr> db_pending := db_pending d @ [\<lparr> po_ID = db_seq d + 1, po_Kind = kind, po_MessageID = key,
                                        po_Folder = folder, po_Op = op \<rparr>],
        db_seq := db_seq d + 1 \<rparr>"

definition sql_deletePending :: "int \<Rightarrow> db \<Rightarrow> db" where
  "sql_deletePending i d = d\<lparr> db_pending := filter (\<lambda>q. po_ID q \<noteq> i) (db_pending d) \<rparr>"

definition sql_setMeta :: "string \<Rightarrow> string \<Rightarrow> db \<Rightarrow> db" where
  "sql_setMeta key value d = d\<lparr> db_meta := AList.update key value (db_meta d) \<rparr>"

definition sql_setFolder :: "string \<Rightarrow> u32 \<Rightarrow> u32 \<Rightarrow> db \<Rightarrow> db" where
  "sql_setFolder name uidValidity lastUID d =
     d\<lparr> db_folders := AList.update name (uidValidity, lastUID) (db_folders d) \<rparr>"

section \<open>Running statements\<close>

text \<open>One exchange with the database driver that changes nothing itself: prepare, begin, commit.\<close>

definition sql_call :: "'w runtime \<Rightarrow> ('w st, unit) prog" where
  "sql_call rt = (\<lambda>s. case rt_sql rt (st_world s) of
      (Some e, w) \<Rightarrow> Some (Inl e, s\<lparr> st_world := w \<rparr>)
    | (None, w) \<Rightarrow> Some (Inr (), s\<lparr> st_world := w \<rparr>))"

definition sql_exec :: "'w runtime \<Rightarrow> (db \<Rightarrow> db) \<Rightarrow> ('w st, unit) prog" where
  "sql_exec rt f = bindM (sql_call rt) (\<lambda>_. modifyM (\<lambda>s. s\<lparr> st_db := f (st_db s) \<rparr>))"

definition sql_query :: "'w runtime \<Rightarrow> (db \<Rightarrow> 'a) \<Rightarrow> ('w st, 'a) prog" where
  "sql_query rt f = bindM (sql_call rt) (\<lambda>_. getM (\<lambda>s. f (st_db s)))"

text \<open>A choice of order made outside: the next \<open>range\<close> over a map, the next unordered query.\<close>

definition go_order :: "'w runtime \<Rightarrow> 'a list \<Rightarrow> ('w st, 'a list) prog" where
  "go_order rt xs = (\<lambda>s. case rt_perm rt (st_world s) of
      (p, w) \<Rightarrow> Some (Inr (in_order p xs), s\<lparr> st_world := w \<rparr>))"

text \<open>\<open>inTx\<close>: begin, \<open>fn\<close>, commit; an error anywhere rolls the database back.\<close>

definition rollback_to :: "db \<Rightarrow> ('w st, 'a) prog \<Rightarrow> ('w st, 'a) prog" where
  "rollback_to d m = (\<lambda>s. case m s of
      None \<Rightarrow> None
    | Some (Inl e, s') \<Rightarrow> Some (Inl e, s'\<lparr> st_db := d \<rparr>)
    | Some (Inr a, s') \<Rightarrow> Some (Inr a, s'))"

definition inTx :: "'w runtime \<Rightarrow> ('w st, unit) prog \<Rightarrow> ('w st, unit) prog" where
  "inTx rt fn = (\<lambda>s. rollback_to (st_db s)
     (bindM (sql_call rt) (\<lambda>_. bindM fn (\<lambda>_. sql_call rt))) s)"

definition execBatch :: "'w runtime \<Rightarrow> (db \<Rightarrow> db) list \<Rightarrow> ('w st, unit) prog" where
  "execBatch rt stmts =
     (if stmts = [] then returnM ()
      else inTx rt (bindM (sql_call rt) (\<lambda>_. forM stmts (sql_exec rt))))"

section \<open>Methods\<close>

definition MetaGet :: "'w runtime \<Rightarrow> string \<Rightarrow> ('w st, string) prog" where
  "MetaGet rt key = sql_query rt (\<lambda>d. case map_of (db_meta d) key of None \<Rightarrow> [] | Some v \<Rightarrow> v)"

definition MetaSet :: "'w runtime \<Rightarrow> string \<Rightarrow> string \<Rightarrow> ('w st, unit) prog" where
  "MetaSet rt key value = sql_exec rt (sql_setMeta key value)"

definition metaGetUint :: "'w runtime \<Rightarrow> string \<Rightarrow> ('w st, u32) prog" where
  "metaGetUint rt key = bindM (MetaGet rt key) (\<lambda>v.
     if v = [] then returnM 0
     else case ParseUint v 32 of
         None \<Rightarrow> throwM (Wrap ''meta %s: corrupt value %q: %w'' [key, v] (Msg ''strconv.ParseUint'' [v]))
       | Some n \<Rightarrow> returnM (word_of_nat n))"

definition metaSetUint :: "'w runtime \<Rightarrow> string \<Rightarrow> u32 \<Rightarrow> ('w st, unit) prog" where
  "metaSetUint rt key v = MetaSet rt key (FormatUint (unat v))"

definition UIDValidity :: "'w runtime \<Rightarrow> ('w st, u32) prog" where
  "UIDValidity rt = metaGetUint rt ''uidvalidity''"

definition SetUIDValidity :: "'w runtime \<Rightarrow> u32 \<Rightarrow> ('w st, unit) prog" where
  "SetUIDValidity rt v = metaSetUint rt ''uidvalidity'' v"

definition LastUID :: "'w runtime \<Rightarrow> ('w st, u32) prog" where
  "LastUID rt = metaGetUint rt ''last_uid''"

definition SetLastUID :: "'w runtime \<Rightarrow> u32 \<Rightarrow> ('w st, unit) prog" where
  "SetLastUID rt uid = metaSetUint rt ''last_uid'' uid"

definition has_key :: "db \<Rightarrow> string \<Rightarrow> bool" where
  "has_key d key \<longleftrightarrow> (\<exists>q \<in> set (db_copied d). kr_Key q = key)"

definition HasKey :: "'w runtime \<Rightarrow> string \<Rightarrow> ('w st, bool) prog" where
  "HasKey rt key = sql_query rt (\<lambda>d. has_key d key)"

definition RecordKey :: "'w runtime \<Rightarrow> string \<Rightarrow> u32 \<Rightarrow> int \<Rightarrow> ('w st, unit) prog" where
  "RecordKey rt key uid copiedAt =
     sql_exec rt (sql_insertCopied \<lparr> kr_Key = key, kr_UID = uid, kr_CopiedAtUnix = copiedAt \<rparr>)"

definition RecordKeys :: "'w runtime \<Rightarrow> KeyRecord list \<Rightarrow> ('w st, unit) prog" where
  "RecordKeys rt records = execBatch rt (map sql_insertCopied records)"

definition seed_record :: "string \<Rightarrow> KeyRecord" where
  "seed_record key = \<lparr> kr_Key = key, kr_UID = 0, kr_CopiedAtUnix = 0 \<rparr>"

definition SeedBatch :: "'w runtime \<Rightarrow> string list \<Rightarrow> ('w st, unit) prog" where
  "SeedBatch rt keys = execBatch rt (map (\<lambda>k. sql_insertCopied (seed_record k)) keys)"

definition CopiedCount :: "'w runtime \<Rightarrow> ('w st, nat) prog" where
  "CopiedCount rt = sql_query rt (\<lambda>d. length (db_copied d))"

text \<open>The loop body of \<open>MemberChangeBatch\<close>.\<close>

definition op_name :: "bool \<Rightarrow> string" where
  "op_name add = (if add then ''add'' else ''remove'')"

definition memberChangeItem :: "'w runtime \<Rightarrow> string \<Rightarrow> MemberChangeItem \<Rightarrow> ('w st, unit) prog" where
  "memberChangeItem rt folder it =
     bindM (if mi_Add it then sql_exec rt (sql_upsertMember folder (mi_Key it) (mi_UID it))
            else sql_exec rt (sql_deleteMember folder (mi_Key it))) (\<lambda>_.
     if mi_PendingKind it \<noteq> []
     then sql_exec rt (sql_insertPending (mi_PendingKind it) (mi_Key it) folder (op_name (mi_Add it)))
     else returnM ())"

definition MemberChangeBatch :: "'w runtime \<Rightarrow> string \<Rightarrow> MemberChangeItem list \<Rightarrow> ('w st, unit) prog" where
  "MemberChangeBatch rt folder items =
     (if items = [] then returnM ()
      else inTx rt
        (bindM (sql_call rt) (\<lambda>_. bindM (sql_call rt) (\<lambda>_. bindM (sql_call rt) (\<lambda>_.
           forM items (memberChangeItem rt folder))))))"

definition MemberChange :: "'w runtime \<Rightarrow> string \<Rightarrow> string \<Rightarrow> u32 \<Rightarrow> bool \<Rightarrow> string \<Rightarrow> ('w st, unit) prog" where
  "MemberChange rt folder key uid add pendingKind =
     MemberChangeBatch rt folder
       [\<lparr> mi_Key = key, mi_UID = uid, mi_Add = add, mi_PendingKind = pendingKind \<rparr>]"

definition is_member :: "db \<Rightarrow> string \<Rightarrow> string \<Rightarrow> bool" where
  "is_member d folder key \<longleftrightarrow>
     (\<exists>q \<in> set (db_members d). mr_folder q = folder \<and> mr_message_id q = key)"

definition MemberHas :: "'w runtime \<Rightarrow> string \<Rightarrow> string \<Rightarrow> ('w st, bool) prog" where
  "MemberHas rt folder key = sql_query rt (\<lambda>d. is_member d folder key)"

definition member_folders :: "db \<Rightarrow> string \<Rightarrow> string list" where
  "member_folders d key = sort (map mr_folder (filter (\<lambda>q. mr_message_id q = key) (db_members d)))"

definition MemberFolders :: "'w runtime \<Rightarrow> string \<Rightarrow> ('w st, string list) prog" where
  "MemberFolders rt key = sql_query rt (\<lambda>d. member_folders d key)"

text \<open>The Go map that a query fills row by row, a later row overwriting an earlier one.\<close>

definition uid_map :: "member_row list \<Rightarrow> (u32 \<times> string) list" where
  "uid_map rows = fold (\<lambda>q m. AList.update (mr_uid q) (mr_message_id q) m) rows []"

definition uid_rows :: "db \<Rightarrow> string \<Rightarrow> member_row list" where
  "uid_rows d folder = filter (\<lambda>q. mr_folder q = folder \<and> 0 < mr_uid q) (db_members d)"

definition MemberUIDKeys :: "'w runtime \<Rightarrow> string \<Rightarrow> ('w st, (u32 \<times> string) list) prog" where
  "MemberUIDKeys rt folder =
     bindM (sql_query rt (\<lambda>d. uid_rows d folder)) (\<lambda>rows.
     bindM (go_order rt rows) (\<lambda>rows'. returnM (uid_map rows')))"

definition member_keys :: "db \<Rightarrow> string \<Rightarrow> string list" where
  "member_keys d folder = remdups (map mr_message_id (filter (\<lambda>q. mr_folder q = folder) (db_members d)))"

definition MemberKeys :: "'w runtime \<Rightarrow> string \<Rightarrow> ('w st, string list) prog" where
  "MemberKeys rt folder = sql_query rt (\<lambda>d. member_keys d folder)"

definition pending_page :: "db \<Rightarrow> nat \<Rightarrow> PendingOp list" where
  "pending_page d limit = take limit (sort_key po_ID (db_pending d))"

definition PendingOps :: "'w runtime \<Rightarrow> nat \<Rightarrow> ('w st, PendingOp list) prog" where
  "PendingOps rt limit = sql_query rt (\<lambda>d. pending_page d limit)"

definition DeletePending :: "'w runtime \<Rightarrow> int \<Rightarrow> ('w st, unit) prog" where
  "DeletePending rt i = sql_exec rt (sql_deletePending i)"

definition DeletePendingBatch :: "'w runtime \<Rightarrow> int list \<Rightarrow> ('w st, unit) prog" where
  "DeletePendingBatch rt ids = execBatch rt (map sql_deletePending ids)"

definition folder_state :: "db \<Rightarrow> string \<Rightarrow> u32 \<times> u32" where
  "folder_state d name = (case map_of (db_folders d) name of None \<Rightarrow> (0, 0) | Some p \<Rightarrow> p)"

definition FolderState :: "'w runtime \<Rightarrow> string \<Rightarrow> ('w st, u32 \<times> u32) prog" where
  "FolderState rt name = sql_query rt (\<lambda>d. folder_state d name)"

definition SetFolderState :: "'w runtime \<Rightarrow> string \<Rightarrow> u32 \<Rightarrow> u32 \<Rightarrow> ('w st, unit) prog" where
  "SetFolderState rt name uidValidity lastUID = sql_exec rt (sql_setFolder name uidValidity lastUID)"

end
