(* ===== verification/StoreFacts.thy ===== *)
theory StoreFacts
  imports Store
begin

text \<open>
  What the methods of the state store do, for every behaviour of the database driver: each write
  happens as a whole or not at all, each read returns the value of the query.  The two relations
  \<open>writes\<close> and \<open>reads\<close> are the contract on which all proofs about the reconciler rest.
\<close>

section \<open>The contract of a store method\<close>

definition writes :: "('w st, unit) prog \<Rightarrow> (db \<Rightarrow> db) \<Rightarrow> bool" where
  "writes m g \<longleftrightarrow> (\<forall>s. \<exists>r w. m s =
     Some (r, s\<lparr> st_world := w, st_db := (case r of Inl e \<Rightarrow> st_db s | Inr _ \<Rightarrow> g (st_db s)) \<rparr>))"

definition reads :: "('w st, 'a) prog \<Rightarrow> (db \<Rightarrow> 'a) \<Rightarrow> bool" where
  "reads m f \<longleftrightarrow> (\<forall>s. \<exists>r w. m s = Some (r, s\<lparr> st_world := w \<rparr>) \<and>
     (\<forall>a. r = Inr a \<longrightarrow> a = f (st_db s)))"

named_theorems store_facts "which database function each store method computes"

lemma writes_cases:
  assumes "writes m g" and "m s = Some (r, s')"
  obtains (failed) e w where "r = Inl e" and "s' = s\<lparr> st_world := w \<rparr>"
    | (ok) w where "r = Inr ()" and "s' = s\<lparr> st_world := w, st_db := g (st_db s) \<rparr>"
proof -
  from assms obtain w where
    "s' = s\<lparr> st_world := w, st_db := (case r of Inl e \<Rightarrow> st_db s | Inr _ \<Rightarrow> g (st_db s)) \<rparr>"
    unfolding writes_def by (metis option.inject prod.inject)
  then show thesis
    by (cases r) (use failed ok in auto)
qed

lemma reads_cases:
  assumes "reads m f" and "m s = Some (r, s')"
  obtains (failed) e w where "r = Inl e" and "s' = s\<lparr> st_world := w \<rparr>"
    | (ok) w where "r = Inr (f (st_db s))" and "s' = s\<lparr> st_world := w \<rparr>"
proof -
  from assms obtain w where "s' = s\<lparr> st_world := w \<rparr>" and "\<forall>a. r = Inr a \<longrightarrow> a = f (st_db s)"
    unfolding reads_def by (metis option.inject prod.inject)
  then show thesis
    by (cases r) (use failed ok in auto)
qed

lemma writes_total: "writes m g \<Longrightarrow> m s \<noteq> None"
  by (metis writes_def option.distinct(1))

lemma reads_total: "reads m f \<Longrightarrow> m s \<noteq> None"
  by (metis reads_def option.distinct(1))

lemma writes_cong: "writes m g \<Longrightarrow> (\<And>d. g d = h d) \<Longrightarrow> writes m h"
  by (metis ext)

text \<open>A weaker relation for the statements of an open transaction: an error leaves any database.\<close>

definition runs :: "('w st, unit) prog \<Rightarrow> (db \<Rightarrow> db) \<Rightarrow> bool" where
  "runs m g \<longleftrightarrow> (\<forall>s. \<exists>r w d. m s = Some (r, s\<lparr> st_world := w, st_db := d \<rparr>) \<and>
     (\<forall>u. r = Inr u \<longrightarrow> d = g (st_db s)))"

lemma runs_cases:
  assumes "runs m g"
  obtains (failed) e w d where "m s = Some (Inl e, s\<lparr> st_world := w, st_db := d \<rparr>)"
    | (ok) w where "m s = Some (Inr (), s\<lparr> st_world := w, st_db := g (st_db s) \<rparr>)"
proof -
  from assms obtain r w d where m: "m s = Some (r, s\<lparr> st_world := w, st_db := d \<rparr>)"
    and r: "\<forall>u. r = Inr u \<longrightarrow> d = g (st_db s)"
    unfolding runs_def by blast
  show thesis
    by (cases r) (use m r failed ok in auto)
qed

lemma st_update_id [simp]: "s\<lparr> st_db := st_db s \<rparr> = s"
  by simp

lemma runs_of_writes: "writes m g \<Longrightarrow> runs m g"
  unfolding writes_def runs_def
proof
  fix s
  assume "\<forall>s. \<exists>r w. m s =
    Some (r, s\<lparr> st_world := w, st_db := (case r of Inl e \<Rightarrow> st_db s | Inr _ \<Rightarrow> g (st_db s)) \<rparr>)"
  then obtain r w where m: "m s =
    Some (r, s\<lparr> st_world := w, st_db := (case r of Inl e \<Rightarrow> st_db s | Inr _ \<Rightarrow> g (st_db s)) \<rparr>)"
    by blast
  show "\<exists>r w d. m s = Some (r, s\<lparr> st_world := w, st_db := d \<rparr>) \<and> (\<forall>u. r = Inr u \<longrightarrow> d = g (st_db s))"
    by (rule exI [of _ r], rule exI [of _ w], rule exI, rule conjI, rule m) auto
qed

lemma writes_sql_call: "writes (sql_call rt) (\<lambda>d. d)"
  unfolding writes_def
proof
  fix s :: "'a st"
  show "\<exists>r w. sql_call rt s = Some (r, s\<lparr> st_world := w,
      st_db := (case r of Inl e \<Rightarrow> st_db s | Inr _ \<Rightarrow> st_db s) \<rparr>)"
    by (cases "rt_sql rt (st_world s)"; cases "fst (rt_sql rt (st_world s))")
      (auto simp: sql_call_def split: sum.split)
qed

lemma writes_sql_exec: "writes (sql_exec rt f) f"
  unfolding writes_def
proof
  fix s :: "'a st"
  obtain r w where c: "rt_sql rt (st_world s) = (r, w)" by force
  then show "\<exists>r w. sql_exec rt f s = Some (r, s\<lparr> st_world := w,
      st_db := (case r of Inl e \<Rightarrow> st_db s | Inr _ \<Rightarrow> f (st_db s)) \<rparr>)"
    by (cases r) (auto simp: sql_exec_def sql_call_def bindM_def modifyM_def split: sum.split)
qed

lemma reads_sql_query: "reads (sql_query rt f) f"
  unfolding reads_def
proof
  fix s :: "'a st"
  obtain r w where c: "rt_sql rt (st_world s) = (r, w)" by force
  then show "\<exists>r w. sql_query rt f s = Some (r, s\<lparr> st_world := w \<rparr>) \<and> (\<forall>a. r = Inr a \<longrightarrow> a = f (st_db s))"
    by (cases r) (auto simp: sql_query_def sql_call_def bindM_def getM_def)
qed

lemma writes_returnM: "writes (returnM ()) (\<lambda>d. d)"
  unfolding writes_def returnM_def
proof
  fix s :: "'a st"
  show "\<exists>r w. Some (Inr (), s) = Some (r, s\<lparr> st_world := w,
      st_db := (case r of Inl e \<Rightarrow> st_db s | Inr _ \<Rightarrow> st_db s) \<rparr>)"
    by (rule exI [of _ "Inr ()"], rule exI [of _ "st_world s"]) simp
qed

lemma runs_bindM:
  assumes "runs m g" and "runs n h"
  shows "runs (bindM m (\<lambda>_. n)) (\<lambda>d. h (g d))"
  unfolding runs_def
proof
  fix s
  show "\<exists>r w d. bindM m (\<lambda>_. n) s = Some (r, s\<lparr> st_world := w, st_db := d \<rparr>) \<and>
      (\<forall>u. r = Inr u \<longrightarrow> d = h (g (st_db s)))"
    using assms(1)
  proof (cases rule: runs_cases [where s = s])
    case (failed e w d)
    then show ?thesis by (auto intro!: exI)
  next
    case (ok w)
    then show ?thesis
      using assms(2) [unfolded runs_def, rule_format, of "s\<lparr> st_world := w, st_db := g (st_db s) \<rparr>"]
      by auto
  qed
qed

lemma runs_returnM: "runs (returnM ()) (\<lambda>d. d)"
  by (rule runs_of_writes) (rule writes_returnM)

lemma runs_forM:
  assumes "\<And>x. x \<in> set xs \<Longrightarrow> runs (f x) (g x)"
  shows "runs (forM xs f) (fold g xs)"
  using assms
proof (induction xs)
  case Nil
  show ?case by (simp add: runs_returnM id_def)
next
  case (Cons x xs)
  then have "runs (bindM (f x) (\<lambda>_. forM xs f)) (\<lambda>d. fold g xs (g x d))"
    by (intro runs_bindM) simp_all
  then show ?case by (simp add: comp_def)
qed

text \<open>A transaction turns statements that run into one write.\<close>

lemma writes_inTx:
  assumes "runs fn g"
  shows "writes (inTx rt fn) g"
  unfolding writes_def
proof
  fix s
  let ?b = "bindM (sql_call rt) (\<lambda>_. bindM fn (\<lambda>_. sql_call rt))"
  have "runs ?b (\<lambda>d. g d)"
    using runs_bindM [OF runs_of_writes [OF writes_sql_call]
        runs_bindM [OF assms runs_of_writes [OF writes_sql_call]]] by simp
  then obtain r w d where b: "?b s = Some (r, s\<lparr> st_world := w, st_db := d \<rparr>)"
    and d: "\<forall>u. r = Inr u \<longrightarrow> d = g (st_db s)"
    unfolding runs_def by blast
  show "\<exists>r w. inTx rt fn s = Some (r, s\<lparr> st_world := w,
      st_db := (case r of Inl e \<Rightarrow> st_db s | Inr _ \<Rightarrow> g (st_db s)) \<rparr>)"
    by (rule exI [of _ r], rule exI [of _ w], cases r)
      (use b d in \<open>auto simp: inTx_def rollback_to_def\<close>)
qed

lemma writes_execBatch: "writes (execBatch rt stmts) (fold (\<lambda>f. f) stmts)"
proof (cases "stmts = []")
  case True
  then show ?thesis by (simp add: execBatch_def writes_returnM id_def)
next
  case False
  have "runs (forM stmts (sql_exec rt)) (fold (\<lambda>f. f) stmts)"
    by (rule runs_forM) (rule runs_of_writes [OF writes_sql_exec])
  then have "runs (bindM (sql_call rt) (\<lambda>_. forM stmts (sql_exec rt))) (fold (\<lambda>f. f) stmts)"
    using runs_bindM [OF runs_of_writes [OF writes_sql_call]] by fastforce
  then show ?thesis
    using False by (simp add: execBatch_def writes_inTx)
qed

section \<open>The methods\<close>

text \<open>The change one item makes, and the changes of a batch.\<close>

definition apply_change :: "string \<Rightarrow> MemberChangeItem \<Rightarrow> db \<Rightarrow> db" where
  "apply_change folder it d =
     (let d' = (if mi_Add it then sql_upsertMember folder (mi_Key it) (mi_UID it) d
                else sql_deleteMember folder (mi_Key it) d)
      in if mi_PendingKind it \<noteq> []
         then sql_insertPending (mi_PendingKind it) (mi_Key it) folder (op_name (mi_Add it)) d' else d')"

lemma runs_memberChangeItem: "runs (memberChangeItem rt folder it) (apply_change folder it)"
proof -
  have "runs (if mi_Add it then sql_exec rt (sql_upsertMember folder (mi_Key it) (mi_UID it))
      else sql_exec rt (sql_deleteMember folder (mi_Key it)))
    (\<lambda>d. if mi_Add it then sql_upsertMember folder (mi_Key it) (mi_UID it) d
      else sql_deleteMember folder (mi_Key it) d)" (is "runs ?a ?f")
    by (simp add: runs_of_writes [OF writes_sql_exec])
  moreover have "runs (if mi_PendingKind it \<noteq> []
      then sql_exec rt (sql_insertPending (mi_PendingKind it) (mi_Key it) folder (op_name (mi_Add it)))
      else returnM ())
    (\<lambda>d. if mi_PendingKind it \<noteq> []
      then sql_insertPending (mi_PendingKind it) (mi_Key it) folder (op_name (mi_Add it)) d else d)"
    (is "runs ?b ?g")
    by (simp add: runs_of_writes [OF writes_sql_exec] runs_returnM)
  ultimately have "runs (bindM ?a (\<lambda>_. ?b)) (\<lambda>d. ?g (?f d))"
    by (rule runs_bindM)
  moreover have "(\<lambda>d. ?g (?f d)) = apply_change folder it"
    by (auto simp: apply_change_def Let_def fun_eq_iff)
  ultimately show ?thesis
    unfolding memberChangeItem_def by simp
qed

lemma writes_MemberChangeBatch [store_facts]:
  "writes (MemberChangeBatch rt folder items) (fold (apply_change folder) items)"
proof (cases "items = []")
  case True
  then show ?thesis by (simp add: MemberChangeBatch_def writes_returnM id_def)
next
  case False
  note c = runs_of_writes [OF writes_sql_call]
  have "runs (forM items (memberChangeItem rt folder)) (fold (apply_change folder) items)"
    by (rule runs_forM) (rule runs_memberChangeItem)
  from writes_inTx [OF runs_bindM [OF c runs_bindM [OF c runs_bindM [OF c this]]]]
  show ?thesis using False by (simp add: MemberChangeBatch_def)
qed

lemma writes_RecordKeys [store_facts]:
  "writes (RecordKeys rt records) (fold sql_insertCopied records)"
  unfolding RecordKeys_def by (rule writes_cong [OF writes_execBatch]) (simp add: fold_map comp_def)

lemma writes_SeedBatch [store_facts]:
  "writes (SeedBatch rt keys) (fold (\<lambda>k. sql_insertCopied (seed_record k)) keys)"
  unfolding SeedBatch_def by (rule writes_cong [OF writes_execBatch]) (simp add: fold_map comp_def)

lemma writes_DeletePendingBatch [store_facts]:
  "writes (DeletePendingBatch rt ids) (fold sql_deletePending ids)"
  unfolding DeletePendingBatch_def by (rule writes_cong [OF writes_execBatch]) (simp add: fold_map comp_def)

lemma writes_SetFolderState [store_facts]:
  "writes (SetFolderState rt name v u) (sql_setFolder name v u)"
  unfolding SetFolderState_def by (rule writes_sql_exec)

lemma writes_MetaSet [store_facts]: "writes (MetaSet rt key value) (sql_setMeta key value)"
  unfolding MetaSet_def by (rule writes_sql_exec)

lemma reads_MetaGet [store_facts]:
  "reads (MetaGet rt key) (\<lambda>d. case map_of (db_meta d) key of None \<Rightarrow> [] | Some v \<Rightarrow> v)"
  unfolding MetaGet_def by (rule reads_sql_query)

lemma reads_HasKey [store_facts]: "reads (HasKey rt key) (\<lambda>d. has_key d key)"
  unfolding HasKey_def by (rule reads_sql_query)

lemma reads_CopiedCount [store_facts]: "reads (CopiedCount rt) (\<lambda>d. length (db_copied d))"
  unfolding CopiedCount_def by (rule reads_sql_query)

lemma reads_MemberHas [store_facts]: "reads (MemberHas rt folder key) (\<lambda>d. is_member d folder key)"
  unfolding MemberHas_def by (rule reads_sql_query)

lemma reads_MemberFolders [store_facts]: "reads (MemberFolders rt key) (\<lambda>d. member_folders d key)"
  unfolding MemberFolders_def by (rule reads_sql_query)

lemma reads_MemberKeys [store_facts]: "reads (MemberKeys rt folder) (\<lambda>d. member_keys d folder)"
  unfolding MemberKeys_def by (rule reads_sql_query)

lemma reads_PendingOps [store_facts]: "reads (PendingOps rt limit) (\<lambda>d. pending_page d limit)"
  unfolding PendingOps_def by (rule reads_sql_query)

lemma reads_FolderState [store_facts]: "reads (FolderState rt name) (\<lambda>d. folder_state d name)"
  unfolding FolderState_def by (rule reads_sql_query)

text \<open>
  A membership change and the destination operation it causes are recorded together.  For every
  behaviour of the database driver, \<open>MemberChangeBatch\<close> returns; with an error the database is
  exactly what it was, without one every item of the batch has been applied in order, each with its
  pending operation.
\<close>

lemma MemberChangeBatch_all_or_nothing:
  "\<exists>r s'. MemberChangeBatch rt folder items s = Some (r, s') \<and>
     (case r of
        Inl e \<Rightarrow> st_db s' = st_db s
      | Inr _ \<Rightarrow> st_db s' = fold (apply_change folder) items (st_db s)) \<and>
     st_sum s' = st_sum s"
proof -
  obtain r w where "MemberChangeBatch rt folder items s = Some (r, s\<lparr> st_world := w,
      st_db := (case r of Inl e \<Rightarrow> st_db s | Inr _ \<Rightarrow> fold (apply_change folder) items (st_db s)) \<rparr>)"
    using writes_MemberChangeBatch [of rt folder items] unfolding writes_def by blast
  then show ?thesis by (cases r) auto
qed

section \<open>The dedup set\<close>

text \<open>
  The interface the reconciler uses of the table \<open>copied\<close>: a set that only grows.
\<close>

locale dedup_set =
  fixes key_of :: "'r \<Rightarrow> 'k" and add :: "'r \<Rightarrow> 'd \<Rightarrow> 'd" and has :: "'d \<Rightarrow> 'k \<Rightarrow> bool"
  assumes has_add: "has (add r d) k \<longleftrightarrow> k = key_of r \<or> has d k"
    and add_known: "has d (key_of r) \<Longrightarrow> add r d = d"
begin

lemma has_fold: "has (fold add rs d) k \<longleftrightarrow> k \<in> key_of ` set rs \<or> has d k"
  by (induction rs arbitrary: d) (auto simp: has_add)

lemma fold_known: "\<forall>r \<in> set rs. has d (key_of r) \<Longrightarrow> fold add rs d = d"
  by (induction rs arbitrary: d) (auto simp: add_known)

lemma fold_idem: "fold add rs (fold add rs d) = fold add rs d"
  by (rule fold_known) (simp add: has_fold)

lemma has_mono: "has d k \<Longrightarrow> has (fold add rs d) k"
  by (simp add: has_fold)

end

interpretation copied: dedup_set kr_Key sql_insertCopied has_key
  by unfold_locales (auto simp: sql_insertCopied_def has_key_def)

lemma copied_frame [simp]:
  "has_key (sql_upsertMember f k u d) = has_key d"
  "has_key (sql_deleteMember f k d) = has_key d"
  "has_key (sql_insertPending a b c e d) = has_key d"
  "has_key (sql_deletePending i d) = has_key d"
  "has_key (sql_setMeta a v d) = has_key d"
  "has_key (sql_setFolder n uv lu d) = has_key d"
  by (simp_all add: fun_eq_iff has_key_def sql_upsertMember_def sql_deleteMember_def
      sql_insertPending_def sql_deletePending_def sql_setMeta_def sql_setFolder_def)

section \<open>Membership\<close>

text \<open>The interface of the table \<open>members\<close>: which folders a key is in.\<close>

locale membership =
  fixes isin :: "'d \<Rightarrow> 'f \<Rightarrow> 'k \<Rightarrow> bool"
    and ins :: "'f \<Rightarrow> 'k \<Rightarrow> 'u \<Rightarrow> 'd \<Rightarrow> 'd" and del :: "'f \<Rightarrow> 'k \<Rightarrow> 'd \<Rightarrow> 'd"
  assumes isin_ins: "isin (ins f k u d) g j \<longleftrightarrow> (g = f \<and> j = k) \<or> isin d g j"
    and isin_del: "isin (del f k d) g j \<longleftrightarrow> \<not> (g = f \<and> j = k) \<and> isin d g j"
begin

lemma isin_fold_ins:
  "isin (fold (\<lambda>p. ins f (fst p) (snd p)) ps d) g j \<longleftrightarrow> (g = f \<and> j \<in> fst ` set ps) \<or> isin d g j"
  by (induction ps arbitrary: d) (auto simp: isin_ins)

lemma isin_fold_del:
  "isin (fold (del f) ks d) g j \<longleftrightarrow> \<not> (g = f \<and> j \<in> set ks) \<and> isin d g j"
  by (induction ks arbitrary: d) (auto simp: isin_del)

end

definition member_pairs :: "db \<Rightarrow> (string \<times> string) list" where
  "member_pairs d = map (\<lambda>q. (mr_folder q, mr_message_id q)) (db_members d)"

lemma is_member_pairs: "is_member d f k \<longleftrightarrow> (f, k) \<in> set (member_pairs d)"
  by (auto simp: is_member_def member_pairs_def)

lemma member_pairs_upsert:
  "member_pairs (sql_upsertMember f k u d) =
     (if is_member d f k then member_pairs d else member_pairs d @ [(f, k)])"
proof (cases "is_member d f k")
  case True
  have "map (\<lambda>q. (mr_folder q, mr_message_id q))
      (map (\<lambda>q. if mr_folder q = f \<and> mr_message_id q = k then q\<lparr> mr_uid := u \<rparr> else q) rows) =
    map (\<lambda>q. (mr_folder q, mr_message_id q)) rows" for rows :: "member_row list"
    by (induction rows) auto
  then show ?thesis
    using True unfolding is_member_def sql_upsertMember_def member_pairs_def by simp
next
  case False
  then show ?thesis
    unfolding is_member_def sql_upsertMember_def member_pairs_def by auto
qed

interpretation members: membership is_member sql_upsertMember sql_deleteMember
proof unfold_locales
  fix f k u d g j
  show "is_member (sql_upsertMember f k u d) g j \<longleftrightarrow> (g = f \<and> j = k) \<or> is_member d g j"
    by (auto simp: is_member_pairs member_pairs_upsert)
  show "is_member (sql_deleteMember f k d) g j \<longleftrightarrow> \<not> (g = f \<and> j = k) \<and> is_member d g j"
    by (auto simp: is_member_def sql_deleteMember_def)
qed

lemma is_member_frame [simp]:
  "is_member (sql_insertCopied r d) = is_member d"
  "is_member (sql_insertPending a b c e d) = is_member d"
  "is_member (sql_deletePending i d) = is_member d"
  "is_member (sql_setMeta x v d) = is_member d"
  "is_member (sql_setFolder n uv lu d) = is_member d"
  by (simp_all add: fun_eq_iff is_member_def sql_insertCopied_def sql_insertPending_def
      sql_deletePending_def sql_setMeta_def sql_setFolder_def)

lemma member_apply_change:
  "is_member (apply_change folder it d) g k \<longleftrightarrow>
     (if g = folder \<and> k = mi_Key it then mi_Add it else is_member d g k)"
  by (auto simp: apply_change_def Let_def members.isin_ins members.isin_del)

text \<open>
  After a batch that only adds, or only removes, membership of the folder is the old one with these
  keys added or taken away, and no other folder is touched.
\<close>

lemma member_adds:
  "\<forall>it \<in> set items. mi_Add it \<Longrightarrow>
   is_member (fold (apply_change folder) items d) g k \<longleftrightarrow>
     (g = folder \<and> k \<in> mi_Key ` set items) \<or> is_member d g k"
  by (induction items arbitrary: d) (auto simp: member_apply_change)

lemma member_removes:
  "\<forall>it \<in> set items. \<not> mi_Add it \<Longrightarrow>
   is_member (fold (apply_change folder) items d) g k \<longleftrightarrow>
     \<not> (g = folder \<and> k \<in> mi_Key ` set items) \<and> is_member d g k"
  by (induction items arbitrary: d) (auto simp: member_apply_change)

lemma has_key_apply_change [simp]: "has_key (apply_change folder it d) = has_key d"
  by (simp add: apply_change_def Let_def)

lemma has_key_apply_changes [simp]: "has_key (fold (apply_change folder) items d) = has_key d"
  by (induction items arbitrary: d) simp_all

lemma member_folders_iff: "f \<in> set (member_folders d key) \<longleftrightarrow> is_member d f key"
  by (auto simp: member_folders_def is_member_def)

lemma member_keys_iff: "k \<in> set (member_keys d folder) \<longleftrightarrow> is_member d folder k"
  by (auto simp: member_keys_def is_member_def)

lemma distinct_member_keys [simp]: "distinct (member_keys d folder)"
  by (simp add: member_keys_def)

section \<open>Well-formed databases\<close>

text \<open>
  What the declared keys of the tables enforce: primary keys are unique and pending ids increase.
\<close>

definition db_ok :: "db \<Rightarrow> bool" where
  "db_ok d \<longleftrightarrow>
     distinct (map kr_Key (db_copied d)) \<and>
     distinct (member_pairs d) \<and>
     distinct (map fst (db_meta d)) \<and> distinct (map fst (db_folders d)) \<and>
     sorted_wrt (<) (map po_ID (db_pending d)) \<and>
     (\<forall>q \<in> set (db_pending d). po_ID q \<le> db_seq d)"

lemma db_ok_insertCopied: "db_ok d \<Longrightarrow> db_ok (sql_insertCopied r d)"
  by (auto simp: db_ok_def member_pairs_def sql_insertCopied_def)

lemma db_ok_upsertMember: "db_ok d \<Longrightarrow> db_ok (sql_upsertMember f k u d)"
  using member_pairs_upsert [of f k u d]
  by (auto simp: db_ok_def is_member_pairs sql_upsertMember_def)

lemma db_ok_deleteMember: "db_ok d \<Longrightarrow> db_ok (sql_deleteMember f k d)"
  by (auto simp: db_ok_def member_pairs_def sql_deleteMember_def distinct_map_filter)

lemma db_ok_insertPending: "db_ok d \<Longrightarrow> db_ok (sql_insertPending a b c e d)"
  by (fastforce simp: db_ok_def member_pairs_def sql_insertPending_def sorted_wrt_append)

lemma db_ok_deletePending: "db_ok d \<Longrightarrow> db_ok (sql_deletePending i d)"
  by (auto simp: db_ok_def member_pairs_def sql_deletePending_def sorted_wrt_map sorted_wrt_filter)

lemma db_ok_setMeta: "db_ok d \<Longrightarrow> db_ok (sql_setMeta k v d)"
  by (auto simp: db_ok_def member_pairs_def sql_setMeta_def distinct_update)

lemma db_ok_setFolder: "db_ok d \<Longrightarrow> db_ok (sql_setFolder n uv lu d)"
  by (auto simp: db_ok_def member_pairs_def sql_setFolder_def distinct_update)

lemma db_ok_apply_change: "db_ok d \<Longrightarrow> db_ok (apply_change folder it d)"
  by (auto simp: apply_change_def Let_def db_ok_upsertMember db_ok_deleteMember db_ok_insertPending)

lemma db_ok_fold: "(\<And>x d. db_ok d \<Longrightarrow> db_ok (f x d)) \<Longrightarrow> db_ok d \<Longrightarrow> db_ok (fold f xs d)"
  by (induction xs arbitrary: d) simp_all

lemmas db_ok_statements = db_ok_insertCopied db_ok_upsertMember db_ok_deleteMember
  db_ok_insertPending db_ok_deletePending db_ok_setMeta db_ok_setFolder db_ok_apply_change

end
