(* ===== verification/Reconciler.thy ===== *)
theory Reconciler
  imports Key Labels StoreFacts
begin

text \<open>
  The \<open>Reconciler\<close> struct and the pieces every phase of it uses: calls to the source and destination
  interfaces, the context check, progress reports, the windowed scan
  (\<open>internal/reconcile/reconcile.go\<close>) and the routing decisions
  (\<open>internal/reconcile/membership.go\<close>).
\<close>

section \<open>The reconciler and its calls\<close>

record 'w Reconciler =
  r_src :: "'w Source"
  r_dst :: "'w Dest"
  r_opts :: "'w Options"
  r_rt :: "'w runtime"

definition New :: "'w Source \<Rightarrow> 'w Dest \<Rightarrow> 'w Options \<Rightarrow> 'w runtime \<Rightarrow> 'w Reconciler" where
  "New src dst opts rt =
     (let opts' = (if UIDBatch opts < 1 then opts\<lparr> UIDBatch := 2000 \<rparr> else opts)
      in \<lparr> r_src = src, r_dst = dst, r_opts = opts', r_rt = rt \<rparr>)"

text \<open>A call of an interface method: it changes the outside world only.\<close>

definition call :: "('w, 'a) prog \<Rightarrow> ('w st, 'a) prog" where
  "call m = zoomM st_world (\<lambda>w s. s\<lparr> st_world := w \<rparr>) m"

definition ctxErr :: "'w Reconciler \<Rightarrow> ('w st, unit) prog" where
  "ctxErr R = (\<lambda>s. case rt_ctx (r_rt R) (st_world s) of
      (Some e, w) \<Rightarrow> Some (Inl e, s\<lparr> st_world := w \<rparr>)
    | (None, w) \<Rightarrow> Some (Inr (), s\<lparr> st_world := w \<rparr>))"

definition nowUnix :: "'w Reconciler \<Rightarrow> ('w st, int) prog" where
  "nowUnix R = (\<lambda>s. case rt_now (r_rt R) (st_world s) of
      (t, w) \<Rightarrow> Some (Inr t, s\<lparr> st_world := w \<rparr>))"

definition progress :: "'w Reconciler \<Rightarrow> string \<Rightarrow> string \<Rightarrow> int \<Rightarrow> ('w st, unit) prog" where
  "progress R phase item processed =
     (case OnProgress (r_opts R) of
        None \<Rightarrow> returnM ()
      | Some f \<Rightarrow> modifyM (\<lambda>s. s\<lparr> st_world := f phase item processed (st_world s) \<rparr>))"

definition update_sum :: "(Summary \<Rightarrow> Summary) \<Rightarrow> ('w st, unit) prog" where
  "update_sum f = modifyM (\<lambda>s. s\<lparr> st_sum := f (st_sum s) \<rparr>)"

text \<open>
  Variables of a function that a closure changes are a second component of the state while the
  closure runs; the function reads them when it returns.
\<close>

definition withVars :: "'l \<Rightarrow> ('s \<times> 'l, unit) prog \<Rightarrow> ('s, 'l) prog" where
  "withVars l m = (\<lambda>s. case m (s, l) of
      None \<Rightarrow> None
    | Some (Inl e, (s', _)) \<Rightarrow> Some (Inl e, s')
    | Some (Inr _, (s', l')) \<Rightarrow> Some (Inr l', s'))"

definition outer :: "('s, 'a) prog \<Rightarrow> ('s \<times> 'l, 'a) prog" where
  "outer m = zoomM fst (\<lambda>s p. (s, snd p)) m"

section \<open>The windowed scan\<close>

text \<open>
  UIDs are \<open>uint32\<close>, so \<open>start + batch\<close> wraps around.  The loop ends only if a start of at least
  \<open>uidNext\<close> comes up, which is why its result is an option.
\<close>

definition window_stop :: "u32 \<Rightarrow> u32 \<Rightarrow> u32 \<Rightarrow> u32" where
  "window_stop start batch uidNext = min (start + batch - 1) (uidNext - 1)"

definition window_body ::
  "(u32 \<Rightarrow> u32 \<Rightarrow> ('s, MsgMeta list) prog) \<Rightarrow> (u32 \<Rightarrow> MsgMeta list \<Rightarrow> ('s, unit) prog) \<Rightarrow>
   u32 \<Rightarrow> u32 \<Rightarrow> ('s, unit) prog" where
  "window_body fetch fn start stop =
     wrapM ''window %d:%d: %w'' [FormatUint (unat start), FormatUint (unat stop)]
       (bindM (fetch start stop) (fn stop))"

partial_function (option) scanLoop ::
  "('s, unit) prog \<Rightarrow> u32 \<Rightarrow> u32 \<Rightarrow> (u32 \<Rightarrow> u32 \<Rightarrow> ('s, MsgMeta list) prog) \<Rightarrow>
   (u32 \<Rightarrow> MsgMeta list \<Rightarrow> ('s, unit) prog) \<Rightarrow> u32 \<Rightarrow> 's \<Rightarrow> ((gerr + unit) \<times> 's) option" where
  "scanLoop ctx batch uidNext fetch fn start s =
     (if start < uidNext then
        bindM ctx (\<lambda>_.
        bindM (window_body fetch fn start (window_stop start batch uidNext)) (\<lambda>_.
        scanLoop ctx batch uidNext fetch fn (start + batch))) s
      else Some (Inr (), s))"

definition scanWindows ::
  "'w Options \<Rightarrow> ('s, unit) prog \<Rightarrow> u32 \<Rightarrow> u32 \<Rightarrow> (u32 \<Rightarrow> u32 \<Rightarrow> ('s, MsgMeta list) prog) \<Rightarrow>
   (u32 \<Rightarrow> MsgMeta list \<Rightarrow> ('s, unit) prog) \<Rightarrow> ('s, unit) prog" where
  "scanWindows opts ctx first uidNext fetch fn =
     scanLoop ctx (word_of_int (UIDBatch opts)) uidNext fetch fn first"

section \<open>Routing\<close>

text \<open>Pending-op kinds.\<close>

definition pendingMove :: string where
  "pendingMove = ''move''"

definition pendingKeyword :: string where
  "pendingKeyword = ''keyword''"

definition isRoutingFolder :: "'w Reconciler \<Rightarrow> string \<Rightarrow> bool" where
  "isRoutingFolder R folder \<longleftrightarrow>
     folder = SourceInbox (r_opts R) \<or> (SentRouting (r_opts R) \<and> folder = SentSrcFolder (r_opts R))"

definition labelsFor :: "'w Reconciler \<Rightarrow> string \<Rightarrow> ('w st, string list) prog" where
  "labelsFor R key = bindM (MemberFolders (r_rt R) key) (\<lambda>folders.
     returnM (filter (\<lambda>f. \<not> isRoutingFolder R f) folders))"

definition destFolderFor :: "'w Reconciler \<Rightarrow> string \<Rightarrow> ('w st, string) prog" where
  "destFolderFor R key =
     (let o' = r_opts R; rt = r_rt R in
      bindM (if ArchiveRouting o' \<or> SentRouting o' then MemberHas rt (SourceInbox o') key
             else returnM False) (\<lambda>inInbox.
      if inInbox then returnM (DestFolder o')
      else bindM (if SentRouting o' then MemberHas rt (SentSrcFolder o') key
                  else returnM False) (\<lambda>inSent.
      if inSent then returnM (SentFolder o')
      else if ArchiveRouting o' then returnM (ArchiveFolder o')
      else returnM (DestFolder o'))))"

definition destBucketFolders :: "'w Reconciler \<Rightarrow> string list" where
  "destBucketFolders R =
     (let o' = r_opts R in
      [DestFolder o'] @ (if SentRouting o' then [SentFolder o'] else []) @
      (if ArchiveRouting o' then [ArchiveFolder o'] else []))"

definition gatePending :: "'w Reconciler \<Rightarrow> string \<Rightarrow> string \<Rightarrow> ('w st, string) prog" where
  "gatePending R key pendingKind =
     (if pendingKind = [] \<or> \<not> IsRealMessageID key then returnM []
      else bindM (HasKey (r_rt R) key) (\<lambda>copied.
        if \<not> copied then returnM [] else returnM pendingKind))"

definition countMove :: "'w Reconciler \<Rightarrow> string \<Rightarrow> int \<Rightarrow> ('w st, unit) prog" where
  "countMove R desired n = update_sum (\<lambda>sum.
     if desired = ArchiveFolder (r_opts R) then sum\<lparr> MovedToArchive := MovedToArchive sum + n \<rparr>
     else if desired = SentFolder (r_opts R) then sum\<lparr> MovedToSent := MovedToSent sum + n \<rparr>
     else sum\<lparr> MovedToInbox := MovedToInbox sum + n \<rparr>)"

section \<open>Windows without wrap-around\<close>

text \<open>The windows the scan visits, as number pairs, when nothing wraps.\<close>

function windows :: "nat \<Rightarrow> nat \<Rightarrow> nat \<Rightarrow> (nat \<times> nat) list" where
  "windows b start next =
     (if start < next \<and> 0 < b then (start, min (start + b - 1) (next - 1)) # windows b (start + b) next
      else [])"
  by pat_completeness auto
termination by (relation "measure (\<lambda>(b, start, next). next - start)") auto

declare windows.simps [simp del]

lemma windows_from: "w \<in> set (windows b s next) \<Longrightarrow> s \<le> fst w"
proof (induction b s "next" rule: windows.induct)
  case (1 b s "next")
  then show ?case by (auto simp: windows.simps [of b s "next"] split: if_splits)
qed

lemma windows_cover:
  "0 < b \<Longrightarrow> (\<exists>!w. w \<in> set (windows b start next) \<and> fst w \<le> u \<and> u \<le> snd w) \<longleftrightarrow> start \<le> u \<and> u < next"
proof (induction b start "next" rule: windows.induct)
  case (1 b start "next")
  show ?case
  proof (cases "start < next")
    case False
    then have "windows b start next = []" by (simp add: windows.simps [of b start "next"])
    then show ?thesis using False by auto
  next
    case True
    let ?rest = "set (windows b (start + b) next)"
    have later: "start + b \<le> fst w" if "w \<in> ?rest" for w
      using windows_from that by blast
    have IH: "(\<exists>!w. w \<in> ?rest \<and> fst w \<le> u \<and> u \<le> snd w) \<longleftrightarrow> start + b \<le> u \<and> u < next"
      using 1 True by simp
    show ?thesis
    proof (cases "u < start + b")
      case True
      then have "\<not> (w \<in> ?rest \<and> fst w \<le> u \<and> u \<le> snd w)" for w
        using later by fastforce
      then have "(w \<in> set (windows b start next) \<and> fst w \<le> u \<and> u \<le> snd w) \<longleftrightarrow>
          w = (start, min (start + b - 1) (next - 1)) \<and> start \<le> u \<and> u < next" for w
        using \<open>start < next\<close> 1(2) True by (auto simp: windows.simps [of b start "next"])
      then show ?thesis by auto
    next
      case False
      then have "\<not> u \<le> min (start + b - 1) (next - 1)" using 1(2) by auto
      then have "(w \<in> set (windows b start next) \<and> fst w \<le> u \<and> u \<le> snd w) \<longleftrightarrow>
          (w \<in> ?rest \<and> fst w \<le> u \<and> u \<le> snd w)" for w
        using \<open>start < next\<close> 1(2) by (auto simp: windows.simps [of b start "next"])
      then show ?thesis using IH False by simp
    qed
  qed
qed

lemma window_stop_eq:
  assumes "0 < start + batch" and "0 < uidNext"
  shows "window_stop start batch uidNext = word_of_nat (min (unat (start + batch) - 1) (unat uidNext - 1))"
proof -
  have 1: "unat (start + batch - 1) = unat (start + batch) - 1" "unat (uidNext - 1) = unat uidNext - 1"
    using unat_minus_one [of "start + batch"] unat_minus_one [of uidNext] assms by auto
  have "unat (window_stop start batch uidNext) = min (unat (start + batch) - 1) (unat uidNext - 1)"
    unfolding window_stop_def min_def word_le_nat_alt 1 [symmetric] by simp
  then show ?thesis
    by (metis of_nat_unat unsigned_word_eqI ucast_id)
qed

text \<open>
  Without wrap-around the scan is the \<open>for\<close> loop over these windows.
\<close>

lemma scanLoop_windows:
  assumes "0 < batch" and "unat uidNext + unat batch \<le> 2 ^ 32"
  shows "scanLoop ctx batch uidNext fetch fn start =
    forM (windows (unat batch) (unat start) (unat uidNext))
      (\<lambda>w. bindM ctx (\<lambda>_. window_body fetch fn (word_of_nat (fst w)) (word_of_nat (snd w))))"
proof -
  have b: "0 < unat batch" using assms(1) by (simp add: unat_gt_0)
  have "\<forall>start :: u32. n = unat uidNext - unat start \<longrightarrow> (\<forall>s. scanLoop ctx batch uidNext fetch fn start s =
    forM (windows (unat batch) (unat start) (unat uidNext))
      (\<lambda>w. bindM ctx (\<lambda>_. window_body fetch fn (word_of_nat (fst w)) (word_of_nat (snd w)))) s)" for n
  proof (induction n rule: less_induct)
    case (less n)
    show ?case
    proof (intro allI impI)
      fix start :: u32 and s
      assume n: "n = unat uidNext - unat start"
      show "scanLoop ctx batch uidNext fetch fn start s =
        forM (windows (unat batch) (unat start) (unat uidNext))
          (\<lambda>w. bindM ctx (\<lambda>_. window_body fetch fn (word_of_nat (fst w)) (word_of_nat (snd w)))) s"
      proof (cases "start < uidNext")
        case False
        then show ?thesis
          by (simp add: scanLoop.simps windows.simps word_less_nat_alt returnM_def)
      next
        case True
        then have lt: "unat start < unat uidNext" by (simp add: word_less_nat_alt)
        have sum: "unat (start + batch) = unat start + unat batch"
          using lt assms(2) by (intro unat_add_lem [THEN iffD1]) simp
        have pos: "0 < start + batch" using sum b by (simp add: word_less_nat_alt)
        have stop: "window_stop start batch uidNext =
            word_of_nat (min (unat start + unat batch - 1) (unat uidNext - 1))"
          using window_stop_eq [OF pos] lt sum by (simp add: word_less_nat_alt)
        have IH: "scanLoop ctx batch uidNext fetch fn (start + batch) =
          forM (windows (unat batch) (unat start + unat batch) (unat uidNext))
            (\<lambda>w. bindM ctx (\<lambda>_. window_body fetch fn (word_of_nat (fst w)) (word_of_nat (snd w))))"
          using less [of "unat uidNext - unat (start + batch)"] sum lt b n by (auto simp: fun_eq_iff)
        show ?thesis
          using True lt b IH
          by (simp add: scanLoop.simps [of _ _ _ _ _ start] windows.simps [of _ "unat start"]
              bindM_assoc stop)
      qed
    qed
  qed
  then show ?thesis by (auto simp: fun_eq_iff)
qed

end
