(* ===== verification/Membership.thy ===== *)
theory Membership
  imports Reconciler
begin

text \<open>
  The membership scan (\<open>internal/reconcile/membership.go\<close>): for every watched source folder the
  stored members are brought in line with the folder, and each difference that concerns a mirrored
  message is queued as a pending operation in the same transaction.
\<close>

section \<open>Recording differences\<close>

definition add_item :: "string \<Rightarrow> u32 \<Rightarrow> string \<Rightarrow> MemberChangeItem" where
  "add_item key uid kind = \<lparr> mi_Key = key, mi_UID = uid, mi_Add = True, mi_PendingKind = kind \<rparr>"

definition remove_item :: "string \<Rightarrow> string \<Rightarrow> MemberChangeItem" where
  "remove_item key kind = \<lparr> mi_Key = key, mi_UID = 0, mi_Add = False, mi_PendingKind = kind \<rparr>"

definition recordAdditions ::
  "'w Reconciler \<Rightarrow> string \<Rightarrow> MsgMeta list \<Rightarrow> (string \<Rightarrow> string) \<Rightarrow> ('w st, unit) prog" where
  "recordAdditions R folder metas kindFor =
     bindM (foldM (\<lambda>items m.
         let key = DedupKey (rt_sha256 (r_rt R)) m in
         bindM (gatePending R key (kindFor key)) (\<lambda>kind.
         returnM (items @ [add_item key (m_UID m) kind]))) [] metas) (\<lambda>items.
     MemberChangeBatch (r_rt R) folder items)"

definition recordRemovals :: "'w Reconciler \<Rightarrow> string \<Rightarrow> string \<Rightarrow> string list \<Rightarrow> ('w st, unit) prog" where
  "recordRemovals R folder pendingKind keys =
     bindM (foldM (\<lambda>items key.
         bindM (ctxErr R) (\<lambda>_.
         bindM (gatePending R key pendingKind) (\<lambda>kind.
         returnM (items @ [remove_item key kind])))) [] keys) (\<lambda>items.
     MemberChangeBatch (r_rt R) folder items)"

section \<open>Scanning one folder\<close>

text \<open>
  \<open>kindFor\<close> of the rebuild notes every key it is asked about in \<open>seen\<close>: these are the keys of all
  messages of the windows recorded so far, kept here as the variable of \<open>withVars\<close>.
\<close>

definition rebuildWatchedFolder ::
  "'w Reconciler \<Rightarrow> string \<Rightarrow> string \<Rightarrow> string \<Rightarrow> u32 \<Rightarrow> u32 \<Rightarrow> ('w st, unit) prog" where
  "rebuildWatchedFolder R folder pendingKind item uidValidity uidNext =
     (let sha = rt_sha256 (r_rt R) in
      bindM (MemberKeys (r_rt R) folder) (\<lambda>storedKeys.
      let firstScan = (storedKeys = []);
          kindFor = (\<lambda>key. if firstScan \<or> key \<in> set storedKeys then [] else pendingKind) in
      bindM (withVars {}
        (scanWindows (r_opts R) (outer (ctxErr R)) 1 uidNext
          (\<lambda>start stop. outer (call (src_FetchMetaRange (r_src R) start stop)))
          (\<lambda>stop metas.
            bindM (outer (recordAdditions R folder metas kindFor)) (\<lambda>_.
            bindM (modifyM (\<lambda>(s, seen). (s, seen \<union> DedupKey sha ` set metas))) (\<lambda>_.
            outer (progress R ''membership-rebuild'' item (uint stop))))))) (\<lambda>seen.
      bindM (go_order (r_rt R) storedKeys) (\<lambda>keys.
      bindM (recordRemovals R folder pendingKind (filter (\<lambda>key. key \<notin> seen) keys)) (\<lambda>_.
      SetFolderState (r_rt R) folder uidValidity (max uidNext 1 - 1))))))"

definition syncWatchedFolder :: "'w Reconciler \<Rightarrow> string \<Rightarrow> string \<Rightarrow> string \<Rightarrow> ('w st, unit) prog" where
  "syncWatchedFolder R folder pendingKind item =
     bindM (call (src_SelectNamedFolder (r_src R) folder)) (\<lambda>(uidValidity, uidNext, _).
     bindM (FolderState (r_rt R) folder) (\<lambda>(storedValidity, lastUID).
     if storedValidity \<noteq> uidValidity
     then rebuildWatchedFolder R folder pendingKind item uidValidity uidNext
     else
       bindM (call (src_SearchAllUIDs (r_src R))) (\<lambda>currentUIDs.
       bindM (MemberUIDKeys (r_rt R) folder) (\<lambda>stored.
       bindM (go_order (r_rt R) stored) (\<lambda>entries.
       bindM (recordRemovals R folder pendingKind
                (map snd (filter (\<lambda>p. fst p \<notin> set currentUIDs) entries))) (\<lambda>_.
       scanWindows (r_opts R) (ctxErr R) (lastUID + 1) uidNext
         (\<lambda>start stop. call (src_FetchMetaRange (r_src R) start stop))
         (\<lambda>stop metas.
           bindM (recordAdditions R folder metas (\<lambda>_. pendingKind)) (\<lambda>_.
           bindM (SetFolderState (r_rt R) folder uidValidity stop) (\<lambda>_.
           progress R ''membership'' item (uint stop)))))))))) "

section \<open>All watched folders\<close>

text \<open>The list of watched folders with the kind of operation each queues.\<close>

definition watchList :: "'w Reconciler \<Rightarrow> FolderInfo list \<Rightarrow> (string \<times> string) list" where
  "watchList R folders =
     (let o' = r_opts R; exclude = labelExcludeSet o';
          kind = (if LabelPropagate o' then pendingKeyword else []) in
      (if SyncLabels o'
       then map (\<lambda>f. (fi_Name f, kind))
              (filter (\<lambda>f. \<not> (isRoutingFolder R (fi_Name f) \<or>
                               \<not> isLabelFolder f (SourceFolder o') exclude)) folders)
       else []) @
      (if ArchiveRouting o' \<or> SentRouting o' then [(SourceInbox o', pendingMove)] else []) @
      (if SentRouting o' then [(SentSrcFolder o', pendingMove)] else []))"

definition syncMembership :: "'w Reconciler \<Rightarrow> ('w st, unit) prog" where
  "syncMembership R =
     bindM (if SyncLabels (r_opts R) then call (src_ListFolders (r_src R)) else returnM []) (\<lambda>folders.
     let ws = watchList R folders in
     forM (zip [0..<length ws] ws) (\<lambda>(i, name, kind).
       wrapM ''folder %q: %w'' [name]
         (syncWatchedFolder R name kind
           (name @ '' '' @ FormatUint (i + 1) @ ''/'' @ FormatUint (length ws)))))"

end
