(* ===== verification/Propagate.thy ===== *)
theory Propagate
  imports Reconciler
begin

text \<open>
  Draining the queue of destination operations and the placement and keyword backfill
  (\<open>internal/reconcile/membership.go\<close>).
\<close>

section \<open>The pending queue\<close>

text \<open>The loops over the destination folders of \<open>applyPending\<close>, left as soon as one has the message.\<close>

fun moveFrom :: "'w Reconciler \<Rightarrow> string \<Rightarrow> string \<Rightarrow> string list \<Rightarrow> ('w st, unit) prog" where
  "moveFrom R desired key [] = returnM ()"
| "moveFrom R desired key (folder # folders) =
     (if folder = desired then moveFrom R desired key folders
      else bindM (call (dst_MoveMessageID (r_dst R) folder desired key)) (\<lambda>moved.
        if moved then countMove R desired 1 else moveFrom R desired key folders))"

fun storeKeywordIn :: "'w Reconciler \<Rightarrow> string \<Rightarrow> bool \<Rightarrow> flag \<Rightarrow> string list \<Rightarrow> ('w st, unit) prog" where
  "storeKeywordIn R key add kw [] = returnM ()"
| "storeKeywordIn R key add kw (folder # folders) =
     bindM (call (dst_StoreKeywordByMessageID (r_dst R) folder key add kw)) (\<lambda>found.
       if found then update_sum (\<lambda>sum. sum\<lparr> KeywordsUpdated := KeywordsUpdated sum + 1 \<rparr>)
       else storeKeywordIn R key add kw folders)"

definition applyPending :: "'w Reconciler \<Rightarrow> PendingOp \<Rightarrow> ('w st, unit) prog" where
  "applyPending R op =
     (let o' = r_opts R in
      if po_Kind op = pendingMove then
        (if \<not> ArchiveRouting o' \<and> \<not> SentRouting o' then returnM ()
         else bindM (destFolderFor R (po_MessageID op)) (\<lambda>desired.
           moveFrom R desired (po_MessageID op) (destBucketFolders R)))
      else if po_Kind op = pendingKeyword then
        (if \<not> LabelPropagate o' then returnM ()
         else
           let kw = labelKeyword (rt_lower (r_rt R)) o' (po_Folder op) in
           if kw = [] then returnM ()
           else storeKeywordIn R (po_MessageID op) (po_Op op = ''add'') kw (destBucketFolders R))
      else returnM ())"

text \<open>
  One page of the queue: the ids of the operations done so far are deleted in one batch, also when an
  operation fails or the context is cancelled; the error of that delete is ignored.
\<close>

fun applyPage :: "'w Reconciler \<Rightarrow> PendingOp list \<Rightarrow> int list \<Rightarrow> ('w st, int list) prog" where
  "applyPage R [] ids = returnM ids"
| "applyPage R (op # ops) ids =
     bindM (tryM (ctxErr R)) (\<lambda>c.
     case c of
       Inl e \<Rightarrow> bindM (tryM (DeletePendingBatch (r_rt R) ids)) (\<lambda>_. throwM e)
     | Inr _ \<Rightarrow>
         bindM (tryM (applyPending R op)) (\<lambda>r.
         case r of
           Inl e \<Rightarrow> bindM (tryM (DeletePendingBatch (r_rt R) ids)) (\<lambda>_.
             throwM (Wrap ''pending op %d (%s %s %q): %w''
               [FormatInt (po_ID op), po_Kind op, po_Op op, po_Folder op] e))
         | Inr _ \<Rightarrow> applyPage R ops (ids @ [po_ID op])))"

definition propagate :: "'w Reconciler \<Rightarrow> ('w st, unit) prog" where
  "propagate R = untilM (\<lambda>_.
     bindM (PendingOps (r_rt R) 200) (\<lambda>ops.
     if ops = [] then returnM (Inr ())
     else bindM (bindM (applyPage R ops []) (DeletePendingBatch (r_rt R))) (\<lambda>_. returnM (Inl ())))) ()"

section \<open>Backfill\<close>

definition format_bool :: "bool \<Rightarrow> string" where
  "format_bool b = (if b then ''true'' else ''false'')"

definition backfillFingerprint :: "'w Reconciler \<Rightarrow> string" where
  "backfillFingerprint R =
     (let o' = r_opts R in
      Join [''routing='' @ format_bool (ArchiveRouting o'),
            ''inbox='' @ SourceInbox o',
            ''dest='' @ DestFolder o',
            ''archive='' @ ArchiveFolder o',
            ''sent='' @ format_bool (SentRouting o'),
            ''sentsrc='' @ SentSrcFolder o',
            ''sentdst='' @ SentFolder o',
            ''labels='' @ format_bool (SyncLabels o'),
            ''kwprefix='' @ KeywordPrefix o',
            ''kwrepl='' @ KeywordReplacement o'] '';'')"

text \<open>\<open>slices.Chunk\<close>.\<close>

function chunks :: "nat \<Rightarrow> 'a list \<Rightarrow> 'a list list" where
  "chunks n xs = (if xs = [] \<or> n = 0 then [] else take n xs # chunks n (drop n xs))"
  by pat_completeness auto
termination by (relation "measure (\<lambda>(n, xs). length xs)") auto

declare chunks.simps [simp del]

definition moveChunk :: nat where
  "moveChunk = 500"

text \<open>The three maps of \<open>backfillDestFolder\<close>, and \<open>m[k] = append(m[k], v)\<close>.\<close>

record backfill_vars =
  wrongByDest :: "(string \<times> u32 list) list"
  kwGroups :: "(string \<times> u32 list) list"
  kwFlags :: "(string \<times> flag list) list"

definition append_at :: "'k \<Rightarrow> 'v \<Rightarrow> ('k \<times> 'v list) list \<Rightarrow> ('k \<times> 'v list) list" where
  "append_at k v m = AList.update k ((case map_of m k of None \<Rightarrow> [] | Some vs \<Rightarrow> vs) @ [v]) m"

definition backfillMessage ::
  "'w Reconciler \<Rightarrow> string \<Rightarrow> MsgMeta \<Rightarrow> ('w st \<times> backfill_vars, unit) prog" where
  "backfillMessage R folder m =
     (let o' = r_opts R; key = DedupKey (rt_sha256 (r_rt R)) m in
      bindM (if ArchiveRouting o' \<or> SentRouting o'
             then bindM (outer (destFolderFor R key)) (\<lambda>want.
               if want \<noteq> folder
               then modifyM (\<lambda>(s, v). (s, v\<lparr> wrongByDest := append_at want (m_UID m) (wrongByDest v) \<rparr>))
               else returnM ())
             else returnM ()) (\<lambda>_.
      if SyncLabels o'
      then bindM (outer (labelsFor R key)) (\<lambda>labels.
        let missing = missingKeywords (rt_lower (r_rt R)) o' labels (m_Flags m) in
        if missing \<noteq> []
        then let sig = flagSig missing in
          modifyM (\<lambda>(s, v). (s, v\<lparr> kwGroups := append_at sig (m_UID m) (kwGroups v),
                                    kwFlags := AList.update sig missing (kwFlags v) \<rparr>))
        else returnM ())
      else returnM ()))"

definition storeGroups :: "'w Reconciler \<Rightarrow> backfill_vars \<Rightarrow> (string \<times> u32 list) list \<Rightarrow> ('w st, unit) prog" where
  "storeGroups R v groups =
     forM groups (\<lambda>(sig, uids).
       bindM (forM (chunks moveChunk uids) (\<lambda>chunk.
         call (dst_StoreKeywordsUIDs (r_dst R) chunk
           (case map_of (kwFlags v) sig of None \<Rightarrow> [] | Some kws \<Rightarrow> kws)))) (\<lambda>_.
       update_sum (\<lambda>sum. sum\<lparr> KeywordsUpdated := KeywordsUpdated sum + int (length uids) \<rparr>)))"

definition moveGroups :: "'w Reconciler \<Rightarrow> string \<Rightarrow> (string \<times> u32 list) list \<Rightarrow> ('w st, unit) prog" where
  "moveGroups R folder groups =
     forM groups (\<lambda>(want, uids).
       bindM (forM (chunks moveChunk uids) (\<lambda>chunk.
         bindM (ctxErr R) (\<lambda>_. call (dst_MoveUIDs (r_dst R) folder chunk want)))) (\<lambda>_.
       countMove R want (int (length uids))))"

definition empty_vars :: backfill_vars where
  "empty_vars = \<lparr> wrongByDest = [], kwGroups = [], kwFlags = [] \<rparr>"

definition backfillDestFolder :: "'w Reconciler \<Rightarrow> string \<Rightarrow> ('w st, unit) prog" where
  "backfillDestFolder R folder =
     bindM (call (dst_SelectNamedFolder (r_dst R) folder)) (\<lambda>(_, uidNext, numMessages).
     if numMessages = 0 then returnM ()
     else
       bindM (withVars empty_vars
         (scanWindows (r_opts R) (outer (ctxErr R)) 1 uidNext
           (\<lambda>start stop. outer (call (dst_FetchMetaRange (r_dst R) start stop)))
           (\<lambda>stop metas.
             bindM (outer (progress R ''backfill'' folder (uint stop))) (\<lambda>_.
             forM metas (backfillMessage R folder))))) (\<lambda>v.
       bindM (go_order (r_rt R) (kwGroups v)) (\<lambda>kws.
       bindM (storeGroups R v kws) (\<lambda>_.
       bindM (go_order (r_rt R) (wrongByDest v)) (\<lambda>moves.
       moveGroups R folder moves)))))"

definition maybeBackfill :: "'w Reconciler \<Rightarrow> ('w st, unit) prog" where
  "maybeBackfill R =
     (let fp = backfillFingerprint R; o' = r_opts R in
      bindM (MetaGet (r_rt R) ''backfill_fingerprint'') (\<lambda>stored.
      if stored = fp then returnM ()
      else
        bindM (if ArchiveRouting o' \<or> SentRouting o' \<or> SyncLabels o'
               then forM (destBucketFolders R) (\<lambda>folder.
                 wrapM ''backfill %q: %w'' [folder] (backfillDestFolder R folder))
               else returnM ()) (\<lambda>_.
        MetaSet (r_rt R) ''backfill_fingerprint'' fp)))"

end
