(* ===== verification/Mirror.thy ===== *)
theory Mirror
  imports Membership Propagate
begin

text \<open>
  Copying messages (\<open>internal/reconcile/reconcile.go\<close>): classification of a window, destination guard,
  the append pipeline, one full pass, and seeding.
\<close>

section \<open>The destination guard\<close>

record pendingCopy =
  pc_uid :: u32
  pc_key :: string
  pc_destFolder :: string

text \<open>The loop that splits the candidates into those found and those kept.\<close>

fun guardSplit :: "'w Reconciler \<Rightarrow> string set \<Rightarrow> pendingCopy list \<Rightarrow> KeyRecord list \<Rightarrow> pendingCopy list \<Rightarrow>
    ('w st, KeyRecord list \<times> pendingCopy list) prog" where
  "guardSplit R found [] records kept = returnM (records, kept)"
| "guardSplit R found (p # ps) records kept =
     (if pc_key p \<in> found
      then bindM (update_sum (\<lambda>sum. sum\<lparr> SkippedDup := SkippedDup sum + 1 \<rparr>)) (\<lambda>_.
        bindM (nowUnix R) (\<lambda>now.
        guardSplit R found ps
          (records @ [\<lparr> kr_Key = pc_key p, kr_UID = pc_uid p, kr_CopiedAtUnix = now \<rparr>]) kept))
      else guardSplit R found ps records (kept @ [p]))"

definition guard :: "'w Reconciler \<Rightarrow> pendingCopy list \<Rightarrow> ('w st, pendingCopy list) prog" where
  "guard R pend =
     (let ids = filter IsRealMessageID (map pc_key pend) in
      if ids = [] then returnM pend
      else
        bindM (foldM (\<lambda>found folder.
            bindM (call (dst_SearchMessageIDsIn (r_dst R) folder ids)) (\<lambda>f. returnM (found \<union> f)))
          {} (destBucketFolders R)) (\<lambda>found.
        bindM (guardSplit R found pend [] []) (\<lambda>(records, kept).
        bindM (RecordKeys (r_rt R) records) (\<lambda>_. returnM kept))))"

section \<open>The append pipeline\<close>

record inflightAppend =
  if_pa :: pendingAppend
  if_pc :: pendingCopy
  if_full :: FullMessage
  if_baseFlags :: "flag list"
  if_hadKeywords :: bool

definition appendRing :: nat where
  "appendRing = 4"

definition recordFlushSize :: nat where
  "recordFlushSize = 50"

definition isServerReject :: "gerr \<Rightarrow> bool" where
  "isServerReject err = (case root_cause err of ImapErr _ _ \<Rightarrow> True | _ \<Rightarrow> False)"

definition safeFlags :: "flag list \<Rightarrow> bool \<Rightarrow> flag list" where
  "safeFlags src carrySeen = (if carrySeen \<and> FlagSeen \<in> set src then [FlagSeen] else [])"

text \<open>The variables of the consumer goroutine.\<close>

record consumer =
  ring :: "inflightAppend list"
  records :: "KeyRecord list"
  consErr :: "gerr option"

definition failWith :: "gerr \<Rightarrow> ('w st \<times> consumer, unit) prog" where
  "failWith e = modifyM (\<lambda>(s, c). (s, if consErr c = None then c\<lparr> consErr := Some e \<rparr> else c))"

definition flushRecords :: "'w Reconciler \<Rightarrow> ('w st \<times> consumer, unit) prog" where
  "flushRecords R =
     bindM (getM (\<lambda>(s, c). records c)) (\<lambda>rs.
     if rs = [] then returnM ()
     else bindM (tryM (outer (RecordKeys (r_rt R) rs))) (\<lambda>r.
       case r of
         Inl e \<Rightarrow> failWith e
       | Inr _ \<Rightarrow> modifyM (\<lambda>(s, c). (s, c\<lparr> records := [] \<rparr>))))"

text \<open>The part of \<open>settleOldest\<close> after the append has been confirmed.\<close>

definition confirmAppend ::
  "'w Reconciler \<Rightarrow> nat \<Rightarrow> inflightAppend \<Rightarrow> bool \<Rightarrow> ('w st \<times> consumer, unit) prog" where
  "confirmAppend R flushLimit it keywordsLanded =
     bindM (if keywordsLanded then outer (update_sum (\<lambda>sum. sum\<lparr> KeywordsSet := KeywordsSet sum + 1 \<rparr>))
            else returnM ()) (\<lambda>_.
     bindM (outer (nowUnix R)) (\<lambda>now.
     bindM (modifyM (\<lambda>(s, c). (s, c\<lparr> records := records c @
         [\<lparr> kr_Key = pc_key (if_pc it), kr_UID = pc_uid (if_pc it), kr_CopiedAtUnix = now \<rparr>] \<rparr>))) (\<lambda>_.
     bindM (outer (update_sum (\<lambda>sum. sum\<lparr> Copied := Copied sum + 1 \<rparr>))) (\<lambda>_.
     bindM (getM (\<lambda>(s, c). Copied (st_sum s))) (\<lambda>n.
     bindM (outer (progress R ''mirror'' [] n)) (\<lambda>_.
     bindM (getM (\<lambda>(s, c). length (records c))) (\<lambda>len.
     if flushLimit \<le> len then flushRecords R else returnM ())))))))"

definition settleOldest :: "'w Reconciler \<Rightarrow> nat \<Rightarrow> ('w st \<times> consumer, unit) prog" where
  "settleOldest R flushLimit =
     bindM (getM (\<lambda>(s, c). ring c)) (\<lambda>rg.
     case rg of
       [] \<Rightarrow> throwM (Msg ''index out of range'' [])
     | it # rest \<Rightarrow>
         bindM (modifyM (\<lambda>(s, c). (s, c\<lparr> ring := rest \<rparr>))) (\<lambda>_.
         bindM (tryM (outer (call (dst_WaitAppend (r_dst R) (if_pa it))))) (\<lambda>r.
         case r of
           Inl err \<Rightarrow>
             (if \<not> if_hadKeywords it \<or> \<not> isServerReject err
              then failWith (Wrap ''uid %d: %w'' [FormatUint (unat (pc_uid (if_pc it)))] err)
              else bindM (tryM (outer (call (dst_AppendTo (r_dst R) (pc_destFolder (if_pc it))
                            (if_full it) (if_baseFlags it))))) (\<lambda>r2.
                case r2 of
                  Inl err2 \<Rightarrow> failWith (Wrap ''uid %d: %w'' [FormatUint (unat (pc_uid (if_pc it)))] err2)
                | Inr _ \<Rightarrow> confirmAppend R flushLimit it False))
         | Inr _ \<Rightarrow> confirmAppend R flushLimit it (if_hadKeywords it))))"

text \<open>One round of the consumer's \<open>range ch\<close>.\<close>

definition consumeItem ::
  "'w Reconciler \<Rightarrow> nat \<Rightarrow> nat \<Rightarrow> FullMessage \<times> pendingCopy \<Rightarrow> ('w st \<times> consumer, unit) prog" where
  "consumeItem R ringLimit flushLimit item =
     (case item of (full, pc) \<Rightarrow>
      bindM (getM (\<lambda>(s, c). consErr c)) (\<lambda>err.
      if err \<noteq> None then returnM ()
      else
        let baseFlags = safeFlags (f_Flags full) (CarrySeen (r_opts R)) in
        bindM (if SyncLabels (r_opts R)
               then bindM (tryM (outer (labelsFor R (pc_key pc)))) (\<lambda>r.
                 case r of
                   Inl e \<Rightarrow> bindM (failWith e) (\<lambda>_. returnM None)
                 | Inr labels \<Rightarrow>
                     returnM (Some (labelKeywords (rt_lower (r_rt R)) (r_opts R) labels)))
               else returnM (Some [])) (\<lambda>kws.
        case kws of
          None \<Rightarrow> returnM ()
        | Some keywords \<Rightarrow>
            bindM (tryM (outer (call (dst_BeginAppend (r_dst R) (pc_destFolder pc) full
                      (baseFlags @ keywords))))) (\<lambda>r.
            case r of
              Inl e \<Rightarrow> failWith (Wrap ''uid %d: %w'' [FormatUint (unat (pc_uid pc))] e)
            | Inr pa \<Rightarrow>
                bindM (modifyM (\<lambda>(s, c). (s, c\<lparr> ring := ring c @
                  [\<lparr> if_pa = pa, if_pc = pc, if_full = full, if_baseFlags = baseFlags,
                     if_hadKeywords = (keywords \<noteq> []) \<rparr>] \<rparr>))) (\<lambda>_.
                bindM (getM (\<lambda>(s, c). length (ring c))) (\<lambda>len.
                if ringLimit \<le> len then settleOldest R flushLimit else returnM ()))))))"

text \<open>
  \<open>for consErr == nil && len(ring) > 0 { settleOldest() }\<close>: each round takes one element off the
  ring, so as many rounds as the ring is long are enough.
\<close>

fun drainRing :: "'w Reconciler \<Rightarrow> nat \<Rightarrow> nat \<Rightarrow> ('w st \<times> consumer, unit) prog" where
  "drainRing R flushLimit 0 = returnM ()"
| "drainRing R flushLimit (Suc n) =
     bindM (getM snd) (\<lambda>c.
     if consErr c = None \<and> ring c \<noteq> []
     then bindM (settleOldest R flushLimit) (\<lambda>_. drainRing R flushLimit n)
     else returnM ())"

definition empty_consumer :: consumer where
  "empty_consumer = \<lparr> ring = [], records = [], consErr = None \<rparr>"

definition consume ::
  "'w Reconciler \<Rightarrow> nat \<Rightarrow> nat \<Rightarrow> (FullMessage \<times> pendingCopy) list \<Rightarrow> ('w st \<times> consumer, unit) prog" where
  "consume R ringLimit flushLimit items =
     bindM (forM items (consumeItem R ringLimit flushLimit)) (\<lambda>_.
     bindM (getM (\<lambda>(s, c). length (ring c))) (\<lambda>n.
     bindM (drainRing R flushLimit n) (\<lambda>_.
     flushRecords R)))"

text \<open>
  \<open>byUID\<close> is filled in order, so of two candidates with one UID the later counts.  The producer's
  callback drops a message whose UID was not asked for.
\<close>

definition byUID :: "pendingCopy list \<Rightarrow> u32 \<Rightarrow> pendingCopy option" where
  "byUID pend u = map_of (rev (map (\<lambda>p. (pc_uid p, p)) pend)) u"

definition copyItems :: "pendingCopy list \<Rightarrow> FullMessage list \<Rightarrow> (FullMessage \<times> pendingCopy) list" where
  "copyItems pend msgs =
     List.map_filter (\<lambda>full. map_option (\<lambda>pc. (full, pc)) (byUID pend (f_UID full))) msgs"

definition copyPipeline :: "'w Reconciler \<Rightarrow> pendingCopy list \<Rightarrow> ('w st, unit) prog" where
  "copyPipeline R pend =
     (let (ringLimit, flushLimit) =
        (if DestGuard (r_opts R) then (appendRing, recordFlushSize) else (1, 1)) in
      bindM (tryM (call (src_FetchFullStream (r_src R) (map pc_uid pend)))) (\<lambda>f.
      let (msgs, prodErr) = (case f of Inl e \<Rightarrow> ([], Some e) | Inr p \<Rightarrow> p) in
      bindM (withVars empty_consumer (consume R ringLimit flushLimit (copyItems pend msgs))) (\<lambda>c.
      case consErr c of
        Some e \<Rightarrow> throwM e
      | None \<Rightarrow> (case prodErr of Some e \<Rightarrow> throwM e | None \<Rightarrow> ctxErr R))))"

section \<open>One window, one pass\<close>

text \<open>The classification loop of \<open>mirrorWindow\<close>.\<close>

fun classify :: "'w Reconciler \<Rightarrow> MsgMeta list \<Rightarrow> pendingCopy list \<Rightarrow> string set \<Rightarrow>
    ('w st, pendingCopy list) prog" where
  "classify R [] pend pendKeys = returnM pend"
| "classify R (m # ms) pend pendKeys =
     bindM (ctxErr R) (\<lambda>_.
     let key = DedupKey (rt_sha256 (r_rt R)) m in
     bindM (HasKey (r_rt R) key) (\<lambda>seen.
     if seen \<or> key \<in> pendKeys
     then bindM (update_sum (\<lambda>sum. sum\<lparr> SkippedDup := SkippedDup sum + 1 \<rparr>)) (\<lambda>_.
       classify R ms pend pendKeys)
     else bindM (destFolderFor R key) (\<lambda>destFolder.
       classify R ms (pend @ [\<lparr> pc_uid = m_UID m, pc_key = key, pc_destFolder = destFolder \<rparr>])
         (insert key pendKeys))))"

definition mirrorWindow :: "'w Reconciler \<Rightarrow> MsgMeta list \<Rightarrow> ('w st, unit) prog" where
  "mirrorWindow R metas =
     bindM (classify R metas [] {}) (\<lambda>pend0.
     bindM (if DestGuard (r_opts R) \<and> pend0 \<noteq> [] then guard R pend0 else returnM pend0) (\<lambda>pend.
     if pend = [] then returnM () else copyPipeline R pend))"

text \<open>The function \<open>Run\<close> passes to the scan: mirror the window, then commit its end as \<open>last_uid\<close>.\<close>

definition mirrorStep :: "'w Reconciler \<Rightarrow> u32 \<Rightarrow> MsgMeta list \<Rightarrow> ('w st, unit) prog" where
  "mirrorStep R stop metas =
     bindM (update_sum (\<lambda>sum. sum\<lparr> Candidates := Candidates sum + int (length metas) \<rparr>)) (\<lambda>_.
     bindM (mirrorWindow R metas) (\<lambda>_.
     bindM (SetLastUID (r_rt R) stop) (\<lambda>_.
     bindM (getM (\<lambda>s. Copied (st_sum s))) (\<lambda>n.
     progress R ''mirror'' [] n))))"

text \<open>
  The comparison of the stored with the current UIDVALIDITY: the high-water mark to go on from, which
  is reset before the new UIDVALIDITY is adopted.
\<close>

definition adoptUIDValidity :: "'w Reconciler \<Rightarrow> u32 \<Rightarrow> ('w st, u32) prog" where
  "adoptUIDValidity R uidValidity =
     bindM (UIDValidity (r_rt R)) (\<lambda>storedValidity.
     bindM (LastUID (r_rt R)) (\<lambda>lastUID.
     if storedValidity \<noteq> uidValidity
     then bindM (if storedValidity \<noteq> 0
                 then update_sum (\<lambda>sum. sum\<lparr> UIDValidityChanged := True \<rparr>)
                 else returnM ()) (\<lambda>_.
       bindM (SetLastUID (r_rt R) 0) (\<lambda>_.
       bindM (SetUIDValidity (r_rt R) uidValidity) (\<lambda>_.
       returnM 0)))
     else returnM lastUID))"

definition Run :: "'w Reconciler \<Rightarrow> ('w st, unit) prog" where
  "Run R =
     bindM (update_sum (\<lambda>_. empty_Summary)) (\<lambda>_.
     bindM (wrapM ''membership scan: %w'' [] (syncMembership R)) (\<lambda>_.
     bindM (call (src_SelectFolder (r_src R))) (\<lambda>(uidValidity, uidNext, _).
     bindM (adoptUIDValidity R uidValidity) (\<lambda>lastUID.
     bindM (wrapM ''backfill: %w'' [] (maybeBackfill R)) (\<lambda>_.
     bindM (scanWindows (r_opts R) (ctxErr R) (lastUID + 1) uidNext
         (\<lambda>start stop. call (src_FetchMetaRange (r_src R) start stop))
         (mirrorStep R)) (\<lambda>_.
     if ArchiveRouting (r_opts R) \<or> SentRouting (r_opts R) \<or> LabelPropagate (r_opts R)
     then wrapM ''propagate: %w'' [] (propagate R)
     else returnM ()))))))"

section \<open>Seeding\<close>

definition seedFromDestFolder :: "'w Reconciler \<Rightarrow> string \<Rightarrow> string \<Rightarrow> ('w st, int) prog" where
  "seedFromDestFolder R folder item =
     bindM (call (dst_SelectNamedFolder (r_dst R) folder)) (\<lambda>(_, uidNext, numMessages).
     if numMessages = 0 then returnM 0
     else withVars 0
       (scanWindows (r_opts R) (outer (ctxErr R)) 1 uidNext
         (\<lambda>start stop. outer (call (dst_FetchMetaRange (r_dst R) start stop)))
         (\<lambda>_ metas.
           let keys = map (DedupKey (rt_sha256 (r_rt R))) metas in
           bindM (outer (SeedBatch (r_rt R) keys)) (\<lambda>_.
           bindM (modifyM (\<lambda>(s, seeded). (s, seeded + int (length keys)))) (\<lambda>_.
           bindM (getM snd) (\<lambda>seeded.
           outer (progress R ''seed'' item seeded)))))))"

definition SeedFromDest :: "'w Reconciler \<Rightarrow> ('w st, int) prog" where
  "SeedFromDest R =
     (let folders = destBucketFolders R in
      foldM (\<lambda>seeded (i, folder).
        bindM (wrapM ''seed %q: %w'' [folder]
          (seedFromDestFolder R folder
            (folder @ '' '' @ FormatUint (i + 1) @ ''/'' @ FormatUint (length folders)))) (\<lambda>n.
        returnM (seeded + n))) 0 (zip [0..<length folders] folders))"

end
