(* ===== verification/Durations.thy ===== *)
theory Durations
  imports GoStrings
begin

text \<open>
  \<open>time.ParseDuration\<close> of Go's standard library, which reads the intervals of the configuration.  A
  \<open>time.Duration\<close> is its number of nanoseconds, a signed 64-bit integer.
\<close>

type_synonym duration = int

definition Second :: duration where
  "Second = 1000000000"

definition Minute :: duration where
  "Minute = 60 * Second"

section \<open>Doubles\<close>

text \<open>
  The fraction of a number is scaled in double precision.  The double \<open>(m, e)\<close> is \<open>m * 2 ^ e\<close>, and
  \<open>round_to_double p q e\<close> the one nearest to \<open>p / q * 2 ^ e\<close>, with 53 significant bits and ties to even.
  The range of the exponent is left out: a value beyond it occurs only after some three hundred zeros
  of a fraction, when the product is below one nanosecond either way.
\<close>

type_synonym double = "nat \<times> int"

fun bits :: "nat \<Rightarrow> nat" where
  "bits n = (if n = 0 then 0 else Suc (bits (n div 2)))"

declare bits.simps [simp del]

definition half_even :: "nat \<Rightarrow> nat \<Rightarrow> nat" where
  "half_even p q = (let n = p div q; r = p mod q in
     if 2 * r < q then n else if q < 2 * r then n + 1 else if even n then n else n + 1)"

definition round_to_double :: "nat \<Rightarrow> nat \<Rightarrow> int \<Rightarrow> double" where
  "round_to_double p q e =
     (if p = 0 then (0, 0)
      else
        let up = (\<lambda>s. p * 2 ^ nat s); down = (\<lambda>s. q * 2 ^ nat (- s));
            s0 = 52 - (int (bits p) - int (bits q));
            s = (if up s0 < 2 ^ 52 * down s0 then s0 + 1 else s0)
        in (half_even (up s) (down s), e - s))"

definition double_of :: "nat \<Rightarrow> double" where
  "double_of n = round_to_double n 1 0"

definition double_mult :: "double \<Rightarrow> double \<Rightarrow> double" where
  "double_mult x y = round_to_double (fst x * fst y) 1 (snd x + snd y)"

definition double_div :: "double \<Rightarrow> double \<Rightarrow> double" where
  "double_div x y = round_to_double (fst x) (fst y) (snd x - snd y)"

definition truncated :: "double \<Rightarrow> nat" where
  "truncated x = (if 0 \<le> snd x then fst x * 2 ^ nat (snd x) else fst x div 2 ^ nat (- snd x))"

section \<open>The parser\<close>

definition unitMap :: "string \<Rightarrow> nat option" where
  "unitMap u =
     (if u = ''ns'' then Some 1
      else if u = ''us'' \<or> u = [CHR 0xC2, CHR 0xB5, CHR ''s''] \<or> u = [CHR 0xCE, CHR 0xBC, CHR ''s''] then Some 1000
      else if u = ''ms'' then Some 1000000 else if u = ''s'' then Some 1000000000
      else if u = ''m'' then Some 60000000000 else if u = ''h'' then Some 3600000000000 else None)"

text \<open>The digits in front, and \<open>None\<close> for a number above \<open>2 ^ 63\<close>.\<close>

fun leadingInt :: "nat \<Rightarrow> string \<Rightarrow> (nat \<times> string) option" where
  "leadingInt x [] = Some (x, [])"
| "leadingInt x (c # s) =
     (if \<not> is_digit c then Some (x, c # s)
      else if x > 2 ^ 63 div 10 then None
      else let y = x * 10 + (byte c - 48) in if y > 2 ^ 63 then None else leadingInt y s)"

text \<open>The digits of a fraction and the power of ten they count; digits that do not fit are dropped.\<close>

fun leadingFraction :: "nat \<Rightarrow> double \<Rightarrow> bool \<Rightarrow> string \<Rightarrow> nat \<times> double \<times> string" where
  "leadingFraction x scale overflow [] = (x, scale, [])"
| "leadingFraction x scale overflow (c # s) =
     (if \<not> is_digit c then (x, scale, c # s)
      else if overflow \<or> x > (2 ^ 63 - 1) div 10 then leadingFraction x scale True s
      else let y = x * 10 + (byte c - 48) in
        if y > 2 ^ 63 then leadingFraction x scale True s
        else leadingFraction y (double_mult scale (double_of 10)) False s)"

definition unit_char :: "char \<Rightarrow> bool" where
  "unit_char c \<longleftrightarrow> c \<noteq> CHR ''.'' \<and> \<not> is_digit c"

text \<open>One number with its unit, in nanoseconds, and what follows it.\<close>

definition scaled :: "nat \<Rightarrow> nat \<Rightarrow> nat \<Rightarrow> double \<Rightarrow> nat option" where
  "scaled v unit f scale =
     (if v > 2 ^ 63 div unit then None
      else if f = 0 then Some (v * unit)
      else let w = v * unit + truncated (double_mult (double_of f) (double_div (double_of unit) scale))
        in if w > 2 ^ 63 then None else Some w)"

definition parse_term :: "string \<Rightarrow> (nat \<times> string) option" where
  "parse_term s =
     (case leadingInt 0 s of
        None \<Rightarrow> None
      | Some (v, s1) \<Rightarrow>
          let dot = (s1 \<noteq> [] \<and> hd s1 = CHR ''.'');
              (f, scale, s2) = (if dot then leadingFraction 0 (double_of 1) False (tl s1) else (0, double_of 1, s1));
              pre = (length s1 \<noteq> length s);
              post = (dot \<and> length s2 \<noteq> length (tl s1));
              u = takeWhile unit_char s2
          in if \<not> pre \<and> \<not> post \<or> u = [] then None
             else (case unitMap u of
                 None \<Rightarrow> None
               | Some unit \<Rightarrow> map_option (\<lambda>w. (w, dropWhile unit_char s2)) (scaled v unit f scale)))"

lemma leadingInt_length: "leadingInt x s = Some (v, s') \<Longrightarrow> length s' \<le> length s"
  by (induction x s arbitrary: v s' rule: leadingInt.induct)
    (auto simp: Let_def split: if_splits intro: le_SucI)

lemma leadingFraction_length: "leadingFraction x scale b s = (f, c, s') \<Longrightarrow> length s' \<le> length s"
  by (induction x scale b s arbitrary: f c s' rule: leadingFraction.induct)
    (auto simp: Let_def split: if_splits intro: le_SucI)

lemma dropWhile_shorter:
  assumes "takeWhile P xs \<noteq> []"
  shows "length (dropWhile P xs) < length xs"
proof -
  have "length (takeWhile P xs) + length (dropWhile P xs) = length xs"
    by (simp only: length_append [symmetric] takeWhile_dropWhile_id)
  then show ?thesis using assms length_greater_0_conv [of "takeWhile P xs"] by linarith
qed

lemma parse_term_shorter:
  assumes "parse_term s = Some (w, s')"
  shows "length s' < length s"
proof -
  obtain v s1 where v: "leadingInt 0 s = Some (v, s1)"
    using assms by (cases "leadingInt 0 s") (auto simp: parse_term_def)
  define q where "q = (if s1 \<noteq> [] \<and> hd s1 = CHR ''.'' then leadingFraction 0 (double_of 1) False (tl s1) else (0, double_of 1, s1))"
  obtain f scale s2 where s2: "q = (f, scale, s2)" by (cases q)
  have "length s2 \<le> length s1"
    using s2 leadingFraction_length [of 0 "double_of 1" False "tl s1" f scale s2] by (auto simp: q_def split: if_splits)
  moreover have "takeWhile unit_char s2 \<noteq> []" "s' = dropWhile unit_char s2"
    using assms v s2 by (auto simp: parse_term_def Let_def q_def [symmetric] split: if_splits option.splits)
  ultimately show ?thesis
    using leadingInt_length [OF v] dropWhile_shorter [of unit_char s2] by simp
qed

text \<open>
  The sum of the terms, a 64-bit number that is checked against \<open>2 ^ 63\<close> after each of them: twice
  \<open>2 ^ 63\<close> wraps around to 0 and passes.
\<close>

function parse_terms :: "nat \<Rightarrow> string \<Rightarrow> nat option" where
  "parse_terms d s =
     (if s = [] then Some d
      else case parse_term s of
        None \<Rightarrow> None
      | Some (w, s') \<Rightarrow> let d' = (d + w) mod 2 ^ 64 in if d' > 2 ^ 63 then None else parse_terms d' s')"
  by pat_completeness auto
termination
  by (relation "measure (length \<circ> snd)") (auto dest: parse_term_shorter)

declare parse_terms.simps [simp del]

definition ParseDuration :: "string \<Rightarrow> gerr + duration" where
  "ParseDuration orig =
     (let signed = (orig \<noteq> [] \<and> hd orig \<in> {CHR ''-'', CHR ''+''});
          neg = (orig \<noteq> [] \<and> hd orig = CHR ''-'');
          s = (if signed then tl orig else orig)
      in if s = ''0'' then Inr 0
         else case (if s = [] then None else parse_terms 0 s) of
             None \<Rightarrow> Inl (Msg ''time: invalid duration %q'' [orig])
           | Some d \<Rightarrow>
               if neg then Inr (- int d)
               else if d > 2 ^ 63 - 1 then Inl (Msg ''time: invalid duration %q'' [orig])
               else Inr (int d))"

section \<open>What it reads\<close>

lemma parse_terms_bound: "d \<le> 2 ^ 63 \<Longrightarrow> parse_terms d s = Some n \<Longrightarrow> n \<le> 2 ^ 63"
proof (induction d s rule: parse_terms.induct)
  case (1 d s)
  then show ?case
    by (subst (asm) parse_terms.simps) (auto simp: Let_def not_less split: if_splits option.splits)
qed

text \<open>A duration that has been read is a signed 64-bit number.\<close>

lemma ParseDuration_range: "ParseDuration s = Inr d \<Longrightarrow> - (2 ^ 63) \<le> d \<and> d < 2 ^ 63"
  by (auto simp: ParseDuration_def Let_def split: if_splits option.splits dest!: parse_terms_bound [rotated])

lemma leadingInt_append:
  assumes "\<forall>c \<in> set ds. is_digit c" and "u \<noteq> [] \<longrightarrow> \<not> is_digit (hd u)"
    and "foldl (\<lambda>a c. a * 10 + (byte c - 48)) x ds \<le> 2 ^ 63"
  shows "leadingInt x (ds @ u) = Some (foldl (\<lambda>a c. a * 10 + (byte c - 48)) x ds, u)"
  using assms
proof (induction ds arbitrary: x)
  case Nil
  then show ?case by (cases u) auto
next
  case (Cons c ds)
  have mono: "x \<le> foldl (\<lambda>a c. a * 10 + (byte c - 48)) x cs" for x and cs :: string
  proof (induction cs arbitrary: x)
    case (Cons a cs)
    have "x \<le> x * 10 + (byte a - 48)" by simp
    also note Cons
    finally show ?case by simp
  qed simp
  have "x * 10 + (byte c - 48) \<le> 2 ^ 63"
    using Cons.prems(3) mono [of "x * 10 + (byte c - 48)" ds] by simp
  then show ?case using Cons by (simp add: Let_def)
qed

text \<open>A whole number of a unit is read as just that.\<close>

lemma ParseDuration_whole:
  assumes "unitMap u = Some unit" and "n * unit < 2 ^ 63"
  shows "ParseDuration (FormatUint n @ u) = Inr (int (n * unit))"
proof -
  have u: "u \<noteq> []" "takeWhile unit_char u = u" "dropWhile unit_char u = []" "0 < unit" "\<not> is_digit (hd u)" "hd u \<noteq> CHR ''.''"
    using assms(1) by (auto simp: unitMap_def unit_char_def is_digit_def byte_def split: if_splits)
  have "n \<le> n * unit" using u(4) by simp
  then have "n \<le> 2 ^ 63" using assms(2) by linarith
  then have "leadingInt 0 (FormatUint n @ u) = Some (n, u)"
    using leadingInt_append [of "FormatUint n" u 0, unfolded FormatUint_value] FormatUint_digits [of n] u(5) by blast
  moreover have "n \<le> 2 ^ 63 div unit"
    using assms(2) u(4) by (simp add: less_eq_div_iff_mult_less_eq)
  ultimately have one: "parse_term (FormatUint n @ u) = Some (n * unit, [])"
    using assms(1) FormatUint_digits [of n] by (simp add: u parse_term_def scaled_def not_less)
  have "parse_terms 0 (FormatUint n @ u) = Some (n * unit)"
    using one u(1) assms(2) by (simp add: parse_terms.simps [of _ "FormatUint n @ u"] parse_terms.simps [of _ "[]"])
  moreover have "hd (FormatUint n @ u) \<notin> {CHR ''-'', CHR ''+''}"
  proof -
    have "is_digit (hd (FormatUint n @ u))" using FormatUint_digits [of n] by simp
    then show ?thesis by (auto simp: is_digit_def byte_def)
  qed
  moreover have "FormatUint n @ u \<noteq> ''0''"
    using FormatUint_digits [of n] u by (cases "FormatUint n") (auto simp: append_eq_Cons_conv)
  ultimately show ?thesis using assms(2) u(1) by (simp add: ParseDuration_def)
qed

end
