(* ===== verification/Config.thy ===== *)
theory Config
  imports Mail Durations
begin

text \<open>
  The configuration (\<open>internal/config/config.go\<close>): the resolved records, the schema of the YAML file,
  and \<open>resolve\<close>, which fills in defaults and validates.  The YAML decoder, the environment and the file
  system are the record \<open>host\<close>.
\<close>

section \<open>The resolved configuration\<close>

text \<open>A \<open>SeedMode\<close> is a string, as in the source.\<close>

definition SeedEmpty :: string where
  "SeedEmpty = ''empty''"

definition SeedAlways :: string where
  "SeedAlways = ''always''"

definition SeedNever :: string where
  "SeedNever = ''never''"

record Endpoint =
  ep_Host :: string
  ep_Port :: int
  ep_User :: string
  ep_Password :: string
  ep_Folder :: string
  ep_Inbox :: string
  ep_TLS :: bool

definition Addr :: "Endpoint \<Rightarrow> string" where
  "Addr e = ep_Host e @ '':'' @ FormatInt (ep_Port e)"

record Archive =
  ar_Enabled :: bool
  ar_Folder :: string

record Sent =
  se_Enabled :: bool
  se_Folder :: string
  se_SourceFolder :: string

record Labels =
  la_Enabled :: bool
  la_Propagate :: bool
  la_Exclude :: "string list"
  la_KeywordPrefix :: string
  la_KeywordReplacement :: string

record Mirror =
  mi_Name :: string
  mi_StatePath :: string
  mi_PollInterval :: duration
  mi_IdleReset :: duration
  mi_UIDBatch :: int
  mi_Seed :: string
  mi_DestGuard :: bool
  mi_CarrySeen :: bool
  mi_Source :: Endpoint
  mi_Dest :: Endpoint
  mi_Archive :: Archive
  mi_Sent :: Sent
  mi_Labels :: Labels

record Config =
  cf_HealthAddr :: string
  cf_LogLevel :: string
  cf_StateDir :: string
  cf_LockPath :: string
  cf_Mirrors :: "Mirror list"

section \<open>The YAML schema\<close>

text \<open>
  Of a \<open>yaml.Node\<close> the program reads the kind, the tag and the result of decoding it into a string.
  A pointer to a bool is an option.
\<close>

record Node =
  nd_Kind :: nat
  nd_Tag :: string
  nd_Decode :: "gerr + string"

record rawEndpoint =
  re_Host :: string
  re_Port :: int
  re_User :: string
  re_Password :: string
  re_PasswordFile :: string
  re_Folder :: string
  re_Inbox :: string
  re_TLS :: "bool option"

record rawArchive =
  rar_Enabled :: bool
  rar_Folder :: string

record rawSent =
  rse_Enabled :: bool
  rse_Folder :: string
  rse_SourceFolder :: string

record rawLabels =
  rla_Enabled :: bool
  rla_Propagate :: bool
  rla_Exclude :: "string list"
  rla_KeywordPrefix :: string
  rla_KeywordReplacement :: string

record rawMirror =
  rm_Name :: string
  rm_StatePath :: string
  rm_PollInterval :: duration
  rm_IdleReset :: duration
  rm_UIDBatch :: int
  rm_Seed :: string
  rm_DestGuard :: "bool option"
  rm_CarrySeen :: "bool option"
  rm_Source :: rawEndpoint
  rm_Dest :: rawEndpoint
  rm_Archive :: rawArchive
  rm_Sent :: rawSent
  rm_Labels :: rawLabels

record rawConfig =
  rc_HealthAddr :: Node
  rc_LogLevel :: string
  rc_StateDir :: string
  rc_LockPath :: string
  rc_Mirrors :: "rawMirror list"

text \<open>
  \<open>yaml_Decode\<close> is the decoder with unknown keys refused; it reads the intervals with the method that it
  is given.
\<close>

record host =
  os_Getenv :: "string \<Rightarrow> string"
  os_ReadFile :: "string \<Rightarrow> gerr + string"
  os_Open :: "string \<Rightarrow> gerr + string"
  yaml_Decode :: "(Node \<Rightarrow> gerr + duration) \<Rightarrow> string \<Rightarrow> gerr + rawConfig"
  unicode_lower :: "nat \<Rightarrow> nat"

definition optString :: "Node \<Rightarrow> string \<times> bool \<times> gerr option" where
  "optString n =
     (if nd_Kind n = 0 then ([], False, None)
      else if nd_Tag n = ''!!null'' then ([], True, None)
      else case nd_Decode n of Inl e \<Rightarrow> ([], True, Some e) | Inr v \<Rightarrow> (v, True, None))"

definition UnmarshalYAML :: "Node \<Rightarrow> gerr + duration" where
  "UnmarshalYAML n =
     (case nd_Decode n of
        Inl e \<Rightarrow> Inl e
      | Inr s \<Rightarrow>
          (case ParseDuration s of
             Inl e \<Rightarrow> Inl (Wrap ''invalid duration %q: %w'' [s] e)
           | Inr v \<Rightarrow> Inr v))"

section \<open>Paths\<close>

text \<open>\<open>filepath.Clean\<close> and \<open>filepath.Join\<close> on Unix.\<close>

fun split_on :: "char \<Rightarrow> string \<Rightarrow> string list" where
  "split_on c [] = [[]]"
| "split_on c (x # xs) =
     (if x = c then [] # split_on c xs
      else case split_on c xs of [] \<Rightarrow> [[x]] | y # ys \<Rightarrow> (x # y) # ys)"

text \<open>The elements kept so far, the last one first.\<close>

definition clean_step :: "bool \<Rightarrow> string \<Rightarrow> string list \<Rightarrow> string list" where
  "clean_step rooted e stack =
     (if e = [] \<or> e = ''.'' then stack
      else if e = ''..'' then
        (case stack of
           [] \<Rightarrow> if rooted then [] else [e]
         | e' # below \<Rightarrow> if e' = ''..'' then e # stack else below)
      else e # stack)"

definition Clean :: "string \<Rightarrow> string" where
  "Clean path =
     (let rooted = HasPrefix path ''/'';
          es = rev (fold (clean_step rooted) (split_on (CHR ''/'') path) []);
          out = (if rooted then ''/'' else []) @ Join es ''/''
      in if out = [] then ''.'' else out)"

definition path_Join :: "string list \<Rightarrow> string" where
  "path_Join es = (case dropWhile (\<lambda>e. e = []) es of [] \<Rightarrow> [] | es' \<Rightarrow> Clean (Join es' ''/''))"

section \<open>Defaults\<close>

definition defaultStr :: "string \<Rightarrow> string \<Rightarrow> string" where
  "defaultStr v def = (if v = [] then def else v)"

definition defaultInt :: "int \<Rightarrow> int \<Rightarrow> int" where
  "defaultInt v def = (if v = 0 then def else v)"

definition defaultDur :: "duration \<Rightarrow> duration \<Rightarrow> duration" where
  "defaultDur v def = (if v = 0 then def else v)"

definition defaultBool :: "bool option \<Rightarrow> bool \<Rightarrow> bool" where
  "defaultBool v def = (case v of None \<Rightarrow> def | Some b \<Rightarrow> b)"

definition DefaultConfigPath :: string where
  "DefaultConfigPath = ''/config/umleiter.yaml''"

definition Path :: "host \<Rightarrow> string" where
  "Path h = (if os_Getenv h ''CONFIG_PATH'' \<noteq> [] then os_Getenv h ''CONFIG_PATH'' else DefaultConfigPath)"

section \<open>Validation\<close>

definition name_char :: "char \<Rightarrow> bool" where
  "name_char c \<longleftrightarrow> (97 \<le> byte c \<and> byte c \<le> 122) \<or> (48 \<le> byte c \<and> byte c \<le> 57) \<or> c = CHR ''_'' \<or> c = CHR ''-''"

definition nameRe :: "string \<Rightarrow> bool" where
  "nameRe s \<longleftrightarrow> s \<noteq> [] \<and> list_all name_char s"

definition isKeywordByte :: "char \<Rightarrow> bool" where
  "isKeywordByte b \<longleftrightarrow> (97 \<le> byte b \<and> byte b \<le> 122) \<or> (65 \<le> byte b \<and> byte b \<le> 90) \<or>
     (48 \<le> byte b \<and> byte b \<le> 57) \<or> b = CHR ''-'' \<or> b = CHR ''_''"

definition resolveEndpoint :: "host \<Rightarrow> rawEndpoint \<Rightarrow> Endpoint \<times> gerr option" where
  "resolveEndpoint h raw =
     (let ep = \<lparr> ep_Host = re_Host raw, ep_Port = defaultInt (re_Port raw) 993, ep_User = re_User raw,
                 ep_Password = [], ep_Folder = defaultStr (re_Folder raw) ''INBOX'',
                 ep_Inbox = defaultStr (re_Inbox raw) ''INBOX'', ep_TLS = defaultBool (re_TLS raw) True \<rparr> in
      if ep_Host ep = [] then (ep, Some (Msg ''host is required'' []))
      else if ep_User ep = [] then (ep, Some (Msg ''user is required'' []))
      else if ep_Port ep < 1 \<or> ep_Port ep > 65535
      then (ep, Some (Msg ''port must be 1-65535, got %d'' [FormatInt (ep_Port ep)]))
      else if re_Password raw \<noteq> [] \<and> re_PasswordFile raw \<noteq> []
      then (ep, Some (Msg ''set either password or password_file, not both'' []))
      else if re_Password raw \<noteq> [] then (ep\<lparr> ep_Password := re_Password raw \<rparr>, None)
      else if re_PasswordFile raw \<noteq> [] then
        (case os_ReadFile h (re_PasswordFile raw) of
           Inl e \<Rightarrow> (ep, Some (Wrap ''password_file: %w'' [] e))
         | Inr b \<Rightarrow> (ep\<lparr> ep_Password := TrimSpace b \<rparr>, None))
      else (ep, Some (Msg ''password (or password_file) is required'' [])))"

text \<open>
  The messages collected by \<open>fail\<close> are values of the error type, a message with its arguments.
\<close>

definition failIf :: "bool \<Rightarrow> gerr \<Rightarrow> gerr list" where
  "failIf b e = (if b then [e] else [])"

text \<open>The record \<open>m\<close> that the loop builds before it checks anything.\<close>

definition resolveMirror :: "host \<Rightarrow> string \<Rightarrow> rawMirror \<Rightarrow> Mirror" where
  "resolveMirror h stateDir rm =
     \<lparr> mi_Name = rm_Name rm,
       mi_StatePath = defaultStr (rm_StatePath rm) (path_Join [stateDir, rm_Name rm @ ''.db'']),
       mi_PollInterval = defaultDur (rm_PollInterval rm) (15 * Minute),
       mi_IdleReset = defaultDur (rm_IdleReset rm) (25 * Minute),
       mi_UIDBatch = defaultInt (rm_UIDBatch rm) 2000,
       mi_Seed = ToLower (unicode_lower h) (defaultStr (rm_Seed rm) SeedEmpty),
       mi_DestGuard = defaultBool (rm_DestGuard rm) True,
       mi_CarrySeen = defaultBool (rm_CarrySeen rm) True,
       mi_Source = fst (resolveEndpoint h (rm_Source rm)),
       mi_Dest = fst (resolveEndpoint h (rm_Dest rm)),
       mi_Archive = \<lparr> ar_Enabled = rar_Enabled (rm_Archive rm),
                      ar_Folder = defaultStr (rar_Folder (rm_Archive rm)) ''Archive'' \<rparr>,
       mi_Sent = \<lparr> se_Enabled = rse_Enabled (rm_Sent rm),
                   se_Folder = defaultStr (rse_Folder (rm_Sent rm)) ''Sent'',
                   se_SourceFolder = defaultStr (rse_SourceFolder (rm_Sent rm)) (backslash # ''Sent'') \<rparr>,
       mi_Labels = \<lparr> la_Enabled = rla_Enabled (rm_Labels rm), la_Propagate = rla_Propagate (rm_Labels rm),
                     la_Exclude = rla_Exclude (rm_Labels rm), la_KeywordPrefix = rla_KeywordPrefix (rm_Labels rm),
                     la_KeywordReplacement = defaultStr (rla_KeywordReplacement (rm_Labels rm)) ''_'' \<rparr> \<rparr>"

text \<open>The text that names the mirror in a message, without the quotes of \<open>%q\<close>.\<close>

definition whereOf :: "nat \<Rightarrow> rawMirror \<Rightarrow> string" where
  "whereOf i rm = (if rm_Name rm = [] then ''mirror #'' @ FormatUint (i + 1)
                   else ''mirror '' @ rm_Name rm)"

text \<open>The checks of the name and of the state path, which look at the mirrors before.\<close>

definition checkName :: "string \<Rightarrow> string list \<Rightarrow> string \<Rightarrow> gerr list" where
  "checkName at names name =
     (if name = [] then [Msg ''%s: name is required'' [at]]
      else if \<not> nameRe name then [Msg ''%s: name must match %s'' [at]]
      else if name \<in> set names then [Msg ''%s: duplicate name'' [at]]
      else [])"

definition checkStatePath :: "string \<Rightarrow> (string \<times> string) list \<Rightarrow> string \<Rightarrow> gerr list" where
  "checkStatePath at statePaths path =
     (case map_of statePaths (Clean path) of
        None \<Rightarrow> []
      | Some other \<Rightarrow> [Msg ''%s: state_path %q already used by mirror %q'' [at, path, other]])"

text \<open>The checks that look at one mirror alone, in the order of the source.\<close>

definition checkEndpoint :: "host \<Rightarrow> string \<Rightarrow> rawEndpoint \<Rightarrow> gerr list" where
  "checkEndpoint h at raw =
     (case snd (resolveEndpoint h raw) of None \<Rightarrow> [] | Some e \<Rightarrow> [Wrap ''%s: %v'' [at] e])"

definition checkMirror :: "string \<Rightarrow> Mirror \<Rightarrow> gerr list" where
  "checkMirror at m =
     failIf (mi_Seed m \<notin> {SeedEmpty, SeedAlways, SeedNever})
       (Msg ''%s: seed must be empty|always|never, got %q'' [at, mi_Seed m]) @
     failIf (la_Propagate (mi_Labels m) \<and> \<not> la_Enabled (mi_Labels m))
       (Msg ''%s: labels.propagate requires labels.enabled'' [at]) @
     failIf (let r = la_KeywordReplacement (mi_Labels m) in length r \<noteq> 1 \<or> \<not> isKeywordByte (hd r))
       (Msg ''%s: labels.keyword_replacement must be a single keyword char [A-Za-z0-9_-], got %q''
         [at, la_KeywordReplacement (mi_Labels m)]) @
     failIf (ar_Enabled (mi_Archive m) \<and> ar_Folder (mi_Archive m) = ep_Folder (mi_Dest m))
       (Msg ''%s: archive.folder must differ from dest.folder'' [at]) @
     (if se_Enabled (mi_Sent m) then
        failIf (se_Folder (mi_Sent m) = ep_Folder (mi_Dest m))
          (Msg ''%s: sent.folder must differ from dest.folder'' [at]) @
        failIf (ar_Enabled (mi_Archive m) \<and> se_Folder (mi_Sent m) = ar_Folder (mi_Archive m))
          (Msg ''%s: sent.folder must differ from archive.folder'' [at])
      else []) @
     failIf (mi_UIDBatch m < 1) (Msg ''%s: uid_batch must be >= 1'' [at]) @
     failIf (mi_PollInterval m < 0) (Msg ''%s: poll_interval must be positive'' [at]) @
     failIf (mi_IdleReset m < 0) (Msg ''%s: idle_reset must be positive'' [at])"

text \<open>
  The loop over \<open>raw.Mirrors\<close>; \<open>names\<close> and \<open>statePaths\<close> are its two maps.
\<close>

fun resolveMirrors :: "host \<Rightarrow> string \<Rightarrow> nat \<Rightarrow> string list \<Rightarrow> (string \<times> string) list \<Rightarrow> rawMirror list \<Rightarrow>
    gerr list \<times> Mirror list" where
  "resolveMirrors h stateDir i names statePaths [] = ([], [])"
| "resolveMirrors h stateDir i names statePaths (rm # rms) =
     (let m = resolveMirror h stateDir rm; at = whereOf i rm;
          errs = checkName at names (rm_Name rm) @ checkStatePath at statePaths (mi_StatePath m) @
                 checkEndpoint h (at @ '' source'') (rm_Source rm) @
                 checkEndpoint h (at @ '' dest'') (rm_Dest rm) @ checkMirror at m;
          (errs', ms) = resolveMirrors h stateDir (i + 1) (rm_Name rm # names)
            ((Clean (mi_StatePath m), rm_Name rm) # statePaths) rms
      in (errs @ errs', m # ms))"

definition resolve :: "host \<Rightarrow> rawConfig \<Rightarrow> gerr list + Config" where
  "resolve h raw =
     (let logLevel = ToLower (unicode_lower h) (defaultStr (rc_LogLevel raw) ''info'');
          stateDir = defaultStr (rc_StateDir raw) ''/state'';
          (healthErrs, healthAddr) = (case optString (rc_HealthAddr raw) of
             (v, is_set, Some e) \<Rightarrow> ([Wrap ''health_addr: %v'' [] e], '':8080'')
           | (v, is_set, None) \<Rightarrow> ([], if is_set then v else '':8080''));
          lockPath = defaultStr (rc_LockPath raw) (path_Join [stateDir, ''umleiter.lock'']);
          levelErrs = failIf (logLevel \<notin> {''debug'', ''info'', ''warn'', ''error''})
            (Msg ''log_level must be debug|info|warn|error, got %q'' [logLevel]);
          noneErrs = failIf (rc_Mirrors raw = []) (Msg ''at least one mirror is required'' []);
          (mirrorErrs, ms) = resolveMirrors h stateDir 0 [] [] (rc_Mirrors raw);
          errs = healthErrs @ levelErrs @ noneErrs @ mirrorErrs
      in if errs \<noteq> [] then Inl errs
         else Inr \<lparr> cf_HealthAddr = healthAddr, cf_LogLevel = logLevel, cf_StateDir = stateDir,
                    cf_LockPath = lockPath, cf_Mirrors = ms \<rparr>)"

definition LoadFile :: "host \<Rightarrow> string \<Rightarrow> gerr list + Config" where
  "LoadFile h path =
     (case os_Open h path of
        Inl e \<Rightarrow> Inl [Wrap ''config: %w (set CONFIG_PATH or mount %s)'' [DefaultConfigPath] e]
      | Inr f \<Rightarrow>
          (case yaml_Decode h UnmarshalYAML f of
             Inl e \<Rightarrow> Inl [Wrap ''config %s: %w'' [path] e]
           | Inr raw \<Rightarrow> resolve h raw))"

end
