(* ===== verification/Imapx.thy ===== *)
theory Imapx
  imports Config
begin

text \<open>
  The IMAP wrapper (\<open>internal/imapx/client.go\<close>) over the go-imap client library, which is a parameter:
  the record \<open>imapclient\<close>.  A method of \<open>Client\<close> is a program on the client struct and the outside
  world.
\<close>

section \<open>The library\<close>

text \<open>
  The types of go-imap that the program builds or reads.  A search matches a message when all header
  fields and one side of every pair of \<open>sc_Or\<close> match.
\<close>

datatype SearchCriteria =
  SearchCriteria (sc_Header: "(string \<times> string) list") (sc_Or: "(SearchCriteria \<times> SearchCriteria) list")

datatype UIDSet = UIDRange u32 u32 | UIDSetNum "u32 list"

datatype StoreFlagsOp = StoreFlagsAdd | StoreFlagsDel

record FetchItemBodySection =
  bs_Specifier :: string
  bs_HeaderFields :: "string list"
  bs_Peek :: bool

record FetchOptions =
  fo_UID :: bool
  fo_InternalDate :: bool
  fo_RFC822Size :: bool
  fo_Flags :: bool
  fo_BodySection :: "FetchItemBodySection list"

record FetchMessageBuffer =
  fb_UID :: u32
  fb_InternalDate :: time
  fb_RFC822Size :: int
  fb_Flags :: "flag list"
  fb_FindBodySection :: "FetchItemBodySection \<Rightarrow> string"

record SelectData =
  sd_UIDValidity :: u32
  sd_UIDNext :: u32
  sd_NumMessages :: u32
  sd_PermanentFlags :: "flag list"

record ListData =
  ld_Mailbox :: string
  ld_Attrs :: "string list"

record AppendOptions =
  ao_Flags :: "flag list"
  ao_Time :: "time option"

text \<open>
  One field per call.  \<open>ic_Fetch\<close> and \<open>ic_Append\<close> issue a command and return its number; \<open>ic_Next\<close> is
  \<open>Next\<close> followed by \<open>Collect\<close> on the message, \<open>None\<close> when \<open>Next\<close> returns nil.  \<open>ic_Store\<close> is
  \<open>Store\<close> (silent) with \<open>Close\<close>.  \<open>ic_ReadHeader\<close> is \<open>message.Read\<close>: the \<open>Get\<close> of the header, or \<open>None\<close>
  when there is no entity.  \<open>ic_Logout\<close> is the logout that is given five seconds.
\<close>

record 'w imapclient =
  ic_Dial :: "bool \<Rightarrow> string \<Rightarrow> ('w, unit) prog"
  ic_Login :: "string \<Rightarrow> string \<Rightarrow> ('w, unit) prog"
  ic_Logout :: "'w \<Rightarrow> 'w"
  ic_Close :: "'w \<Rightarrow> 'w"
  ic_Select :: "string \<Rightarrow> ('w, SelectData) prog"
  ic_UIDSearch :: "SearchCriteria \<Rightarrow> ('w, u32 list) prog"
  ic_HasSpecialUse :: "('w, bool) prog"
  ic_List :: "bool \<Rightarrow> ('w, ListData list) prog"
  ic_Create :: "string \<Rightarrow> ('w, unit) prog"
  ic_Fetch :: "UIDSet \<Rightarrow> FetchOptions \<Rightarrow> ('w, nat) prog"
  ic_Next :: "nat \<Rightarrow> 'w \<Rightarrow> (gerr + FetchMessageBuffer) option \<times> 'w"
  ic_CloseFetch :: "nat \<Rightarrow> ('w, unit) prog"
  ic_Append :: "string \<Rightarrow> int \<Rightarrow> AppendOptions \<Rightarrow> ('w, nat) prog"
  ic_Write :: "nat \<Rightarrow> string \<Rightarrow> ('w, unit) prog"
  ic_CloseAppend :: "nat \<Rightarrow> ('w, unit) prog"
  ic_WaitAppend :: "nat \<Rightarrow> ('w, unit) prog"
  ic_Move :: "UIDSet \<Rightarrow> string \<Rightarrow> ('w, unit) prog"
  ic_Store :: "UIDSet \<Rightarrow> StoreFlagsOp \<Rightarrow> flag list \<Rightarrow> ('w, unit) prog"
  ic_Idle :: "('w, nat) prog"
  ic_IdleClose :: "nat \<Rightarrow> ('w, unit) prog"
  ic_IdleWait :: "nat \<Rightarrow> ('w, unit) prog"
  ic_ReadHeader :: "string \<Rightarrow> (string \<Rightarrow> string) option"

section \<open>The client\<close>

record Client =
  cl_ep :: Endpoint
  cl_selected :: string
  cl_guardChunk :: int
  cl_arbitraryKeywords :: bool

type_synonym 'w conn = "Client \<times> 'w"

definition defaultGuardChunk :: int where
  "defaultGuardChunk = 100"

text \<open>A call of the library; a read and a write of a field of the struct; the address for messages.\<close>

definition lib :: "('w, 'a) prog \<Rightarrow> ('w conn, 'a) prog" where
  "lib m = zoomM snd (\<lambda>w p. (fst p, w)) m"

definition field :: "(Client \<Rightarrow> 'a) \<Rightarrow> ('w conn, 'a) prog" where
  "field f = getM (\<lambda>p. f (fst p))"

definition assign :: "(Client \<Rightarrow> Client) \<Rightarrow> ('w conn, unit) prog" where
  "assign f = modifyM (\<lambda>p. (f (fst p), snd p))"

definition failAt :: "string \<Rightarrow> string list \<Rightarrow> gerr \<Rightarrow> ('w conn, 'a) prog" where
  "failAt fmt args e = bindM (field cl_ep) (\<lambda>ep. throwM (Wrap fmt (args @ [Addr ep]) e))"

text \<open>\<open>if err != nil { return fmt.Errorf(fmt, args, cl.ep.Addr(), err) }\<close> after a library call.\<close>

definition libAt :: "string \<Rightarrow> string list \<Rightarrow> ('w, 'a) prog \<Rightarrow> ('w conn, 'a) prog" where
  "libAt fmt args m = bindM (tryM (lib m)) (\<lambda>r.
     case r of Inl e \<Rightarrow> failAt fmt args e | Inr a \<Rightarrow> returnM a)"

definition Dial :: "'w imapclient \<Rightarrow> Endpoint \<Rightarrow> ('w, Client) prog" where
  "Dial L ep =
     bindM (wrapM ''dial %s: %w'' [Addr ep] (ic_Dial L (ep_TLS ep) (Addr ep))) (\<lambda>_.
     bindM (tryM (ic_Login L (ep_User ep) (ep_Password ep))) (\<lambda>r.
     case r of
       Inl e \<Rightarrow> bindM (modifyM (ic_Close L)) (\<lambda>_.
         throwM (Wrap ''login %s as %s: %w'' [Addr ep, ep_User ep] e))
     | Inr _ \<Rightarrow> returnM \<lparr> cl_ep = ep, cl_selected = [], cl_guardChunk = defaultGuardChunk,
                         cl_arbitraryKeywords = False \<rparr>))"

definition Close :: "'w imapclient \<Rightarrow> ('w conn, unit) prog" where
  "Close L = modifyM (\<lambda>p. (fst p, ic_Close L (ic_Logout L (snd p))))"

section \<open>Folders\<close>

definition SelectNamedFolder :: "'w imapclient \<Rightarrow> string \<Rightarrow> ('w conn, u32 \<times> u32 \<times> u32) prog" where
  "SelectNamedFolder L name =
     bindM (tryM (lib (ic_Select L name))) (\<lambda>r.
     case r of
       Inl e \<Rightarrow> bindM (assign (\<lambda>cl. cl\<lparr> cl_selected := [] \<rparr>)) (\<lambda>_.
         failAt ''select %q on %s: %w'' [name] e)
     | Inr data \<Rightarrow>
         bindM (assign (\<lambda>cl. cl\<lparr> cl_selected := name,
             cl_arbitraryKeywords := FlagWildcard \<in> set (sd_PermanentFlags data) \<rparr>)) (\<lambda>_.
         returnM (sd_UIDValidity data, sd_UIDNext data, sd_NumMessages data)))"

definition SelectFolder :: "'w imapclient \<Rightarrow> ('w conn, u32 \<times> u32 \<times> u32) prog" where
  "SelectFolder L = bindM (field cl_ep) (\<lambda>ep. SelectNamedFolder L (ep_Folder ep))"

definition ensureSelected :: "'w imapclient \<Rightarrow> string \<Rightarrow> ('w conn, unit) prog" where
  "ensureSelected L name =
     bindM (field cl_selected) (\<lambda>sel.
     if sel = name then returnM () else bindM (SelectNamedFolder L name) (\<lambda>_. returnM ()))"

definition SearchAllUIDs :: "'w imapclient \<Rightarrow> ('w conn, u32 list) prog" where
  "SearchAllUIDs L = libAt ''uid search all on %s: %w'' [] (ic_UIDSearch L (SearchCriteria [] []))"

definition SupportsArbitraryKeywords :: "Client \<Rightarrow> bool" where
  "SupportsArbitraryKeywords cl = cl_arbitraryKeywords cl"

definition ListFolders :: "'w imapclient \<Rightarrow> ('w conn, FolderInfo list) prog" where
  "ListFolders L =
     bindM (lib (ic_HasSpecialUse L)) (\<lambda>special.
     bindM (libAt ''list folders on %s: %w'' [] (ic_List L special)) (\<lambda>data.
     returnM (map (\<lambda>d. \<lparr> fi_Name = ld_Mailbox d, fi_Attrs = ld_Attrs d \<rparr>) data)))"

definition ResolveFolder :: "'w imapclient \<Rightarrow> string \<Rightarrow> ('w conn, string) prog" where
  "ResolveFolder L nameOrSelector =
     (if \<not> HasPrefix nameOrSelector [backslash] then returnM nameOrSelector
      else bindM (ListFolders L) (\<lambda>folders.
        case find (\<lambda>f. nameOrSelector \<in> set (fi_Attrs f)) folders of
          Some f \<Rightarrow> returnM (fi_Name f)
        | None \<Rightarrow> bindM (field cl_ep) (\<lambda>ep.
            throwM (Msg ''no folder with special-use attribute %q on %s (server caps missing SPECIAL-USE, or attribute not present)''
              [nameOrSelector, Addr ep]))))"

definition ResolveSpecialUse :: "'w imapclient \<Rightarrow> ('w conn, string) prog" where
  "ResolveSpecialUse L =
     bindM (field cl_ep) (\<lambda>ep.
     bindM (ResolveFolder L (ep_Folder ep)) (\<lambda>name.
     bindM (assign (\<lambda>cl. cl\<lparr> cl_ep := (cl_ep cl)\<lparr> ep_Folder := name \<rparr> \<rparr>)) (\<lambda>_.
     returnM name)))"

definition EnsureNamedFolder :: "'w imapclient \<Rightarrow> string \<Rightarrow> ('w conn, unit) prog" where
  "EnsureNamedFolder L name =
     bindM (tryM (lib (ic_Create L name))) (\<lambda>r.
     case r of
       Inr _ \<Rightarrow> returnM ()
     | Inl err \<Rightarrow> bindM (tryM (SelectNamedFolder L name)) (\<lambda>sel.
         case sel of
           Inr _ \<Rightarrow> returnM ()
         | Inl _ \<Rightarrow> failAt ''create %q on %s: %w'' [name] err))"

definition EnsureFolder :: "'w imapclient \<Rightarrow> ('w conn, unit) prog" where
  "EnsureFolder L = bindM (field cl_ep) (\<lambda>ep. EnsureNamedFolder L (ep_Folder ep))"

section \<open>Fetching\<close>

definition metaSection :: FetchItemBodySection where
  "metaSection = \<lparr> bs_Specifier = ''HEADER'', bs_HeaderFields = [''Message-Id'', ''From'', ''Subject''],
     bs_Peek = True \<rparr>"

definition fullSection :: FetchItemBodySection where
  "fullSection = \<lparr> bs_Specifier = [], bs_HeaderFields = [], bs_Peek = True \<rparr>"

definition parseMetaHeader :: "'w imapclient \<Rightarrow> string \<Rightarrow> string \<times> string \<times> string" where
  "parseMetaHeader L hdr =
     (if hdr = [] then ([], [], [])
      else case ic_ReadHeader L (hdr @ [CHR 0x0D, CHR 0x0A]) of
          None \<Rightarrow> ([], [], [])
        | Some get \<Rightarrow> (TrimSpace (get ''Message-Id''), TrimSpace (get ''From''), TrimSpace (get ''Subject'')))"

definition bufferMeta :: "'w imapclient \<Rightarrow> FetchMessageBuffer \<Rightarrow> MsgMeta" where
  "bufferMeta L buf =
     (let (mid, from_hdr, subject) = parseMetaHeader L (fb_FindBodySection buf metaSection) in
      \<lparr> m_UID = fb_UID buf, m_MessageID = mid, m_From = from_hdr, m_Subject = subject,
        m_InternalDate = fb_InternalDate buf, m_Size = fb_RFC822Size buf, m_Flags = fb_Flags buf \<rparr>)"

text \<open>The \<open>for\<close> loops over \<open>cmd.Next()\<close> end when the library says that there is no more.\<close>

definition nextMessage :: "'w imapclient \<Rightarrow> nat \<Rightarrow> ('w conn, (gerr + FetchMessageBuffer) option) prog" where
  "nextMessage L cmd = (\<lambda>p. case ic_Next L cmd (snd p) of (r, w) \<Rightarrow> Some (Inr r, (fst p, w)))"

definition abortFetch :: "'w imapclient \<Rightarrow> nat \<Rightarrow> gerr \<Rightarrow> ('w conn, 'a) prog" where
  "abortFetch L cmd e = bindM (tryM (lib (ic_CloseFetch L cmd))) (\<lambda>_. throwM e)"

definition collectMetas :: "'w imapclient \<Rightarrow> nat \<Rightarrow> ('w conn, MsgMeta list) prog" where
  "collectMetas L cmd = untilM (\<lambda>metas.
     bindM (nextMessage L cmd) (\<lambda>r.
     case r of
       None \<Rightarrow> returnM (Inr metas)
     | Some (Inl e) \<Rightarrow> abortFetch L cmd (Wrap ''fetch metas: %w'' [] e)
     | Some (Inr buf) \<Rightarrow> returnM (Inl (metas @ [bufferMeta L buf])))) []"

definition metaOptions :: FetchOptions where
  "metaOptions = \<lparr> fo_UID = True, fo_InternalDate = True, fo_RFC822Size = True, fo_Flags = True,
     fo_BodySection = [metaSection] \<rparr>"

definition fetchMetas :: "'w imapclient \<Rightarrow> UIDSet \<Rightarrow> ('w conn, MsgMeta list) prog" where
  "fetchMetas L uidSet =
     bindM (lib (ic_Fetch L uidSet metaOptions)) (\<lambda>cmd.
     bindM (collectMetas L cmd) (\<lambda>metas.
     bindM (wrapM ''fetch metas: %w'' [] (lib (ic_CloseFetch L cmd))) (\<lambda>_.
     returnM (sort_key m_UID metas))))"

definition FetchMetaRange :: "'w imapclient \<Rightarrow> u32 \<Rightarrow> u32 \<Rightarrow> ('w conn, MsgMeta list) prog" where
  "FetchMetaRange L start stop = fetchMetas L (UIDRange start stop)"

definition fullOptions :: FetchOptions where
  "fullOptions = \<lparr> fo_UID = True, fo_InternalDate = True, fo_RFC822Size = False, fo_Flags = True,
     fo_BodySection = [fullSection] \<rparr>"

definition bufferFull :: "FetchMessageBuffer \<Rightarrow> FullMessage" where
  "bufferFull buf =
     \<lparr> f_UID = fb_UID buf, f_Raw = fb_FindBodySection buf fullSection, f_Flags = fb_Flags buf,
       f_InternalDate = fb_InternalDate buf \<rparr>"

text \<open>
  \<open>fn\<close> changes variables of the caller, the second component of the state; its error aborts the
  stream.
\<close>

definition conn_call :: "('w conn, 'a) prog \<Rightarrow> ('w conn \<times> 'x, 'a) prog" where
  "conn_call m = zoomM fst (\<lambda>p q. (p, snd q)) m"

definition callback :: "('x \<Rightarrow> 'a \<times> 'x) \<Rightarrow> ('w conn \<times> 'x, 'a) prog" where
  "callback f = (\<lambda>q. case f (snd q) of (a, x) \<Rightarrow> Some (Inr a, (fst q, x)))"

definition streamLoop ::
  "'w imapclient \<Rightarrow> nat \<Rightarrow> (FullMessage \<Rightarrow> 'x \<Rightarrow> gerr option \<times> 'x) \<Rightarrow> ('w conn \<times> 'x, unit) prog" where
  "streamLoop L cmd fn = untilM (\<lambda>_.
     bindM (conn_call (nextMessage L cmd)) (\<lambda>r.
     case r of
       None \<Rightarrow> returnM (Inr ())
     | Some (Inl e) \<Rightarrow> conn_call (abortFetch L cmd (Wrap ''fetch full stream: %w'' [] e))
     | Some (Inr buf) \<Rightarrow>
         (if fb_FindBodySection buf fullSection = [] then returnM (Inl ())
          else bindM (callback (fn (bufferFull buf))) (\<lambda>err.
            case err of
              None \<Rightarrow> returnM (Inl ())
            | Some e \<Rightarrow> conn_call (abortFetch L cmd e))))) ()"

definition FetchFullStream ::
  "'w imapclient \<Rightarrow> u32 list \<Rightarrow> (FullMessage \<Rightarrow> 'x \<Rightarrow> gerr option \<times> 'x) \<Rightarrow> ('w conn \<times> 'x, unit) prog" where
  "FetchFullStream L uids fn =
     (if uids = [] then returnM ()
      else bindM (conn_call (lib (ic_Fetch L (UIDSetNum uids) fullOptions))) (\<lambda>cmd.
        bindM (streamLoop L cmd fn) (\<lambda>_.
        wrapM ''fetch full stream: %w'' [] (conn_call (lib (ic_CloseFetch L cmd))))))"

text \<open>A stream whose callback keeps the messages: what the interface of the reconciler returns.\<close>

definition streamAll :: "'w imapclient \<Rightarrow> u32 list \<Rightarrow> ('w conn, FullMessage list \<times> gerr option) prog" where
  "streamAll L uids = (\<lambda>p.
     case FetchFullStream L uids (\<lambda>m ms. (None, ms @ [m])) (p, []) of
       None \<Rightarrow> None
     | Some (r, (p', ms)) \<Rightarrow>
         Some (Inr (ms, case r of Inl e \<Rightarrow> Some e | Inr _ \<Rightarrow> None), p'))"

definition FetchFull :: "'w imapclient \<Rightarrow> u32 \<Rightarrow> ('w conn, FullMessage) prog" where
  "FetchFull L uid = (\<lambda>p.
     case FetchFullStream L [uid] (\<lambda>m full. (None, if f_UID m = uid then Some m else full)) (p, None) of
       None \<Rightarrow> None
     | Some (Inl e, (p', _)) \<Rightarrow> Some (Inl (Wrap ''fetch full uid %d: %w'' [FormatUint (unat uid)] e), p')
     | Some (Inr _, (p', None)) \<Rightarrow>
         Some (Inl (Msg ''fetch full uid %d: message vanished or empty'' [FormatUint (unat uid)]), p')
     | Some (Inr _, (p', Some full)) \<Rightarrow> Some (Inr full, p'))"

section \<open>Searching\<close>

definition isBadResponse :: "gerr \<Rightarrow> bool" where
  "isBadResponse err = (case root_cause err of ImapErr t _ \<Rightarrow> t = StatusBAD | _ \<Rightarrow> False)"

definition messageIDCriteria :: "string \<Rightarrow> SearchCriteria" where
  "messageIDCriteria mid = SearchCriteria [(''Message-Id'', mid)] []"

text \<open>
  On an empty slice the recursion of the source does not end: both halves are empty again.
\<close>

partial_function (option) orMessageIDCriteria :: "string list \<Rightarrow> SearchCriteria option" where
  "orMessageIDCriteria ids =
     (if length ids = 1 then Some (messageIDCriteria (hd ids))
      else let mid = length ids div 2 in
        Option.bind (orMessageIDCriteria (take mid ids)) (\<lambda>l.
        Option.bind (orMessageIDCriteria (drop mid ids)) (\<lambda>r.
        Some (SearchCriteria [] [(l, r)]))))"

text \<open>
  The loop of \<open>SearchMessageIDsIn\<close>; \<open>rest\<close> is \<open>ids[i:]\<close>.  Only a BAD answer makes it try the same span
  again, with half the chunk.
\<close>

definition metaIDs :: "MsgMeta list \<Rightarrow> string set" where
  "metaIDs metas = set (filter (\<lambda>mid. mid \<noteq> []) (map m_MessageID metas))"

definition searchAnswer :: "'w imapclient \<Rightarrow> int \<Rightarrow> string list \<Rightarrow> string set \<Rightarrow> gerr + u32 list \<Rightarrow>
    ('w conn, (string list \<times> string set) + string set) prog" where
  "searchAnswer L chunk rest found r =
     (case r of
        Inl err \<Rightarrow>
          (if 1 < chunk \<and> isBadResponse err
           then bindM (assign (\<lambda>cl. cl\<lparr> cl_guardChunk := chunk div 2 \<rparr>)) (\<lambda>_. returnM (Inl (rest, found)))
           else failAt ''batch Message-ID search on %s: %w'' [] err)
      | Inr uids \<Rightarrow>
          (if uids = [] then returnM (Inl (drop (nat chunk) rest, found))
           else bindM (fetchMetas L (UIDSetNum uids)) (\<lambda>metas.
             returnM (Inl (drop (nat chunk) rest, found \<union> metaIDs metas)))))"

definition searchRound ::
  "'w imapclient \<Rightarrow> string list \<times> string set \<Rightarrow> ('w conn, (string list \<times> string set) + string set) prog" where
  "searchRound L v =
     (case v of (rest, found) \<Rightarrow>
      if rest = [] then returnM (Inr found)
      else
        bindM (field cl_guardChunk) (\<lambda>chunk.
        bindM (ofOption (orMessageIDCriteria (take (nat chunk) rest))) (\<lambda>crit.
        bindM (tryM (lib (ic_UIDSearch L crit))) (searchAnswer L chunk rest found))))"

definition SearchMessageIDsIn :: "'w imapclient \<Rightarrow> string \<Rightarrow> string list \<Rightarrow> ('w conn, string set) prog" where
  "SearchMessageIDsIn L folder ids =
     (if ids = [] then returnM {}
      else bindM (ensureSelected L folder) (\<lambda>_. untilM (searchRound L) (ids, {})))"

definition searchMessageID :: "'w imapclient \<Rightarrow> string \<Rightarrow> string \<Rightarrow> ('w conn, u32 list) prog" where
  "searchMessageID L folder messageID =
     bindM (ensureSelected L folder) (\<lambda>_.
     libAt ''search Message-ID on %s: %w'' [] (ic_UIDSearch L (messageIDCriteria messageID)))"

section \<open>Appending\<close>

definition WaitAppend :: "'w imapclient \<Rightarrow> pendingAppend \<Rightarrow> ('w conn, unit) prog" where
  "WaitAppend L p =
     wrapM ''append to %q on %s: %w'' [pa_folder p, pa_addr p] (lib (ic_WaitAppend L (pa_cmd p)))"

definition appendOptions :: "FullMessage \<Rightarrow> flag list \<Rightarrow> AppendOptions" where
  "appendOptions msg flags =
     \<lparr> ao_Flags = flags, ao_Time = (if IsZero (f_InternalDate msg) then None else Some (f_InternalDate msg)) \<rparr>"

definition BeginAppend :: "'w imapclient \<Rightarrow> string \<Rightarrow> FullMessage \<Rightarrow> flag list \<Rightarrow> ('w conn, pendingAppend) prog" where
  "BeginAppend L folder msg flags =
     bindM (lib (ic_Append L folder (int (length (f_Raw msg))) (appendOptions msg flags))) (\<lambda>cmd.
     bindM (tryM (lib (ic_Write L cmd (f_Raw msg)))) (\<lambda>r.
     case r of
       Inl e \<Rightarrow> bindM (tryM (lib (ic_CloseAppend L cmd))) (\<lambda>_. failAt ''append write to %s: %w'' [] e)
     | Inr _ \<Rightarrow>
         bindM (libAt ''append close to %s: %w'' [] (ic_CloseAppend L cmd)) (\<lambda>_.
         bindM (field cl_ep) (\<lambda>ep.
         returnM \<lparr> pa_cmd = cmd, pa_folder = folder, pa_addr = Addr ep \<rparr>))))"

definition AppendTo :: "'w imapclient \<Rightarrow> string \<Rightarrow> FullMessage \<Rightarrow> flag list \<Rightarrow> ('w conn, unit) prog" where
  "AppendTo L folder msg flags = bindM (BeginAppend L folder msg flags) (WaitAppend L)"

definition Append :: "'w imapclient \<Rightarrow> FullMessage \<Rightarrow> flag list \<Rightarrow> ('w conn, unit) prog" where
  "Append L msg flags = bindM (field cl_ep) (\<lambda>ep. AppendTo L (ep_Folder ep) msg flags)"

section \<open>Moving and storing flags\<close>

definition MoveMessageID :: "'w imapclient \<Rightarrow> string \<Rightarrow> string \<Rightarrow> string \<Rightarrow> ('w conn, bool) prog" where
  "MoveMessageID L fromFolder toFolder messageID =
     bindM (searchMessageID L fromFolder messageID) (\<lambda>uids.
     if uids = [] then returnM False
     else bindM (libAt ''move %q -> %q on %s: %w'' [fromFolder, toFolder]
                  (ic_Move L (UIDSetNum uids) toFolder)) (\<lambda>_. returnM True))"

definition MoveUIDs :: "'w imapclient \<Rightarrow> string \<Rightarrow> u32 list \<Rightarrow> string \<Rightarrow> ('w conn, unit) prog" where
  "MoveUIDs L fromFolder uids toFolder =
     (if uids = [] then returnM ()
      else bindM (ensureSelected L fromFolder) (\<lambda>_.
        bindM (libAt ''move %d uids %q -> %q on %s: %w'' [FormatUint (length uids), fromFolder, toFolder]
                 (ic_Move L (UIDSetNum uids) toFolder)) (\<lambda>_.
        assign (\<lambda>cl. cl\<lparr> cl_selected := [] \<rparr>))))"

definition storeFlags :: "'w imapclient \<Rightarrow> u32 list \<Rightarrow> StoreFlagsOp \<Rightarrow> flag list \<Rightarrow> ('w conn, unit) prog" where
  "storeFlags L uids op flags =
     libAt ''store keywords on %s: %w'' [] (ic_Store L (UIDSetNum uids) op flags)"

definition StoreKeywordByMessageID ::
  "'w imapclient \<Rightarrow> string \<Rightarrow> string \<Rightarrow> bool \<Rightarrow> flag \<Rightarrow> ('w conn, bool) prog" where
  "StoreKeywordByMessageID L folder messageID add kw =
     bindM (searchMessageID L folder messageID) (\<lambda>uids.
     if uids = [] then returnM False
     else bindM (storeFlags L uids (if add then StoreFlagsAdd else StoreFlagsDel) [kw]) (\<lambda>_. returnM True))"

definition StoreKeywordsUIDs :: "'w imapclient \<Rightarrow> u32 list \<Rightarrow> flag list \<Rightarrow> ('w conn, unit) prog" where
  "StoreKeywordsUIDs L uids kws =
     (if uids = [] \<or> kws = [] then returnM () else storeFlags L uids StoreFlagsAdd kws)"

definition Idle :: "'w imapclient \<Rightarrow> ('w conn, nat) prog" where
  "Idle L = lib (ic_Idle L)"

end
