(* ===== verification/Migrate.thy ===== *)
theory Migrate
  imports Store
begin

text \<open>
  Opening the state database (\<open>internal/state/migrate.go\<close> and \<open>Open\<close> of \<open>store.go\<close>): the file as an
  older binary left it, the migration scripts as lists of statements, one transaction per version, and
  what every outcome leaves behind.
\<close>

section \<open>The database file\<close>

text \<open>
  A table that does not exist is \<open>None\<close>.  \<open>fl_version\<close> is \<open>PRAGMA user_version\<close>; \<open>fl_labels\<close> are the
  rows \<open>(message_id, label)\<close> of schema 1.
\<close>

record dbfile =
  fl_version :: int
  fl_copied :: "KeyRecord list option"
  fl_meta :: "(string \<times> string) list option"
  fl_labels :: "(string \<times> string) list option"
  fl_folders :: "(string \<times> u32 \<times> u32) list option"
  fl_members :: "member_row list option"
  fl_pending :: "PendingOp list option"
  fl_seq :: int
  fl_indexes :: "string list"

definition empty_file :: dbfile where
  "empty_file = \<lparr> fl_version = 0, fl_copied = None, fl_meta = None, fl_labels = None, fl_folders = None,
     fl_members = None, fl_pending = None, fl_seq = 0, fl_indexes = [] \<rparr>"

type_synonym statement = "dbfile \<Rightarrow> dbfile option"

text \<open>\<open>CREATE TABLE IF NOT EXISTS\<close> keeps the rows of a table that is there.\<close>

definition if_not_exists :: "'a list option \<Rightarrow> 'a list option" where
  "if_not_exists t = (case t of None \<Rightarrow> Some [] | Some rows \<Rightarrow> Some rows)"

definition migration0 :: "statement list" where
  "migration0 =
     [\<lambda>f. Some (f\<lparr> fl_copied := if_not_exists (fl_copied f) \<rparr>),
      \<lambda>f. Some (f\<lparr> fl_meta := if_not_exists (fl_meta f) \<rparr>),
      \<lambda>f. Some (f\<lparr> fl_labels := if_not_exists (fl_labels f) \<rparr>),
      \<lambda>f. Some (f\<lparr> fl_folders := if_not_exists (fl_folders f) \<rparr>)]"

definition create_index :: "string \<Rightarrow> statement" where
  "create_index name f =
     (if name \<in> set (fl_indexes f) then None else Some (f\<lparr> fl_indexes := fl_indexes f @ [name] \<rparr>))"

definition label_member :: "string \<times> string \<Rightarrow> member_row" where
  "label_member p = \<lparr> mr_folder = snd p, mr_message_id = fst p, mr_uid = 0 \<rparr>"

text \<open>
  The insert fails, like any insert, on two rows with one primary key; \<open>labels\<close> has the same two
  columns as its key.
\<close>

definition migration1 :: "statement list" where
  "migration1 =
     [\<lambda>f. (case fl_members f of None \<Rightarrow> Some (f\<lparr> fl_members := Some [] \<rparr>) | Some _ \<Rightarrow> None),
      create_index ''idx_members_message_id'',
      create_index ''idx_members_folder_uid'',
      \<lambda>f. (case fl_pending f of None \<Rightarrow> Some (f\<lparr> fl_pending := Some [], fl_seq := 0 \<rparr>) | Some _ \<Rightarrow> None),
      \<lambda>f. (case (fl_labels f, fl_members f) of
          (Some ls, Some ms) \<Rightarrow>
            (if distinct (map (\<lambda>q. (mr_folder q, mr_message_id q)) (ms @ map label_member ls))
             then Some (f\<lparr> fl_members := Some (ms @ map label_member ls) \<rparr>) else None)
        | _ \<Rightarrow> None),
      \<lambda>f. (case fl_labels f of None \<Rightarrow> None | Some _ \<Rightarrow> Some (f\<lparr> fl_labels := None \<rparr>)),
      \<lambda>f. (case fl_folders f of None \<Rightarrow> None | Some _ \<Rightarrow> Some (f\<lparr> fl_folders := Some [] \<rparr>))]"

definition migrations :: "statement list list" where
  "migrations = [migration0, migration1]"

definition schemaVersion :: int where
  "schemaVersion = 2"

section \<open>Running the migrations\<close>

text \<open>
  The state is the file and the outside world, which decides through \<open>rt_sql\<close> whether the driver
  carries a statement out.
\<close>

type_synonym 'w mst = "dbfile \<times> 'w"

definition driver :: "'w runtime \<Rightarrow> ('w mst, unit) prog" where
  "driver rt = (\<lambda>p. case rt_sql rt (snd p) of
      (Some e, w) \<Rightarrow> Some (Inl e, (fst p, w))
    | (None, w) \<Rightarrow> Some (Inr (), (fst p, w)))"

definition exec_statement :: "'w runtime \<Rightarrow> statement \<Rightarrow> ('w mst, unit) prog" where
  "exec_statement rt st =
     bindM (driver rt) (\<lambda>_. \<lambda>p. case st (fst p) of
         None \<Rightarrow> Some (Inl (SqlErr ''SQL logic error''), p)
       | Some f \<Rightarrow> Some (Inr (), (f, snd p)))"

definition migrateStep :: "'w runtime \<Rightarrow> int \<Rightarrow> ('w mst, unit) prog" where
  "migrateStep rt v = (\<lambda>p.
     case bindM (driver rt) (\<lambda>_.
        bindM (if 0 \<le> v \<and> nat v < length migrations
               then forM (migrations ! nat v) (exec_statement rt)
               else throwM (Msg ''index out of range'' [FormatInt v])) (\<lambda>_.
        bindM (wrapM ''bump user_version: %w'' []
                (exec_statement rt (\<lambda>f. Some (f\<lparr> fl_version := v + 1 \<rparr>)))) (\<lambda>_.
        driver rt))) p
     of None \<Rightarrow> None
      | Some (Inl e, p') \<Rightarrow> Some (Inl e, (fst p, snd p'))
      | Some (Inr u, p') \<Rightarrow> Some (Inr u, p'))"

definition migrate :: "'w runtime \<Rightarrow> ('w mst, unit) prog" where
  "migrate rt =
     bindM (wrapM ''read schema version: %w'' [] (driver rt)) (\<lambda>_.
     bindM (getM (\<lambda>p. fl_version (fst p))) (\<lambda>version.
     if schemaVersion < version
     then throwM (Msg ''state db has schema version %d, but this binary supports at most %d''
            [FormatInt version, FormatInt schemaVersion])
     else forM (upto version (schemaVersion - 1)) (\<lambda>v.
       wrapM ''migrate schema v%d -> v%d: %w'' [FormatInt v, FormatInt (v + 1)] (migrateStep rt v))))"

text \<open>The tables of schema 2, which the methods of the store work on.\<close>

definition tables :: "dbfile \<Rightarrow> db option" where
  "tables f =
     (case (fl_copied f, fl_meta f, fl_members f, fl_pending f, fl_folders f) of
        (Some c, Some m, Some ms, Some p, Some fs) \<Rightarrow>
          Some \<lparr> db_copied = c, db_meta = m, db_members = ms, db_pending = p, db_seq = fl_seq f, db_folders = fs \<rparr>
      | _ \<Rightarrow> None)"

text \<open>\<open>Open\<close>: the \<open>Store\<close> it returns is a handle on the file; \<open>os_open\<close> is the \<open>sql.Open\<close> of the driver.\<close>

definition Open :: "'w runtime \<Rightarrow> ('w mst, unit) prog \<Rightarrow> ('w mst, unit) prog" where
  "Open rt os_open =
     bindM (wrapM ''open state db: %w'' [] os_open) (\<lambda>_.
     wrapM ''migrate state db: %w'' [] (migrate rt))"

section \<open>What a migration leaves behind\<close>

text \<open>The effect of a script that runs to its end.\<close>

fun run_script :: "statement list \<Rightarrow> dbfile \<Rightarrow> dbfile option" where
  "run_script [] f = Some f"
| "run_script (st # sts) f = Option.bind (st f) (run_script sts)"

definition step_file :: "int \<Rightarrow> dbfile \<Rightarrow> dbfile option" where
  "step_file v f = map_option (\<lambda>f'. f'\<lparr> fl_version := v + 1 \<rparr>) (run_script (migrations ! nat v) f)"

lemma driver_steps: "steps (\<lambda>p p'. fst p' = fst p) (driver rt)"
  by (auto simp: steps_def driver_def split: prod.splits option.splits)

lemma driver_file: "driver rt p = Some (r, p') \<Longrightarrow> fst p' = fst p"
  using stepsD [OF driver_steps] .

lemma exec_statement_Inr:
  "exec_statement rt st p = Some (Inr u, p') \<Longrightarrow> st (fst p) = Some (fst p')"
  by (auto simp: exec_statement_def elim!: bindM_InrE dest!: driver_file split: option.splits)

lemma forM_script:
  "forM sts (exec_statement rt) p = Some (Inr u, p') \<Longrightarrow> run_script sts (fst p) = Some (fst p')"
proof (induction sts arbitrary: p)
  case Nil
  then show ?case by (simp add: returnM_def)
next
  case (Cons st sts)
  then show ?case by (auto elim!: bindM_InrE dest!: exec_statement_Inr)
qed

lemma migrateStep_cases:
  assumes "migrateStep rt v p = Some (r, p')"
  shows "(\<exists>e. r = Inl e) \<and> fst p' = fst p \<or> r = Inr () \<and> 0 \<le> v \<and> v < 2 \<and> step_file v (fst p) = Some (fst p')"
proof (cases r)
  case (Inl e)
  then show ?thesis
    using assms by (auto simp: migrateStep_def split: option.splits sum.splits prod.splits)
next
  case (Inr u)
  let ?body = "bindM (driver rt) (\<lambda>_.
        bindM (if 0 \<le> v \<and> nat v < length migrations
               then forM (migrations ! nat v) (exec_statement rt)
               else throwM (Msg ''index out of range'' [FormatInt v])) (\<lambda>_.
        bindM (wrapM ''bump user_version: %w'' []
                (exec_statement rt (\<lambda>f. Some (f\<lparr> fl_version := v + 1 \<rparr>)))) (\<lambda>_.
        driver rt)))"
  have body: "?body p = Some (Inr (), p')"
    using assms Inr by (auto simp: migrateStep_def split: option.splits sum.splits prod.splits)
  then obtain p1 where d1: "driver rt p = Some (Inr (), p1)"
    and 1: "bindM (if 0 \<le> v \<and> nat v < length migrations
               then forM (migrations ! nat v) (exec_statement rt)
               else throwM (Msg ''index out of range'' [FormatInt v])) (\<lambda>_.
        bindM (wrapM ''bump user_version: %w'' []
                (exec_statement rt (\<lambda>f. Some (f\<lparr> fl_version := v + 1 \<rparr>)))) (\<lambda>_.
        driver rt)) p1 = Some (Inr (), p')"
    by (auto elim!: bindM_InrE)
  then obtain p2 where v: "0 \<le> v \<and> nat v < length migrations"
    and script: "forM (migrations ! nat v) (exec_statement rt) p1 = Some (Inr (), p2)"
    and 2: "bindM (wrapM ''bump user_version: %w'' []
                (exec_statement rt (\<lambda>f. Some (f\<lparr> fl_version := v + 1 \<rparr>)))) (\<lambda>_. driver rt) p2 = Some (Inr (), p')"
    by (auto elim!: bindM_InrE simp: throwM_def split: if_splits)
  then obtain p3 where bump: "exec_statement rt (\<lambda>f. Some (f\<lparr> fl_version := v + 1 \<rparr>)) p2 = Some (Inr (), p3)"
    and d3: "driver rt p3 = Some (Inr (), p')"
    by (auto elim!: bindM_InrE simp: wrapM_def split: option.splits sum.splits prod.splits)
  have "run_script (migrations ! nat v) (fst p) = Some (fst p2)"
    using forM_script [OF script] driver_file [OF d1] by simp
  moreover have "fst p' = (fst p2)\<lparr> fl_version := v + 1 \<rparr>"
    using exec_statement_Inr [OF bump] driver_file [OF d3] by simp
  ultimately show ?thesis
    using v Inr by (auto simp: step_file_def migrations_def)
qed

text \<open>The file after the migrations up to version \<open>n\<close>.\<close>

definition upgrade :: "int \<Rightarrow> dbfile \<Rightarrow> dbfile option" where
  "upgrade n f = fold (\<lambda>v r. Option.bind r (step_file v)) (upto (fl_version f) (n - 1)) (Some f)"

lemma upgrade_same: "n \<le> fl_version f \<Longrightarrow> upgrade n f = Some f"
  by (simp add: upgrade_def)

lemma upgrade_next:
  assumes "fl_version f \<le> v" and "upgrade v f = Some g"
  shows "upgrade (v + 1) f = step_file v g"
proof -
  have "upto (fl_version f) (v + 1 - 1) = upto (fl_version f) (v - 1) @ [v]"
    using assms(1) by (simp add: upto_rec2)
  then show ?thesis using assms(2) by (simp add: upgrade_def)
qed

lemma migrate_loop:
  assumes "fl_version f \<le> v" and "v \<le> n"
  shows "hoare (\<lambda>p. upgrade v f = Some (fst p))
     (forM (upto v (n - 1)) (\<lambda>v. wrapM fmt (args v) (migrateStep rt v)))
     (\<lambda>_ p. upgrade n f = Some (fst p)) (\<lambda>_ p. \<exists>k \<ge> v. k \<le> n \<and> upgrade k f = Some (fst p))"
  using assms
proof (induction "nat (n - v)" arbitrary: v)
  case 0
  then show ?case by (auto simp: hoare_def returnM_def)
next
  case (Suc m)
  then have eq: "upto v (n - 1) = v # upto (v + 1) (n - 1)"
    by (simp add: upto_rec1)
  have step: "hoare (\<lambda>p. upgrade v f = Some (fst p)) (migrateStep rt v)
      (\<lambda>_ p. upgrade (v + 1) f = Some (fst p)) (\<lambda>_ p. upgrade v f = Some (fst p))"
    using Suc.prems(1) by (auto intro!: hoareI dest!: migrateStep_cases simp: upgrade_next)
  have rest: "hoare (\<lambda>p. upgrade (v + 1) f = Some (fst p))
      (forM (upto (v + 1) (n - 1)) (\<lambda>v. wrapM fmt (args v) (migrateStep rt v)))
      (\<lambda>_ p. upgrade n f = Some (fst p)) (\<lambda>_ p. \<exists>k \<ge> v + 1. k \<le> n \<and> upgrade k f = Some (fst p))"
    using Suc by simp
  have 1: "hoare (\<lambda>p. upgrade v f = Some (fst p)) (wrapM fmt (args v) (migrateStep rt v))
      (\<lambda>_ p. upgrade (v + 1) f = Some (fst p)) (\<lambda>_ p. \<exists>k \<ge> v. k \<le> n \<and> upgrade k f = Some (fst p))"
    by (rule hoare_wrapM, rule hoare_conseq [OF step]) (use Suc.hyps(2) in force)+
  have below: "v \<le> k" if "v + 1 \<le> k" for k
    using that by simp
  have 2: "hoare (\<lambda>p. upgrade (v + 1) f = Some (fst p))
      (forM (upto (v + 1) (n - 1)) (\<lambda>v. wrapM fmt (args v) (migrateStep rt v)))
      (\<lambda>_ p. upgrade n f = Some (fst p)) (\<lambda>_ p. \<exists>k \<ge> v. k \<le> n \<and> upgrade k f = Some (fst p))"
    by (rule hoare_conseq [OF rest]) (use below in blast)+
  show ?case
    unfolding eq forM.simps by (rule hoare_bindM [OF 1 2])
qed

text \<open>Where a migration of \<open>f\<close> may have stopped.\<close>

definition stopped_at :: "dbfile \<Rightarrow> dbfile \<Rightarrow> bool" where
  "stopped_at f g \<longleftrightarrow> (\<exists>k \<ge> fl_version f. k \<le> max 2 (fl_version f) \<and> upgrade k f = Some g)"

lemma stopped_at_start: "stopped_at f f"
  unfolding stopped_at_def by (intro exI [of _ "fl_version f"]) (simp add: upgrade_same)

lemma migrate_steps:
  assumes "fl_version f \<le> 2"
  shows "hoare (\<lambda>p. fst p = f) (forM (upto (fl_version f) (schemaVersion - 1)) (\<lambda>v. wrapM fmt (args v) (migrateStep rt v)))
     (\<lambda>_ p. fl_version f \<le> 2 \<and> upgrade 2 f = Some (fst p)) (\<lambda>_ p. stopped_at f (fst p))"
proof -
  have "hoare (\<lambda>p. fst p = f) (forM (upto (fl_version f) (schemaVersion - 1)) (\<lambda>v. wrapM fmt (args v) (migrateStep rt v)))
     (\<lambda>_ p. upgrade 2 f = Some (fst p)) (\<lambda>_ p. \<exists>k \<ge> fl_version f. k \<le> 2 \<and> upgrade k f = Some (fst p))"
    unfolding schemaVersion_def by (rule hoare_pre [OF migrate_loop]) (use assms in \<open>simp_all add: upgrade_same\<close>)
  then show ?thesis by (rule hoare_conseq) (use assms in \<open>auto simp: stopped_at_def\<close>)
qed

lemma read_version: "hoare (\<lambda>p. fst p = f) (wrapM fmt args (driver rt)) (\<lambda>_ p. fst p = f) (\<lambda>_ p. stopped_at f (fst p))"
  by (rule hoare_wrapM, rule hoareI) (auto dest: driver_file simp: stopped_at_start)

text \<open>
  C24. A migration that is cut short, by a failing statement or a crash, leaves the file as some of the
  migrations in order have made it, each complete; one that succeeds has run all of them, and a
  database of a newer binary is left untouched.
\<close>

theorem migrate_whole_steps:
  "hoare (\<lambda>p. fst p = f) (migrate rt)
     (\<lambda>_ p. fl_version f \<le> 2 \<and> upgrade 2 f = Some (fst p))
     (\<lambda>_ p. \<exists>k \<ge> fl_version f. k \<le> max 2 (fl_version f) \<and> upgrade k f = Some (fst p))"
proof -
  have rest: "hoare (\<lambda>p. fst p = f \<and> version = fl_version f)
      (if schemaVersion < version
       then throwM (Msg ''state db has schema version %d, but this binary supports at most %d''
              [FormatInt version, FormatInt schemaVersion])
       else forM (upto version (schemaVersion - 1)) (\<lambda>v.
         wrapM ''migrate schema v%d -> v%d: %w'' [FormatInt v, FormatInt (v + 1)] (migrateStep rt v)))
      (\<lambda>_ p. fl_version f \<le> 2 \<and> upgrade 2 f = Some (fst p)) (\<lambda>_ p. stopped_at f (fst p))" for version
  proof (rule hoare_pure)
    assume v: "version = fl_version f"
    show "hoare (\<lambda>p. fst p = f) (if schemaVersion < version
       then throwM (Msg ''state db has schema version %d, but this binary supports at most %d''
              [FormatInt version, FormatInt schemaVersion])
       else forM (upto version (schemaVersion - 1)) (\<lambda>v.
         wrapM ''migrate schema v%d -> v%d: %w'' [FormatInt v, FormatInt (v + 1)] (migrateStep rt v)))
      (\<lambda>_ p. fl_version f \<le> 2 \<and> upgrade 2 f = Some (fst p)) (\<lambda>_ p. stopped_at f (fst p))"
      unfolding v
    proof (rule hoare_if)
      show "hoare (\<lambda>p. fst p = f) (throwM e) Q (\<lambda>_ p. stopped_at f (fst p))" for e Q
        by (simp add: hoare_def throwM_def stopped_at_start)
    qed (rule migrate_steps, simp add: schemaVersion_def)
  qed
  have "hoare (\<lambda>p. fst p = f) (migrate rt) (\<lambda>_ p. fl_version f \<le> 2 \<and> upgrade 2 f = Some (fst p)) (\<lambda>_ p. stopped_at f (fst p))"
    unfolding migrate_def
    by (rule hoare_bindM [OF read_version], rule hoare_bindM [OF hoare_pre [OF hoare_getM] rest]) simp
  then show ?thesis by (rule hoare_conseq) (auto simp: stopped_at_def)
qed

section \<open>What is kept\<close>

definition rows :: "'a list option \<Rightarrow> 'a list" where
  "rows t = (case t of None \<Rightarrow> [] | Some r \<Rightarrow> r)"

text \<open>A file as a binary of schema 1, or one without migrations, leaves it, or an empty one.\<close>

definition legacy :: "dbfile \<Rightarrow> bool" where
  "legacy f \<longleftrightarrow> fl_members f = None \<and> fl_pending f = None \<and> fl_indexes f = [] \<and>
     distinct (rows (fl_labels f)) \<and>
     (fl_version f = 0 \<or> fl_version f = 1 \<and>
        fl_copied f \<noteq> None \<and> fl_meta f \<noteq> None \<and> fl_labels f \<noteq> None \<and> fl_folders f \<noteq> None)"

definition migrated :: "dbfile \<Rightarrow> db" where
  "migrated f = \<lparr> db_copied = rows (fl_copied f), db_meta = rows (fl_meta f),
     db_members = map label_member (rows (fl_labels f)), db_pending = [], db_seq = 0, db_folders = [] \<rparr>"

lemma distinct_label_members:
  "distinct (map (\<lambda>q. (mr_folder q, mr_message_id q)) (map label_member ls)) \<longleftrightarrow> distinct ls"
proof -
  have "map (\<lambda>q. (mr_folder q, mr_message_id q)) (map label_member ls) = map (\<lambda>(a, b). (b, a)) ls"
    by (simp add: label_member_def case_prod_beta)
  then show ?thesis by (auto simp: distinct_map inj_on_def split_beta prod_eq_iff)
qed

lemma step_file_0:
  "step_file 0 f = Some (f\<lparr> fl_version := 1, fl_copied := Some (rows (fl_copied f)), fl_meta := Some (rows (fl_meta f)),
     fl_labels := Some (rows (fl_labels f)), fl_folders := Some (rows (fl_folders f)) \<rparr>)"
  by (simp add: step_file_def migrations_def migration0_def if_not_exists_def rows_def split: option.split)

lemma step_file_1:
  assumes "fl_members f = None" and "fl_pending f = None" and "fl_indexes f = []"
    and "fl_labels f = Some ls" and "distinct ls" and "fl_folders f = Some fs"
  shows "step_file 1 f = Some (f\<lparr> fl_version := 2, fl_labels := None, fl_folders := Some [],
     fl_members := Some (map label_member ls), fl_pending := Some [], fl_seq := 0,
     fl_indexes := [''idx_members_message_id'', ''idx_members_folder_uid''] \<rparr>)"
  using assms distinct_label_members [of ls]
  by (simp add: step_file_def migrations_def migration1_def create_index_def)

lemma upgrade_legacy:
  assumes "legacy f"
  shows "\<exists>f'. upgrade 2 f = Some f' \<and> tables f' = Some (migrated f) \<and> fl_version f' = 2"
proof -
  have two: "\<exists>f'. step_file 1 g = Some f' \<and> tables f' = Some (migrated f) \<and> fl_version f' = 2"
    if "fl_copied g = Some (rows (fl_copied f))" "fl_meta g = Some (rows (fl_meta f))"
      "fl_labels g = Some (rows (fl_labels f))" "fl_folders g = Some fs"
      "fl_members g = None" "fl_pending g = None" "fl_indexes g = []" for g fs
    using step_file_1 [of g "rows (fl_labels f)" fs] that assms
    by (auto simp: tables_def migrated_def legacy_def)
  show ?thesis
  proof (cases "fl_version f = 0")
    case True
    then have "upgrade 2 f = Option.bind (step_file 0 f) (step_file 1)"
      by (simp add: upgrade_def upto.simps)
    then show ?thesis
      using two [of "the (step_file 0 f)"] assms by (simp add: step_file_0 legacy_def)
  next
    case False
    then have v: "fl_version f = 1" and some: "fl_copied f \<noteq> None" "fl_meta f \<noteq> None" "fl_labels f \<noteq> None"
      "fl_folders f \<noteq> None" using assms by (simp_all add: legacy_def)
    have "upgrade 2 f = step_file 1 f"
      using v by (simp add: upgrade_def upto.simps)
    then show ?thesis
      using two [of f "rows (fl_folders f)"] assms some by (auto simp: legacy_def rows_def)
  qed
qed

text \<open>With a driver that carries everything out, migrating runs to its end.\<close>

lemma driver_ok: "fst (rt_sql rt w) = None \<Longrightarrow> driver rt (f, w) = Some (Inr (), (f, snd (rt_sql rt w)))"
  by (cases "rt_sql rt w") (simp add: driver_def)

lemma forM_ok:
  assumes ok: "\<And>w. fst (rt_sql rt w) = None"
  shows "run_script sts f = Some f' \<Longrightarrow> \<exists>w'. forM sts (exec_statement rt) (f, w) = Some (Inr (), (f', w'))"
proof (induction sts arbitrary: f w)
  case (Cons st sts)
  then obtain g where g: "st f = Some g" "run_script sts g = Some f'" by (cases "st f") auto
  from Cons.IH [OF g(2)] g(1) driver_ok [OF ok] show ?case
    by (auto simp: exec_statement_def)
qed (simp add: returnM_def)

lemma migrateStep_ok:
  assumes ok: "\<And>w. fst (rt_sql rt w) = None" and "v = 0 \<or> v = 1" and "step_file v f = Some f'"
  shows "\<exists>w'. migrateStep rt v (f, w) = Some (Inr (), (f', w'))"
proof -
  from assms(3) obtain g where g: "run_script (migrations ! nat v) f = Some g" "f' = g\<lparr> fl_version := v + 1 \<rparr>"
    by (auto simp: step_file_def)
  have v: "0 \<le> v \<and> nat v < length migrations" using assms(2) by (auto simp: migrations_def)
  obtain w' where s: "forM (migrations ! nat v) (exec_statement rt) (f, snd (rt_sql rt w)) = Some (Inr (), (g, w'))"
    using forM_ok [OF ok g(1)] by blast
  show ?thesis
    unfolding migrateStep_def if_P [OF v]
    using s driver_ok [OF ok] g(2) by (simp add: exec_statement_def wrapM_def)
qed

lemma migrate_ok:
  assumes ok: "\<And>w. fst (rt_sql rt w) = None" and "fl_version f \<in> {0, 1, 2}" and "upgrade 2 f = Some f'"
  shows "\<exists>w'. migrate rt (f, w) = Some (Inr (), (f', w'))"
proof -
  have loop: "\<exists>w'. forM (upto v 1) (\<lambda>v. wrapM fmt (args v) (migrateStep rt v)) (g, w) = Some (Inr (), (f', w'))"
    if script: "fold (\<lambda>v r. Option.bind r (step_file v)) (upto v 1) (Some g) = Some f'" and v: "v \<in> {0, 1, 2}" for v g fmt args w
  proof -
    have one: "\<exists>w'. wrapM fmt (args v) (migrateStep rt v) (h, w) = Some (Inr (), (h', w'))"
      if "step_file v h = Some h'" "v = 0 \<or> v = 1" for v h h' w
      using migrateStep_ok [OF ok that(2,1), of w] by (auto simp: wrapM_def)
    from v have "v = 2 \<or> v = 1 \<or> v = 0" by auto
    then show ?thesis
    proof (elim disjE)
      assume 1: "v = 2"
      then show ?thesis using script 1 by (simp add: returnM_def)
    next
      assume "v = 1"
      then show ?thesis using one [of 1 g f' w] script by (auto simp: upto.simps returnM_def)
    next
      assume 3: "v = 0"
      then obtain h where h: "step_file 0 g = Some h" "step_file 1 h = Some f'"
        using script by (cases "step_file 0 g") (auto simp: upto.simps)
      obtain w1 where w1: "wrapM fmt (args 0) (migrateStep rt 0) (g, w) = Some (Inr (), (h, w1))"
        using one [OF h(1)] by blast
      obtain w2 where w2: "wrapM fmt (args 1) (migrateStep rt 1) (h, w1) = Some (Inr (), (f', w2))"
        using one [OF h(2)] by blast
      show ?thesis using 3 w1 w2 by (auto simp: upto.simps returnM_def)
    qed
  qed
  have "migrate rt (f, w) = forM (upto (fl_version f) 1) (\<lambda>v.
      wrapM ''migrate schema v%d -> v%d: %w'' [FormatInt v, FormatInt (v + 1)] (migrateStep rt v)) (f, snd (rt_sql rt w))"
    using driver_ok [OF ok, of f w] assms(2)
    by (auto simp: migrate_def wrapM_def schemaVersion_def bindM_getM)
  then show ?thesis
    using loop [of "fl_version f" f] assms(2,3) by (simp add: upgrade_def)
qed

text \<open>
  C25. Opening the state of any older binary succeeds when the driver does, and loses nothing the dedup
  depends on: the copied keys and the marks are those of the file, every label becomes a membership
  that no removal by UID can touch, and every folder is scanned anew.
\<close>

theorem migrate_keeps_state:
  assumes "legacy f" and "\<And>w. fst (rt_sql rt w) = None"
  shows "\<exists>f' w'. migrate rt (f, w) = Some (Inr (), (f', w')) \<and> tables f' = Some (migrated f) \<and>
     fl_version f' = 2 \<and> (\<forall>folder. uid_rows (migrated f) folder = [] \<and> folder_state (migrated f) folder = (0, 0))"
proof -
  obtain f' where f': "upgrade 2 f = Some f'" "tables f' = Some (migrated f)" "fl_version f' = 2"
    using upgrade_legacy [OF assms(1)] by blast
  have "fl_version f \<in> {0, 1, 2}" using assms(1) by (auto simp: legacy_def)
  then obtain w' where "migrate rt (f, w) = Some (Inr (), (f', w'))"
    using migrate_ok [OF assms(2) _ f'(1)] by blast
  moreover have "uid_rows (migrated f) folder = [] \<and> folder_state (migrated f) folder = (0, 0)" for folder
    by (auto simp: uid_rows_def folder_state_def migrated_def label_member_def filter_empty_conv)
  ultimately show ?thesis using f'(2,3) by blast
qed

definition steady_runtime :: "unit runtime" where
  "steady_runtime = \<lparr> rt_sql = (\<lambda>w. (None, w)), rt_ctx = (\<lambda>w. (None, w)), rt_now = (\<lambda>w. (0, w)),
     rt_perm = (\<lambda>w. ([], w)), rt_sha256 = id, rt_lower = id \<rparr>"

definition old_file :: dbfile where
  "old_file = empty_file\<lparr> fl_copied := Some [\<lparr> kr_Key = ''<a@b>'', kr_UID = 7, kr_CopiedAtUnix = 1 \<rparr>],
     fl_meta := Some [(''last_uid'', ''7'')], fl_labels := Some [(''<a@b>'', ''Work'')],
     fl_folders := Some [(''Work'', 3, 9)] \<rparr>"

theorem migrate_keeps_state_witness:
  "legacy old_file \<and> (\<exists>f' w'. migrate steady_runtime (old_file, ()) = Some (Inr (), (f', w')) \<and>
     tables f' = Some \<lparr> db_copied = [\<lparr> kr_Key = ''<a@b>'', kr_UID = 7, kr_CopiedAtUnix = 1 \<rparr>],
       db_meta = [(''last_uid'', ''7'')],
       db_members = [\<lparr> mr_folder = ''Work'', mr_message_id = ''<a@b>'', mr_uid = 0 \<rparr>],
       db_pending = [], db_seq = 0, db_folders = [] \<rparr>)"
proof -
  have l: "legacy old_file" by (simp add: legacy_def old_file_def empty_file_def rows_def)
  have "migrated old_file = \<lparr> db_copied = [\<lparr> kr_Key = ''<a@b>'', kr_UID = 7, kr_CopiedAtUnix = 1 \<rparr>],
       db_meta = [(''last_uid'', ''7'')],
       db_members = [\<lparr> mr_folder = ''Work'', mr_message_id = ''<a@b>'', mr_uid = 0 \<rparr>],
       db_pending = [], db_seq = 0, db_folders = [] \<rparr>"
    by (simp add: migrated_def old_file_def empty_file_def rows_def label_member_def)
  then show ?thesis
    using migrate_keeps_state [OF l, of steady_runtime "()"] l by (auto simp: steady_runtime_def)
qed

end
