(* ===== verification/Session.thy ===== *)
theory Session
  imports Mirror Imapx Migrate
begin

text \<open>
  One mirror (\<open>internal/mirror/mirror.go\<close>): the IMAP clients wired to the reconciler, a session (connect,
  seed, reconcile, idle), and the supervision loop with its backoff.
\<close>

section \<open>The parts of a mirror\<close>

text \<open>
  The world a reconciler of a session sees: the two client structs, the heartbeat, the time of the last
  progress line in the log, and the outside world, which the calls of the IMAP library, the database
  driver and the clock change.
\<close>

record 'w links =
  ln_src :: Client
  ln_dst :: Client
  ln_heartbeat :: int
  ln_lastLog :: int
  ln_net :: 'w

text \<open>
  \<open>pl_clock\<close> is the monotonic clock in nanoseconds; \<open>pl_wait d\<close> the select that waits for a push of
  the source, the timer \<open>d\<close> or the end of the context; \<open>pl_sleep d\<close> the select on \<open>time.After\<close> and the
  context.
\<close>

record 'w platform =
  pl_src :: "'w imapclient"
  pl_dst :: "'w imapclient"
  pl_rt :: "'w runtime"
  pl_clock :: "'w \<Rightarrow> duration \<times> 'w"
  pl_wait :: "duration \<Rightarrow> 'w \<Rightarrow> 'w"
  pl_sleep :: "duration \<Rightarrow> 'w \<Rightarrow> 'w"

definition net :: "('w, 'a) prog \<Rightarrow> ('w links, 'a) prog" where
  "net m = zoomM ln_net (\<lambda>w l. l\<lparr> ln_net := w \<rparr>) m"

definition on_src :: "('w conn, 'a) prog \<Rightarrow> ('w links, 'a) prog" where
  "on_src m = zoomM (\<lambda>l. (ln_src l, ln_net l)) (\<lambda>p l. l\<lparr> ln_src := fst p, ln_net := snd p \<rparr>) m"

definition on_dst :: "('w conn, 'a) prog \<Rightarrow> ('w links, 'a) prog" where
  "on_dst m = zoomM (\<lambda>l. (ln_dst l, ln_net l)) (\<lambda>p l. l\<lparr> ln_dst := fst p, ln_net := snd p \<rparr>) m"

definition wire_source :: "'w imapclient \<Rightarrow> 'w links Source" where
  "wire_source L =
     \<lparr> src_SelectFolder = on_src (SelectFolder L),
       src_SelectNamedFolder = (\<lambda>name. on_src (SelectNamedFolder L name)),
       src_ListFolders = on_src (ListFolders L),
       src_SearchAllUIDs = on_src (SearchAllUIDs L),
       src_FetchMetaRange = (\<lambda>a b. on_src (FetchMetaRange L a b)),
       src_FetchFullStream = (\<lambda>us. on_src (streamAll L us)) \<rparr>"

definition wire_dest :: "'w imapclient \<Rightarrow> 'w links Dest" where
  "wire_dest L =
     \<lparr> dst_SelectNamedFolder = (\<lambda>name. on_dst (SelectNamedFolder L name)),
       dst_FetchMetaRange = (\<lambda>a b. on_dst (FetchMetaRange L a b)),
       dst_SearchMessageIDsIn = (\<lambda>folder ids. on_dst (SearchMessageIDsIn L folder ids)),
       dst_AppendTo = (\<lambda>folder msg flags. on_dst (AppendTo L folder msg flags)),
       dst_BeginAppend = (\<lambda>folder msg flags. on_dst (BeginAppend L folder msg flags)),
       dst_WaitAppend = (\<lambda>p. on_dst (WaitAppend L p)),
       dst_MoveMessageID = (\<lambda>a b mid. on_dst (MoveMessageID L a b mid)),
       dst_MoveUIDs = (\<lambda>a uids b. on_dst (MoveUIDs L a uids b)),
       dst_StoreKeywordByMessageID = (\<lambda>folder mid add kw. on_dst (StoreKeywordByMessageID L folder mid add kw)),
       dst_StoreKeywordsUIDs = (\<lambda>uids kws. on_dst (StoreKeywordsUIDs L uids kws)),
       dst_SupportsArbitraryKeywords = (\<lambda>l. SupportsArbitraryKeywords (ln_dst l)) \<rparr>"

definition on_net :: "('w \<Rightarrow> 'a \<times> 'w) \<Rightarrow> 'w links \<Rightarrow> 'a \<times> 'w links" where
  "on_net f l = (case f (ln_net l) of (a, w) \<Rightarrow> (a, l\<lparr> ln_net := w \<rparr>))"

definition wire_runtime :: "'w runtime \<Rightarrow> 'w links runtime" where
  "wire_runtime rt = \<lparr> rt_sql = on_net (rt_sql rt), rt_ctx = on_net (rt_ctx rt), rt_now = on_net (rt_now rt),
     rt_perm = on_net (rt_perm rt), rt_sha256 = rt_sha256 rt, rt_lower = rt_lower rt \<rparr>"

section \<open>Options of a session\<close>

text \<open>\<open>onProgress\<close>: the heartbeat, and a log line at most every thirty seconds.\<close>

definition onProgress :: "'w runtime \<Rightarrow> string \<Rightarrow> string \<Rightarrow> int \<Rightarrow> 'w links \<Rightarrow> 'w links" where
  "onProgress rt phase item processed l =
     (case rt_now rt (ln_net l) of (now, w) \<Rightarrow>
       l\<lparr> ln_net := w, ln_heartbeat := now,
          ln_lastLog := (if now - ln_lastLog l \<ge> 30 then now else ln_lastLog l) \<rparr>)"

definition sessionOptions :: "'w runtime \<Rightarrow> Mirror \<Rightarrow> string \<Rightarrow> string \<Rightarrow> 'w links Options" where
  "sessionOptions rt m srcFolder sentSrcFolder =
     \<lparr> UIDBatch = mi_UIDBatch m, DestGuard = mi_DestGuard m, CarrySeen = mi_CarrySeen m,
       SyncLabels = la_Enabled (mi_Labels m), SourceFolder = srcFolder, LabelExclude = la_Exclude (mi_Labels m),
       DestFolder = ep_Folder (mi_Dest m), ArchiveRouting = ar_Enabled (mi_Archive m),
       SourceInbox = ep_Inbox (mi_Source m), ArchiveFolder = ar_Folder (mi_Archive m),
       SentRouting = se_Enabled (mi_Sent m), SentSrcFolder = sentSrcFolder,
       SentFolder = se_Folder (mi_Sent m), LabelPropagate = la_Propagate (mi_Labels m),
       KeywordPrefix = la_KeywordPrefix (mi_Labels m),
       KeywordReplacement = la_KeywordReplacement (mi_Labels m),
       OnProgress = Some (onProgress rt) \<rparr>"

definition sessionReconciler :: "'w platform \<Rightarrow> Mirror \<Rightarrow> string \<Rightarrow> string \<Rightarrow> 'w links Reconciler" where
  "sessionReconciler P m srcFolder sentSrcFolder =
     New (wire_source (pl_src P)) (wire_dest (pl_dst P))
       (sessionOptions (pl_rt P) m srcFolder sentSrcFolder) (wire_runtime (pl_rt P))"

definition destFolders :: "Mirror \<Rightarrow> string list" where
  "destFolders m =
     [ep_Folder (mi_Dest m)] @ (if ar_Enabled (mi_Archive m) then [ar_Folder (mi_Archive m)] else []) @
     (if se_Enabled (mi_Sent m) then [se_Folder (mi_Sent m)] else [])"

section \<open>Backoff\<close>

definition initialBackoff :: duration where
  "initialBackoff = Second"

definition maxBackoff :: duration where
  "maxBackoff = 5 * Minute"

definition backoff :: "duration \<Rightarrow> duration \<Rightarrow> duration" where
  "backoff prev uptime =
     (if prev = 0 \<or> uptime \<ge> maxBackoff then initialBackoff else min (prev * 2) maxBackoff)"

section \<open>A session\<close>

type_synonym 'w session = "'w links st"

text \<open>\<open>defer\<close>: the cleanup runs after the body, whatever its outcome.\<close>

definition deferM :: "('w links \<Rightarrow> 'w links) \<Rightarrow> ('w session, 'a) prog \<Rightarrow> ('w session, 'a) prog" where
  "deferM cleanup m = (\<lambda>s. case m s of
      None \<Rightarrow> None
    | Some (r, s') \<Rightarrow> Some (r, s'\<lparr> st_world := cleanup (st_world s') \<rparr>))"

definition at_net :: "('w \<Rightarrow> 'a \<times> 'w) \<Rightarrow> ('w session, 'a) prog" where
  "at_net f = (\<lambda>s. case on_net f (st_world s) of (a, l) \<Rightarrow> Some (Inr a, s\<lparr> st_world := l \<rparr>))"

definition cancelled :: "'w platform \<Rightarrow> ('w session, bool) prog" where
  "cancelled P = bindM (at_net (rt_ctx (pl_rt P))) (\<lambda>e. returnM (e \<noteq> None))"

definition beat :: "'w platform \<Rightarrow> ('w session, unit) prog" where
  "beat P = bindM (at_net (rt_now (pl_rt P))) (\<lambda>now.
     modifyM (\<lambda>s. s\<lparr> st_world := (st_world s)\<lparr> ln_heartbeat := now \<rparr> \<rparr>))"

definition pause :: "('w \<Rightarrow> 'w) \<Rightarrow> ('w session, unit) prog" where
  "pause f = at_net (\<lambda>w. ((), f w))"

definition dialSource :: "'w platform \<Rightarrow> Endpoint \<Rightarrow> ('w links, unit) prog" where
  "dialSource P ep = bindM (net (Dial (pl_src P) ep)) (\<lambda>cl. modifyM (\<lambda>l. l\<lparr> ln_src := cl \<rparr>))"

definition dialDest :: "'w platform \<Rightarrow> Endpoint \<Rightarrow> ('w links, unit) prog" where
  "dialDest P ep = bindM (net (Dial (pl_dst P) ep)) (\<lambda>cl. modifyM (\<lambda>l. l\<lparr> ln_dst := cl \<rparr>))"

text \<open>The deferred \<open>Close\<close> of a client, as a change of the state.\<close>

definition hangUp :: "('w conn \<Rightarrow> 'w links \<Rightarrow> 'w links) \<Rightarrow> ('w links \<Rightarrow> 'w conn) \<Rightarrow> 'w imapclient \<Rightarrow>
    'w links \<Rightarrow> 'w links" where
  "hangUp put get L l = (case Close L (get l) of None \<Rightarrow> l | Some (_, p) \<Rightarrow> put p l)"

definition closeSource :: "'w platform \<Rightarrow> 'w links \<Rightarrow> 'w links" where
  "closeSource P = hangUp (\<lambda>p l. l\<lparr> ln_src := fst p, ln_net := snd p \<rparr>) (\<lambda>l. (ln_src l, ln_net l)) (pl_src P)"

definition closeDest :: "'w platform \<Rightarrow> 'w links \<Rightarrow> 'w links" where
  "closeDest P = hangUp (\<lambda>p l. l\<lparr> ln_dst := fst p, ln_net := snd p \<rparr>) (\<lambda>l. (ln_dst l, ln_net l)) (pl_dst P)"

definition maybeSeed :: "Mirror \<Rightarrow> 'w links Reconciler \<Rightarrow> ('w session, unit) prog" where
  "maybeSeed m R =
     bindM (if mi_Seed m = SeedAlways then returnM True
            else if mi_Seed m = SeedEmpty
            then bindM (CopiedCount (r_rt R)) (\<lambda>n. returnM (n = 0))
            else returnM False) (\<lambda>seed.
     if \<not> seed then returnM () else bindM (SeedFromDest R) (\<lambda>_. returnM ()))"

definition runReconcile :: "'w platform \<Rightarrow> 'w links Reconciler \<Rightarrow> ('w session, unit) prog" where
  "runReconcile P R = bindM (Run R) (\<lambda>_. beat P)"

text \<open>One round of the idle loop; the result says whether the context has ended.\<close>

definition idleRound :: "'w platform \<Rightarrow> Mirror \<Rightarrow> 'w links Reconciler \<Rightarrow> ('w session, bool) prog" where
  "idleRound P m R =
     bindM (call (on_src (Idle (pl_src P)))) (\<lambda>idle.
     bindM (pause (pl_wait P (min (mi_PollInterval m) (mi_IdleReset m)))) (\<lambda>_.
     bindM (beat P) (\<lambda>_.
     bindM (call (on_src (lib (ic_IdleClose (pl_src P) idle)))) (\<lambda>_.
     bindM (call (on_src (lib (ic_IdleWait (pl_src P) idle)))) (\<lambda>_.
     bindM (cancelled P) (\<lambda>c.
     if c then returnM True else bindM (runReconcile P R) (\<lambda>_. returnM False)))))))"

definition idleLoop :: "'w platform \<Rightarrow> Mirror \<Rightarrow> 'w links Reconciler \<Rightarrow> ('w session, unit) prog" where
  "idleLoop P m R = untilM (\<lambda>_.
     bindM (cancelled P) (\<lambda>c.
     if c then returnM (Inr ())
     else bindM (idleRound P m R) (\<lambda>over. returnM (if over then Inr () else Inl ())))) ()"

definition connected :: "'w platform \<Rightarrow> Mirror \<Rightarrow> string \<Rightarrow> string \<Rightarrow> ('w session, unit) prog" where
  "connected P m srcFolder sentSrcFolder =
     (let R = sessionReconciler P m srcFolder sentSrcFolder in
      bindM (forM (destFolders m) (\<lambda>f. call (on_dst (EnsureNamedFolder (pl_dst P) f)))) (\<lambda>_.
      bindM (call (on_dst (SelectFolder (pl_dst P)))) (\<lambda>_.
      bindM (modifyM (\<lambda>s. s\<lparr> st_world := (st_world s)\<lparr> ln_lastLog := 0 \<rparr> \<rparr>)) (\<lambda>_.
      bindM (maybeSeed m R) (\<lambda>_.
      bindM (runReconcile P R) (\<lambda>_.
      idleLoop P m R))))))"

definition runSession :: "'w platform \<Rightarrow> Mirror \<Rightarrow> ('w session, unit) prog" where
  "runSession P m =
     bindM (call (dialSource P (mi_Source m))) (\<lambda>_.
     deferM (closeSource P)
       (bindM (call (on_src (ResolveSpecialUse (pl_src P)))) (\<lambda>srcFolder.
        bindM (if se_Enabled (mi_Sent m)
               then call (on_src (ResolveFolder (pl_src P) (se_SourceFolder (mi_Sent m))))
               else returnM []) (\<lambda>sentSrcFolder.
        bindM (call (dialDest P (mi_Dest m))) (\<lambda>_.
        deferM (closeDest P) (connected P m srcFolder sentSrcFolder))))))"

section \<open>Supervision\<close>

definition sessionOver :: "gerr + unit \<Rightarrow> bool" where
  "sessionOver r = (case r of Inr _ \<Rightarrow> True | Inl e \<Rightarrow> root_cause e = CtxErr)"

text \<open>A session that ended and the delay before the next, or \<open>None\<close> when there is no next.\<close>

definition superviseRound :: "'w platform \<Rightarrow> Mirror \<Rightarrow> duration \<Rightarrow> ('w session, duration option) prog" where
  "superviseRound P m wait =
     bindM (beat P) (\<lambda>_.
     bindM (at_net (pl_clock P)) (\<lambda>start.
     bindM (tryM (runSession P m)) (\<lambda>r.
     if sessionOver r then returnM None
     else
       bindM (beat P) (\<lambda>_.
       bindM (at_net (pl_clock P)) (\<lambda>now.
       let wait' = backoff wait (now - start) in
       bindM (pause (pl_sleep P wait')) (\<lambda>_. returnM (Some wait')))))))"

definition supervise :: "'w platform \<Rightarrow> Mirror \<Rightarrow> ('w session, unit) prog" where
  "supervise P m = untilM (\<lambda>wait.
     bindM (cancelled P) (\<lambda>c.
     if c then returnM (Inr ())
     else bindM (superviseRound P m wait) (\<lambda>r.
       returnM (case r of None \<Rightarrow> Inr () | Some wait' \<Rightarrow> Inl wait')))) 0"

text \<open>
  \<open>Run\<close> of the mirror: the state file is opened, the loop works on its tables.  A file that says schema
  2 but lacks a table cannot be read.
\<close>

definition store_tables :: "db \<Rightarrow> dbfile \<Rightarrow> dbfile" where
  "store_tables d f = f\<lparr> fl_copied := Some (db_copied d), fl_meta := Some (db_meta d),
     fl_members := Some (db_members d), fl_pending := Some (db_pending d), fl_seq := db_seq d,
     fl_folders := Some (db_folders d) \<rparr>"

definition mirrorRun ::
  "'w platform \<Rightarrow> ('w mst, unit) prog \<Rightarrow> Mirror \<Rightarrow> (dbfile \<times> 'w links, unit) prog" where
  "mirrorRun P os_open m = (\<lambda>(f, l).
     case Open (pl_rt P) os_open (f, ln_net l) of
       None \<Rightarrow> None
     | Some (Inl e, (f', w)) \<Rightarrow>
         Some (Inl (Wrap ''mirror %s: state open: %w'' [mi_Name m] e), (f', l\<lparr> ln_net := w \<rparr>))
     | Some (Inr _, (f', w)) \<Rightarrow>
         (case tables f' of
            None \<Rightarrow> Some (Inl (SqlErr ''no such table''), (f', l\<lparr> ln_net := w \<rparr>))
          | Some d \<Rightarrow>
              (case bindM (beat P) (\<lambda>_. supervise P m)
                      \<lparr> st_db = d, st_world = l\<lparr> ln_net := w \<rparr>, st_sum = empty_Summary \<rparr> of
                 None \<Rightarrow> None
               | Some (_, s) \<Rightarrow> Some (Inr (), (store_tables (st_db s) f', st_world s)))))"

section \<open>Delays\<close>

lemma maxBackoff_pos: "0 < maxBackoff"
  by (simp add: maxBackoff_def Minute_def Second_def)

lemma backoff_double: "0 < x \<Longrightarrow> u < maxBackoff \<Longrightarrow> backoff (min x maxBackoff) u = min (x * 2) maxBackoff"
  using maxBackoff_pos by (auto simp: backoff_def min_def)

lemma backoff_first: "backoff 0 u = initialBackoff" "maxBackoff \<le> u \<Longrightarrow> backoff w u = initialBackoff"
  by (simp_all add: backoff_def)

lemma backoff_short:
  "(\<And>u. u \<in> set us \<Longrightarrow> u < maxBackoff) \<Longrightarrow>
   fold (\<lambda>u w. backoff w u) us initialBackoff = min (Second * 2 ^ length us) maxBackoff"
proof (induction us rule: rev_induct)
  case Nil
  show ?case by (simp add: initialBackoff_def maxBackoff_def Minute_def Second_def)
next
  case (snoc u us)
  then have "fold (\<lambda>u w. backoff w u) us initialBackoff = min (Second * 2 ^ length us) maxBackoff" by simp
  moreover have "0 < Second * 2 ^ length us" by (simp add: Second_def)
  ultimately show ?case
    using snoc.prems backoff_double [of "Second * 2 ^ length us" u] by (simp add: mult.assoc mult.commute)
qed

text \<open>
  C40. The delay before the next session: one second after the first failure or after a session that
  lasted five minutes, then doubled with every session that fails early, and never above five minutes.
\<close>

theorem backoff_sequence:
  assumes "prev = 0 \<or> maxBackoff \<le> uptime" and "\<And>u. u \<in> set uptimes \<Longrightarrow> u < maxBackoff"
  shows "fold (\<lambda>u w. backoff w u) (uptime # uptimes) prev = min (Second * 2 ^ length uptimes) (300 * Second)"
  using assms(1) backoff_first backoff_short [OF assms(2)] by (auto simp: maxBackoff_def Minute_def)

theorem backoff_sequence_witness:
  "fold (\<lambda>u w. backoff w u) (7 # replicate 9 (Second :: duration)) 0 = 300 * Second"
proof -
  have "u < maxBackoff" if "u \<in> set (replicate 9 Second)" for u
    using that by (auto simp: Second_def maxBackoff_def Minute_def)
  from backoff_sequence [of 0 7 "replicate 9 Second", OF _ this]
  have "fold (\<lambda>u w. backoff w u) (7 # replicate 9 Second) 0 = min (Second * 2 ^ 9) (300 * Second)" by simp
  then show ?thesis by (simp add: Second_def)
qed

end
