(* ===== verification/ImapxFacts.thy ===== *)
theory ImapxFacts
  imports Imapx
begin

text \<open>
  What the IMAP wrapper computes: the OR tree of a guard search, the search loop, and the fetch loops,
  over any library that keeps the documented contract of go-imap and IMAP.
\<close>

section \<open>The meaning of search criteria\<close>

text \<open>\<open>has k v\<close>: the message has a header field \<open>k\<close> that contains \<open>v\<close>.\<close>

fun sat :: "(string \<Rightarrow> string \<Rightarrow> bool) \<Rightarrow> SearchCriteria \<Rightarrow> bool" where
  "sat has (SearchCriteria hs ors) \<longleftrightarrow>
     (\<forall>(k, v) \<in> set hs. has k v) \<and> (\<forall>(l, r) \<in> set ors. sat has l \<or> sat has r)"

text \<open>How deep the ORs of a criterion are nested.\<close>

fun or_depth :: "SearchCriteria \<Rightarrow> nat" where
  "or_depth (SearchCriteria hs ors) = foldr max (map (\<lambda>(l, r). Suc (max (or_depth l) (or_depth r))) ors) 0"

lemma orMessageIDCriteria_unfold:
  "length ids = 1 \<Longrightarrow> orMessageIDCriteria ids = Some (messageIDCriteria (hd ids))"
  "length ids \<noteq> 1 \<Longrightarrow> orMessageIDCriteria ids =
     Option.bind (orMessageIDCriteria (take (length ids div 2) ids)) (\<lambda>l.
     Option.bind (orMessageIDCriteria (drop (length ids div 2) ids)) (\<lambda>r.
     Some (SearchCriteria [] [(l, r)])))"
  by (simp_all add: orMessageIDCriteria.simps [of ids] Let_def)

lemma orMessageIDCriteria_tree:
  assumes "ids \<noteq> []"
  shows "\<exists>c. orMessageIDCriteria ids = Some c \<and>
    (\<forall>has. sat has c \<longleftrightarrow> (\<exists>i \<in> set ids. has ''Message-Id'' i)) \<and> 2 ^ or_depth c < 2 * length ids"
  using assms
proof (induction "length ids" arbitrary: ids rule: less_induct)
  case less
  show ?case
  proof (cases "length ids = 1")
    case True
    then obtain i where "ids = [i]" by (auto simp: length_Suc_conv)
    then show ?thesis by (simp add: orMessageIDCriteria_unfold messageIDCriteria_def)
  next
    case False
    let ?l = "take (length ids div 2) ids" and ?r = "drop (length ids div 2) ids"
    have two: "2 \<le> length ids" using less.prems False by (cases ids rule: remdups_adj.cases) auto
    then have ne: "?l \<noteq> []" "?r \<noteq> []" and len: "length ?l < length ids" "length ?r < length ids"
      by auto
    obtain cl where cl: "orMessageIDCriteria ?l = Some cl"
      "\<forall>has. sat has cl \<longleftrightarrow> (\<exists>i \<in> set ?l. has ''Message-Id'' i)" "2 ^ or_depth cl < 2 * length ?l"
      using less.hyps [OF len(1) ne(1)] by blast
    obtain cr where cr: "orMessageIDCriteria ?r = Some cr"
      "\<forall>has. sat has cr \<longleftrightarrow> (\<exists>i \<in> set ?r. has ''Message-Id'' i)" "2 ^ or_depth cr < 2 * length ?r"
      using less.hyps [OF len(2) ne(2)] by blast
    have "set ids = set ?l \<union> set ?r" by (metis append_take_drop_id set_append)
    then have "sat has (SearchCriteria [] [(cl, cr)]) \<longleftrightarrow> (\<exists>i \<in> set ids. has ''Message-Id'' i)" for has
      using cl(2) cr(2) by auto
    moreover have "2 ^ or_depth (SearchCriteria [] [(cl, cr)]) < 2 * length ids"
    proof -
      let ?d = "max (or_depth cl) (or_depth cr)"
      have "2 ^ ?d < 2 * length ?r"
        using cl(3) cr(3) by (auto simp: max_def)
      then have le: "2 ^ ?d \<le> length ids" and even: "even (length ids) \<Longrightarrow> 2 ^ ?d < length ids"
        by auto
      have "2 ^ ?d < length ids"
      proof (cases "even (length ids)")
        case False
        then have "2 ^ ?d \<noteq> length ids" using two by (cases ?d) (simp, metis even_mult_iff even_numeral power_Suc)
        then show ?thesis using le by simp
      qed (rule even)
      moreover have "or_depth (SearchCriteria [] [(cl, cr)]) = Suc ?d" by simp
      ultimately show ?thesis by simp
    qed
    ultimately show ?thesis
      using cl(1) cr(1) False by (simp add: orMessageIDCriteria_unfold(2))
  qed
qed

lemma orMessageIDCriteria_nonempty:
  assumes "orMessageIDCriteria ids = Some c"
  shows "ids \<noteq> []"
proof (rule orMessageIDCriteria.raw_induct [where P = "\<lambda>ids c. ids \<noteq> []", OF _ assms])
  fix loop :: "string list \<Rightarrow> SearchCriteria option" and ids c
  assume IH: "\<And>ids c. loop ids = Some c \<Longrightarrow> ids \<noteq> []"
    and eq: "(if length ids = 1 then Some (messageIDCriteria (hd ids))
       else let mid = length ids div 2 in
         Option.bind (loop (take mid ids)) (\<lambda>l. Option.bind (loop (drop mid ids)) (\<lambda>r.
         Some (SearchCriteria [] [(l, r)])))) = Some c"
  show "ids \<noteq> []"
  proof (cases "length ids = 1")
    case False
    then obtain l where "loop (take (length ids div 2) ids) = Some l"
      using eq by (auto simp: Let_def bind_eq_Some_conv)
    then have "take (length ids div 2) ids \<noteq> []" by (rule IH)
    then show ?thesis by auto
  qed auto
qed

section \<open>The contract of the library\<close>

text \<open>
  A relation on the client and the outside world that the calls of the library keep is kept by the
  methods of the client: first the methods that read the selected folder, then those that select, then
  those that change mailboxes.
\<close>

locale plain_client =
  fixes L :: "'w imapclient" and Rel :: "'w conn \<Rightarrow> 'w conn \<Rightarrow> bool"
  assumes Rel_refl: "Rel p p" and Rel_trans: "Rel p q \<Longrightarrow> Rel q r \<Longrightarrow> Rel p r"
    and read_Rel: "steps Rel (lib (ic_UIDSearch L c))" "steps Rel (lib (ic_HasSpecialUse L))"
      "steps Rel (lib (ic_List L b))" "steps Rel (lib (ic_Fetch L us opts))"
      "steps Rel (lib (ic_CloseFetch L i))" "steps Rel (nextMessage L i)"
begin

sublocale rel: step_relation Rel
  by unfold_locales (rule Rel_refl, rule Rel_trans)

lemma failAt_steps: "steps Rel (failAt fmt args e)"
  unfolding failAt_def field_def by (intro rel.steps_compose)

lemma libAt_steps: "steps Rel (lib m) \<Longrightarrow> steps Rel (libAt fmt args m)"
  unfolding libAt_def by (intro rel.steps_compose failAt_steps)

lemma SearchAllUIDs_steps: "steps Rel (SearchAllUIDs L)"
  unfolding SearchAllUIDs_def by (intro libAt_steps read_Rel)

lemma ListFolders_steps: "steps Rel (ListFolders L)"
  unfolding ListFolders_def by (intro rel.steps_compose libAt_steps read_Rel)

lemma ResolveFolder_steps: "steps Rel (ResolveFolder L name)"
  unfolding ResolveFolder_def field_def by (intro rel.steps_compose ListFolders_steps)

lemma abortFetch_steps: "steps Rel (abortFetch L i e)"
  unfolding abortFetch_def by (intro rel.steps_compose read_Rel)

lemma fetchMetas_steps: "steps Rel (fetchMetas L us)"
  unfolding fetchMetas_def collectMetas_def
  by (intro rel.steps_compose' read_Rel abortFetch_steps)

lemma FetchMetaRange_steps: "steps Rel (FetchMetaRange L a b)"
  unfolding FetchMetaRange_def by (rule fetchMetas_steps)

text \<open>The stream: the caller's variables are not part of the relation.\<close>

sublocale relq: step_relation "\<lambda>q q'. Rel (fst q) (fst q')"
  by unfold_locales (auto intro: Rel_refl Rel_trans)

lemma conn_call_steps: "steps Rel m \<Longrightarrow> steps (\<lambda>q q'. Rel (fst q) (fst q')) (conn_call m)"
  by (auto simp: steps_def conn_call_def zoomM_def split: option.splits)

lemma callback_steps: "steps (\<lambda>q q'. Rel (fst q) (fst q')) (callback f)"
  by (auto simp: steps_def callback_def Rel_refl split: prod.splits)

lemma FetchFullStream_steps: "steps (\<lambda>q q'. Rel (fst q) (fst q')) (FetchFullStream L us fn)"
  unfolding FetchFullStream_def streamLoop_def
  by (intro relq.steps_compose' conn_call_steps callback_steps read_Rel abortFetch_steps)

lemma streamAll_steps: "steps Rel (streamAll L us)"
proof (rule stepsI)
  fix p r p'
  assume "streamAll L us p = Some (r, p')"
  then obtain r' ms where "FetchFullStream L us (\<lambda>m ms. (None, ms @ [m])) (p, []) = Some (r', (p', ms))"
    by (auto simp: streamAll_def split: option.splits prod.splits)
  from stepsD [OF FetchFullStream_steps this] show "Rel p p'" by simp
qed

end

locale reading_client = plain_client +
  assumes select_Rel: "steps Rel (SelectNamedFolder L name)"
    and chunk_Rel: "Rel (cl, w) (cl\<lparr> cl_guardChunk := n \<rparr>, w)"
begin

lemma ensureSelected_steps: "steps Rel (ensureSelected L name)"
  unfolding ensureSelected_def field_def by (intro rel.steps_compose select_Rel)

lemma SelectFolder_steps: "steps Rel (SelectFolder L)"
  unfolding SelectFolder_def field_def by (intro rel.steps_compose select_Rel)

lemma SearchMessageIDsIn_steps: "steps Rel (SearchMessageIDsIn L folder ids)"
proof -
  have chunk: "steps Rel (assign (\<lambda>cl. cl\<lparr> cl_guardChunk := n \<rparr>))" for n
    unfolding assign_def by (rule rel.steps_modifyM) (use chunk_Rel in auto)
  have "steps Rel (searchRound L v)" for v
    unfolding searchRound_def searchAnswer_def field_def
    by (intro rel.steps_compose' read_Rel chunk failAt_steps fetchMetas_steps)
  then show ?thesis
    unfolding SearchMessageIDsIn_def by (intro rel.steps_compose' ensureSelected_steps)
qed

lemma searchMessageID_steps: "steps Rel (searchMessageID L folder mid)"
  unfolding searchMessageID_def by (intro rel.steps_compose ensureSelected_steps libAt_steps read_Rel)

end

locale moving_client = reading_client +
  assumes move_Rel: "steps Rel (lib (ic_Move L us folder))" "steps Rel (lib (ic_Store L us op flags))"
      "steps Rel (lib (ic_Create L folder))"
    and forget_Rel: "Rel (cl, w) (cl\<lparr> cl_selected := [] \<rparr>, w)"
begin

lemma MoveMessageID_steps: "steps Rel (MoveMessageID L a b mid)"
  unfolding MoveMessageID_def by (intro rel.steps_compose searchMessageID_steps libAt_steps move_Rel)

lemma MoveUIDs_steps: "steps Rel (MoveUIDs L a us b)"
proof -
  have "steps Rel (assign (\<lambda>cl. cl\<lparr> cl_selected := [] \<rparr>))"
    unfolding assign_def by (rule rel.steps_modifyM) (use forget_Rel in auto)
  then show ?thesis
    unfolding MoveUIDs_def by (intro rel.steps_compose ensureSelected_steps libAt_steps move_Rel)
qed

lemma storeFlags_steps: "steps Rel (storeFlags L us op flags)"
  unfolding storeFlags_def by (intro libAt_steps move_Rel)

lemma StoreKeywordByMessageID_steps: "steps Rel (StoreKeywordByMessageID L folder mid add kw)"
  unfolding StoreKeywordByMessageID_def
  by (intro rel.steps_compose searchMessageID_steps storeFlags_steps)

lemma StoreKeywordsUIDs_steps: "steps Rel (StoreKeywordsUIDs L us kws)"
  unfolding StoreKeywordsUIDs_def by (intro rel.steps_compose storeFlags_steps)

lemma EnsureNamedFolder_steps: "steps Rel (EnsureNamedFolder L name)"
  unfolding EnsureNamedFolder_def by (intro rel.steps_compose move_Rel select_Rel failAt_steps)

end

locale writing_client = moving_client +
  assumes append_Rel: "steps Rel (lib (ic_Append L folder len ao))" "steps Rel (lib (ic_Write L i raw))"
      "steps Rel (lib (ic_CloseAppend L i))" "steps Rel (lib (ic_WaitAppend L i))"
begin

lemma BeginAppend_steps: "steps Rel (BeginAppend L folder msg flags)"
  unfolding BeginAppend_def field_def by (intro rel.steps_compose append_Rel failAt_steps libAt_steps)

lemma WaitAppend_steps: "steps Rel (WaitAppend L h)"
  unfolding WaitAppend_def by (intro rel.steps_compose append_Rel)

lemma AppendTo_steps: "steps Rel (AppendTo L folder msg flags)"
  unfolding AppendTo_def by (intro rel.steps_compose BeginAppend_steps WaitAppend_steps)

end

section \<open>Fetching\<close>

text \<open>
  A range is inclusive and may be given either way round; a stop of 0 is the star.
\<close>

fun in_set :: "UIDSet \<Rightarrow> u32 \<Rightarrow> bool" where
  "in_set (UIDRange a b) u \<longleftrightarrow> a \<le> u \<and> u \<le> b \<or> b \<le> u \<and> u \<le> a \<or> b = 0 \<and> a \<le> u"
| "in_set (UIDSetNum us) u \<longleftrightarrow> u \<in> set us"

definition items :: "(FetchOptions \<Rightarrow> FetchMessageBuffer list) \<Rightarrow> UIDSet \<Rightarrow> FetchOptions \<Rightarrow> FetchMessageBuffer list" where
  "items c us opts = filter (\<lambda>b. in_set us (fb_UID b)) (c opts)"

text \<open>The messages with a body, as the stream hands them over.\<close>

definition bodies :: "FetchMessageBuffer list \<Rightarrow> FullMessage list" where
  "bodies bs = map bufferFull (filter (\<lambda>b. fb_FindBodySection b fullSection \<noteq> []) bs)"

lemma bodies_Nil [simp]: "bodies [] = []"
  by (simp add: bodies_def)

lemma fetchMetas_client: "fetchMetas L us p = Some (r, p') \<Longrightarrow> fst p' = fst p"
proof -
  let ?R = "\<lambda>p p' :: 'w conn. fst p' = fst p"
  have "step_relation ?R" by unfold_locales auto
  note compose = step_relation.steps_compose' [OF this]
  have "steps ?R (lib m)" and "steps ?R (nextMessage L i)" for m :: "('w, 'b) prog" and i
    by (auto simp: steps_def lib_def zoomM_def nextMessage_def split: option.splits prod.splits)
  note parts = this
  have "steps ?R (lib m)" for m :: "('w, unit) prog"
    by (auto simp: steps_def lib_def zoomM_def split: option.splits)
  then have "steps ?R (fetchMetas L us)"
    unfolding fetchMetas_def collectMetas_def abortFetch_def by (intro compose parts)
  then show "fetchMetas L us p = Some (r, p') \<Longrightarrow> fst p' = fst p" by (rule stepsD)
qed

text \<open>
  \<open>contents w\<close> is what the selected folder holds; \<open>pending w\<close> what the running fetch has still to
  deliver; \<open>whole w\<close> says that the running fetch is answered with an OK, and then it has delivered every
  message asked for.  A fetch that breaks off has delivered the first few.
\<close>

locale fetch_library =
  fixes L :: "'w imapclient" and contents :: "'w \<Rightarrow> FetchOptions \<Rightarrow> FetchMessageBuffer list"
    and pending :: "'w \<Rightarrow> FetchMessageBuffer list" and whole :: "'w \<Rightarrow> bool"
  assumes fetch_law: "ic_Fetch L us opts w = Some (Inr i, w') \<Longrightarrow>
      (\<exists>n. pending w' = take n (items (contents w') us opts)) \<and>
      (whole w' \<longrightarrow> pending w' = items (contents w') us opts)"
    and next_law: "ic_Next L i w = (x, w') \<Longrightarrow> contents w' = contents w \<and> whole w' = whole w \<and>
      (x = None \<longrightarrow> pending w = []) \<and> (\<forall>b. x = Some (Inr b) \<longrightarrow> pending w = b # pending w')"
    and close_law: "ic_CloseFetch L i w = Some (r, w') \<Longrightarrow> contents w' = contents w \<and> (r = Inr () \<longrightarrow> whole w)"
begin

lemma next_cases:
  assumes "nextMessage L i p = Some (Inr r, p')"
  shows "contents (snd p') = contents (snd p)" "whole (snd p') = whole (snd p)"
    "r = None \<Longrightarrow> pending (snd p) = []" "r = Some (Inr b) \<Longrightarrow> pending (snd p) = b # pending (snd p')"
  using assms next_law [of i "snd p"] by (auto simp: nextMessage_def split: prod.splits)

lemma next_returns: "nextMessage L i p \<noteq> Some (Inl e, p')"
  by (auto simp: nextMessage_def split: prod.splits)

lemma abortFetch_fails: "abortFetch L i e p \<noteq> Some (Inr a, p')"
  by (auto simp: abortFetch_def throwM_def elim!: bindM_InrE)

lemma hoare_collectMetas:
  "hoare (\<lambda>p. contents (snd p) = c \<and> whole (snd p) = b \<and> pending (snd p) = bs)
     (collectMetas L i) (\<lambda>ms p. contents (snd p) = c \<and> whole (snd p) = b \<and> ms = map (bufferMeta L) bs) (\<lambda>_ _. True)"
proof -
  let ?I = "\<lambda>ms p. contents (snd p) = c \<and> whole (snd p) = b \<and>
    ms @ map (bufferMeta L) (pending (snd p)) = map (bufferMeta L) bs"
  have "hoare (?I []) (collectMetas L i)
      (\<lambda>ms p. contents (snd p) = c \<and> whole (snd p) = b \<and> ms = map (bufferMeta L) bs) (\<lambda>_ _. True)"
    unfolding collectMetas_def
  proof (rule hoare_untilM, rule hoare_bindM)
    fix ms
    show "hoare (?I ms) (nextMessage L i) (\<lambda>r p. contents (snd p) = c \<and> whole (snd p) = b \<and>
        (r = None \<longrightarrow> ms = map (bufferMeta L) bs) \<and>
        (\<forall>x. r = Some (Inr x) \<longrightarrow> ?I (ms @ [bufferMeta L x]) p)) (\<lambda>_ _. True)"
      by (rule hoareI) (auto simp: next_returns dest: next_cases)
    fix r
    show "hoare (\<lambda>p. contents (snd p) = c \<and> whole (snd p) = b \<and>
        (r = None \<longrightarrow> ms = map (bufferMeta L) bs) \<and>
        (\<forall>x. r = Some (Inr x) \<longrightarrow> ?I (ms @ [bufferMeta L x]) p))
      (case r of None \<Rightarrow> returnM (Inr ms)
       | Some (Inl e) \<Rightarrow> abortFetch L i (Wrap ''fetch metas: %w'' [] e)
       | Some (Inr x) \<Rightarrow> returnM (Inl (ms @ [bufferMeta L x])))
      (\<lambda>r. case r of Inl ms' \<Rightarrow> ?I ms' | Inr a \<Rightarrow> \<lambda>p. contents (snd p) = c \<and> whole (snd p) = b \<and> a = map (bufferMeta L) bs)
      (\<lambda>_ _. True)"
      by (rule hoareI) (auto simp: returnM_def abortFetch_fails split: option.splits sum.splits)
  qed
  then show ?thesis by (rule hoare_pre) simp
qed

text \<open>A fetch that returns metadata returns that of every message asked for, in the order of the UIDs.\<close>

lemma fetchMetas_complete:
  assumes "fetchMetas L us (cl, w) = Some (Inr ms, (cl', w'))"
  shows "ms = sort_key m_UID (map (bufferMeta L) (items (contents w') us metaOptions))"
proof -
  from assms obtain i p1 where f: "lib (ic_Fetch L us metaOptions) (cl, w) = Some (Inr i, p1)"
    and 1: "bindM (collectMetas L i) (\<lambda>metas.
        bindM (wrapM ''fetch metas: %w'' [] (lib (ic_CloseFetch L i))) (\<lambda>_.
        returnM (sort_key m_UID metas))) p1 = Some (Inr ms, (cl', w'))"
    unfolding fetchMetas_def by (rule bindM_InrE)
  from 1 obtain metas p2 where col: "collectMetas L i p1 = Some (Inr metas, p2)"
    and 2: "bindM (wrapM ''fetch metas: %w'' [] (lib (ic_CloseFetch L i))) (\<lambda>_.
        returnM (sort_key m_UID metas)) p2 = Some (Inr ms, (cl', w'))"
    by (rule bindM_InrE)
  from 2 have ms: "ms = sort_key m_UID metas"
    and close: "ic_CloseFetch L i (snd p2) = Some (Inr (), w')"
    by (auto elim!: bindM_InrE simp: returnM_def wrapM_def lib_def zoomM_def split: option.splits sum.splits prod.splits)
  have fl: "ic_Fetch L us metaOptions w = Some (Inr i, snd p1)"
    using f by (auto simp: lib_def zoomM_def split: option.splits)
  have "contents (snd p2) = contents (snd p1) \<and> whole (snd p2) = whole (snd p1) \<and>
      metas = map (bufferMeta L) (pending (snd p1))"
    by (rule hoare_InrD [OF hoare_collectMetas _ col]) simp
  then show ?thesis
    using fetch_law [OF fl] close_law [OF close] ms by simp
qed

text \<open>
  The stream calls back on the messages that have a body, in order: on all of them when it returns
  without an error, else on the first few.
\<close>

lemma take_self [simp]: "\<exists>n. xs = take n xs"
  by (rule exI [of _ "length xs"]) simp

lemma hoare_streamLoop:
  "hoare (\<lambda>q. contents (snd (fst q)) = c \<and> whole (snd (fst q)) = b \<and> pending (snd (fst q)) = bs \<and> snd q = [])
     (streamLoop L i (\<lambda>m ms. (None, ms @ [m])))
     (\<lambda>_ q. contents (snd (fst q)) = c \<and> whole (snd (fst q)) = b \<and> snd q = bodies bs)
     (\<lambda>_ q. contents (snd (fst q)) = c \<and> (\<exists>rest. bodies bs = snd q @ rest))"
proof -
  let ?I = "\<lambda>q. contents (snd (fst q)) = c \<and> whole (snd (fst q)) = b \<and>
    snd q @ bodies (pending (snd (fst q))) = bodies bs"
  let ?E = "\<lambda>_ q. contents (snd (fst q)) = c \<and> (\<exists>rest. bodies bs = snd q @ rest)"
  have nexts: "conn_call (nextMessage L i) q = Some (Inr r, q') \<Longrightarrow>
      contents (snd (fst q')) = contents (snd (fst q)) \<and> whole (snd (fst q')) = whole (snd (fst q)) \<and>
      snd q' = snd q \<and> (r = None \<longrightarrow> pending (snd (fst q)) = []) \<and>
      (\<forall>x. r = Some (Inr x) \<longrightarrow> pending (snd (fst q)) = x # pending (snd (fst q')))" for r and q q' :: "'w conn \<times> FullMessage list"
    using next_cases [of i "fst q" r "fst q'"]
    by (auto simp: conn_call_def zoomM_def split: option.splits)
  have nofail: "conn_call (nextMessage L i) q \<noteq> Some (Inl e, q')" for e and q q' :: "'w conn \<times> FullMessage list"
    using next_returns by (auto simp: conn_call_def zoomM_def split: option.splits)
  have abort: "conn_call (abortFetch L i e) q = Some (r, q') \<Longrightarrow> (\<exists>e'. r = Inl e') \<and> snd q' = snd q \<and>
      contents (snd (fst q')) = contents (snd (fst q))" for e r and q q' :: "'w conn \<times> FullMessage list"
    using close_law [of i "snd (fst q)"]
    by (auto simp: conn_call_def abortFetch_def throwM_def bindM_def tryM_def lib_def zoomM_def split: option.splits)
  have body: "hoare ?I (bindM (conn_call (nextMessage L i)) (\<lambda>r.
     case r of
       None \<Rightarrow> returnM (Inr ())
     | Some (Inl e) \<Rightarrow> conn_call (abortFetch L i (Wrap ''fetch full stream: %w'' [] e))
     | Some (Inr buf) \<Rightarrow>
         (if fb_FindBodySection buf fullSection = [] then returnM (Inl ())
          else bindM (callback (\<lambda>ms. (None, ms @ [bufferFull buf]))) (\<lambda>err.
            case err of
              None \<Rightarrow> returnM (Inl ())
            | Some e \<Rightarrow> conn_call (abortFetch L i e)))))
      (\<lambda>r. case r of Inl x \<Rightarrow> ?I | Inr a \<Rightarrow> \<lambda>q. contents (snd (fst q)) = c \<and> whole (snd (fst q)) = b \<and> snd q = bodies bs) ?E"
    (is "hoare _ (bindM _ ?k) ?Q _")
  proof (rule hoare_bindM)
    show "hoare ?I (conn_call (nextMessage L i)) (\<lambda>r q. contents (snd (fst q)) = c \<and> whole (snd (fst q)) = b \<and>
        (\<exists>rest. bodies bs = snd q @ rest) \<and> (r = None \<longrightarrow> snd q = bodies bs) \<and>
        (\<forall>x. r = Some (Inr x) \<longrightarrow> snd q @ bodies (x # pending (snd (fst q))) = bodies bs)) ?E"
    proof (rule hoareI)
      fix q r q'
      assume I: "?I q" and n: "conn_call (nextMessage L i) q = Some (Inr r, q')"
      from nexts [OF n] I show "contents (snd (fst q')) = c \<and> whole (snd (fst q')) = b \<and>
        (\<exists>rest. bodies bs = snd q' @ rest) \<and> (r = None \<longrightarrow> snd q' = bodies bs) \<and>
        (\<forall>x. r = Some (Inr x) \<longrightarrow> snd q' @ bodies (x # pending (snd (fst q'))) = bodies bs)"
        by (metis append_Nil2 bodies_Nil)
    qed (simp add: nofail)
    fix r
    show "hoare (\<lambda>q. contents (snd (fst q)) = c \<and> whole (snd (fst q)) = b \<and>
        (\<exists>rest. bodies bs = snd q @ rest) \<and> (r = None \<longrightarrow> snd q = bodies bs) \<and>
        (\<forall>x. r = Some (Inr x) \<longrightarrow> snd q @ bodies (x # pending (snd (fst q))) = bodies bs)) (?k r) ?Q ?E"
    proof (cases r)
      case None
      then show ?thesis by (simp add: hoare_def returnM_def)
    next
      case (Some x)
      then show ?thesis
      proof (cases x)
        case (Inl e)
        then show ?thesis using Some by (auto simp: hoare_def split: option.splits sum.splits dest!: abort)
      next
        case (Inr buf)
        then show ?thesis
          using Some by (auto simp: hoare_def returnM_def callback_def bindM_def bodies_def)
      qed
    qed
  qed
  show ?thesis
    unfolding streamLoop_def
    by (rule hoare_pre [OF hoare_untilM [where I = "\<lambda>_. ?I", OF body]]) simp
qed

lemma hoare_FetchFullStream:
  assumes "us \<noteq> []"
  shows "hoare (\<lambda>q. snd q = []) (FetchFullStream L us (\<lambda>m ms. (None, ms @ [m])))
    (\<lambda>_ q. snd q = bodies (items (contents (snd (fst q))) (UIDSetNum us) fullOptions))
    (\<lambda>_ q. \<exists>n. snd q = take n (bodies (items (contents (snd (fst q))) (UIDSetNum us) fullOptions)))"
    (is "hoare _ _ ?Q ?E")
proof -
  let ?law = "\<lambda>q. snd q = [] \<and>
    (\<exists>n. pending (snd (fst q)) = take n (items (contents (snd (fst q))) (UIDSetNum us) fullOptions)) \<and>
    (whole (snd (fst q)) \<longrightarrow> pending (snd (fst q)) = items (contents (snd (fst q))) (UIDSetNum us) fullOptions)"
  have fetch: "hoare (\<lambda>q. snd q = []) (conn_call (lib (ic_Fetch L (UIDSetNum us) fullOptions))) (\<lambda>_. ?law) ?E"
    by (rule hoareI) (auto simp: conn_call_def lib_def zoomM_def split: option.splits dest!: fetch_law)
  have firsts: "\<exists>n. xs = take n (bodies bs)" if "bodies (take k bs) = xs @ rest" for k xs rest bs
  proof -
    have "bodies bs = bodies (take k bs) @ bodies (drop k bs)"
      by (metis append_take_drop_id bodies_def filter_append map_append)
    then show ?thesis using that by (metis append.assoc append_eq_conv_conj)
  qed
  have loop: "hoare ?law (streamLoop L i (\<lambda>m ms. (None, ms @ [m])))
      (\<lambda>_ q. (\<exists>n. snd q = take n (bodies (items (contents (snd (fst q))) (UIDSetNum us) fullOptions))) \<and>
         (whole (snd (fst q)) \<longrightarrow> ?Q () q)) ?E" for i
  proof (rule hoareI)
    fix q u q'
    assume q: "?law q" and r: "streamLoop L i (\<lambda>m ms. (None, ms @ [m])) q = Some (Inr u, q')"
    from hoare_InrD [OF hoare_streamLoop [of "contents (snd (fst q))" "whole (snd (fst q))" "pending (snd (fst q))"] _ r]
    have "contents (snd (fst q')) = contents (snd (fst q))" "whole (snd (fst q')) = whole (snd (fst q))"
      "snd q' = bodies (pending (snd (fst q)))" using q by auto
    moreover obtain k where "pending (snd (fst q)) = take k (items (contents (snd (fst q))) (UIDSetNum us) fullOptions)" using q by blast
    ultimately show "(\<exists>n. snd q' = take n (bodies (items (contents (snd (fst q'))) (UIDSetNum us) fullOptions))) \<and>
         (whole (snd (fst q')) \<longrightarrow> ?Q () q')"
      using q firsts [of k "items (contents (snd (fst q))) (UIDSetNum us) fullOptions" "snd q'" "[]"] by simp
  next
    fix q e q'
    assume q: "?law q" and r: "streamLoop L i (\<lambda>m ms. (None, ms @ [m])) q = Some (Inl e, q')"
    from hoare_InlD [OF hoare_streamLoop [of "contents (snd (fst q))" "whole (snd (fst q))" "pending (snd (fst q))"] _ r]
    obtain rest where "contents (snd (fst q')) = contents (snd (fst q))"
      "bodies (pending (snd (fst q))) = snd q' @ rest" using q by auto
    moreover obtain k where "pending (snd (fst q)) = take k (items (contents (snd (fst q))) (UIDSetNum us) fullOptions)" using q by blast
    ultimately show "?E e q'"
      using firsts [of k "items (contents (snd (fst q))) (UIDSetNum us) fullOptions" "snd q'" rest] by simp
  qed
  have close: "hoare (\<lambda>q. (\<exists>n. snd q = take n (bodies (items (contents (snd (fst q))) (UIDSetNum us) fullOptions))) \<and>
         (whole (snd (fst q)) \<longrightarrow> ?Q () q))
      (wrapM ''fetch full stream: %w'' [] (conn_call (lib (ic_CloseFetch L i)))) ?Q ?E" for i
    by (rule hoare_wrapM, rule hoareI)
      (auto simp: conn_call_def lib_def zoomM_def split: option.splits dest!: close_law)
  show ?thesis
    unfolding FetchFullStream_def if_not_P [OF assms]
    by (rule hoare_bindM [OF fetch hoare_bindM [OF loop close]])
qed

lemma streamAll_delivers:
  assumes "streamAll L us (cl, w) = Some (r, (cl', w'))" and "us \<noteq> []"
  shows "\<exists>msgs e. r = Inr (msgs, e) \<and> (\<exists>n. msgs = take n (bodies (items (contents w') (UIDSetNum us) fullOptions))) \<and>
    (e = None \<longrightarrow> msgs = bodies (items (contents w') (UIDSetNum us) fullOptions))"
proof -
  from assms(1) obtain r' ms where s: "FetchFullStream L us (\<lambda>m ms. (None, ms @ [m])) ((cl, w), []) = Some (r', ((cl', w'), ms))"
    and r: "r = Inr (ms, case r' of Inl e \<Rightarrow> Some e | Inr _ \<Rightarrow> None)"
    by (auto simp: streamAll_def split: option.splits prod.splits)
  show ?thesis
  proof (cases r')
    case (Inl e)
    then show ?thesis
      using hoare_InlD [OF hoare_FetchFullStream [OF assms(2)] _ s [unfolded Inl]] r by auto
  next
    case (Inr u)
    then have "ms = bodies (items (contents w') (UIDSetNum us) fullOptions)"
      using hoare_InrD [OF hoare_FetchFullStream [OF assms(2)] _ s [unfolded Inr]] by simp
    then show ?thesis using r Inr by (auto intro: exI [of _ "length ms"])
  qed
qed

end

section \<open>Searching\<close>

definition message_ids :: "'w imapclient \<Rightarrow> (FetchOptions \<Rightarrow> FetchMessageBuffer list) \<Rightarrow> string set" where
  "message_ids L c = metaIDs (map (bufferMeta L) (c metaOptions))"

lemma message_ids_iff:
  "k \<in> message_ids L c \<longleftrightarrow> k \<noteq> [] \<and> (\<exists>b \<in> set (c metaOptions). m_MessageID (bufferMeta L b) = k)"
  by (auto simp: message_ids_def metaIDs_def)

text \<open>
  A search returns the UIDs of the messages that satisfy the criterion, and the header search for a
  text finds at least the messages whose Message-ID is that text.
\<close>

locale search_library = fetch_library L contents pending whole
  for L :: "'w imapclient" and contents pending whole +
  fixes has :: "FetchMessageBuffer \<Rightarrow> string \<Rightarrow> string \<Rightarrow> bool"
  assumes search_law: "ic_UIDSearch L c w = Some (y, w') \<Longrightarrow> contents w' = contents w \<and>
      (\<forall>us. y = Inr us \<longrightarrow> set us = fb_UID ` {b \<in> set (contents w metaOptions). sat (has b) c})"
    and fetch_same: "ic_Fetch L us opts w = Some (z, w') \<Longrightarrow> contents w' = contents w"
    and has_law: "m_MessageID (bufferMeta L b) = v \<Longrightarrow> has b ''Message-Id'' v"
begin

text \<open>One chunk: every id of it that the folder has is found, and nothing the folder does not have.\<close>

lemma chunk_found:
  assumes "orMessageIDCriteria ids = Some crit" and "ids \<noteq> []"
    and us: "set us = fb_UID ` {b \<in> set (c metaOptions). sat (has b) crit}"
    and ms: "ms = sort_key m_UID (map (bufferMeta L) (items c (UIDSetNum us) metaOptions))"
  shows "set ids \<inter> message_ids L c \<subseteq> metaIDs ms" and "metaIDs ms \<subseteq> message_ids L c"
proof -
  have mem: "set ms = bufferMeta L ` {b \<in> set (c metaOptions). fb_UID b \<in> set us}"
    by (auto simp: ms items_def)
  then show "metaIDs ms \<subseteq> message_ids L c" by (auto simp: metaIDs_def message_ids_def)
  show "set ids \<inter> message_ids L c \<subseteq> metaIDs ms"
  proof
    fix k
    assume k: "k \<in> set ids \<inter> message_ids L c"
    then obtain b where b: "b \<in> set (c metaOptions)" "m_MessageID (bufferMeta L b) = k" and ne: "k \<noteq> []"
      by (auto simp: message_ids_iff)
    have "sat (has b) crit"
      using orMessageIDCriteria_tree [OF assms(2)] assms(1) has_law [OF b(2)] k by auto
    then have "fb_UID b \<in> set us" using us b(1) by auto
    then have "bufferMeta L b \<in> set ms" using mem b(1) by auto
    then show "k \<in> metaIDs ms" using b(2) ne by (auto simp: metaIDs_def)
  qed
qed

definition searching where
  "searching c ids rest found w \<longleftrightarrow> contents w = c \<and> found \<subseteq> message_ids L c \<and>
     (\<exists>pre. ids = pre @ rest \<and> set pre \<inter> message_ids L c \<subseteq> found)"

lemma searching_chunk:
  assumes "searching c ids rest found w" and "contents w' = c"
    and "set (take n rest) \<inter> message_ids L c \<subseteq> new" and "new \<subseteq> message_ids L c"
  shows "searching c ids (drop n rest) (found \<union> new) w'"
proof -
  obtain pre where "ids = pre @ rest" "set pre \<inter> message_ids L c \<subseteq> found" using assms(1) by (auto simp: searching_def)
  then have "ids = (pre @ take n rest) @ drop n rest \<and> set (pre @ take n rest) \<inter> message_ids L c \<subseteq> found \<union> new"
    using assms(3) by auto
  then show ?thesis using assms unfolding searching_def by blast
qed

lemma fetchMetas_same:
  assumes "fetchMetas L us p = Some (r, p')"
  shows "contents (snd p') = contents (snd p)"
proof -
  let ?R = "\<lambda>p p' :: 'w conn. contents (snd p') = contents (snd p)"
  have "step_relation ?R" by unfold_locales auto
  note compose = step_relation.steps_compose' [OF this]
  have "steps ?R (lib (ic_Fetch L us opts))" and "steps ?R (lib (ic_CloseFetch L i))" and "steps ?R (nextMessage L i)"
    for us opts i
    by (auto simp: steps_def lib_def zoomM_def nextMessage_def split: option.splits prod.splits
        dest: fetch_same close_law next_law)
  then have "steps ?R (fetchMetas L us)"
    unfolding fetchMetas_def collectMetas_def abortFetch_def by (intro compose)
  from stepsD [OF this assms] show ?thesis .
qed

lemma searchRound_cases:
  assumes "searchRound L (rest, found) p = Some (Inr r, p')"
  obtains (exit) "rest = []" "r = Inr found" "p' = p"
  | (retry) "rest \<noteq> []" "r = Inl (rest, found)" "contents (snd p') = contents (snd p)"
      "1 < cl_guardChunk (fst p)" "cl_guardChunk (fst p') = cl_guardChunk (fst p) div 2"
  | (chunk) n crit us ms where "rest \<noteq> []" "n = nat (cl_guardChunk (fst p))"
      "orMessageIDCriteria (take n rest) = Some crit" "contents (snd p') = contents (snd p)"
      "set us = fb_UID ` {b \<in> set (contents (snd p) metaOptions). sat (has b) crit}"
      "ms = sort_key m_UID (map (bufferMeta L) (items (contents (snd p)) (UIDSetNum us) metaOptions))"
      "r = Inl (drop n rest, found \<union> metaIDs ms)" "fst p' = fst p"
proof (cases "rest = []")
  case True
  then show ?thesis using assms that(1) by (simp add: searchRound_def returnM_def)
next
  case False
  let ?n = "nat (cl_guardChunk (fst p))"
  from assms False obtain crit where crit: "orMessageIDCriteria (take ?n rest) = Some crit"
    and 1: "bindM (tryM (lib (ic_UIDSearch L crit))) (searchAnswer L (cl_guardChunk (fst p)) rest found) p = Some (Inr r, p')"
    by (cases "orMessageIDCriteria (take ?n rest)")
      (simp_all add: searchRound_def field_def bindM_getM, simp_all add: ofOption_def bindM_def)
  obtain q p1 where q: "tryM (lib (ic_UIDSearch L crit)) p = Some (Inr q, p1)"
    and 2: "searchAnswer L (cl_guardChunk (fst p)) rest found q p1 = Some (Inr r, p')"
    using 1 by (rule bindM_InrE)
  then have s: "ic_UIDSearch L crit (snd p) = Some (q, snd p1)" and cl: "fst p1 = fst p"
    by (auto simp: tryM_def lib_def zoomM_def split: option.splits)
  note law = search_law [OF s]
  show ?thesis
  proof (cases q)
    case (Inl err)
    then show ?thesis
      using 2 law that(2) [OF False] cl
      by (auto simp: searchAnswer_def assign_def bindM_modifyM returnM_def failAt_def field_def bindM_getM throwM_def split: if_splits)
  next
    case (Inr us)
    show ?thesis
    proof (cases "us = []")
      case True
      then have "sort_key m_UID (map (bufferMeta L) (items (contents (snd p)) (UIDSetNum us) metaOptions)) = []"
        by (simp add: items_def)
      then show ?thesis
        using 2 law cl Inr True that(3) [OF \<open>rest \<noteq> []\<close> refl crit, of us]
        by (auto simp: searchAnswer_def returnM_def metaIDs_def)
    next
      case False
      then obtain ms p2 where f: "fetchMetas L (UIDSetNum us) p1 = Some (Inr ms, p2)"
        and r: "r = Inl (drop ?n rest, found \<union> metaIDs ms)" "p' = p2"
        using 2 Inr by (auto elim!: bindM_InrE simp: searchAnswer_def returnM_def)
      have same: "contents (snd p2) = contents (snd p1)"
        using fetchMetas_same f by blast
      have "ms = sort_key m_UID (map (bufferMeta L) (items (contents (snd p2)) (UIDSetNum us) metaOptions))"
        using fetchMetas_complete [of _ "fst p1" "snd p1" ms "fst p2" "snd p2"] f by simp
      then show ?thesis
        using that(3) [OF \<open>rest \<noteq> []\<close> refl crit, of us ms] law Inr r same cl fetchMetas_client [OF f] by simp
    qed
  qed
qed

lemma search_loop:
  assumes "untilM (searchRound L) (ids, {}) p = Some (Inr found, p')"
  shows "contents (snd p') = contents (snd p)" and "found \<subseteq> message_ids L (contents (snd p))"
    and "set ids \<inter> message_ids L (contents (snd p)) \<subseteq> found"
proof -
  let ?c = "contents (snd p)"
  let ?I = "\<lambda>v q. case v of (rest, found) \<Rightarrow> searching ?c ids rest found (snd q)"
  have "hoare (?I v) (searchRound L v) (\<lambda>r. case r of Inl v' \<Rightarrow> ?I v' | Inr found \<Rightarrow> \<lambda>q. searching ?c ids [] found (snd q))
      (\<lambda>_ _. True)" for v
  proof (rule hoareI, goal_cases)
    case (1 q r q')
    obtain rest found where v: "v = (rest, found)" by force
    have I: "searching ?c ids rest found (snd q)" using 1 v by simp
    from 1(2) show ?case
      unfolding v
    proof (cases rule: searchRound_cases)
      case exit
      then show ?thesis using I by simp
    next
      case retry
      then show ?thesis using I by (simp add: searching_def)
    next
      case (chunk n crit us ms)
      have c: "contents (snd q) = ?c" using I by (simp add: searching_def)
      note found' = chunk_found [OF chunk(3) orMessageIDCriteria_nonempty [OF chunk(3)] chunk(5,6)]
      show ?thesis
        using searching_chunk [OF I _ found' [unfolded c]] chunk(4,7) c by simp
    qed
  qed simp
  note loop = hoare_untilM [OF this, of "(ids, {})"]
  have "searching ?c ids [] found (snd p')"
    by (rule hoare_InrD [OF loop _ assms]) (simp add: searching_def)
  then show "contents (snd p') = ?c" "found \<subseteq> message_ids L ?c" "set ids \<inter> message_ids L ?c \<subseteq> found"
    by (auto simp: searching_def)
qed

end

end
