(* ===== verification/Server.thy ===== *)
theory Server
  imports Session ImapxFacts Key
begin

text \<open>
  A pair of mail servers that keep the contract of the IMAP library and the servers: the world on which
  the interfaces of the development are interpreted and the properties are witnessed.  Nothing here
  models code of the repository.

  Every command consults a plan, an arbitrary function of time: it is carried out, refused, or the
  connection breaks before or after it, and mail arrives and disappears at the source at any moment.
\<close>

section \<open>The site\<close>

record mail =
  ml_uid :: u32
  ml_raw :: string
  ml_flags :: "flag list"
  ml_date :: time

text \<open>All mail a folder of the source ever has, under its UIDVALIDITY.\<close>

record source_folder =
  sf_name :: string
  sf_validity :: u32
  sf_mail :: "mail list"

datatype event = Fine | Refuse status_type | LostBefore | LostAfter | Cut nat | Arrive string u32 | Vanish string u32

text \<open>
  \<open>si_header\<close> is the header section of a message and \<open>si_read\<close> the header parser, two functions of
  libraries; \<open>si_boxes\<close> are the folders of the destination.  A server does not open a folder that has
  used up its UIDs, or move messages into one: \<open>si_room\<close> bounds UIDNEXT.
\<close>

record site =
  si_source :: "source_folder list"
  si_attrs :: "string \<Rightarrow> string list"
  si_boxes :: "string list"
  si_header :: "string \<Rightarrow> string"
  si_read :: "string \<Rightarrow> (string \<Rightarrow> string) option"
  si_sha :: "string \<Rightarrow> string"
  si_plan :: "nat \<Rightarrow> event"
  si_clock :: "nat \<Rightarrow> int"
  si_room :: nat

record line =
  lo_selected :: "string option"
  lo_limit :: u32
  lo_dead :: bool
  lo_queue :: "(gerr + FetchMessageBuffer) list"
  lo_status :: "gerr option"

definition new_line :: line where
  "new_line = \<lparr> lo_selected = None, lo_limit = 0, lo_dead = False, lo_queue = [], lo_status = None \<rparr>"

record command =
  cm_folder :: string
  cm_size :: int
  cm_raw :: string
  cm_flags :: "flag list"
  cm_date :: "time option"
  cm_complete :: bool
  cm_open :: bool

text \<open>
  \<open>nt_next\<close> are the UIDNEXT of the source folders and \<open>nt_gone\<close> the expunged messages, \<open>nt_log\<close> the
  keys of everything the destination has ever stored.
\<close>

record net =
  nt_time :: nat
  nt_next :: "string \<Rightarrow> u32"
  nt_gone :: "(string \<times> u32) set"
  nt_src :: line
  nt_dst :: line
  nt_boxes :: "(string \<times> mail list) list"
  nt_uidnext :: u32
  nt_appends :: "command list"
  nt_log :: "string set"

section \<open>Messages\<close>

definition mail_buffer :: "site \<Rightarrow> FetchOptions \<Rightarrow> mail \<Rightarrow> FetchMessageBuffer" where
  "mail_buffer S opts m =
     \<lparr> fb_UID = ml_uid m, fb_InternalDate = ml_date m, fb_RFC822Size = int (length (ml_raw m)),
       fb_Flags = ml_flags m,
       fb_FindBodySection = (\<lambda>sec. if sec \<in> set (fo_BodySection opts)
          then (if sec = metaSection then si_header S (ml_raw m) else ml_raw m) else []) \<rparr>"

definition header_fields :: "site \<Rightarrow> string \<Rightarrow> string \<times> string \<times> string" where
  "header_fields S hdr =
     (if hdr = [] then ([], [], [])
      else case si_read S (hdr @ [CHR 0x0D, CHR 0x0A]) of
          None \<Rightarrow> ([], [], [])
        | Some get \<Rightarrow> (TrimSpace (get ''Message-Id''), TrimSpace (get ''From''), TrimSpace (get ''Subject'')))"

definition mail_meta :: "site \<Rightarrow> mail \<Rightarrow> MsgMeta" where
  "mail_meta S m = (let (mid, fr, su) = header_fields S (si_header S (ml_raw m)) in
     \<lparr> m_UID = ml_uid m, m_MessageID = mid, m_From = fr, m_Subject = su, m_InternalDate = ml_date m,
       m_Size = int (length (ml_raw m)), m_Flags = ml_flags m \<rparr>)"

definition mail_key :: "site \<Rightarrow> mail \<Rightarrow> string" where
  "mail_key S m = DedupKey (si_sha S) (mail_meta S m)"

fun contains :: "string \<Rightarrow> string \<Rightarrow> bool" where
  "contains v [] \<longleftrightarrow> v = []"
| "contains v (c # cs) \<longleftrightarrow> take (length v) (c # cs) = v \<or> contains v cs"

definition buffer_has :: "site \<Rightarrow> FetchMessageBuffer \<Rightarrow> string \<Rightarrow> string \<Rightarrow> bool" where
  "buffer_has S b k v \<longleftrightarrow> k = ''Message-Id'' \<and>
     contains v (fst (header_fields S (fb_FindBodySection b metaSection)))"

section \<open>Time and events\<close>

definition observe :: "site \<Rightarrow> net \<Rightarrow> net" where
  "observe S n = (case si_plan S (nt_time n) of
      Arrive f u \<Rightarrow> n\<lparr> nt_time := nt_time n + 1, nt_next := (nt_next n)(f := max u (nt_next n f)) \<rparr>
    | Vanish f u \<Rightarrow> n\<lparr> nt_time := nt_time n + 1, nt_gone := insert (f, u) (nt_gone n) \<rparr>
    | _ \<Rightarrow> n\<lparr> nt_time := nt_time n + 1 \<rparr>)"

text \<open>The two connections: access to the line, and the mailboxes with UIDVALIDITY, UIDNEXT and mail.\<close>

record party =
  pt_line :: "net \<Rightarrow> line"
  pt_set :: "line \<Rightarrow> net \<Rightarrow> net"
  pt_find :: "site \<Rightarrow> net \<Rightarrow> string \<Rightarrow> (u32 \<times> u32 \<times> mail list) option"

definition visible :: "net \<Rightarrow> source_folder \<Rightarrow> mail list" where
  "visible n sf = filter (\<lambda>m. ml_uid m < nt_next n (sf_name sf) \<and> (sf_name sf, ml_uid m) \<notin> nt_gone n) (sf_mail sf)"

definition src_party :: party where
  "src_party = \<lparr> pt_line = nt_src, pt_set = (\<lambda>l n. n\<lparr> nt_src := l \<rparr>),
     pt_find = (\<lambda>S n f. map_option (\<lambda>sf. (sf_validity sf, nt_next n f, visible n sf))
       (find (\<lambda>sf. sf_name sf = f) (si_source S))) \<rparr>"

definition dst_party :: party where
  "dst_party = \<lparr> pt_line = nt_dst, pt_set = (\<lambda>l n. n\<lparr> nt_dst := l \<rparr>),
     pt_find = (\<lambda>S n f. map_option (\<lambda>ms. (1, nt_uidnext n, ms)) (map_of (nt_boxes n) f)) \<rparr>"

definition kill :: "party \<Rightarrow> net \<Rightarrow> net" where
  "kill p n = pt_set p ((pt_line p n)\<lparr> lo_dead := True \<rparr>) n"

definition lost :: gerr where
  "lost = NetErr ''connection lost''"

text \<open>One command on a connection.\<close>

definition serve :: "site \<Rightarrow> party \<Rightarrow> (net \<Rightarrow> (gerr + 'a) \<times> net) \<Rightarrow> (net, 'a) prog" where
  "serve S p act n = (let n1 = observe S n in
     if lo_dead (pt_line p n) then Some (Inl lost, n1)
     else case si_plan S (nt_time n) of
       Refuse t \<Rightarrow> Some (Inl (ImapErr t ''refused''), n1)
     | LostBefore \<Rightarrow> Some (Inl lost, kill p n1)
     | Cut k \<Rightarrow> Some (Inl lost, kill p n1)
     | LostAfter \<Rightarrow> Some (Inl lost, kill p (snd (act n1)))
     | _ \<Rightarrow> Some (act n1))"

section \<open>Commands that read\<close>

definition no_mailbox :: gerr where
  "no_mailbox = ImapErr StatusNO ''no such mailbox''"

definition do_select :: "site \<Rightarrow> party \<Rightarrow> string \<Rightarrow> net \<Rightarrow> (gerr + SelectData) \<times> net" where
  "do_select S p name n = (case pt_find p S n name of
      None \<Rightarrow> (Inl no_mailbox, pt_set p ((pt_line p n)\<lparr> lo_selected := None \<rparr>) n)
    | Some (v, nx, ms) \<Rightarrow>
        (if si_room S < unat nx
         then (Inl no_mailbox, pt_set p ((pt_line p n)\<lparr> lo_selected := None \<rparr>) n)
         else (Inr \<lparr> sd_UIDValidity = v, sd_UIDNext = nx, sd_NumMessages = of_nat (length ms),
                     sd_PermanentFlags = [FlagWildcard] \<rparr>,
               pt_set p ((pt_line p n)\<lparr> lo_selected := Some name, lo_limit := nx \<rparr>) n)))"

definition selected_mail :: "site \<Rightarrow> party \<Rightarrow> net \<Rightarrow> mail list" where
  "selected_mail S p n = (case lo_selected (pt_line p n) of
      None \<Rightarrow> []
    | Some f \<Rightarrow> (case pt_find p S n f of None \<Rightarrow> [] | Some (v, nx, ms) \<Rightarrow> ms))"

definition do_search :: "site \<Rightarrow> party \<Rightarrow> SearchCriteria \<Rightarrow> net \<Rightarrow> (gerr + u32 list) \<times> net" where
  "do_search S p crit n = (case lo_selected (pt_line p n) of
      None \<Rightarrow> (Inl (ImapErr StatusBAD ''no mailbox selected''), n)
    | Some f \<Rightarrow> (Inr (map ml_uid (filter (\<lambda>m. sat (buffer_has S (mail_buffer S metaOptions m)) crit) (selected_mail S p n))), n))"

definition fetch_result :: "site \<Rightarrow> party \<Rightarrow> UIDSet \<Rightarrow> FetchOptions \<Rightarrow> event \<Rightarrow> net \<Rightarrow>
    (gerr + FetchMessageBuffer) list \<times> gerr option \<times> bool" where
  "fetch_result S p us opts ev n =
     (let its = map (mail_buffer S opts) (filter (\<lambda>m. in_set us (ml_uid m)) (selected_mail S p n)) in
      if lo_dead (pt_line p n) then ([], Some lost, True)
      else case ev of
        Refuse t \<Rightarrow> ([], Some (ImapErr t ''refused''), False)
      | LostBefore \<Rightarrow> ([], Some lost, True)
      | Cut k \<Rightarrow> (map Inr (take k its) @ [Inl lost], Some lost, True)
      | LostAfter \<Rightarrow> (map Inr its, Some lost, True)
      | _ \<Rightarrow> (if lo_selected (pt_line p n) = None then ([], Some (ImapErr StatusBAD ''no mailbox selected''), False)
              else (map Inr its, None, False)))"

definition do_fetch :: "site \<Rightarrow> party \<Rightarrow> UIDSet \<Rightarrow> FetchOptions \<Rightarrow> (net, nat) prog" where
  "do_fetch S p us opts n = (let n1 = observe S n in
     case fetch_result S p us opts (si_plan S (nt_time n)) n1 of (q, st, dead) \<Rightarrow>
       Some (Inr 0, pt_set p ((pt_line p n1)\<lparr> lo_queue := q, lo_status := st, lo_dead := dead \<rparr>) n1))"

definition do_next :: "party \<Rightarrow> nat \<Rightarrow> net \<Rightarrow> (gerr + FetchMessageBuffer) option \<times> net" where
  "do_next p i n = (case lo_queue (pt_line p n) of
      [] \<Rightarrow> (None, n)
    | x # xs \<Rightarrow> (Some x, pt_set p ((pt_line p n)\<lparr> lo_queue := xs \<rparr>) n))"

definition do_close :: "party \<Rightarrow> nat \<Rightarrow> (net, unit) prog" where
  "do_close p i n = Some (case lo_status (pt_line p n) of None \<Rightarrow> Inr () | Some e \<Rightarrow> Inl e, n)"

section \<open>Commands that write\<close>

definition set_command :: "nat \<Rightarrow> (command \<Rightarrow> command) \<Rightarrow> net \<Rightarrow> net" where
  "set_command i f n = (if i < length (nt_appends n) then n\<lparr> nt_appends := (nt_appends n)[i := f (nt_appends n ! i)] \<rparr> else n)"

definition do_append :: "string \<Rightarrow> int \<Rightarrow> AppendOptions \<Rightarrow> (net, nat) prog" where
  "do_append folder len opts n =
     Some (Inr (length (nt_appends n)), n\<lparr> nt_appends := nt_appends n @
       [\<lparr> cm_folder = folder, cm_size = len, cm_raw = [], cm_flags = ao_Flags opts, cm_date = ao_Time opts,
          cm_complete = False, cm_open = True \<rparr>] \<rparr>)"

text \<open>A command is complete when its literal has the announced size.\<close>

definition complete_command :: "command \<Rightarrow> command" where
  "complete_command c = c\<lparr> cm_complete := (cm_complete c \<or> int (length (cm_raw c)) = cm_size c) \<rparr>"

text \<open>The message of a command as it was sent, and as the server stores it.\<close>

definition zero_time :: time where
  "zero_time = - 62135596800"

definition sent_mail :: "command \<Rightarrow> mail" where
  "sent_mail c = \<lparr> ml_uid = 0, ml_raw = cm_raw c, ml_flags = cm_flags c,
     ml_date = (case cm_date c of None \<Rightarrow> zero_time | Some t \<Rightarrow> t) \<rparr>"

definition stored_mail :: "site \<Rightarrow> net \<Rightarrow> command \<Rightarrow> mail" where
  "stored_mail S n c = \<lparr> ml_uid = nt_uidnext n, ml_raw = cm_raw c, ml_flags = cm_flags c,
     ml_date = (case cm_date c of None \<Rightarrow> si_clock S (nt_time n) | Some t \<Rightarrow> t) \<rparr>"

definition add_mail :: "string \<Rightarrow> mail list \<Rightarrow> (string \<times> mail list) list \<Rightarrow> (string \<times> mail list) list" where
  "add_mail f ms boxes = map (\<lambda>(g, old). (g, if g = f then old @ ms else old)) boxes"

definition deliver :: "site \<Rightarrow> command \<Rightarrow> net \<Rightarrow> net" where
  "deliver S c n = n\<lparr> nt_boxes := add_mail (cm_folder c) [stored_mail S n c] (nt_boxes n),
     nt_uidnext := nt_uidnext n + 1,
     nt_log := nt_log n \<union> {mail_key S (sent_mail c), mail_key S (stored_mail S n c)} \<rparr>"

definition answer :: "nat \<Rightarrow> net \<Rightarrow> net" where
  "answer i = set_command i (\<lambda>c. c\<lparr> cm_open := False \<rparr>)"

definition do_wait :: "site \<Rightarrow> nat \<Rightarrow> (net, unit) prog" where
  "do_wait S i n = (let n1 = observe S n in
     if lo_dead (nt_dst n) \<or> \<not> (i < length (nt_appends n) \<and> cm_complete (nt_appends n ! i) \<and> cm_open (nt_appends n ! i))
     then Some (Inl lost, n1)
     else let c = nt_appends n ! i in case si_plan S (nt_time n) of
       Refuse t \<Rightarrow> Some (Inl (ImapErr t ''refused''), answer i n1)
     | LostBefore \<Rightarrow> Some (Inl lost, kill dst_party n1)
     | Cut k \<Rightarrow> Some (Inl lost, kill dst_party n1)
     | LostAfter \<Rightarrow> Some (Inl lost, kill dst_party (if cm_folder c \<in> fst ` set (nt_boxes n) then deliver S c (answer i n1) else n1))
     | _ \<Rightarrow> (if cm_folder c \<in> fst ` set (nt_boxes n) then Some (Inr (), deliver S c (answer i n1))
             else Some (Inl no_mailbox, answer i n1)))"

fun renumber :: "u32 \<Rightarrow> mail list \<Rightarrow> mail list" where
  "renumber u [] = []"
| "renumber u (m # ms) = m\<lparr> ml_uid := u \<rparr> # renumber (u + 1) ms"

definition do_move :: "site \<Rightarrow> UIDSet \<Rightarrow> string \<Rightarrow> net \<Rightarrow> (gerr + unit) \<times> net" where
  "do_move S us target n = (case lo_selected (nt_dst n) of
      None \<Rightarrow> (Inl (ImapErr StatusBAD ''no mailbox selected''), n)
    | Some f \<Rightarrow>
        (if target \<notin> fst ` set (nt_boxes n) then (Inl no_mailbox, n)
         else let going = filter (\<lambda>m. in_set us (ml_uid m)) (selected_mail S dst_party n);
                  left = map (\<lambda>(g, ms). (g, if g = f then filter (\<lambda>m. \<not> in_set us (ml_uid m)) ms else ms)) (nt_boxes n)
              in if si_room S < unat (nt_uidnext n) + length going then (Inl no_mailbox, n)
                 else (Inr (), n\<lparr> nt_boxes := add_mail target (renumber (nt_uidnext n) going) left,
                            nt_uidnext := nt_uidnext n + of_nat (length going) \<rparr>)))"

definition change_flags :: "StoreFlagsOp \<Rightarrow> flag list \<Rightarrow> flag list \<Rightarrow> flag list" where
  "change_flags op fl old = (case op of StoreFlagsAdd \<Rightarrow> old @ filter (\<lambda>f. f \<notin> set old) fl
     | StoreFlagsDel \<Rightarrow> filter (\<lambda>f. f \<notin> set fl) old)"

definition do_store :: "UIDSet \<Rightarrow> StoreFlagsOp \<Rightarrow> flag list \<Rightarrow> net \<Rightarrow> (gerr + unit) \<times> net" where
  "do_store us op fl n = (case lo_selected (nt_dst n) of
      None \<Rightarrow> (Inl (ImapErr StatusBAD ''no mailbox selected''), n)
    | Some f \<Rightarrow> (Inr (), n\<lparr> nt_boxes := map (\<lambda>(g, ms). (g, if g = f
          then map (\<lambda>m. if in_set us (ml_uid m) then m\<lparr> ml_flags := change_flags op fl (ml_flags m) \<rparr> else m) ms
          else ms)) (nt_boxes n) \<rparr>))"

section \<open>The libraries of the two connections\<close>

text \<open>A new connection to the destination: the unanswered appends of the old one are decided.\<close>

definition do_dial :: "site \<Rightarrow> (net \<Rightarrow> net) \<Rightarrow> (net, unit) prog" where
  "do_dial S fresh n = (let n1 = observe S n in
     case si_plan S (nt_time n) of
       Fine \<Rightarrow> Some (Inr (), fresh n1)
     | Arrive f u \<Rightarrow> Some (Inr (), fresh n1)
     | Vanish f u \<Rightarrow> Some (Inr (), fresh n1)
     | _ \<Rightarrow> Some (Inl (NetErr ''dial''), n1))"

definition fresh_src :: "net \<Rightarrow> net" where
  "fresh_src n = n\<lparr> nt_src := new_line \<rparr>"

definition fresh_dst :: "net \<Rightarrow> net" where
  "fresh_dst n = n\<lparr> nt_dst := new_line, nt_appends := map (\<lambda>c. c\<lparr> cm_open := False \<rparr>) (nt_appends n) \<rparr>"

definition library :: "site \<Rightarrow> party \<Rightarrow> (net \<Rightarrow> net) \<Rightarrow> net imapclient" where
  "library S p fresh =
     \<lparr> ic_Dial = (\<lambda>tls addr. do_dial S fresh),
       ic_Login = (\<lambda>user password. serve S p (\<lambda>n. (Inr (), n))),
       ic_Logout = (\<lambda>n. n),
       ic_Close = kill p,
       ic_Select = (\<lambda>name. serve S p (do_select S p name)),
       ic_UIDSearch = (\<lambda>crit. serve S p (do_search S p crit)),
       ic_HasSpecialUse = returnM True,
       ic_List = (\<lambda>special. serve S p (\<lambda>n. (Inr (map (\<lambda>sf. \<lparr> ld_Mailbox = sf_name sf, ld_Attrs = si_attrs S (sf_name sf) \<rparr>) (si_source S)), n))),
       ic_Create = (\<lambda>name. serve S p (\<lambda>n. (Inl (ImapErr StatusNO ''already exists''), n))),
       ic_Fetch = do_fetch S p, ic_Next = do_next p, ic_CloseFetch = do_close p,
       ic_Append = do_append,
       ic_Write = (\<lambda>i raw. serve S p (\<lambda>n. (Inr (), set_command i (\<lambda>c. if cm_complete c then c else c\<lparr> cm_raw := raw \<rparr>) n))),
       ic_CloseAppend = (\<lambda>i. serve S p (\<lambda>n. (Inr (), set_command i complete_command n))),
       ic_WaitAppend = do_wait S,
       ic_Move = (\<lambda>us target. serve S p (do_move S us target)),
       ic_Store = (\<lambda>us op fl. serve S p (do_store us op fl)),
       ic_Idle = serve S p (\<lambda>n. (Inr 0, n)), ic_IdleClose = (\<lambda>i. serve S p (\<lambda>n. (Inr (), n))),
       ic_IdleWait = (\<lambda>i. serve S p (\<lambda>n. (Inr (), n))),
       ic_ReadHeader = si_read S \<rparr>"

definition src_library :: "site \<Rightarrow> net imapclient" where
  "src_library S = library S src_party fresh_src"

definition dst_library :: "site \<Rightarrow> net imapclient" where
  "dst_library S = library S dst_party fresh_dst"

text \<open>The database, the context and the clock follow the plan too.\<close>

definition fails :: "event \<Rightarrow> bool" where
  "fails ev = (case ev of Refuse t \<Rightarrow> True | LostBefore \<Rightarrow> True | LostAfter \<Rightarrow> True | Cut k \<Rightarrow> True | _ \<Rightarrow> False)"

definition site_runtime :: "site \<Rightarrow> net runtime" where
  "site_runtime S =
     \<lparr> rt_sql = (\<lambda>n. (if fails (si_plan S (nt_time n)) then Some (SqlErr ''disk I/O error'') else None, observe S n)),
       rt_ctx = (\<lambda>n. (if si_plan S (nt_time n) = LostBefore then Some CtxErr else None, observe S n)),
       rt_now = (\<lambda>n. (si_clock S (nt_time n), observe S n)),
       rt_perm = (\<lambda>n. ([], n)),
       rt_sha256 = si_sha S, rt_lower = id \<rparr>"

definition site_platform :: "site \<Rightarrow> net platform" where
  "site_platform S =
     \<lparr> pl_src = src_library S, pl_dst = dst_library S, pl_rt = site_runtime S,
       pl_clock = (\<lambda>n. (si_clock S (nt_time n), n)), pl_wait = (\<lambda>d. observe S), pl_sleep = (\<lambda>d. observe S) \<rparr>"

end
