(* ===== verification/Rules.thy ===== *)
theory Rules
  imports Mirror
begin

text \<open>
  Proof rules for the building blocks of the reconciler: interface calls, store methods, closure
  variables and the windowed scan.  The locale \<open>pass_relation\<close> turns a relation that every primitive
  step keeps into one that every phase of a pass keeps.
\<close>

section \<open>Hoare rules\<close>

lemma hoare_bind_inv:
  "hoare I m (\<lambda>_. I) E \<Longrightarrow> (\<And>a. hoare I (f a) Q E) \<Longrightarrow> hoare I (bindM m f) Q E"
  by (rule hoare_bindM)

lemma hoare_call:
  assumes "\<And>s a w. P s \<Longrightarrow> m (st_world s) = Some (Inr a, w) \<Longrightarrow> Q a (s\<lparr> st_world := w \<rparr>)"
    and "\<And>s e w. P s \<Longrightarrow> m (st_world s) = Some (Inl e, w) \<Longrightarrow> E e (s\<lparr> st_world := w \<rparr>)"
  shows "hoare P (call m) Q E"
  by (rule hoareI) (use assms in \<open>auto simp: call_def zoomM_def split: option.splits prod.splits\<close>)

lemma hoare_outer:
  assumes "\<And>l. hoare (\<lambda>s. P (s, l)) m (\<lambda>a s. Q a (s, l)) (\<lambda>e s. E e (s, l))"
  shows "hoare P (outer m) Q E"
  by (rule hoareI)
    (use assms in \<open>fastforce simp: outer_def zoomM_def split: option.splits dest: hoare_InrD hoare_InlD\<close>)+

lemma hoare_withVars:
  assumes "hoare P' m (\<lambda>_ (s, l). Q l s) (\<lambda>e (s, l). E e s)" and "\<And>s. P s \<Longrightarrow> P' (s, l)"
  shows "hoare P (withVars l m) Q E"
  by (rule hoareI)
    (use assms in \<open>fastforce simp: withVars_def split: option.splits sum.splits dest: hoare_InrD hoare_InlD\<close>)+

lemma call_eq: "call m s = (case m (st_world s) of None \<Rightarrow> None | Some (r, w) \<Rightarrow> Some (r, s\<lparr> st_world := w \<rparr>))"
  by (simp add: call_def zoomM_def)

section \<open>The scan loop\<close>

lemma hoare_scanLoop:
  fixes ctx :: "('s, unit) prog"
  assumes body: "\<And>start. start < uidNext \<Longrightarrow>
      hoare (Inv start) (bindM ctx (\<lambda>_. window_body fetch fn start (window_stop start batch uidNext)))
        (\<lambda>_. Inv (start + batch)) E"
    and exit: "\<And>start s. \<not> start < uidNext \<Longrightarrow> Inv start s \<Longrightarrow> Q () s"
  shows "hoare (Inv first) (scanLoop ctx batch uidNext fetch fn first) Q E"
proof -
  define ok where "ok = (\<lambda>(c :: ('s, unit) prog) (b :: u32) (n :: u32) f g. \<forall>start. start < n \<longrightarrow>
      hoare (Inv start) (bindM c (\<lambda>_. window_body f g start (window_stop start b n)))
        (\<lambda>_. Inv (start + b)) E)"
  define fin where "fin = (\<lambda>n :: u32. \<forall>start s. \<not> start < n \<longrightarrow> Inv start s \<longrightarrow> Q () s)"
  define post where "post = (\<lambda>p. case p of (Inl e, s') \<Rightarrow> E e s' | (Inr u, s') \<Rightarrow> Q u s')"
  have "ok ctx batch uidNext fetch fn \<longrightarrow> fin uidNext \<longrightarrow> Inv first s \<longrightarrow> post p"
    if "scanLoop ctx batch uidNext fetch fn first s = Some p" for s p
  proof (rule scanLoop.raw_induct [where P = "\<lambda>c b n f g start s p.
      ok c b n f g \<longrightarrow> fin n \<longrightarrow> Inv start s \<longrightarrow> post p", OF _ that], intro impI)
    fix loop c b n f g start s p
    assume IH: "\<And>c b n f g start s p. loop c b n f g start s = Some p \<Longrightarrow>
        ok c b n f g \<longrightarrow> fin n \<longrightarrow> Inv start s \<longrightarrow> post p"
      and eq: "(if start < n then bindM c (\<lambda>_. bindM (window_body f g start (window_stop start b n))
          (\<lambda>_. loop c b n f g (start + b))) s else Some (Inr (), s)) = Some p"
      and ok: "ok c b n f g" and fin: "fin n" and inv: "Inv start s"
    show "post p"
    proof (cases "start < n")
      case False
      then show ?thesis using eq fin inv by (auto simp: fin_def post_def)
    next
      case True
      let ?m = "bindM c (\<lambda>_. window_body f g start (window_stop start b n))"
      have rest: "hoare (Inv (start + b)) (loop c b n f g (start + b)) Q E"
        by (rule hoareI) (use IH ok fin in \<open>fastforce simp: post_def\<close>)+
      have "hoare (Inv start) ?m (\<lambda>_. Inv (start + b)) E"
        using ok True by (simp add: ok_def)
      then have "hoare (Inv start) (bindM ?m (\<lambda>_. loop c b n f g (start + b))) Q E"
        by (rule hoare_bindM) (rule rest)
      moreover have "bindM ?m (\<lambda>_. loop c b n f g (start + b)) s = Some p"
        using eq True by (simp add: bindM_assoc)
      ultimately show ?thesis
        using inv unfolding post_def
        by (cases p; cases "fst p") (auto dest: hoare_InrD hoare_InlD)
    qed
  qed
  moreover have "ok ctx batch uidNext fetch fn" and "fin uidNext"
    using body exit by (auto simp: ok_def fin_def)
  ultimately show ?thesis
    by (fastforce intro!: hoareI simp: post_def)
qed

lemma hoare_scanWindows_inv:
  assumes "hoare I ctx (\<lambda>_. I) (\<lambda>_. E)"
    and "\<And>start stop. hoare I (fetch start stop) (\<lambda>metas. J stop metas) (\<lambda>_. E)"
    and "\<And>stop metas. hoare (J stop metas) (fn stop metas) (\<lambda>_. I) (\<lambda>_. E)"
  shows "hoare I (scanWindows opts ctx first uidNext fetch fn) (\<lambda>_. I) (\<lambda>_. E)"
  unfolding scanWindows_def
proof (rule hoare_scanLoop [where Inv = "\<lambda>_. I"])
  fix start
  show "hoare I (bindM ctx (\<lambda>_. window_body fetch fn start
      (window_stop start (word_of_int (UIDBatch opts)) uidNext))) (\<lambda>_. I) (\<lambda>_. E)"
    unfolding window_body_def
    by (rule hoare_bindM [OF assms(1)], rule hoare_wrapM, rule hoare_bindM [OF assms(2) assms(3)])
qed

context step_relation begin

lemma steps_scanLoop:
  assumes "steps R ctx" and "\<And>start stop. steps R (fetch start stop)"
    and "\<And>stop metas. steps R (fn stop metas)"
  shows "steps R (scanLoop ctx batch uidNext fetch fn first)"
proof (rule steps_of_hoare)
  fix s0
  have "steps R (bindM ctx (\<lambda>_. window_body fetch fn a b))" for a b
    unfolding window_body_def using assms by (intro steps_bindM steps_wrapM)
  then have body: "hoare (R s0) (bindM ctx (\<lambda>_. window_body fetch fn a b)) (\<lambda>_. R s0) (\<lambda>_. R s0)" for a b
    by (auto intro!: hoareI dest: stepsD intro: R_trans)
  have "hoare (R s0) (scanLoop ctx batch uidNext fetch fn first) (\<lambda>_. R s0) (\<lambda>_. R s0)"
    by (rule hoare_scanLoop [where Inv = "\<lambda>_. R s0"]) (use body in auto)
  then show "hoare (\<lambda>s. s = s0) (scanLoop ctx batch uidNext fetch fn first) (\<lambda>_. R s0) (\<lambda>_. R s0)"
    by (rule hoare_pre) (simp add: R_refl)
qed

lemma steps_scanWindows:
  "steps R ctx \<Longrightarrow> (\<And>start stop. steps R (fetch start stop)) \<Longrightarrow>
   (\<And>stop metas. steps R (fn stop metas)) \<Longrightarrow> steps R (scanWindows opts ctx first uidNext fetch fn)"
  unfolding scanWindows_def by (rule steps_scanLoop)

end

section \<open>Relations on the outside world\<close>

text \<open>
  A relation on the outside world that every call of the database driver, the context, the clock and
  the map order keeps.  It is then kept by every store method.
\<close>

locale runtime_relation =
  fixes rt :: "'w runtime" and W :: "'w \<Rightarrow> 'w \<Rightarrow> bool"
  assumes W_refl: "W w w"
    and W_trans: "W a b \<Longrightarrow> W b c \<Longrightarrow> W a c"
    and W_sql: "rt_sql rt w = (r, w') \<Longrightarrow> W w w'"
    and W_ctx: "rt_ctx rt w = (r, w') \<Longrightarrow> W w w'"
    and W_now: "rt_now rt w = (t, w') \<Longrightarrow> W w w'"
    and W_perm: "rt_perm rt w = (p, w') \<Longrightarrow> W w w'"
begin

sublocale wst: step_relation "\<lambda>s s'. W (st_world s) (st_world (s' :: 'w st))"
  by unfold_locales (auto intro: W_refl W_trans)

abbreviation wsteps :: "('w st, 'a) prog \<Rightarrow> bool" where
  "wsteps m \<equiv> steps (\<lambda>s s'. W (st_world s) (st_world s')) m"

lemma wsteps_sql_call: "wsteps (sql_call rt)"
  by (rule stepsI) (auto simp: sql_call_def split: prod.splits option.splits dest: W_sql)

lemma wsteps_db: "wsteps (modifyM (\<lambda>s. s\<lparr> st_db := f (st_db s) \<rparr>))"
  by (rule wst.steps_modifyM) (simp add: W_refl)

lemma wsteps_sql_exec: "wsteps (sql_exec rt f)"
  unfolding sql_exec_def by (intro wst.steps_bindM wsteps_sql_call wsteps_db)

lemma wsteps_sql_query: "wsteps (sql_query rt f)"
  unfolding sql_query_def by (intro wst.steps_compose wsteps_sql_call)

lemma wsteps_go_order: "wsteps (go_order rt xs)"
  by (rule stepsI) (auto simp: go_order_def split: prod.splits dest: W_perm)

lemma wsteps_rollback: "wsteps m \<Longrightarrow> wsteps (rollback_to d m)"
  by (fastforce simp: steps_def rollback_to_def split: option.splits sum.splits)

lemma wsteps_inTx: "wsteps fn \<Longrightarrow> wsteps (inTx rt fn)"
proof (rule stepsI)
  fix s r s'
  assume fn: "wsteps fn" and run: "inTx rt fn s = Some (r, s')"
  have "wsteps (rollback_to (st_db s) (bindM (sql_call rt) (\<lambda>_. bindM fn (\<lambda>_. sql_call rt))))"
    by (intro wsteps_rollback wst.steps_bindM wsteps_sql_call fn)
  then show "W (st_world s) (st_world s')"
    using run unfolding inTx_def by (auto dest: stepsD)
qed

lemma wsteps_execBatch: "wsteps (execBatch rt stmts)"
  unfolding execBatch_def
  by (intro wst.steps_compose wsteps_inTx wsteps_sql_call wsteps_sql_exec)

lemma wsteps_MemberChangeBatch: "wsteps (MemberChangeBatch rt folder items)"
  unfolding MemberChangeBatch_def memberChangeItem_def
  by (intro wst.steps_compose wsteps_inTx wsteps_sql_call wsteps_sql_exec)

lemma wsteps_MemberUIDKeys: "wsteps (MemberUIDKeys rt folder)"
  unfolding MemberUIDKeys_def by (intro wst.steps_compose wsteps_sql_query wsteps_go_order)

lemma wsteps_metaGetUint: "wsteps (metaGetUint rt key)"
  unfolding metaGetUint_def MetaGet_def by (intro wst.steps_compose wsteps_sql_query)

lemma wsteps_methods:
  "wsteps (RecordKeys rt rs)" "wsteps (SeedBatch rt ks)" "wsteps (DeletePendingBatch rt ids)"
  "wsteps (HasKey rt k)" "wsteps (MemberHas rt f k)" "wsteps (MemberFolders rt k)"
  "wsteps (MemberKeys rt f)" "wsteps (PendingOps rt n)" "wsteps (FolderState rt f)"
  "wsteps (MetaGet rt k)" "wsteps (SetFolderState rt f uv lu)" "wsteps (MetaSet rt k v)"
  by (simp_all add: RecordKeys_def SeedBatch_def DeletePendingBatch_def HasKey_def MemberHas_def
      MemberFolders_def MemberKeys_def PendingOps_def FolderState_def MetaGet_def SetFolderState_def
      MetaSet_def wsteps_execBatch wsteps_sql_query wsteps_sql_exec)

lemmas wsteps_store = wsteps_methods wsteps_MemberChangeBatch wsteps_MemberUIDKeys wsteps_go_order
  wsteps_metaGetUint

text \<open>Hoare rules for the store methods that remember the relation between the two worlds.\<close>

lemma hoare_writes:
  assumes "writes m g" and "wsteps m"
    and "\<And>s w. P s \<Longrightarrow> W (st_world s) w \<Longrightarrow> Q () (s\<lparr> st_world := w, st_db := g (st_db s) \<rparr>)"
    and "\<And>s w e. P s \<Longrightarrow> W (st_world s) w \<Longrightarrow> E e (s\<lparr> st_world := w \<rparr>)"
  shows "hoare P m Q E"
proof (rule hoareI)
  fix s a s'
  assume P: "P s" and m: "m s = Some (Inr a, s')"
  have "W (st_world s) (st_world s')" by (rule stepsD [OF assms(2) m])
  note W = this assms(3) [OF P]
  show "Q a s'"
    by (rule writes_cases [OF assms(1) m]; use W in simp)
next
  fix s e s'
  assume P: "P s" and m: "m s = Some (Inl e, s')"
  have "W (st_world s) (st_world s')" by (rule stepsD [OF assms(2) m])
  note W = this assms(4) [OF P]
  show "E e s'"
    by (rule writes_cases [OF assms(1) m]; use W in simp)
qed

lemma hoare_reads:
  assumes "reads m f" and "wsteps m"
    and "\<And>s w. P s \<Longrightarrow> W (st_world s) w \<Longrightarrow> Q (f (st_db s)) (s\<lparr> st_world := w \<rparr>)"
    and "\<And>s w e. P s \<Longrightarrow> W (st_world s) w \<Longrightarrow> E e (s\<lparr> st_world := w \<rparr>)"
  shows "hoare P m Q E"
proof (rule hoareI)
  fix s a s'
  assume P: "P s" and m: "m s = Some (Inr a, s')"
  have "W (st_world s) (st_world s')" by (rule stepsD [OF assms(2) m])
  note W = this assms(3) [OF P]
  show "Q a s'"
    by (rule reads_cases [OF assms(1) m]; use W in simp)
next
  fix s e s'
  assume P: "P s" and m: "m s = Some (Inl e, s')"
  have "W (st_world s) (st_world s')" by (rule stepsD [OF assms(2) m])
  note W = this assms(4) [OF P]
  show "E e s'"
    by (rule reads_cases [OF assms(1) m]; use W in simp)
qed

end

section \<open>Relations kept by the phases of a pass\<close>

text \<open>
  \<open>W\<close> is kept by every call of the driver, the context, the clock and the progress callback
  (\<open>reading_relation\<close>, and \<open>local_relation\<close> for the functions that also write to the store), or by every call to the destination (\<open>dest_relation\<close>) and to the source
  (\<open>phase_relation\<close>) except the appends; \<open>Rel\<close> is kept by every primitive change of the state: a step of the world
  along \<open>W\<close>, a new summary, a database statement of the membership scan, the backfill or the
  propagation.  The functions that move the high-water mark need that \<open>Rel\<close> is kept by that
  (\<open>marking_relation\<close>), the phases that append and record keys that \<open>W\<close> is kept by appends and
  \<open>Rel\<close> by an insert into the dedup set (\<open>pass_relation\<close>).
\<close>

locale reading_relation = runtime_relation "r_rt R" W
  for R :: "'w Reconciler" and W :: "'w \<Rightarrow> 'w \<Rightarrow> bool" +
  fixes Rel :: "'w st \<Rightarrow> 'w st \<Rightarrow> bool"
  assumes W_progress: "OnProgress (r_opts R) = Some f \<Longrightarrow> W w (f phase item n w)"
    and Rel_trans: "Rel s t \<Longrightarrow> Rel t u \<Longrightarrow> Rel s u"
    and Rel_world: "W (st_world s) w \<Longrightarrow> Rel s (s\<lparr> st_world := w \<rparr>)"
    and Rel_sum: "Rel s (s\<lparr> st_sum := sm \<rparr>)"
begin

lemma Rel_refl: "Rel s s"
  using Rel_world [OF W_refl, of s] by simp

sublocale rel: step_relation Rel
  by unfold_locales (auto intro: Rel_refl Rel_trans)

sublocale relp: step_relation "\<lambda>p p'. Rel (fst p) (fst (p' :: 'w st \<times> 'l))"
  by unfold_locales (auto intro: Rel_refl Rel_trans)

subsection \<open>Primitive steps\<close>

lemma call_steps: "steps W m \<Longrightarrow> steps Rel (call m)"
  by (rule stepsI) (auto simp: call_eq split: option.splits dest: stepsD intro: Rel_world)

lemma ctxErr_steps: "steps Rel (ctxErr R)"
  by (rule stepsI) (auto simp: ctxErr_def split: prod.splits option.splits dest: W_ctx intro: Rel_world)

lemma nowUnix_steps: "steps Rel (nowUnix R)"
  by (rule stepsI) (auto simp: nowUnix_def split: prod.splits dest: W_now intro: Rel_world)

lemma progress_steps: "steps Rel (progress R phase item n)"
  unfolding progress_def
  by (auto intro!: rel.steps_returnM rel.steps_modifyM Rel_world W_progress split: option.splits)

lemma update_sum_steps: "steps Rel (update_sum f)"
  unfolding update_sum_def by (rule rel.steps_modifyM) (rule Rel_sum)

lemma countMove_steps: "steps Rel (countMove R want n)"
  unfolding countMove_def by (rule update_sum_steps)

lemma outer_steps: "steps Rel m \<Longrightarrow> steps (\<lambda>p p'. Rel (fst p) (fst p')) (outer m)"
  by (rule stepsI) (auto simp: outer_def zoomM_def split: option.splits dest: stepsD)

lemma vars_steps:
  "(\<And>s l. fst (f (s, l)) = s) \<Longrightarrow> steps (\<lambda>p p'. Rel (fst p) (fst p')) (modifyM f)"
  by (rule relp.steps_modifyM) (auto simp: Rel_refl)

lemma withVars_steps: "steps (\<lambda>p p'. Rel (fst p) (fst p')) m \<Longrightarrow> steps Rel (withVars l m)"
  by (rule stepsI) (fastforce simp: withVars_def split: option.splits sum.splits dest: stepsD)

subsection \<open>Reading the store\<close>

lemma reads_steps: "reads m f \<Longrightarrow> wsteps m \<Longrightarrow> steps Rel m"
proof (rule stepsI)
  fix s r s'
  assume "reads m f" and w: "wsteps m" and m: "m s = Some (r, s')"
  then obtain w where "s' = s\<lparr> st_world := w \<rparr>"
    by (auto elim: reads_cases)
  then show "Rel s s'"
    using stepsD [OF w m] by (auto intro: Rel_world)
qed

lemma query_steps:
  "steps Rel (HasKey (r_rt R) k)" "steps Rel (MemberHas (r_rt R) f k)"
  "steps Rel (MemberFolders (r_rt R) k)" "steps Rel (MemberKeys (r_rt R) f)"
  "steps Rel (PendingOps (r_rt R) n)" "steps Rel (FolderState (r_rt R) f)"
  "steps Rel (MetaGet (r_rt R) k)"
  by (rule reads_steps, rule store_facts, rule wsteps_store)+

lemma go_order_steps: "steps Rel (go_order (r_rt R) xs)"
  by (rule stepsI) (auto simp: go_order_def split: prod.splits dest: W_perm intro: Rel_world)

lemma MemberUIDKeys_steps: "steps Rel (MemberUIDKeys (r_rt R) f)"
  unfolding MemberUIDKeys_def Let_def
  by (intro rel.steps_compose go_order_steps reads_steps [OF reads_sql_query wsteps_sql_query])

lemma mark_read_steps: "steps Rel (UIDValidity (r_rt R))" "steps Rel (LastUID (r_rt R))"
  unfolding UIDValidity_def LastUID_def metaGetUint_def Let_def
  by (intro rel.steps_compose query_steps)+

lemmas reading_steps = ctxErr_steps nowUnix_steps progress_steps update_sum_steps
  countMove_steps query_steps go_order_steps MemberUIDKeys_steps mark_read_steps

subsection \<open>Routing\<close>

lemma gatePending_steps: "steps Rel (gatePending R key kind)"
  unfolding gatePending_def Let_def by (intro rel.steps_compose reading_steps)

lemma destFolderFor_steps: "steps Rel (destFolderFor R key)"
  unfolding destFolderFor_def Let_def by (intro rel.steps_compose reading_steps)

lemma labelsFor_steps: "steps Rel (labelsFor R key)"
  unfolding labelsFor_def Let_def by (intro rel.steps_compose reading_steps)

lemma classify_steps: "steps Rel (classify R ms pend ks)"
proof (induction ms arbitrary: pend ks)
  case Nil
  show ?case by (simp add: rel.steps_returnM)
next
  case (Cons m ms)
  show ?case
    unfolding classify.simps Let_def
    by (intro rel.steps_compose reading_steps destFolderFor_steps Cons)
qed

lemma backfillMessage_steps: "steps (\<lambda>p p'. Rel (fst p) (fst p')) (backfillMessage R folder m)"
  unfolding backfillMessage_def Let_def
  by (intro relp.steps_compose outer_steps vars_steps destFolderFor_steps labelsFor_steps) auto

end

locale local_relation = reading_relation R W Rel
  for R :: "'w Reconciler" and W :: "'w \<Rightarrow> 'w \<Rightarrow> bool" and Rel :: "'w st \<Rightarrow> 'w st \<Rightarrow> bool" +
  assumes Rel_change: "Rel s (s\<lparr> st_db := apply_change folder it (st_db s) \<rparr>)"
    and Rel_pending: "Rel s (s\<lparr> st_db := sql_deletePending i (st_db s) \<rparr>)"
    and Rel_folder: "Rel s (s\<lparr> st_db := sql_setFolder name uv lu (st_db s) \<rparr>)"
    and Rel_fingerprint: "Rel s (s\<lparr> st_db := sql_setMeta ''backfill_fingerprint'' v (st_db s) \<rparr>)"
begin

subsection \<open>Changing the store\<close>

lemma Rel_fold:
  assumes "\<And>s x. Rel s (s\<lparr> st_db := f x (st_db s) \<rparr>)"
  shows "Rel s (s\<lparr> st_db := fold f xs (st_db s) \<rparr>)"
proof (induction xs arbitrary: s)
  case Nil
  then show ?case by (simp add: Rel_refl)
next
  case (Cons x xs)
  from Rel_trans [OF assms [of s x] Cons [of "s\<lparr> st_db := f x (st_db s) \<rparr>"]] show ?case by simp
qed

lemma writes_steps:
  assumes "writes m g" and "wsteps m" and "\<And>s. Rel s (s\<lparr> st_db := g (st_db s) \<rparr>)"
  shows "steps Rel m"
proof (rule stepsI)
  fix s r s'
  assume m: "m s = Some (r, s')"
  have W: "W (st_world s) (st_world s')" by (rule stepsD [OF assms(2) m])
  show "Rel s s'"
  proof (rule writes_cases [OF assms(1) m])
    fix e w assume "s' = s\<lparr> st_world := w \<rparr>"
    then show ?thesis using W by (auto intro: Rel_world)
  next
    fix w assume s': "s' = s\<lparr> st_world := w, st_db := g (st_db s) \<rparr>"
    then have "Rel s (s\<lparr> st_world := w \<rparr>)" using W by (auto intro: Rel_world)
    from Rel_trans [OF this assms(3)] s' show ?thesis by simp
  qed
qed

lemma store_steps:
  "steps Rel (DeletePendingBatch (r_rt R) ids)" "steps Rel (MemberChangeBatch (r_rt R) f items)"
  "steps Rel (SetFolderState (r_rt R) f uv lu)" "steps Rel (MetaSet (r_rt R) ''backfill_fingerprint'' v)"
  by (rule writes_steps, rule store_facts, rule wsteps_store,
      (rule Rel_fold Rel_folder Rel_fingerprint, (rule Rel_pending Rel_change)?)?)+

lemmas local_steps = reading_steps store_steps

lemma recordAdditions_steps: "steps Rel (recordAdditions R folder metas kindFor)"
  unfolding recordAdditions_def Let_def by (intro rel.steps_compose local_steps gatePending_steps)

lemma recordRemovals_steps: "steps Rel (recordRemovals R folder kind keys)"
  unfolding recordRemovals_def Let_def by (intro rel.steps_compose local_steps gatePending_steps)

end

locale marking_relation = local_relation R W Rel
  for R :: "'w Reconciler" and W :: "'w \<Rightarrow> 'w \<Rightarrow> bool" and Rel :: "'w st \<Rightarrow> 'w st \<Rightarrow> bool" +
  assumes Rel_meta: "Rel s (s\<lparr> st_db := sql_setMeta key v (st_db s) \<rparr>)"
begin

lemma mark_steps: "steps Rel (SetUIDValidity (r_rt R) v)" "steps Rel (SetLastUID (r_rt R) v)"
  unfolding SetUIDValidity_def SetLastUID_def metaSetUint_def
  by (rule writes_steps, rule store_facts, rule wsteps_store, rule Rel_meta)+

lemma adoptUIDValidity_steps: "steps Rel (adoptUIDValidity R v)"
  unfolding adoptUIDValidity_def by (intro rel.steps_compose local_steps mark_steps)

end

locale calling_relation = reading_relation R W Rel
  for R :: "'w Reconciler" and W :: "'w \<Rightarrow> 'w \<Rightarrow> bool" and Rel :: "'w st \<Rightarrow> 'w st \<Rightarrow> bool" +
  assumes W_dst: "steps W (dst_SelectNamedFolder (r_dst R) name)"
      "steps W (dst_FetchMetaRange (r_dst R) start stop)"
      "steps W (dst_SearchMessageIDsIn (r_dst R) name ids)"
      "steps W (dst_MoveMessageID (r_dst R) name to key)"
      "steps W (dst_MoveUIDs (r_dst R) name uids to)"
      "steps W (dst_StoreKeywordByMessageID (r_dst R) name key add kw)"
      "steps W (dst_StoreKeywordsUIDs (r_dst R) uids flags)"
begin

lemmas call_dst = W_dst [THEN call_steps]

end

locale dest_relation = local_relation R W Rel + calling_relation R W Rel
  for R :: "'w Reconciler" and W :: "'w \<Rightarrow> 'w \<Rightarrow> bool" and Rel :: "'w st \<Rightarrow> 'w st \<Rightarrow> bool"
begin

lemmas dest_steps = call_dst local_steps

end

locale phase_relation = dest_relation R W Rel
  for R :: "'w Reconciler" and W :: "'w \<Rightarrow> 'w \<Rightarrow> bool" and Rel :: "'w st \<Rightarrow> 'w st \<Rightarrow> bool" +
  assumes W_src: "steps W (src_SelectFolder (r_src R))" "steps W (src_SelectNamedFolder (r_src R) name)"
      "steps W (src_ListFolders (r_src R))" "steps W (src_SearchAllUIDs (r_src R))"
      "steps W (src_FetchMetaRange (r_src R) start stop)" "steps W (src_FetchFullStream (r_src R) uids)"
begin

lemmas call_src = W_src [THEN call_steps]
lemmas basic_steps = call_src call_dst local_steps

lemma rebuildWatchedFolder_steps: "steps Rel (rebuildWatchedFolder R folder kind item uv un)"
  unfolding rebuildWatchedFolder_def Let_def
  by (intro rel.steps_compose basic_steps withVars_steps relp.steps_scanWindows relp.steps_compose
      outer_steps vars_steps recordAdditions_steps recordRemovals_steps) auto

lemma syncWatchedFolder_steps: "steps Rel (syncWatchedFolder R folder kind item)"
  unfolding syncWatchedFolder_def Let_def
  by (intro rel.steps_compose basic_steps rel.steps_scanWindows rebuildWatchedFolder_steps
      recordAdditions_steps recordRemovals_steps)

lemma syncMembership_steps: "steps Rel (syncMembership R)"
  unfolding syncMembership_def Let_def by (intro rel.steps_compose basic_steps syncWatchedFolder_steps)

end

locale recording_relation = dest_relation R W Rel
  for R :: "'w Reconciler" and W :: "'w \<Rightarrow> 'w \<Rightarrow> bool" and Rel :: "'w st \<Rightarrow> 'w st \<Rightarrow> bool" +
  assumes Rel_copied: "Rel s (s\<lparr> st_db := sql_insertCopied r (st_db s) \<rparr>)"
begin

lemma record_steps: "steps Rel (RecordKeys (r_rt R) rs)" "steps Rel (SeedBatch (r_rt R) ks)"
  by (rule writes_steps, rule store_facts, rule wsteps_store, rule Rel_fold, rule Rel_copied)+

end

locale pass_relation = phase_relation R W Rel + marking_relation R W Rel + recording_relation R W Rel
  for R :: "'w Reconciler" and W :: "'w \<Rightarrow> 'w \<Rightarrow> bool" and Rel :: "'w st \<Rightarrow> 'w st \<Rightarrow> bool" +
  assumes W_append: "steps W (dst_AppendTo (r_dst R) name full flags)"
      "steps W (dst_BeginAppend (r_dst R) name full flags)"
      "steps W (dst_WaitAppend (r_dst R) h)"
begin

lemmas call_append = W_append [THEN call_steps]

end

end
