(* ===== verification/Supervision.thy ===== *)
theory Supervision
  imports Session Rules
begin

text \<open>
  Invariants of a mirror across sessions: what holds whenever no session is connected, and what holds
  between the passes of a session, is kept by any number of sessions, reconnects and passes.
\<close>

text \<open>The first \<open>n\<close> rounds of \<open>supervise\<close>, for a mirror that is still running.\<close>

fun rounds :: "'w platform \<Rightarrow> Mirror \<Rightarrow> nat \<Rightarrow> duration \<Rightarrow> ('w session, duration option) prog" where
  "rounds P m 0 wait = returnM (Some wait)"
| "rounds P m (Suc n) wait = bindM (superviseRound P m wait) (\<lambda>r.
     case r of None \<Rightarrow> returnM None | Some wait' \<Rightarrow> rounds P m n wait')"

text \<open>
  \<open>I\<close> is the invariant of the whole run, \<open>J\<close> the stronger one of a session between its passes: it holds
  as soon as the destination is connected.  \<open>U\<close> relates the links before and after connecting and
  hanging up, \<open>W\<close> before and after the calls of a connected session outside the passes.
\<close>

locale supervised =
  fixes P :: "'w platform" and m :: Mirror
    and U W :: "'w links \<Rightarrow> 'w links \<Rightarrow> bool" and I J :: "'w session \<Rightarrow> bool"
  assumes U_keeps: "I s \<Longrightarrow> U (st_world s) l \<Longrightarrow> I (s\<lparr> st_world := l \<rparr>)"
    and W_keeps: "J s \<Longrightarrow> W (st_world s) l \<Longrightarrow> J (s\<lparr> st_world := l \<rparr>)"
    and W_U: "W l l' \<Longrightarrow> U l l'"
    and J_I: "J s \<Longrightarrow> I s"
    and local_W: "W l (snd (on_net (rt_sql (pl_rt P)) l))" "W l (snd (on_net (rt_ctx (pl_rt P)) l))"
      "W l (snd (on_net (rt_now (pl_rt P)) l))" "W l (snd (on_net (pl_clock P) l))"
      "W l (snd (on_net (\<lambda>w. ((), pl_wait P d w)) l))" "W l (snd (on_net (\<lambda>w. ((), pl_sleep P d w)) l))"
      "W l (l\<lparr> ln_heartbeat := h \<rparr>)" "W l (l\<lparr> ln_lastLog := h \<rparr>)"
    and idle_W: "steps W (on_src (Idle (pl_src P)))" "steps W (on_src (lib (ic_IdleClose (pl_src P) c)))"
      "steps W (on_src (lib (ic_IdleWait (pl_src P) c)))"
    and open_W: "f \<in> set (destFolders m) \<Longrightarrow> steps W (on_dst (EnsureNamedFolder (pl_dst P) f))"
      "steps W (on_dst (SelectFolder (pl_dst P)))"
    and connect_U: "steps U (dialSource P (mi_Source m))" "steps U (on_src (ResolveSpecialUse (pl_src P)))"
      "steps U (on_src (ResolveFolder (pl_src P) name))" "steps U (dialDest P (mi_Dest m))"
      "U l (closeSource P l)" "U l (closeDest P l)"
    and connected_J: "I s \<Longrightarrow> dialDest P (mi_Dest m) (st_world s) = Some (Inr (), l) \<Longrightarrow> J (s\<lparr> st_world := l \<rparr>)"
    and pass: "hoare J (Run (sessionReconciler P m a b)) (\<lambda>_. J) (\<lambda>_. I)"
      "hoare J (SeedFromDest (sessionReconciler P m a b)) (\<lambda>_. J) (\<lambda>_. I)"
begin

lemma call_W: "steps W p \<Longrightarrow> hoare J (call p) (\<lambda>_. J) (\<lambda>_. I)"
  by (rule hoare_call) (auto dest!: stepsD intro: W_keeps J_I)

lemma call_U: "steps U p \<Longrightarrow> hoare I (call p) (\<lambda>_. I) (\<lambda>_. I)"
  by (rule hoare_call) (auto dest!: stepsD intro: U_keeps)

lemma net_W: "(\<And>l. W l (snd (on_net f l))) \<Longrightarrow> hoare J (at_net f) (\<lambda>_. J) (\<lambda>_. I)"
  unfolding at_net_def
  by (rule hoareI) (auto simp: split_beta intro!: W_keeps)

lemma net_U: "(\<And>l. W l (snd (on_net f l))) \<Longrightarrow> hoare I (at_net f) (\<lambda>_. I) (\<lambda>_. I)"
  unfolding at_net_def
  by (rule hoareI) (auto simp: split_beta intro!: U_keeps W_U)

lemma hoare_quiet: "hoare Q (returnM a) (\<lambda>_. Q) E"
  by (simp add: hoare_def returnM_def)

lemma beat_W: "hoare J (beat P) (\<lambda>_. J) (\<lambda>_. I)"
  unfolding beat_def
  by (rule hoare_bindM [OF net_W], rule local_W) (auto simp: hoare_def modifyM_def intro!: W_keeps local_W)

lemma beat_U: "hoare I (beat P) (\<lambda>_. I) (\<lambda>_. I)"
  unfolding beat_def
  by (rule hoare_bindM [OF net_U], rule local_W) (auto simp: hoare_def modifyM_def intro!: U_keeps W_U local_W)

lemma cancelled_W: "hoare J (cancelled P) (\<lambda>_. J) (\<lambda>_. I)"
  unfolding cancelled_def by (rule hoare_bindM [OF net_W hoare_quiet], rule local_W)

lemma cancelled_U: "hoare I (cancelled P) (\<lambda>_. I) (\<lambda>_. I)"
  unfolding cancelled_def by (rule hoare_bindM [OF net_U hoare_quiet], rule local_W)

lemma reconcile_J: "hoare J (runReconcile P (sessionReconciler P m a b)) (\<lambda>_. J) (\<lambda>_. I)"
  unfolding runReconcile_def by (rule hoare_bindM [OF pass(1) beat_W])

lemma count_J: "hoare J (CopiedCount (r_rt (sessionReconciler P m a b))) (\<lambda>_. J) (\<lambda>_. I)"
proof -
  have "hoare J (sql_call (r_rt (sessionReconciler P m a b))) (\<lambda>_. J) (\<lambda>_. I)"
  proof -
    have rt: "rt_sql (r_rt (sessionReconciler P m a b)) = on_net (rt_sql (pl_rt P))"
      by (simp add: sessionReconciler_def New_def wire_runtime_def Let_def)
    have "J (s\<lparr> st_world := l \<rparr>)" if "J s" "on_net (rt_sql (pl_rt P)) (st_world s) = (r, l)" for s r l
      using W_keeps [OF that(1)] local_W(1) [of "st_world s"] that(2) by simp
    then show ?thesis
      unfolding sql_call_def rt by (auto simp: hoare_def J_I split: prod.splits option.splits)
  qed
  then show ?thesis
    unfolding CopiedCount_def sql_query_def
    by (rule hoare_bindM) (simp add: hoare_def getM_def)
qed

lemma seed_J: "hoare J (maybeSeed m (sessionReconciler P m a b)) (\<lambda>_. J) (\<lambda>_. I)"
  unfolding maybeSeed_def
  by (intro hoare_bindM [where Q = "\<lambda>_. J"] hoare_if hoare_quiet count_J pass(2))

lemma idle_J: "hoare J (idleLoop P m (sessionReconciler P m a b)) (\<lambda>_. J) (\<lambda>_. I)"
proof -
  have round: "hoare J (idleRound P m (sessionReconciler P m a b)) (\<lambda>_. J) (\<lambda>_. I)"
    unfolding idleRound_def pause_def
    by (intro hoare_bindM [where Q = "\<lambda>_. J"] hoare_if hoare_quiet call_W idle_W net_W beat_W
        cancelled_W reconcile_J local_W)
  show ?thesis
    unfolding idleLoop_def
  proof (rule hoare_untilM, rule hoare_bindM [OF cancelled_W], rule hoare_if)
    show "hoare J (bindM (idleRound P m (sessionReconciler P m a b)) (\<lambda>over. returnM (if over then Inr () else Inl ())))
        (\<lambda>r. case r of Inl x' \<Rightarrow> J | Inr a \<Rightarrow> J) (\<lambda>_. I)"
      by (rule hoare_bindM [OF round]) (simp add: hoare_def returnM_def)
  qed (simp add: hoare_def returnM_def)
qed

lemma connected_keeps: "hoare J (connected P m a b) (\<lambda>_. J) (\<lambda>_. I)"
proof -
  have ensure: "hoare J (forM (destFolders m) (\<lambda>f. call (on_dst (EnsureNamedFolder (pl_dst P) f)))) (\<lambda>_. J) (\<lambda>_. I)"
    by (rule hoare_forM [where I = J]) (auto intro: call_W open_W)
  have log: "hoare J (modifyM (\<lambda>s. s\<lparr> st_world := (st_world s)\<lparr> ln_lastLog := 0 \<rparr> \<rparr>)) (\<lambda>_. J) (\<lambda>_. I)"
    by (auto simp: hoare_def modifyM_def intro: W_keeps local_W)
  show ?thesis
    unfolding connected_def Let_def
    by (intro hoare_bindM [where Q = "\<lambda>_. J"] ensure log call_W open_W seed_J reconcile_J idle_J)
qed

lemma hoare_deferM:
  assumes "hoare Q p (\<lambda>_. I) (\<lambda>_. I)" and "\<And>l. U l (cleanup l)"
  shows "hoare Q (deferM cleanup p) (\<lambda>_. I) (\<lambda>_. I)"
  using assms by (auto simp: hoare_def deferM_def split: option.splits sum.splits intro!: U_keeps)

lemma session_keeps: "hoare I (runSession P m) (\<lambda>_. I) (\<lambda>_. I)"
proof -
  have body: "hoare J (connected P m a b) (\<lambda>_. I) (\<lambda>_. I)" for a b
    by (rule hoare_post [OF connected_keeps J_I])
  have dst: "hoare I (call (dialDest P (mi_Dest m))) (\<lambda>_. J) (\<lambda>_. I)"
    by (rule hoare_call) (auto intro: connected_J U_keeps dest: stepsD [OF connect_U(4)])
  have inner: "hoare I (bindM (call (dialDest P (mi_Dest m))) (\<lambda>_. deferM (closeDest P) (connected P m a b)))
      (\<lambda>_. I) (\<lambda>_. I)" for a b
    by (rule hoare_bindM [OF dst]) (rule hoare_deferM [OF body connect_U(6)])
  show ?thesis
    unfolding runSession_def
    by (intro hoare_bindM [where Q = "\<lambda>_. I"] hoare_deferM hoare_if hoare_quiet call_U connect_U inner)
qed

lemma round_keeps: "hoare I (superviseRound P m w) (\<lambda>_. I) (\<lambda>_. I)"
  unfolding superviseRound_def Let_def pause_def
  by (intro hoare_bindM [where Q = "\<lambda>_. I"] hoare_if hoare_quiet net_U beat_U hoare_tryM session_keeps local_W)

lemma rounds_keep: "hoare I (rounds P m n w) (\<lambda>_. I) (\<lambda>_. I)"
proof (induction n arbitrary: w)
  case (Suc n)
  have "hoare I (case r of None \<Rightarrow> returnM None | Some w' \<Rightarrow> rounds P m n w') (\<lambda>_. I) (\<lambda>_. I)" for r
    using Suc by (cases r) (simp_all add: hoare_quiet)
  then show ?case unfolding rounds.simps by (rule hoare_bindM [OF round_keeps])
qed (simp add: hoare_quiet)

lemma supervise_keeps: "hoare I (supervise P m) (\<lambda>_. I) (\<lambda>_. I)"
  unfolding supervise_def
proof (rule hoare_untilM, rule hoare_bindM [OF cancelled_U], rule hoare_if)
  show "hoare I (bindM (superviseRound P m w) (\<lambda>r. returnM (case r of None \<Rightarrow> Inr () | Some wait' \<Rightarrow> Inl wait')))
      (\<lambda>r. case r of Inl x' \<Rightarrow> I | Inr a \<Rightarrow> I) (\<lambda>_. I)" for w
    by (rule hoare_bindM [OF round_keeps]) (auto simp: hoare_def returnM_def split: option.split)
qed (simp add: hoare_def returnM_def)

lemmas mirror_keeps = conjI [OF supervise_keeps allI [OF allI [OF rounds_keep]]]

end

end
