(* ===== verification/Phases.thy ===== *)
theory Phases
  imports Rules
begin

text \<open>
  The phases of a pass keep every relation that the primitive steps keep: propagation, backfill,
  copying, the whole of \<open>Run\<close> and \<open>SeedFromDest\<close>.  The interpretations at the end give the facts that
  hold of every pass whatever the servers, the database driver and the context do.
\<close>

section \<open>The propagation loop\<close>

lemma hoare_propagate:
  assumes read: "hoare I (PendingOps (r_rt R) 200) J E"
    and exit: "\<And>s. J [] s \<Longrightarrow> Q () s"
    and page: "\<And>ops. ops \<noteq> [] \<Longrightarrow>
      hoare (J ops) (bindM (applyPage R ops []) (DeletePendingBatch (r_rt R))) (\<lambda>_. I) E"
  shows "hoare I (propagate R) Q E"
  unfolding propagate_def
proof (rule hoare_untilM, rule hoare_bindM [OF read])
  fix ops
  show "hoare (J ops) (if ops = [] then returnM (Inr ())
      else bindM (bindM (applyPage R ops []) (DeletePendingBatch (r_rt R))) (\<lambda>_. returnM (Inl ())))
      (\<lambda>r. case r of Inl x' \<Rightarrow> I | Inr a \<Rightarrow> Q a) E"
  proof (cases "ops = []")
    case False
    have "hoare I (returnM (Inl ())) (\<lambda>r. case r of Inl x' \<Rightarrow> I | Inr a \<Rightarrow> Q a) E"
      by (simp add: hoare_def returnM_def)
    with hoare_bindM [OF page [OF False]] show ?thesis using False by simp
  qed (auto simp: hoare_def returnM_def exit)
qed

section \<open>The phases\<close>

context calling_relation begin

lemma moveFrom_steps: "steps Rel (moveFrom R desired key folders)"
  by (induction folders) (auto intro!: rel.steps_compose call_dst reading_steps)

lemma storeKeywordIn_steps: "steps Rel (storeKeywordIn R key add kw folders)"
  by (induction folders) (auto intro!: rel.steps_compose call_dst reading_steps)

lemma applyPending_steps: "steps Rel (applyPending R op)"
  unfolding applyPending_def Let_def
  by (intro rel.steps_compose destFolderFor_steps moveFrom_steps storeKeywordIn_steps)

end

context dest_relation begin

lemma applyPage_steps: "steps Rel (applyPage R ops ids)"
proof (induction ops arbitrary: ids)
  case Nil
  show ?case by (simp add: rel.steps_returnM)
next
  case (Cons op ops)
  show ?case
    unfolding applyPage.simps
    by (intro rel.steps_compose dest_steps applyPending_steps Cons)
qed

lemma propagate_steps: "steps Rel (propagate R)"
  unfolding propagate_def by (intro rel.steps_compose' applyPage_steps dest_steps)

lemma storeGroups_steps: "steps Rel (storeGroups R v groups)"
  unfolding storeGroups_def by (intro rel.steps_compose dest_steps)

lemma moveGroups_steps: "steps Rel (moveGroups R folder groups)"
  unfolding moveGroups_def by (intro rel.steps_compose dest_steps)

lemma backfillDestFolder_steps: "steps Rel (backfillDestFolder R folder)"
  unfolding backfillDestFolder_def
  by (intro rel.steps_compose dest_steps withVars_steps relp.steps_scanWindows relp.steps_compose
      outer_steps backfillMessage_steps storeGroups_steps moveGroups_steps)

lemma maybeBackfill_steps: "steps Rel (maybeBackfill R)"
  unfolding maybeBackfill_def Let_def
  by (intro rel.steps_compose dest_steps backfillDestFolder_steps)

end

context recording_relation begin

lemma seedFromDestFolder_steps: "steps Rel (seedFromDestFolder R folder item)"
  unfolding seedFromDestFolder_def Let_def
  by (intro rel.steps_compose dest_steps record_steps withVars_steps relp.steps_scanWindows relp.steps_compose
      outer_steps vars_steps) auto

lemma SeedFromDest_steps: "steps Rel (SeedFromDest R)"
  unfolding SeedFromDest_def Let_def
  by (intro rel.steps_compose seedFromDestFolder_steps)

end

context pass_relation begin

lemma guardSplit_steps: "steps Rel (guardSplit R found ps rs kept)"
proof (induction ps arbitrary: rs kept)
  case Nil
  show ?case by (simp add: rel.steps_returnM)
next
  case (Cons p ps)
  show ?case
    unfolding guardSplit.simps by (intro rel.steps_compose basic_steps call_append mark_steps Cons)
qed

lemma guard_steps: "steps Rel (guard R pend)"
  unfolding guard_def Let_def by (intro rel.steps_compose basic_steps call_append mark_steps record_steps guardSplit_steps)

lemma failWith_steps: "steps (\<lambda>p p'. Rel (fst p) (fst p')) (failWith e)"
  unfolding failWith_def by (rule vars_steps) simp

lemma flushRecords_steps: "steps (\<lambda>p p'. Rel (fst p) (fst p')) (flushRecords R)"
  unfolding flushRecords_def
  by (intro relp.steps_compose outer_steps basic_steps call_append mark_steps record_steps failWith_steps vars_steps) auto

lemma confirmAppend_steps: "steps (\<lambda>p p'. Rel (fst p) (fst p')) (confirmAppend R n it b)"
  unfolding confirmAppend_def
  by (intro relp.steps_compose outer_steps basic_steps call_append mark_steps flushRecords_steps vars_steps) auto

lemma settleOldest_steps: "steps (\<lambda>p p'. Rel (fst p) (fst p')) (settleOldest R n)"
  unfolding settleOldest_def
  by (intro relp.steps_compose outer_steps basic_steps call_append mark_steps confirmAppend_steps failWith_steps vars_steps) auto

lemma consumeItem_steps: "steps (\<lambda>p p'. Rel (fst p) (fst p')) (consumeItem R a b item)"
  unfolding consumeItem_def Let_def
  by (intro relp.steps_compose outer_steps basic_steps call_append mark_steps settleOldest_steps failWith_steps
      labelsFor_steps vars_steps) auto

lemma drainRing_steps: "steps (\<lambda>p p'. Rel (fst p) (fst p')) (drainRing R b n)"
  by (induction n) (auto intro!: relp.steps_compose settleOldest_steps)

lemma consume_steps: "steps (\<lambda>p p'. Rel (fst p) (fst p')) (consume R a b items)"
  unfolding consume_def
  by (intro relp.steps_compose consumeItem_steps drainRing_steps flushRecords_steps)

lemma copyPipeline_steps: "steps Rel (copyPipeline R pend)"
  unfolding copyPipeline_def Let_def
  by (intro rel.steps_compose basic_steps call_append mark_steps withVars_steps consume_steps)

lemma mirrorWindow_steps: "steps Rel (mirrorWindow R metas)"
  unfolding mirrorWindow_def by (intro rel.steps_compose classify_steps guard_steps copyPipeline_steps)

lemma mirrorStep_steps: "steps Rel (mirrorStep R stop metas)"
  unfolding mirrorStep_def by (intro rel.steps_compose basic_steps call_append mark_steps mirrorWindow_steps)

lemma Run_steps: "steps Rel (Run R)"
  unfolding Run_def
  by (intro rel.steps_compose basic_steps call_append mark_steps syncMembership_steps adoptUIDValidity_steps
      maybeBackfill_steps rel.steps_scanWindows mirrorStep_steps propagate_steps)

end

section \<open>Facts about every pass\<close>

lemma runtime_any: "runtime_relation rt (\<lambda>_ _. True)"
  by unfold_locales auto

lemma steps_any: "steps (\<lambda>_ _. True) m"
  by (simp add: steps_def)

text \<open>Applying an operation of the queue leaves the database alone.\<close>

interpretation untouched: calling_relation R "\<lambda>_ _. True" "\<lambda>s s'. st_db s' = st_db s" for R :: "'w Reconciler"
  by unfold_locales (auto simp: steps_any)

text \<open>No pass takes a key out of the dedup set.\<close>

definition keeps_copied :: "'w st \<Rightarrow> 'w st \<Rightarrow> bool" where
  "keeps_copied s s' \<longleftrightarrow> (\<forall>k. has_key (st_db s) k \<longrightarrow> has_key (st_db s') k)"

interpretation keys: pass_relation R "\<lambda>_ _. True" keeps_copied for R :: "'w Reconciler"
  by unfold_locales (auto simp: steps_any keeps_copied_def copied.has_add)

text \<open>Every pass keeps the tables well-formed.\<close>

definition keeps_db_ok :: "'w st \<Rightarrow> 'w st \<Rightarrow> bool" where
  "keeps_db_ok s s' \<longleftrightarrow> (db_ok (st_db s) \<longrightarrow> db_ok (st_db s'))"

interpretation tables: pass_relation R "\<lambda>_ _. True" keeps_db_ok for R :: "'w Reconciler"
  by unfold_locales (auto simp: steps_any keeps_db_ok_def db_ok_statements)

end
