(* ===== verification/Pipeline.thy ===== *)
theory Pipeline
  imports Phases
begin

text \<open>
  The append pipeline as a loop with an invariant.  The consumer goroutine of \<open>copyPipeline\<close> issues
  appends into a ring, settles the oldest one, and flushes the records of confirmed appends.  The
  locale \<open>pipeline\<close> names what has to be shown of each of its calls; its result is that the invariant
  holds when the consumer ends, whichever call fails.  The safety theorems interpret it.
\<close>

section \<open>Calm steps\<close>

text \<open>
  A step that follows \<open>W\<close> outside and leaves the whole database alone, and one that leaves the dedup
  set alone.
\<close>

definition calm :: "('w \<Rightarrow> 'w \<Rightarrow> bool) \<Rightarrow> 'w st \<Rightarrow> 'w st \<Rightarrow> bool" where
  "calm W s s' \<longleftrightarrow> W (st_world s) (st_world s') \<and> st_db s' = st_db s"

definition apart :: "('w \<Rightarrow> 'w \<Rightarrow> bool) \<Rightarrow> 'w st \<Rightarrow> 'w st \<Rightarrow> bool" where
  "apart W s s' \<longleftrightarrow> W (st_world s) (st_world s') \<and> db_copied (st_db s') = db_copied (st_db s)"

lemma calm_apart: "calm W s s' \<Longrightarrow> apart W s s'"
  by (simp add: calm_def apart_def)

lemma apart_has_key: "apart W s s' \<Longrightarrow> has_key (st_db s') k \<longleftrightarrow> has_key (st_db s) k"
  by (simp add: apart_def has_key_def)

lemma apply_change_copied [simp]: "db_copied (apply_change f it d) = db_copied d"
  by (simp add: apply_change_def Let_def sql_upsertMember_def sql_deleteMember_def sql_insertPending_def)

lemma hoare_related:
  assumes "steps Rel m" and "\<And>s s'. I s \<Longrightarrow> Rel s s' \<Longrightarrow> I s'" and "\<And>e s. I s \<Longrightarrow> E e s"
  shows "hoare I m (\<lambda>_. I) E"
  by (rule hoareI) (use assms in \<open>blast dest: stepsD\<close>)+

locale calm_relation = runtime_relation "r_rt R" W
  for R :: "'w Reconciler" and W :: "'w \<Rightarrow> 'w \<Rightarrow> bool" +
  assumes calm_progress: "OnProgress (r_opts R) = Some f \<Longrightarrow> W w (f phase item n w)"
begin

sublocale calm: reading_relation R W "calm W"
  by unfold_locales (auto simp: calm_def intro: W_refl W_trans calm_progress)

sublocale apart: marking_relation R W "apart W"
  by unfold_locales
    (auto simp: apart_def sql_deletePending_def sql_setFolder_def sql_setMeta_def
      intro: W_refl W_trans calm_progress)

lemma hoare_calm_outer:
  assumes "steps (calm W) m" and "\<And>s e s'. m s \<noteq> Some (Inl e, s')"
    and "\<And>s s' c. I (s, c) \<Longrightarrow> calm W s s' \<Longrightarrow> I (s', c)"
  shows "hoare I (outer m) (\<lambda>_. I) E"
  by (rule hoareI)
    (use assms in \<open>auto simp: outer_def zoomM_def split: option.splits dest: stepsD\<close>)

lemma hoare_calm_try:
  assumes "steps (calm W) m"
    and "\<And>s s' c. I (s, c) \<Longrightarrow> calm W s s' \<Longrightarrow> I (s', c)"
  shows "hoare I (tryM (outer m)) (\<lambda>_. I) E"
  by (rule hoareI)
    (use assms in \<open>auto simp: outer_def zoomM_def tryM_def split: option.splits dest: stepsD\<close>)

lemma nowUnix_ok: "nowUnix R s \<noteq> Some (Inl e, s')"
  by (auto simp: nowUnix_def split: prod.splits)

lemma progress_ok: "progress R phase item n s \<noteq> Some (Inl e, s')"
  by (auto simp: progress_def returnM_def modifyM_def split: option.splits)

lemma update_sum_ok: "update_sum f s \<noteq> Some (Inl e, s')"
  by (auto simp: update_sum_def modifyM_def)

lemmas calm_outers = hoare_calm_outer [OF calm.nowUnix_steps nowUnix_ok]
  hoare_calm_outer [OF calm.progress_steps progress_ok]
  hoare_calm_outer [OF calm.update_sum_steps update_sum_ok]

end

section \<open>The contract of the consumer\<close>

definition copy_record :: "pendingCopy \<Rightarrow> int \<Rightarrow> KeyRecord" where
  "copy_record pc now = \<lparr> kr_Key = pc_key pc, kr_UID = pc_uid pc, kr_CopiedAtUnix = now \<rparr>"

text \<open>
  \<open>P todo ring records s\<close> holds while no error has occurred, \<open>E records s\<close> afterwards.
\<close>

locale pipeline = calm_relation R W
  for R :: "'w Reconciler" and W :: "'w \<Rightarrow> 'w \<Rightarrow> bool" +
  fixes P :: "(FullMessage \<times> pendingCopy) list \<Rightarrow> inflightAppend list \<Rightarrow> KeyRecord list \<Rightarrow> 'w st \<Rightarrow> bool"
    and E :: "KeyRecord list \<Rightarrow> 'w st \<Rightarrow> bool"
  assumes P_calm: "P todo rg rs s \<Longrightarrow> calm W s s' \<Longrightarrow> P todo rg rs s'"
    and E_calm: "E rs s \<Longrightarrow> calm W s s' \<Longrightarrow> E rs s'"
    and P_fail: "P todo rg rs s \<Longrightarrow> E rs s"
    and P_flush: "P todo rg rs s \<Longrightarrow> W (st_world s) w \<Longrightarrow>
      P todo rg [] (s\<lparr> st_world := w, st_db := fold sql_insertCopied rs (st_db s) \<rparr>)"
    and E_flush: "E rs s \<Longrightarrow> W (st_world s) w \<Longrightarrow>
      E [] (s\<lparr> st_world := w, st_db := fold sql_insertCopied rs (st_db s) \<rparr>)"
    and P_begin: "P ((full, pc) # todo) rg rs s \<Longrightarrow>
      dst_BeginAppend (r_dst R) (pc_destFolder pc) full fl (st_world s) = Some (Inr h, w) \<Longrightarrow>
      P todo (rg @ [\<lparr> if_pa = h, if_pc = pc, if_full = full, if_baseFlags = bf, if_hadKeywords = hk \<rparr>])
        rs (s\<lparr> st_world := w \<rparr>)"
    and P_begin_err: "P ((full, pc) # todo) rg rs s \<Longrightarrow>
      dst_BeginAppend (r_dst R) (pc_destFolder pc) full fl (st_world s) = Some (Inl e, w) \<Longrightarrow>
      E rs (s\<lparr> st_world := w \<rparr>)"
    and P_wait: "P todo (it # rg) rs s \<Longrightarrow>
      dst_WaitAppend (r_dst R) (if_pa it) (st_world s) = Some (Inr (), w) \<Longrightarrow>
      P todo rg (rs @ [copy_record (if_pc it) now]) (s\<lparr> st_world := w \<rparr>)"
    and P_wait_err: "P todo (it # rg) rs s \<Longrightarrow>
      dst_WaitAppend (r_dst R) (if_pa it) (st_world s) = Some (Inl e, w) \<Longrightarrow>
      E rs (s\<lparr> st_world := w \<rparr>)"
    and P_retry: "P todo (it # rg) rs s \<Longrightarrow>
      dst_WaitAppend (r_dst R) (if_pa it) (st_world s) = Some (Inl e, w) \<Longrightarrow> isServerReject e \<Longrightarrow>
      dst_AppendTo (r_dst R) (pc_destFolder (if_pc it)) (if_full it) (if_baseFlags it) w = Some (Inr (), w') \<Longrightarrow>
      P todo rg (rs @ [copy_record (if_pc it) now]) (s\<lparr> st_world := w' \<rparr>)"
    and P_retry_err: "P todo (it # rg) rs s \<Longrightarrow>
      dst_WaitAppend (r_dst R) (if_pa it) (st_world s) = Some (Inl e, w) \<Longrightarrow> isServerReject e \<Longrightarrow>
      dst_AppendTo (r_dst R) (pc_destFolder (if_pc it)) (if_full it) (if_baseFlags it) w = Some (Inl e', w') \<Longrightarrow>
      E rs (s\<lparr> st_world := w' \<rparr>)"
begin

abbreviation never :: "gerr \<Rightarrow> 'w st \<times> consumer \<Rightarrow> bool" where
  "never \<equiv> \<lambda>_ _. False"

text \<open>What the consumer keeps between two rounds.\<close>

fun inv :: "(FullMessage \<times> pendingCopy) list \<Rightarrow> 'w st \<times> consumer \<Rightarrow> bool" where
  "inv todo (s, c) =
     (case consErr c of None \<Rightarrow> P todo (ring c) (records c) s | Some _ \<Rightarrow> E (records c) s)"

lemma inv_calm: "inv todo (s, c) \<Longrightarrow> calm W s s' \<Longrightarrow> inv todo (s', c)"
  by (auto split: option.splits intro: P_calm E_calm)

lemma hoare_failWith:
  "(\<And>s c. Pre (s, c) \<Longrightarrow> E (records c) s) \<Longrightarrow> (\<And>s c. Pre (s, c) \<Longrightarrow> Q (ring c)) \<Longrightarrow>
   hoare Pre (failWith e) (\<lambda>_ p. inv todo p \<and> Q (ring (snd p)) \<and> consErr (snd p) \<noteq> None) never"
  by (rule hoareI) (auto simp: failWith_def modifyM_def split: option.splits)

lemma hoare_flushRecords:
  "hoare (\<lambda>p. inv todo p \<and> ring (snd p) = rg) (flushRecords R)
    (\<lambda>_ p. inv todo p \<and> ring (snd p) = rg \<and> (consErr (snd p) = None \<longrightarrow> records (snd p) = [])) never"
proof (rule hoareI)
  fix p a p'
  assume pre: "inv todo p \<and> ring (snd p) = rg" and run: "flushRecords R p = Some (Inr a, p')"
  obtain s c where p: "p = (s, c)" by force
  show "inv todo p' \<and> ring (snd p') = rg \<and> (consErr (snd p') = None \<longrightarrow> records (snd p') = [])"
  proof (cases "records c = []")
    case True
    then show ?thesis using pre run p
      by (auto simp: flushRecords_def bindM_def getM_def returnM_def)
  next
    case False
    obtain r w where rec: "RecordKeys (r_rt R) (records c) s = Some (r, s\<lparr> st_world := w,
        st_db := (case r of Inl e \<Rightarrow> st_db s | Inr _ \<Rightarrow> fold sql_insertCopied (records c) (st_db s)) \<rparr>)"
      using writes_RecordKeys [of "r_rt R" "records c"] unfolding writes_def by blast
    have W: "W (st_world s) w"
      using stepsD [OF wsteps_methods(1) rec] by simp
    show ?thesis
    proof (cases r)
      case (Inl e)
      then have "p' = (s\<lparr> st_world := w \<rparr>, if consErr c = None then c\<lparr> consErr := Some e \<rparr> else c)"
        using False run p rec
        by (auto simp: flushRecords_def bindM_def getM_def tryM_def outer_def zoomM_def failWith_def modifyM_def)
      moreover have "calm W s (s\<lparr> st_world := w \<rparr>)" using W by (simp add: calm_def)
      ultimately show ?thesis
        using pre p by (auto split: option.splits intro: P_fail E_calm)
    next
      case (Inr u)
      then have "p' = (s\<lparr> st_world := w, st_db := fold sql_insertCopied (records c) (st_db s) \<rparr>,
          c\<lparr> records := [] \<rparr>)"
        using False run p rec
        by (auto simp: flushRecords_def bindM_def getM_def tryM_def outer_def zoomM_def modifyM_def)
      then show ?thesis
        using pre p W by (auto split: option.splits intro: P_flush E_flush)
    qed
  qed
next
  fix p e p'
  assume "flushRecords R p = Some (Inl e, p')"
  then show False
    by (auto simp: flushRecords_def bindM_def getM_def returnM_def tryM_def outer_def zoomM_def
        failWith_def modifyM_def split: if_splits option.splits sum.splits)
qed

text \<open>A confirmed append that is about to be recorded.\<close>

definition confirmed :: "(FullMessage \<times> pendingCopy) list \<Rightarrow> inflightAppend \<Rightarrow> inflightAppend list \<Rightarrow>
    'w st \<times> consumer \<Rightarrow> bool" where
  "confirmed todo it rg p \<longleftrightarrow> consErr (snd p) = None \<and> ring (snd p) = rg \<and>
     (\<forall>now. P todo rg (records (snd p) @ [copy_record (if_pc it) now]) (fst p))"

lemma confirmed_calm: "confirmed todo it rg (s, c) \<Longrightarrow> calm W s s' \<Longrightarrow> confirmed todo it rg (s', c)"
  by (auto simp: confirmed_def intro: P_calm)

lemma hoare_confirmAppend:
  "hoare (confirmed todo it rg) (confirmAppend R fl it b)
    (\<lambda>_ p. inv todo p \<and> ring (snd p) = rg) never"
  unfolding confirmAppend_def
proof (rule hoare_bindM)
  show "hoare (confirmed todo it rg) (if b then outer (update_sum (\<lambda>sum. sum\<lparr> KeywordsSet := KeywordsSet sum + 1 \<rparr>))
      else returnM ()) (\<lambda>_. confirmed todo it rg) never"
    by (auto intro!: calm_outers hoare_returnM intro: confirmed_calm)
next
  let ?I = "\<lambda>p. inv todo p \<and> ring (snd p) = rg"
  note keep = calm_outers [where I = ?I, where E = never]
  have rest: "hoare ?I (bindM (outer (update_sum (\<lambda>sum. sum\<lparr> Copied := Copied sum + 1 \<rparr>))) (\<lambda>_.
      bindM (getM (\<lambda>(s, c). Copied (st_sum s))) (\<lambda>n.
      bindM (outer (progress R ''mirror'' [] n)) (\<lambda>_.
      bindM (getM (\<lambda>(s, c). length (records c))) (\<lambda>len.
      if fl \<le> len then flushRecords R else returnM ()))))) (\<lambda>_. ?I) never"
    by (rule hoare_bindM [OF keep(3)], erule conjE, rule conjI, erule (1) inv_calm, simp,
        rule hoare_bindM [where Q = "\<lambda>_. ?I"], simp add: hoare_def getM_def split_beta,
        rule hoare_bindM [OF keep(2)], erule conjE, rule conjI, erule (1) inv_calm, simp,
        rule hoare_bindM [where Q = "\<lambda>_. ?I"], simp add: hoare_def getM_def split_beta,
        rule hoare_if, rule hoare_post [OF hoare_flushRecords], simp, rule hoare_returnM)
  show "hoare (confirmed todo it rg) (bindM (outer (nowUnix R)) (\<lambda>now.
     bindM (modifyM (\<lambda>(s, c). (s, c\<lparr> records := records c @
         [\<lparr> kr_Key = pc_key (if_pc it), kr_UID = pc_uid (if_pc it), kr_CopiedAtUnix = now \<rparr>] \<rparr>))) (\<lambda>_.
     bindM (outer (update_sum (\<lambda>sum. sum\<lparr> Copied := Copied sum + 1 \<rparr>))) (\<lambda>_.
      bindM (getM (\<lambda>(s, c). Copied (st_sum s))) (\<lambda>n.
      bindM (outer (progress R ''mirror'' [] n)) (\<lambda>_.
      bindM (getM (\<lambda>(s, c). length (records c))) (\<lambda>len.
      if fl \<le> len then flushRecords R else returnM ()))))))) (\<lambda>_. ?I) never"
    by (rule hoare_bindM [OF calm_outers(1)], erule (1) confirmed_calm, rule hoare_bindM [OF _ rest])
      (auto simp: hoare_def modifyM_def confirmed_def copy_record_def split_beta)
qed

lemma settleOldest_unfold:
  assumes "ring c = it # rg"
  shows "settleOldest R fl (s, c) =
    (case dst_WaitAppend (r_dst R) (if_pa it) (st_world s) of
       None \<Rightarrow> None
     | Some (Inr u, w) \<Rightarrow>
         confirmAppend R fl it (if_hadKeywords it) (s\<lparr> st_world := w \<rparr>, c\<lparr> ring := rg \<rparr>)
     | Some (Inl e, w) \<Rightarrow>
         if \<not> if_hadKeywords it \<or> \<not> isServerReject e
         then failWith (Wrap ''uid %d: %w'' [FormatUint (unat (pc_uid (if_pc it)))] e)
           (s\<lparr> st_world := w \<rparr>, c\<lparr> ring := rg \<rparr>)
         else (case dst_AppendTo (r_dst R) (pc_destFolder (if_pc it)) (if_full it) (if_baseFlags it) w of
             None \<Rightarrow> None
           | Some (Inr u, w') \<Rightarrow>
               confirmAppend R fl it False (s\<lparr> st_world := w' \<rparr>, c\<lparr> ring := rg \<rparr>)
           | Some (Inl e', w') \<Rightarrow>
               failWith (Wrap ''uid %d: %w'' [FormatUint (unat (pc_uid (if_pc it)))] e')
                 (s\<lparr> st_world := w' \<rparr>, c\<lparr> ring := rg \<rparr>)))"
  using assms
  by (simp add: settleOldest_def bindM_def getM_def modifyM_def tryM_def outer_def zoomM_def call_eq
      split: option.splits prod.splits sum.splits)

lemma hoare_settleOldest:
  "hoare (\<lambda>(s, c). consErr c = None \<and> ring c = it # rg \<and> P todo (it # rg) (records c) s)
    (settleOldest R fl) (\<lambda>_ p. inv todo p \<and> ring (snd p) = rg) never"
proof -
  have conf: "case confirmAppend R fl it b (s, c) of None \<Rightarrow> True | Some (Inl e, q) \<Rightarrow> False
      | Some (Inr a, q) \<Rightarrow> inv todo q \<and> ring (snd q) = rg"
    if "confirmed todo it rg (s, c)" for b s c
    using hoare_confirmAppend [of todo it rg fl b] that by (auto simp: hoare_def)
  have failed: "case failWith e (s, c) of None \<Rightarrow> True | Some (Inl e, q) \<Rightarrow> False
      | Some (Inr a, q) \<Rightarrow> inv todo q \<and> ring (snd q) = rg"
    if "E (records c) s" and "ring c = rg" and "consErr c = None" for e s c
    using that by (simp add: failWith_def modifyM_def)
  show ?thesis
    unfolding hoare_def
  proof (intro allI impI, clarify)
    fix s :: "'w st" and c :: consumer
    assume c: "consErr c = None" "ring c = it # rg" and P: "P todo (it # rg) (records c) s"
    note unf = settleOldest_unfold [OF c(2), of fl s]
    let ?s = "\<lambda>w. (s\<lparr> st_world := w \<rparr>, c\<lparr> ring := rg \<rparr>)"
    show "case settleOldest R fl (s, c) of None \<Rightarrow> True | Some (Inl e, q) \<Rightarrow> False
      | Some (Inr a, q) \<Rightarrow> inv todo q \<and> ring (snd q) = rg"
    proof (cases "dst_WaitAppend (r_dst R) (if_pa it) (st_world s)")
      case None
      then show ?thesis by (simp add: unf)
    next
      case (Some rw)
      obtain r w where wait: "dst_WaitAppend (r_dst R) (if_pa it) (st_world s) = Some (r, w)"
        using Some by (cases rw) auto
      show ?thesis
      proof (cases r)
        case (Inr u)
        then have "confirmed todo it rg (?s w)"
          using c P P_wait wait by (simp add: confirmed_def)
        from conf [OF this] show ?thesis by (simp add: unf wait Inr)
      next
        case (Inl e)
        note wait' = wait [unfolded Inl]
        have err: "E (records (c\<lparr> ring := rg \<rparr>)) (s\<lparr> st_world := w \<rparr>)"
          using P_wait_err [OF P wait'] by simp
        show ?thesis
        proof (cases "\<not> if_hadKeywords it \<or> \<not> isServerReject e")
          case True
          then show ?thesis using failed [OF err] c by (simp add: unf wait Inl)
        next
          case False
          then have rej: "isServerReject e" by simp
          show ?thesis
          proof (cases "dst_AppendTo (r_dst R) (pc_destFolder (if_pc it)) (if_full it) (if_baseFlags it) w")
            case None
            then show ?thesis using False by (simp add: unf wait Inl)
          next
            case (Some rw')
            obtain r' w' where retry: "dst_AppendTo (r_dst R) (pc_destFolder (if_pc it)) (if_full it)
                (if_baseFlags it) w = Some (r', w')"
              using Some by (cases rw') auto
            show ?thesis
            proof (cases r')
              case (Inr u)
              then have "confirmed todo it rg (?s w')"
                using c P_retry [OF P wait' rej] retry by (simp add: confirmed_def)
              from conf [OF this] show ?thesis using False \<open>r = Inl e\<close> by (simp add: unf wait retry Inr)
            next
              case (Inl e')
              have "E (records (c\<lparr> ring := rg \<rparr>)) (s\<lparr> st_world := w' \<rparr>)"
                using P_retry_err [OF P wait' rej retry [unfolded Inl]] by simp
              from failed [OF this] show ?thesis using c False \<open>r = Inl e\<close> by (simp add: unf wait retry Inl)
            qed
          qed
        qed
      qed
    qed
  qed
qed

text \<open>Any state of the invariant can be weakened to that of a list with nothing left to do.\<close>

lemma hoare_settle_head:
  "hoare (\<lambda>p. consErr (snd p) = None \<and> ring (snd p) \<noteq> [] \<and> inv todo p)
    (settleOldest R fl) (\<lambda>_ p. inv todo p) never"
  "hoare (\<lambda>p. consErr (snd p) = None \<and> ring (snd p) \<noteq> [] \<and> inv todo p \<and> length (ring (snd p)) \<le> Suc n)
    (settleOldest R fl) (\<lambda>_ p. inv todo p \<and> length (ring (snd p)) \<le> n) never"
proof -
  have pre: "\<exists>it rg. ring (snd p) = it # rg \<and>
      (\<lambda>(s, c). consErr c = None \<and> ring c = it # rg \<and> P todo (it # rg) (records c) s) p"
    if "consErr (snd p) = None" "ring (snd p) \<noteq> []" "inv todo p" for p
    using that by (cases p; cases "ring (snd p)") auto
  have ok: "inv todo q \<and> ring (snd q) = tl (ring (snd p))"
    if h: "consErr (snd p) = None" "ring (snd p) \<noteq> []" "inv todo p"
      "settleOldest R fl p = Some (Inr a, q)" for p a q
  proof -
    obtain it rg where rg: "ring (snd p) = it # rg" and *: "(\<lambda>(s, c). consErr c = None \<and>
        ring c = it # rg \<and> P todo (it # rg) (records c) s) p"
      using pre [OF h(1-3)] by blast
    show ?thesis using hoare_InrD [OF hoare_settleOldest * h(4)] rg by simp
  qed
  have err: False
    if h: "consErr (snd p) = None" "ring (snd p) \<noteq> []" "inv todo p"
      "settleOldest R fl p = Some (Inl e, q)" for p e q
  proof -
    obtain it rg where *: "(\<lambda>(s, c). consErr c = None \<and>
        ring c = it # rg \<and> P todo (it # rg) (records c) s) p"
      using pre [OF h(1-3)] by blast
    show ?thesis using hoare_InlD [OF hoare_settleOldest * h(4)] .
  qed
  show "hoare (\<lambda>p. consErr (snd p) = None \<and> ring (snd p) \<noteq> [] \<and> inv todo p)
      (settleOldest R fl) (\<lambda>_ p. inv todo p) never"
    by (rule hoareI) (blast dest: ok, blast dest: err)
  show "hoare (\<lambda>p. consErr (snd p) = None \<and> ring (snd p) \<noteq> [] \<and> inv todo p \<and> length (ring (snd p)) \<le> Suc n)
      (settleOldest R fl) (\<lambda>_ p. inv todo p \<and> length (ring (snd p)) \<le> n) never"
  proof (rule hoareI)
    fix p a q
    assume "consErr (snd p) = None \<and> ring (snd p) \<noteq> [] \<and> inv todo p \<and> length (ring (snd p)) \<le> Suc n"
      and "settleOldest R fl p = Some (Inr a, q)"
    then show "inv todo q \<and> length (ring (snd q)) \<le> n" using ok [of p a q] by auto
  qed (blast dest: err)
qed

lemma hoare_issue:
  "hoare (\<lambda>p. consErr (snd p) = None \<and> inv ((full, pc) # todo) p)
    (bindM (tryM (outer (call (dst_BeginAppend (r_dst R) (pc_destFolder pc) full fl)))) (\<lambda>r.
       case r of
         Inl e \<Rightarrow> failWith (w e)
       | Inr pa \<Rightarrow>
           bindM (modifyM (\<lambda>(s, c). (s, c\<lparr> ring := ring c @
             [\<lparr> if_pa = pa, if_pc = pc, if_full = full, if_baseFlags = bf, if_hadKeywords = hk \<rparr>] \<rparr>))) (\<lambda>_.
           bindM (getM (\<lambda>(s, c). length (ring c))) (\<lambda>len.
           if rl \<le> len then settleOldest R flim else returnM ()))))
    (\<lambda>_. inv todo) never"
proof (rule hoare_bindM [where Q = "\<lambda>r p. consErr (snd p) = None \<and>
    (case r of Inl e \<Rightarrow> E (records (snd p)) (fst p)
     | Inr pa \<Rightarrow> P todo (ring (snd p) @ [\<lparr> if_pa = pa, if_pc = pc, if_full = full, if_baseFlags = bf,
          if_hadKeywords = hk \<rparr>]) (records (snd p)) (fst p))"], goal_cases)
  case 1
  show ?case
    by (rule hoareI)
      (auto simp: tryM_def outer_def zoomM_def call_eq intro: P_begin P_begin_err
        split: option.splits sum.splits)
next
  case (2 r)
  show ?case
  proof (cases r)
    case (Inl e)
    have "hoare (\<lambda>p. consErr (snd p) = None \<and> E (records (snd p)) (fst p)) (failWith (w e)) (\<lambda>_. inv todo) never"
      by (rule hoareI) (auto simp: failWith_def modifyM_def)
    then show ?thesis by (simp add: Inl)
  next
    case (Inr pa)
    let ?it = "\<lparr> if_pa = pa, if_pc = pc, if_full = full, if_baseFlags = bf, if_hadKeywords = hk \<rparr>"
    let ?ready = "\<lambda>p. consErr (snd p) = None \<and> ring (snd p) \<noteq> [] \<and> inv todo p"
    have "hoare (\<lambda>p. consErr (snd p) = None \<and> P todo (ring (snd p) @ [?it]) (records (snd p)) (fst p))
      (bindM (modifyM (\<lambda>(s, c). (s, c\<lparr> ring := ring c @ [?it] \<rparr>))) (\<lambda>_.
       bindM (getM (\<lambda>(s, c). length (ring c))) (\<lambda>len.
       if rl \<le> len then settleOldest R flim else returnM ()))) (\<lambda>_. inv todo) never"
      by (rule hoare_bindM [where Q = "\<lambda>_. ?ready"], simp add: hoare_def modifyM_def split_beta,
          rule hoare_bindM [where Q = "\<lambda>_. ?ready"], simp add: hoare_def getM_def split_beta,
          rule hoare_if, rule hoare_settle_head(1), rule hoareI)
        (auto simp: returnM_def)
    then show ?thesis by (simp add: Inr)
  qed
qed

lemma hoare_consumeItem: "hoare (inv (item # todo)) (consumeItem R rl flim item) (\<lambda>_. inv todo) never"
proof -
  obtain full pc where item: "item = (full, pc)" by force
  let ?go = "\<lambda>p. consErr (snd p) = None \<and> inv ((full, pc) # todo) p"
  let ?bad = "\<lambda>p. consErr (snd p) \<noteq> None \<and> inv todo p"
  have calm_go: "?go (s', c)" if "?go (s, c)" and "calm W s s'" for s s' c
    using that by (auto intro: P_calm)
  have fail: "hoare ?go (failWith e) (\<lambda>_. ?bad) never" for e
    by (rule hoareI) (auto simp: failWith_def modifyM_def intro: P_fail)
  have kws: "hoare ?go (if SyncLabels (r_opts R)
       then bindM (tryM (outer (labelsFor R (pc_key pc)))) (\<lambda>r.
         case r of Inl e \<Rightarrow> bindM (failWith e) (\<lambda>_. returnM None)
         | Inr labels \<Rightarrow> returnM (Some (labelKeywords (rt_lower (r_rt R)) (r_opts R) labels)))
       else returnM (Some [])) (\<lambda>k. case k of None \<Rightarrow> ?bad | Some _ \<Rightarrow> ?go) never"
    (is "hoare _ (if _ then ?l else _) ?K _")
  proof (rule hoare_if)
    show "hoare ?go ?l ?K never"
    proof (rule hoare_bindM [OF hoare_calm_try [OF calm.labelsFor_steps, where I = ?go]])
      fix r :: "gerr + string list"
      show "hoare ?go (case r of Inl e \<Rightarrow> bindM (failWith e) (\<lambda>_. returnM None)
         | Inr labels \<Rightarrow> returnM (Some (labelKeywords (rt_lower (r_rt R)) (r_opts R) labels))) ?K never"
        by (cases r) (auto intro!: hoare_bindM [OF fail] hoareI simp: returnM_def)
    qed (rule calm_go)
    show "hoare ?go (returnM (Some [])) ?K never"
      by (auto intro!: hoareI simp: returnM_def)
  qed
  have body: "hoare ?go (let baseFlags = safeFlags (f_Flags full) (CarrySeen (r_opts R)) in
        bindM (if SyncLabels (r_opts R)
               then bindM (tryM (outer (labelsFor R (pc_key pc)))) (\<lambda>r.
                 case r of
                   Inl e \<Rightarrow> bindM (failWith e) (\<lambda>_. returnM None)
                 | Inr labels \<Rightarrow>
                     returnM (Some (labelKeywords (rt_lower (r_rt R)) (r_opts R) labels)))
               else returnM (Some [])) (\<lambda>kws.
        case kws of
          None \<Rightarrow> returnM ()
        | Some keywords \<Rightarrow>
            bindM (tryM (outer (call (dst_BeginAppend (r_dst R) (pc_destFolder pc) full
                      (baseFlags @ keywords))))) (\<lambda>r.
            case r of
              Inl e \<Rightarrow> failWith (Wrap ''uid %d: %w'' [FormatUint (unat (pc_uid pc))] e)
            | Inr pa \<Rightarrow>
                bindM (modifyM (\<lambda>(s, c). (s, c\<lparr> ring := ring c @
                  [\<lparr> if_pa = pa, if_pc = pc, if_full = full, if_baseFlags = baseFlags,
                     if_hadKeywords = (keywords \<noteq> []) \<rparr>] \<rparr>))) (\<lambda>_.
                bindM (getM (\<lambda>(s, c). length (ring c))) (\<lambda>len.
                if rl \<le> len then settleOldest R flim else returnM ()))))) (\<lambda>_. inv todo) never"
    (is "hoare _ ?m _ _")
    unfolding Let_def
  proof (rule hoare_bindM [OF kws], goal_cases)
    case (1 k)
    show ?case
      by (cases k) (simp_all add: hoare_issue, simp add: hoare_def returnM_def)
  qed
  show ?thesis
    unfolding consumeItem_def item prod.case
  proof (rule hoare_bindM [where Q = "\<lambda>err p. err = consErr (snd p) \<and> inv ((full, pc) # todo) p"], goal_cases)
    case 1
    show ?case by (rule hoareI) (auto simp: getM_def)
  next
    case (2 err)
    have "hoare (\<lambda>p. err = consErr (snd p) \<and> inv ((full, pc) # todo) p) (returnM ()) (\<lambda>_. inv todo) never"
      if "err \<noteq> None"
      using that by (auto simp: hoare_def returnM_def split: option.splits)
    moreover have "hoare (\<lambda>p. err = consErr (snd p) \<and> inv ((full, pc) # todo) p) ?m (\<lambda>_. inv todo) never"
      if "err = None"
      using that by (intro hoare_pre [OF body]) auto
    ultimately show ?case by simp
  qed
qed

lemma hoare_drainRing:
  "hoare (\<lambda>p. inv [] p \<and> length (ring (snd p)) \<le> n) (drainRing R flim n)
    (\<lambda>_ p. inv [] p \<and> (consErr (snd p) = None \<longrightarrow> ring (snd p) = [])) never"
proof (induction n)
  case 0
  show ?case by (rule hoareI) (auto simp: returnM_def)
next
  case (Suc n)
  let ?pre = "\<lambda>p. inv [] p \<and> length (ring (snd p)) \<le> Suc n"
  have "hoare (\<lambda>p. c = snd p \<and> ?pre p)
      (if consErr c = None \<and> ring c \<noteq> [] then bindM (settleOldest R flim) (\<lambda>_. drainRing R flim n) else returnM ())
      (\<lambda>_ p. inv [] p \<and> (consErr (snd p) = None \<longrightarrow> ring (snd p) = [])) never" for c
    by (rule hoare_if, rule hoare_bindM [OF _ Suc], rule hoare_pre [OF hoare_settle_head(2)], auto)
      (auto simp: hoare_def returnM_def)
  then show ?case
    unfolding drainRing.simps
    by (rule hoare_bindM [rotated]) (auto simp: hoare_def getM_def)
qed

text \<open>The result: the invariant when the consumer has ended.\<close>

theorem hoare_consume:
  "hoare (\<lambda>p. snd p = empty_consumer \<and> P items [] [] (fst p)) (consume R rl flim items)
    (\<lambda>_ (s, c). case consErr c of None \<Rightarrow> P [] [] [] s | Some _ \<Rightarrow> E (records c) s) never"
proof -
  have items: "hoare (inv items) (forM items (consumeItem R rl flim)) (\<lambda>_. inv []) never"
  proof (induction items)
    case Nil
    show ?case by (rule hoareI) (auto simp: returnM_def)
  next
    case (Cons x xs)
    show ?case unfolding forM.simps by (rule hoare_bindM [OF hoare_consumeItem Cons])
  qed
  have flush: "hoare (\<lambda>p. inv [] p \<and> (consErr (snd p) = None \<longrightarrow> ring (snd p) = [])) (flushRecords R)
      (\<lambda>_ (s, c). case consErr c of None \<Rightarrow> P [] [] [] s | Some _ \<Rightarrow> E (records c) s) never"
  proof -
    have "case flushRecords R p of None \<Rightarrow> True | Some (Inl e, q) \<Rightarrow> False
        | Some (Inr a, (s, c)) \<Rightarrow> (case consErr c of None \<Rightarrow> P [] [] [] s | Some _ \<Rightarrow> E (records c) s)"
      if "inv [] p" and "consErr (snd p) = None \<longrightarrow> ring (snd p) = []" for p
    proof -
      have grow: "consErr (snd p) \<noteq> None \<longrightarrow> consErr c \<noteq> None" if "flushRecords R p = Some (r, (s, c))" for r s c
        using that
        by (cases p) (auto simp: flushRecords_def bindM_def getM_def returnM_def tryM_def outer_def zoomM_def
          failWith_def modifyM_def split: if_splits option.splits sum.splits)
      show ?thesis
        using hoareD [OF hoare_flushRecords [of "[]" "ring (snd p)"], of p] that grow
        by (cases "flushRecords R p") (auto split: option.splits sum.splits prod.splits)
    qed
    then show ?thesis by (auto simp: hoare_def split: option.splits sum.splits)
  qed
  show ?thesis
    unfolding consume_def
    by (rule hoare_bindM, rule hoare_pre [OF items],
        force simp: empty_consumer_def,
        rule hoare_bindM [where Q = "\<lambda>n p. inv [] p \<and> length (ring (snd p)) \<le> n"],
        simp add: hoare_def getM_def split_beta, rule hoare_bindM [OF hoare_drainRing flush])
qed

end

end
