(* ===== verification/Windows.thy ===== *)
theory Windows
  imports Pipeline "HOL-Library.Sublist"
begin

text \<open>
  What the parts of \<open>mirrorWindow\<close> compute: the candidates that classification selects, the
  destination guard, and the copy pipeline after the source has been read.
\<close>

section \<open>Classification\<close>

lemma any_relation: "reading_relation R (\<lambda>_ _. True) (calm (\<lambda>_ _. True))"
  by unfold_locales (auto simp: calm_def)

lemma calm_bindM:
  assumes "bindM m f s = Some (Inr b, s'')" and "steps (calm (\<lambda>_ _. True)) m"
  obtains a s' where "m s = Some (Inr a, s')" and "f a s' = Some (Inr b, s'')"
    and "db_copied (st_db s') = db_copied (st_db s)"
  using assms by (auto elim!: bindM_InrE dest!: stepsD simp: calm_def)

lemma classify_result:
  assumes "classify R ms pend ks s = Some (Inr pend', s')"
  shows "\<exists>new. pend' = pend @ new \<and> subseq (map (\<lambda>p. (pc_uid p, pc_key p)) new)
        (map (\<lambda>m. (m_UID m, DedupKey (rt_sha256 (r_rt R)) m)) ms) \<and>
      distinct (map pc_key new) \<and>
      (\<forall>p \<in> set new. \<not> has_key (st_db s) (pc_key p) \<and> pc_key p \<notin> ks) \<and>
      (\<forall>m \<in> set ms. let k = DedupKey (rt_sha256 (r_rt R)) m in
         has_key (st_db s) k \<or> k \<in> ks \<or> k \<in> pc_key ` set new)"
  using assms
proof (induction ms arbitrary: pend ks s)
  case Nil
  then show ?case by (simp add: returnM_def)
next
  case (Cons m ms)
  let ?sha = "rt_sha256 (r_rt R)"
  let ?k = "DedupKey ?sha m"
  note steps = reading_relation.ctxErr_steps [OF any_relation] reading_relation.query_steps(1) [OF any_relation]
    reading_relation.update_sum_steps [OF any_relation] reading_relation.destFolderFor_steps [OF any_relation]
  from Cons.prems obtain u s1 where ctx: "ctxErr R s = Some (Inr u, s1)"
    and 1: "bindM (HasKey (r_rt R) ?k) (\<lambda>seen.
       if seen \<or> ?k \<in> ks
       then bindM (update_sum (\<lambda>sum. sum\<lparr> SkippedDup := SkippedDup sum + 1 \<rparr>)) (\<lambda>_. classify R ms pend ks)
       else bindM (destFolderFor R ?k) (\<lambda>destFolder.
         classify R ms (pend @ [\<lparr> pc_uid = m_UID m, pc_key = ?k, pc_destFolder = destFolder \<rparr>])
           (insert ?k ks))) s1 = Some (Inr pend', s')"
    and c1: "db_copied (st_db s1) = db_copied (st_db s)"
    unfolding classify.simps Let_def by (rule calm_bindM [OF _ steps(1)])
  from 1 obtain seen s2 where has: "HasKey (r_rt R) ?k s1 = Some (Inr seen, s2)"
    and 2: "(if seen \<or> ?k \<in> ks
       then bindM (update_sum (\<lambda>sum. sum\<lparr> SkippedDup := SkippedDup sum + 1 \<rparr>)) (\<lambda>_. classify R ms pend ks)
       else bindM (destFolderFor R ?k) (\<lambda>destFolder.
         classify R ms (pend @ [\<lparr> pc_uid = m_UID m, pc_key = ?k, pc_destFolder = destFolder \<rparr>])
           (insert ?k ks))) s2 = Some (Inr pend', s')"
    and c2: "db_copied (st_db s2) = db_copied (st_db s1)"
    by (rule calm_bindM [OF _ steps(2)])
  have eq: "has_key (st_db t) = has_key (st_db s)" if "db_copied (st_db t) = db_copied (st_db s)" for t
    using that by (simp add: has_key_def fun_eq_iff)
  have seen: "seen \<longleftrightarrow> has_key (st_db s) ?k"
    by (rule reads_cases [OF reads_HasKey has]) (simp_all add: eq [OF c1])
  show ?case
  proof (cases "seen \<or> ?k \<in> ks")
    case True
    with 2 have "bindM (update_sum (\<lambda>sum. sum\<lparr> SkippedDup := SkippedDup sum + 1 \<rparr>))
        (\<lambda>_. classify R ms pend ks) s2 = Some (Inr pend', s')" by simp
    then obtain s3 where "classify R ms pend ks s3 = Some (Inr pend', s')"
      and c3: "db_copied (st_db s3) = db_copied (st_db s2)"
      by (rule calm_bindM [OF _ steps(3)])
    from Cons.IH [OF this(1)] obtain new where new: "pend' = pend @ new"
      "subseq (map (\<lambda>p. (pc_uid p, pc_key p)) new) (map (\<lambda>m. (m_UID m, DedupKey ?sha m)) ms)"
      "distinct (map pc_key new)"
      "\<forall>p \<in> set new. \<not> has_key (st_db s) (pc_key p) \<and> pc_key p \<notin> ks"
      "\<forall>m \<in> set ms. has_key (st_db s) (DedupKey ?sha m) \<or> DedupKey ?sha m \<in> ks \<or>
        DedupKey ?sha m \<in> pc_key ` set new"
      unfolding Let_def eq [OF c3 [unfolded c2 c1]] by blast
    show ?thesis
      by (rule exI [of _ new]) (use new True seen in \<open>auto simp: Let_def intro: list_emb_Cons\<close>)
  next
    case False
    with 2 have "bindM (destFolderFor R ?k) (\<lambda>destFolder.
         classify R ms (pend @ [\<lparr> pc_uid = m_UID m, pc_key = ?k, pc_destFolder = destFolder \<rparr>])
           (insert ?k ks)) s2 = Some (Inr pend', s')" by simp
    then obtain f s3 where "classify R ms (pend @ [\<lparr> pc_uid = m_UID m, pc_key = ?k, pc_destFolder = f \<rparr>])
        (insert ?k ks) s3 = Some (Inr pend', s')"
      and c3: "db_copied (st_db s3) = db_copied (st_db s2)"
      by (rule calm_bindM [OF _ steps(4)])
    from Cons.IH [OF this(1)] obtain new where new:
      "pend' = (pend @ [\<lparr> pc_uid = m_UID m, pc_key = ?k, pc_destFolder = f \<rparr>]) @ new"
      "subseq (map (\<lambda>p. (pc_uid p, pc_key p)) new) (map (\<lambda>m. (m_UID m, DedupKey ?sha m)) ms)"
      "distinct (map pc_key new)"
      "\<forall>p \<in> set new. \<not> has_key (st_db s) (pc_key p) \<and> pc_key p \<notin> insert ?k ks"
      "\<forall>m \<in> set ms. has_key (st_db s) (DedupKey ?sha m) \<or> DedupKey ?sha m \<in> insert ?k ks \<or>
        DedupKey ?sha m \<in> pc_key ` set new"
      unfolding Let_def eq [OF c3 [unfolded c2 c1]] by blast
    show ?thesis
      by (rule exI [of _ "\<lparr> pc_uid = m_UID m, pc_key = ?k, pc_destFolder = f \<rparr> # new"])
        (use new False seen in \<open>auto simp: Let_def\<close>)
  qed
qed

lemma classify_candidates:
  assumes "classify R ms [] {} s = Some (Inr pend, s')" and "p \<in> set pend"
  shows "\<exists>m \<in> set ms. m_UID m = pc_uid p \<and> DedupKey (rt_sha256 (r_rt R)) m = pc_key p"
proof -
  have "subseq (map (\<lambda>p. (pc_uid p, pc_key p)) pend)
      (map (\<lambda>m. (m_UID m, DedupKey (rt_sha256 (r_rt R)) m)) ms)"
    using classify_result [OF assms(1)] by auto
  moreover have "(pc_uid p, pc_key p) \<in> set (map (\<lambda>p. (pc_uid p, pc_key p)) pend)"
    using assms(2) by auto
  ultimately have "(pc_uid p, pc_key p) \<in> set (map (\<lambda>m. (m_UID m, DedupKey (rt_sha256 (r_rt R)) m)) ms)"
    by (elim list_emb_set) auto
  then show ?thesis by auto
qed

section \<open>The destination guard\<close>

lemma hoare_foldM:
  assumes "\<And>b x xs. hoare (I b (x # xs)) (f b x) (\<lambda>b'. I b' xs) E"
  shows "hoare (I b xs) (foldM f b xs) (\<lambda>b'. I b' []) E"
proof (induction xs arbitrary: b)
  case Nil
  show ?case by (simp add: hoare_def returnM_def)
next
  case (Cons x xs)
  show ?case unfolding foldM.simps by (rule hoare_bindM [OF assms Cons])
qed

text \<open>The candidates found and the records made for them.\<close>

definition split_of :: "string set \<Rightarrow> pendingCopy list \<Rightarrow> KeyRecord list \<Rightarrow> pendingCopy list \<Rightarrow> bool" where
  "split_of found pend rs kept \<longleftrightarrow>
     kept = filter (\<lambda>p. pc_key p \<notin> found) pend \<and>
     map kr_Key rs = map pc_key (filter (\<lambda>p. pc_key p \<in> found) pend)"

context calm_relation begin

lemmas hoare_calm = hoare_related [of "calm W"]

lemma hoare_guardSplit:
  assumes I: "\<And>s s'. I s \<Longrightarrow> calm W s s' \<Longrightarrow> I s'"
  shows "hoare I (guardSplit R found ps rs kept)
    (\<lambda>(rs', kept') s. I s \<and> (\<exists>rs1 kept1. rs' = rs @ rs1 \<and> kept' = kept @ kept1 \<and>
       split_of found ps rs1 kept1)) E"
proof (induction ps arbitrary: rs kept)
  case Nil
  show ?case by (rule hoareI) (auto simp: returnM_def split_of_def)
next
  case (Cons p ps)
  let ?Q = "\<lambda>(rs', kept') s. I s \<and> (\<exists>rs1 kept1. rs' = rs @ rs1 \<and> kept' = kept @ kept1 \<and>
       split_of found (p # ps) rs1 kept1)"
  have hit: "hoare I (guardSplit R found ps (rs @ [\<lparr> kr_Key = pc_key p, kr_UID = pc_uid p,
      kr_CopiedAtUnix = now \<rparr>]) kept) ?Q E" if "pc_key p \<in> found" for now
    by (rule hoare_post [OF Cons]) (use that in \<open>fastforce simp: split_of_def\<close>)
  have miss: "hoare I (guardSplit R found ps rs (kept @ [p])) ?Q E" if "pc_key p \<notin> found"
    by (rule hoare_post [OF Cons]) (use that in \<open>fastforce simp: split_of_def\<close>)
  have quiet: "hoare I (update_sum f) (\<lambda>_. I) E" "hoare I (nowUnix R) (\<lambda>_. I) E" for f
    by (rule hoareI; use calm.update_sum_steps calm.nowUnix_steps update_sum_ok nowUnix_ok
        in \<open>blast dest: stepsD I\<close>)+
  show ?case
    unfolding guardSplit.simps
    by (rule hoare_if) (rule hoare_bindM [OF quiet(1)], rule hoare_bindM [OF quiet(2)], erule hit, erule miss)
qed

lemma hoare_guard:
  assumes none: "\<And>s. filter IsRealMessageID (map pc_key pend) = [] \<Longrightarrow> P s \<Longrightarrow> Q pend s"
    and init: "\<And>s. P s \<Longrightarrow> S {} (destBucketFolders R) s"
    and find: "\<And>found folder rest. hoare (S found (folder # rest))
      (call (dst_SearchMessageIDsIn (r_dst R) folder (filter IsRealMessageID (map pc_key pend))))
      (\<lambda>f. S (found \<union> f) rest) E"
    and S_calm: "\<And>found s s'. S found [] s \<Longrightarrow> calm W s s' \<Longrightarrow> S found [] s'"
    and ok: "\<And>found rs kept s w. S found [] s \<Longrightarrow> split_of found pend rs kept \<Longrightarrow> W (st_world s) w \<Longrightarrow>
      Q kept (s\<lparr> st_world := w, st_db := fold sql_insertCopied rs (st_db s) \<rparr>)"
    and err: "\<And>found e s. S found [] s \<Longrightarrow> E e s"
  shows "hoare P (guard R pend) Q E"
proof -
  have recorded: "hoare (\<lambda>s. S found [] s \<and> split_of found pend rs kept)
      (bindM (RecordKeys (r_rt R) rs) (\<lambda>_. returnM kept)) Q E" for found rs kept
  proof (rule hoare_bindM [where Q = "\<lambda>_. Q kept"])
    show "hoare (\<lambda>s. S found [] s \<and> split_of found pend rs kept) (RecordKeys (r_rt R) rs) (\<lambda>_. Q kept) E"
    proof (rule hoare_writes [OF writes_RecordKeys wsteps_methods(1)])
      fix s w e
      assume "S found [] s \<and> split_of found pend rs kept" and "W (st_world s) w"
      then show "E e (s\<lparr> st_world := w \<rparr>)"
        using S_calm [of found s "s\<lparr> st_world := w \<rparr>"] err [of found] by (simp add: calm_def)
    qed (auto intro: ok)
  qed (simp add: hoare_def returnM_def)
  have rest: "hoare (S found []) (bindM (guardSplit R found pend [] [])
      (\<lambda>(rs, kept). bindM (RecordKeys (r_rt R) rs) (\<lambda>_. returnM kept))) Q E" for found
  proof (rule hoare_bindM [OF hoare_guardSplit [OF S_calm]], assumption+)
    fix q :: "KeyRecord list \<times> pendingCopy list"
    obtain rs kept where q: "q = (rs, kept)" by force
    show "hoare (case q of (rs', kept') \<Rightarrow> \<lambda>s. S found [] s \<and> (\<exists>rs1 kept1. rs' = [] @ rs1 \<and>
        kept' = [] @ kept1 \<and> split_of found pend rs1 kept1))
      (case q of (rs, kept) \<Rightarrow> bindM (RecordKeys (r_rt R) rs) (\<lambda>_. returnM kept)) Q E"
      using recorded [of found rs kept] by (simp add: q)
  qed
  have folders: "hoare (S {} (destBucketFolders R)) (foldM (\<lambda>found folder.
        bindM (call (dst_SearchMessageIDsIn (r_dst R) folder (filter IsRealMessageID (map pc_key pend))))
          (\<lambda>f. returnM (found \<union> f))) {} (destBucketFolders R)) (\<lambda>found. S found []) E"
    by (rule hoare_foldM [where I = S]) (rule hoare_bindM [OF find], simp add: hoare_def returnM_def)
  show ?thesis
    unfolding guard_def Let_def
  proof (rule hoare_if)
    assume "filter IsRealMessageID (map pc_key pend) = []"
    from none [OF this] show "hoare P (returnM pend) Q E"
      by (auto simp: hoare_def returnM_def)
  next
    show "hoare P (bindM (foldM (\<lambda>found folder.
        bindM (call (dst_SearchMessageIDsIn (r_dst R) folder (filter IsRealMessageID (map pc_key pend))))
          (\<lambda>f. returnM (found \<union> f))) {} (destBucketFolders R)) (\<lambda>found.
        bindM (guardSplit R found pend [] []) (\<lambda>(records, kept).
        bindM (RecordKeys (r_rt R) records) (\<lambda>_. returnM kept)))) Q E"
      by (rule hoare_pre [OF hoare_bindM [OF folders rest] init])
  qed
qed

end

section \<open>Producer and consumer together\<close>

lemma byUID_Some:
  assumes "byUID pend u = Some pc"
  shows "pc \<in> set pend \<and> pc_uid pc = u"
  using map_of_SomeD [OF assms [unfolded byUID_def]] by auto

lemma copyItems_pc:
  "(full, pc) \<in> set (copyItems pend msgs) \<Longrightarrow> full \<in> set msgs \<and> pc \<in> set pend \<and> pc_uid pc = f_UID full"
  by (auto simp: copyItems_def List.map_filter_def dest: byUID_Some split: option.splits)

context pipeline begin

lemma hoare_copyItems:
  "hoare (P (copyItems pend msgs) [] [])
    (bindM (withVars empty_consumer (consume R rl flim (copyItems pend msgs))) (\<lambda>c.
      case consErr c of
        Some e \<Rightarrow> throwM e
      | None \<Rightarrow> (case prodErr of Some e \<Rightarrow> throwM e | None \<Rightarrow> ctxErr R)))
    (\<lambda>_ s. prodErr = None \<and> P [] [] [] s) (\<lambda>_ s. \<exists>rs. E rs s)"
proof (rule hoare_bindM [OF hoare_withVars])
  show "hoare (\<lambda>p. snd p = empty_consumer \<and> P (copyItems pend msgs) [] [] (fst p))
      (consume R rl flim (copyItems pend msgs))
      (\<lambda>_ (s, c). case consErr c of None \<Rightarrow> P [] [] [] s | Some _ \<Rightarrow> E (records c) s)
      (\<lambda>e (s, l). \<exists>rs. E rs s)"
    by (rule hoare_conseq [OF hoare_consume]) auto
  show "P (copyItems pend msgs) [] [] s \<Longrightarrow> snd (s, empty_consumer) = empty_consumer \<and>
      P (copyItems pend msgs) [] [] (fst (s, empty_consumer))" for s
    by simp
next
  fix c
  have ctx: "hoare (P [] [] []) (ctxErr R) (\<lambda>_. P [] [] []) (\<lambda>_ s. \<exists>rs. E rs s)"
    by (rule hoare_calm [OF calm.ctxErr_steps]) (auto intro: P_calm P_fail)
  show "hoare (\<lambda>s. case consErr c of None \<Rightarrow> P [] [] [] s | Some _ \<Rightarrow> E (records c) s)
     (case consErr c of None \<Rightarrow> (case prodErr of None \<Rightarrow> ctxErr R | Some e \<Rightarrow> throwM e)
      | Some e \<Rightarrow> throwM e)
     (\<lambda>_ s. prodErr = None \<and> P [] [] [] s) (\<lambda>_ s. \<exists>rs. E rs s)"
    using ctx by (cases "consErr c"; cases prodErr) (auto simp: hoare_def throwM_def intro: P_fail)
qed

end

end
