(* ===== verification/Completeness.thy ===== *)
theory Completeness
  imports Windows
begin

text \<open>
  No loss: every message of the source folder up to the high-water mark has its key in the dedup set,
  or the source did not deliver it when it was asked for it.  This is an invariant of every pass,
  whichever call fails, so a message is never skipped because a pass was cut short.
\<close>

section \<open>The marks\<close>

text \<open>What \<open>metaGetUint\<close> returns when it succeeds.\<close>

definition meta_reads :: "db \<Rightarrow> string \<Rightarrow> u32 \<Rightarrow> bool" where
  "meta_reads d key n \<longleftrightarrow>
     (let v = (case map_of (db_meta d) key of None \<Rightarrow> [] | Some v \<Rightarrow> v) in
      if v = [] then n = 0 else (\<exists>m. ParseUint v 32 = Some m \<and> n = word_of_nat m))"

lemma meta_reads_unique: "meta_reads d key n \<Longrightarrow> meta_reads d key m \<Longrightarrow> n = m"
  by (auto simp: meta_reads_def Let_def split: if_splits)

lemma meta_reads_set:
  "meta_reads (sql_setMeta key (FormatUint (unat v)) d) key' n \<longleftrightarrow>
     (if key' = key then n = v else meta_reads d key' n)"
proof -
  have "unat v < 2 ^ 32" by (rule order_less_le_trans [OF unsigned_less]) simp
  then have "ParseUint (FormatUint (unat v)) 32 = Some (unat v)" by (simp add: ParseUint_FormatUint)
  moreover have "FormatUint (unat v) \<noteq> []"
    using FormatUint_digits by blast
  ultimately show ?thesis
    by (auto simp: meta_reads_def sql_setMeta_def update_conv Let_def)
qed

lemma meta_reads_insert [simp]: "meta_reads (fold sql_insertCopied rs d) = meta_reads d"
proof -
  have "db_meta (fold sql_insertCopied rs d) = db_meta d"
    by (induction rs arbitrary: d) (simp_all add: sql_insertCopied_def)
  then show ?thesis by (simp add: meta_reads_def fun_eq_iff)
qed

lemma metaGetUint_reads:
  assumes "metaGetUint rt key s = Some (Inr n, s')"
  shows "meta_reads (st_db s) key n"
proof -
  from assms obtain v s1 where get: "MetaGet rt key s = Some (Inr v, s1)"
    and n: "(if v = [] then returnM 0
     else case ParseUint v 32 of
         None \<Rightarrow> throwM (Wrap ''meta %s: corrupt value %q: %w'' [key, v] (Msg ''strconv.ParseUint'' [v]))
       | Some n \<Rightarrow> returnM (word_of_nat n)) s1 = Some (Inr n, s')"
    unfolding metaGetUint_def by (rule bindM_InrE)
  have "v = (case map_of (db_meta (st_db s)) key of None \<Rightarrow> [] | Some v \<Rightarrow> v)"
    by (rule reads_cases [OF reads_MetaGet get]) simp_all
  then show ?thesis
    using n by (auto simp: meta_reads_def Let_def returnM_def throwM_def split: if_splits option.splits)
qed

section \<open>The source\<close>

text \<open>
  \<open>c_ok\<close> is an invariant of the outside world, kept by every call; \<open>c_mail v u\<close> is the key of the message that has, had or will have UID \<open>u\<close> in the mirrored folder
  under UIDVALIDITY \<open>v\<close> (IMAP never reuses it); \<open>c_selected w\<close> is the UIDVALIDITY and UIDNEXT of the
  selected folder when it is the mirrored one; \<open>c_lost w k\<close>: the source was asked for a message with
  key \<open>k\<close> and did not deliver it; \<open>c_seen w v u\<close>: UID \<open>u\<close> under \<open>v\<close> has been assigned by now.
\<close>

record 'w ledger =
  c_ok :: "'w \<Rightarrow> bool"
  c_mail :: "u32 \<Rightarrow> u32 \<Rightarrow> string option"
  c_selected :: "'w \<Rightarrow> (u32 \<times> u32) option"
  c_lost :: "'w \<Rightarrow> string \<Rightarrow> bool"
  c_seen :: "'w \<Rightarrow> u32 \<Rightarrow> u32 \<Rightarrow> bool"

definition keeps_lost :: "'w ledger \<Rightarrow> 'w \<Rightarrow> 'w \<Rightarrow> bool" where
  "keeps_lost C w w' \<longleftrightarrow> (c_ok C w \<longrightarrow> c_ok C w') \<and> (\<forall>k. c_lost C w k \<longrightarrow> c_lost C w' k) \<and>
     (\<forall>v u. c_seen C w v u \<longrightarrow> c_seen C w' v u)"

definition holds :: "'w ledger \<Rightarrow> 'w \<Rightarrow> 'w \<Rightarrow> bool" where
  "holds C w w' \<longleftrightarrow> keeps_lost C w w' \<and> c_selected C w' = c_selected C w"

definition recorded :: "'w ledger \<Rightarrow> 'w st \<Rightarrow> string \<Rightarrow> bool" where
  "recorded C s k \<longleftrightarrow> has_key (st_db s) k \<or> c_lost C (st_world s) k"

definition below :: "'w ledger \<Rightarrow> 'w st \<Rightarrow> u32 \<Rightarrow> nat \<Rightarrow> bool" where
  "below C s v n \<longleftrightarrow> (\<forall>u k. 0 < u \<longrightarrow> unat u < n \<longrightarrow> c_mail C v u = Some k \<longrightarrow> recorded C s k)"

text \<open>The invariant: everything up to the stored mark of the stored UIDVALIDITY.\<close>

definition marked :: "'w ledger \<Rightarrow> 'w st \<Rightarrow> bool" where
  "marked C s \<longleftrightarrow> c_ok C (st_world s) \<and> (\<forall>v l. meta_reads (st_db s) ''uidvalidity'' v \<longrightarrow>
     meta_reads (st_db s) ''last_uid'' l \<longrightarrow> below C s v (unat l + 1))"

text \<open>What the scan keeps: the mirrored folder is selected, and nothing below \<open>m\<close> is missing.\<close>

definition scanning :: "'w ledger \<Rightarrow> u32 \<Rightarrow> u32 \<Rightarrow> nat \<Rightarrow> 'w st \<Rightarrow> bool" where
  "scanning C v n m s \<longleftrightarrow> c_selected C (st_world s) = Some (v, n) \<and>
     meta_reads (st_db s) ''uidvalidity'' v \<and> marked C s \<and> below C s v (min m (unat n))"

text \<open>The keys \<open>K\<close> of a window are recorded, or still under way.\<close>

definition due :: "'w ledger \<Rightarrow> string set \<Rightarrow> string set \<Rightarrow> 'w st \<Rightarrow> bool" where
  "due C K under_way s \<longleftrightarrow> (\<forall>k \<in> K. recorded C s k \<or> k \<in> under_way)"

definition under_way :: "(FullMessage \<times> pendingCopy) list \<Rightarrow> inflightAppend list \<Rightarrow> KeyRecord list \<Rightarrow> string set" where
  "under_way todo rg rs = kr_Key ` set rs \<union> (\<lambda>it. pc_key (if_pc it)) ` set rg \<union> (\<lambda>x. pc_key (snd x)) ` set todo"

text \<open>
  The contract: a fetch of a range lists every message of the range that is still there, with its own
  metadata, and a stream that ends without an error has delivered every message asked for that is
  still there and has a body.
\<close>

locale complete_source =
  fixes R :: "'w Reconciler" and C :: "'w ledger"
  assumes local_holds: "rt_sql (r_rt R) w = (r, w') \<Longrightarrow> holds C w w'"
      "rt_ctx (r_rt R) w = (r, w') \<Longrightarrow> holds C w w'"
      "rt_now (r_rt R) w = (t, w') \<Longrightarrow> holds C w w'"
      "rt_perm (r_rt R) w = (p, w') \<Longrightarrow> holds C w w'"
      "OnProgress (r_opts R) = Some f \<Longrightarrow> holds C w (f phase item i w)"
    and select_lost: "steps (keeps_lost C) (src_SelectFolder (r_src R))"
      "steps (keeps_lost C) (src_SelectNamedFolder (r_src R) name)"
    and select_opens: "c_ok C w \<Longrightarrow> src_SelectFolder (r_src R) w = Some (Inr (v, n, x), w') \<Longrightarrow>
      c_selected C w' = Some (v, n)"
    and source_holds: "steps (holds C) (src_ListFolders (r_src R))"
      "steps (holds C) (src_SearchAllUIDs (r_src R))"
      "steps (holds C) (src_FetchMetaRange (r_src R) a b)"
      "steps (holds C) (src_FetchFullStream (r_src R) us)"
    and dest_holds: "steps (holds C) (dst_SelectNamedFolder (r_dst R) name)"
      "steps (holds C) (dst_FetchMetaRange (r_dst R) a b)"
      "steps (holds C) (dst_SearchMessageIDsIn (r_dst R) name ids)"
      "steps (holds C) (dst_MoveMessageID (r_dst R) name to key)"
      "steps (holds C) (dst_MoveUIDs (r_dst R) name us to)"
      "steps (holds C) (dst_StoreKeywordByMessageID (r_dst R) name key add kw)"
      "steps (holds C) (dst_StoreKeywordsUIDs (r_dst R) us fl)"
      "steps (holds C) (dst_AppendTo (r_dst R) name full fl)"
      "steps (holds C) (dst_BeginAppend (r_dst R) name full fl)"
      "steps (holds C) (dst_WaitAppend (r_dst R) h)"
    and meta_complete: "c_ok C w \<Longrightarrow> src_FetchMetaRange (r_src R) a b w = Some (Inr ms, w') \<Longrightarrow>
      c_selected C w = Some (v, n) \<Longrightarrow> b < n \<Longrightarrow> a \<le> u \<Longrightarrow> u \<le> b \<Longrightarrow> c_mail C v u = Some k \<Longrightarrow>
      c_lost C w' k \<or> (\<exists>m \<in> set ms. m_UID m = u)"
    and meta_mail: "c_ok C w \<Longrightarrow> src_FetchMetaRange (r_src R) a b w = Some (Inr ms, w') \<Longrightarrow>
      c_selected C w = Some (v, n) \<Longrightarrow> m \<in> set ms \<Longrightarrow>
      c_seen C w' v (m_UID m) \<and> c_mail C v (m_UID m) = Some (DedupKey (rt_sha256 (r_rt R)) m)"
    and stream_complete: "c_ok C w \<Longrightarrow> src_FetchFullStream (r_src R) us w = Some (Inr (msgs, None), w') \<Longrightarrow>
      c_selected C w = Some (v, n) \<Longrightarrow> u \<in> set us \<Longrightarrow> c_seen C w v u \<Longrightarrow> c_mail C v u = Some k \<Longrightarrow>
      c_lost C w' k \<or> u \<in> f_UID ` set msgs"
begin

lemma holds_refl: "holds C w w" "keeps_lost C w w"
  by (simp_all add: holds_def keeps_lost_def)

lemma holds_trans: "holds C a b \<Longrightarrow> holds C b c \<Longrightarrow> holds C a c"
  "keeps_lost C a b \<Longrightarrow> keeps_lost C b c \<Longrightarrow> keeps_lost C a c"
  by (auto simp: holds_def keeps_lost_def)

lemma holds_lost: "holds C w w' \<Longrightarrow> keeps_lost C w w'"
  by (simp add: holds_def)

lemmas looser = holds_lost steps_weaken [OF _ holds_lost]

text \<open>A step that leaves the dedup set and the marks alone.\<close>

definition level :: "('w \<Rightarrow> 'w \<Rightarrow> bool) \<Rightarrow> 'w st \<Rightarrow> 'w st \<Rightarrow> bool" where
  "level W s s' \<longleftrightarrow> W (st_world s) (st_world s') \<and> db_copied (st_db s') = db_copied (st_db s) \<and>
     (\<forall>key n. key \<noteq> ''backfill_fingerprint'' \<longrightarrow>
        meta_reads (st_db s') key n = meta_reads (st_db s) key n)"

lemma meta_reads_statements [simp]:
  "meta_reads (sql_deletePending i d) = meta_reads d" "meta_reads (sql_setFolder f uv lu d) = meta_reads d"
  "meta_reads (apply_change f it d) = meta_reads d"
  by (auto simp: meta_reads_def fun_eq_iff sql_deletePending_def sql_setFolder_def apply_change_def Let_def
      sql_upsertMember_def sql_deleteMember_def sql_insertPending_def)

lemma copied_statements [simp]:
  "db_copied (sql_deletePending i d) = db_copied d" "db_copied (sql_setFolder f uv lu d) = db_copied d"
  "db_copied (sql_setMeta key v d) = db_copied d"
  by (simp_all add: sql_deletePending_def sql_setFolder_def sql_setMeta_def)

lemma meta_reads_fingerprint:
  "key \<noteq> ''backfill_fingerprint'' \<Longrightarrow>
   meta_reads (sql_setMeta ''backfill_fingerprint'' v d) key n = meta_reads d key n"
  by (simp add: meta_reads_def sql_setMeta_def update_conv)

sublocale search: phase_relation R "keeps_lost C" "level (keeps_lost C)"
  by unfold_locales
    (auto simp: level_def meta_reads_fingerprint
      intro: holds_refl holds_trans local_holds looser select_lost source_holds dest_holds)


sublocale still: calm_relation R "holds C"
  by unfold_locales (auto intro: holds_refl holds_trans local_holds)

text \<open>Everything above survives a larger dedup set and a world with more lost messages.\<close>

definition later :: "'w st \<Rightarrow> 'w st \<Rightarrow> bool" where
  "later s s' \<longleftrightarrow> (c_ok C (st_world s) \<longrightarrow> c_ok C (st_world s')) \<and>
     (\<forall>k. recorded C s k \<longrightarrow> recorded C s' k) \<and>
     (\<forall>v u. c_seen C (st_world s) v u \<longrightarrow> c_seen C (st_world s') v u) \<and>
     (\<forall>key n. key \<noteq> ''backfill_fingerprint'' \<longrightarrow>
        meta_reads (st_db s') key n = meta_reads (st_db s) key n)"

lemma later_below: "later s s' \<Longrightarrow> below C s v m \<Longrightarrow> below C s' v m"
  by (auto simp: later_def below_def)

lemma later_seen: "later s s' \<Longrightarrow> c_seen C (st_world s) v u \<Longrightarrow> c_seen C (st_world s') v u"
  by (simp add: later_def)

lemma later_reads:
  "later s s' \<Longrightarrow> key \<noteq> ''backfill_fingerprint'' \<Longrightarrow> meta_reads (st_db s') key n = meta_reads (st_db s) key n"
  by (simp add: later_def)

lemma later_marked: "later s s' \<Longrightarrow> marked C s \<Longrightarrow> marked C s'"
proof -
  assume l: "later s s'" and m: "marked C s"
  have "meta_reads (st_db s') ''uidvalidity'' v = meta_reads (st_db s) ''uidvalidity'' v"
    and "meta_reads (st_db s') ''last_uid'' v = meta_reads (st_db s) ''last_uid'' v" for v
    using l by (simp_all add: later_reads)
  then show ?thesis
    using m later_below [OF l] l by (auto simp: marked_def later_def)
qed

lemma later_scanning:
  "later s s' \<Longrightarrow> c_selected C (st_world s') = c_selected C (st_world s) \<Longrightarrow> scanning C v n m s \<Longrightarrow> scanning C v n m s'"
  using later_below later_marked by (simp add: scanning_def later_reads)

lemma later_due: "later s s' \<Longrightarrow> due C K U s \<Longrightarrow> due C K U s'"
  by (auto simp: later_def due_def)

lemma later_calm: "calm (holds C) s s' \<Longrightarrow> later s s'"
  by (auto simp: calm_def holds_def keeps_lost_def later_def recorded_def)

lemma later_level: "level (keeps_lost C) s s' \<Longrightarrow> later s s'"
  by (auto simp: level_def keeps_lost_def later_def recorded_def has_key_def)

lemma later_insert:
  "holds C (st_world s) w \<Longrightarrow> later s (s\<lparr> st_world := w, st_db := fold sql_insertCopied rs (st_db s) \<rparr>)"
  by (auto simp: later_def recorded_def copied.has_fold holds_def keeps_lost_def)

lemma later_world: "holds C (st_world s) w \<Longrightarrow> later s (s\<lparr> st_world := w \<rparr>)"
  by (rule later_calm) (simp add: calm_def)

definition Cover where
  "Cover v n m K b todo rg rs s \<longleftrightarrow> scanning C v n m s \<and> (b \<longrightarrow> due C K (under_way todo rg rs) s)"

lemma Cover_later:
  assumes "Cover v n m K b todo rg rs s" and "later s s'"
    and "c_selected C (st_world s') = c_selected C (st_world s)"
    and "under_way todo rg rs \<subseteq> {k. recorded C s' k} \<union> under_way todo' rg' rs'"
  shows "Cover v n m K b todo' rg' rs' s'"
  using assms later_scanning [OF assms(2,3)] later_due [OF assms(2)]
  unfolding Cover_def due_def by blast

lemma call_world:
  assumes "steps (holds C) m" and "m (st_world s) = Some (r, w)"
  shows "later s (s\<lparr> st_world := w \<rparr>)" and "c_selected C w = c_selected C (st_world s)"
  using later_world stepsD [OF assms] by (simp_all add: holds_def)

sublocale cover: pipeline R "holds C" "Cover v n m K b" "\<lambda>_. marked C" for v n m K b
proof unfold_locales
  fix todo rg rs s s'
  assume P: "Cover v n m K b todo rg rs s" and c: "calm (holds C) s s'"
  show "Cover v n m K b todo rg rs s'"
    by (rule Cover_later [OF P later_calm [OF c]]) (use c in \<open>auto simp: calm_def holds_def\<close>)
next
  fix s s'
  assume "marked C s" and "calm (holds C) s s'"
  then show "marked C s'" using later_calm later_marked by blast
next
  fix todo rg rs s
  assume "Cover v n m K b todo rg rs s"
  then show "marked C s" by (simp add: Cover_def scanning_def)
next
  fix todo rg rs s w
  assume P: "Cover v n m K b todo rg rs s" and W: "holds C (st_world s) w"
  show "Cover v n m K b todo rg [] (s\<lparr> st_world := w, st_db := fold sql_insertCopied rs (st_db s) \<rparr>)"
    by (rule Cover_later [OF P later_insert [OF W]])
      (use W in \<open>auto simp: holds_def under_way_def recorded_def copied.has_fold\<close>)
next
  fix rs s w
  assume "marked C s" and "holds C (st_world s) w"
  then show "marked C (s\<lparr> st_world := w, st_db := fold sql_insertCopied rs (st_db s) \<rparr>)"
    using later_insert later_marked by blast
next
  fix full pc todo rg rs s fl h w bf hk
  assume P: "Cover v n m K b ((full, pc) # todo) rg rs s"
    and c: "dst_BeginAppend (r_dst R) (pc_destFolder pc) full fl (st_world s) = Some (Inr h, w)"
  show "Cover v n m K b todo (rg @ [\<lparr> if_pa = h, if_pc = pc, if_full = full, if_baseFlags = bf,
      if_hadKeywords = hk \<rparr>]) rs (s\<lparr> st_world := w \<rparr>)"
    by (rule Cover_later [OF P call_world(1) [OF dest_holds(9) c]])
      (auto simp: under_way_def call_world(2) [OF dest_holds(9) c])
next
  fix full pc todo rg rs s fl e w
  assume P: "Cover v n m K b ((full, pc) # todo) rg rs s"
    and c: "dst_BeginAppend (r_dst R) (pc_destFolder pc) full fl (st_world s) = Some (Inl e, w)"
  show "marked C (s\<lparr> st_world := w \<rparr>)"
    using later_marked [OF call_world(1) [OF dest_holds(9) c]] P by (simp add: Cover_def scanning_def)
next
  fix todo it rg rs s w now
  assume P: "Cover v n m K b todo (it # rg) rs s"
    and c: "dst_WaitAppend (r_dst R) (if_pa it) (st_world s) = Some (Inr (), w)"
  show "Cover v n m K b todo rg (rs @ [copy_record (if_pc it) now]) (s\<lparr> st_world := w \<rparr>)"
    by (rule Cover_later [OF P call_world(1) [OF dest_holds(10) c]])
      (auto simp: under_way_def copy_record_def call_world(2) [OF dest_holds(10) c])
next
  fix todo it rg rs s e w
  assume P: "Cover v n m K b todo (it # rg) rs s"
    and c: "dst_WaitAppend (r_dst R) (if_pa it) (st_world s) = Some (Inl e, w)"
  show "marked C (s\<lparr> st_world := w \<rparr>)"
    using later_marked [OF call_world(1) [OF dest_holds(10) c]] P by (simp add: Cover_def scanning_def)
next
  fix todo it rg rs s e w w' now
  assume P: "Cover v n m K b todo (it # rg) rs s"
    and c: "dst_WaitAppend (r_dst R) (if_pa it) (st_world s) = Some (Inl e, w)"
    and a: "dst_AppendTo (r_dst R) (pc_destFolder (if_pc it)) (if_full it) (if_baseFlags it) w = Some (Inr (), w')"
  have W: "holds C (st_world s) w'"
    using holds_trans(1) stepsD [OF dest_holds(10) c] stepsD [OF dest_holds(8) a] by blast
  show "Cover v n m K b todo rg (rs @ [copy_record (if_pc it) now]) (s\<lparr> st_world := w' \<rparr>)"
    by (rule Cover_later [OF P later_world [OF W]])
      (use W in \<open>auto simp: under_way_def copy_record_def holds_def\<close>)
next
  fix todo it rg rs s e w e' w'
  assume P: "Cover v n m K b todo (it # rg) rs s"
    and c: "dst_WaitAppend (r_dst R) (if_pa it) (st_world s) = Some (Inl e, w)"
    and a: "dst_AppendTo (r_dst R) (pc_destFolder (if_pc it)) (if_full it) (if_baseFlags it) w = Some (Inl e', w')"
  have W: "holds C (st_world s) w'"
    using holds_trans(1) stepsD [OF dest_holds(10) c] stepsD [OF dest_holds(8) a] by blast
  show "marked C (s\<lparr> st_world := w' \<rparr>)"
    using later_marked [OF later_world [OF W]] P by (simp add: Cover_def scanning_def)
qed


definition classified where
  "classified v n m K pend s \<longleftrightarrow> scanning C v n m s \<and> distinct (map pc_key pend) \<and>
     (\<forall>p \<in> set pend. c_seen C (st_world s) v (pc_uid p) \<and> c_mail C v (pc_uid p) = Some (pc_key p)) \<and> due C K (pc_key ` set pend) s"

definition own_mail where
  "own_mail v ms s \<longleftrightarrow> (\<forall>m \<in> set ms. c_seen C (st_world s) v (m_UID m) \<and>
     c_mail C v (m_UID m) = Some (DedupKey (rt_sha256 (r_rt R)) m))"

lemma classified_later:
  "classified v n m K pend s \<Longrightarrow> later s s' \<Longrightarrow> c_selected C (st_world s') = c_selected C (st_world s) \<Longrightarrow>
   classified v n m K pend s'"
  using later_scanning later_due later_seen by (simp add: classified_def)

lemma calm_selected: "calm (holds C) s s' \<Longrightarrow> c_selected C (st_world s') = c_selected C (st_world s)"
  by (simp add: calm_def holds_def)

text \<open>The metadata of a window: what it does not list of \<open>K\<close> is lost.\<close>

definition to_do where
  "to_do v n m K ms s \<longleftrightarrow> scanning C v n m s \<and> own_mail v ms s \<and>
     due C (K - DedupKey (rt_sha256 (r_rt R)) ` set ms) {} s"

lemma to_do_later:
  "to_do v n m K ms s \<Longrightarrow> later s s' \<Longrightarrow> c_selected C (st_world s') = c_selected C (st_world s) \<Longrightarrow>
   to_do v n m K ms s'"
  using later_scanning later_due later_seen by (simp add: to_do_def own_mail_def)

lemma hoare_classify_due:
  "hoare (to_do v n m K ms) (classify R ms [] {}) (classified v n m K) (\<lambda>_. marked C)"
proof (rule hoareI)
  fix s pend s'
  assume P: "to_do v n m K ms s" and c: "classify R ms [] {} s = Some (Inr pend, s')"
  let ?key = "DedupKey (rt_sha256 (r_rt R))"
  have calm: "calm (holds C) s s'" by (rule stepsD [OF still.calm.classify_steps c])
  have "c_seen C (st_world s) v (pc_uid p) \<and> c_mail C v (pc_uid p) = Some (pc_key p)" if "p \<in> set pend" for p
    using classify_candidates [OF c that] P by (auto simp: own_mail_def to_do_def)
  moreover have "distinct (map pc_key pend)"
    and "\<forall>m \<in> set ms. has_key (st_db s) (?key m) \<or> ?key m \<in> pc_key ` set pend"
    using classify_result [OF c] by (auto simp: Let_def)
  ultimately have "classified v n m K pend s"
    using P by (auto simp: to_do_def classified_def due_def recorded_def)
  then show "classified v n m K pend s'"
    by (rule classified_later [OF _ later_calm [OF calm] calm_selected [OF calm]])
next
  fix s e s'
  assume P: "to_do v n m K ms s" and c: "classify R ms [] {} s = Some (Inl e, s')"
  have "later s s'" by (rule later_calm [OF stepsD [OF still.calm.classify_steps c]])
  then show "marked C s'" using P later_marked by (auto simp: to_do_def scanning_def)
qed

lemma hoare_guard_due:
  "hoare (classified v n m K pend) (guard R pend) (classified v n m K) (\<lambda>_. marked C)"
proof (rule still.hoare_guard [where S = "\<lambda>_ _. classified v n m K pend"])
  fix found folder and rest :: "string list"
  show "hoare (classified v n m K pend)
    (call (dst_SearchMessageIDsIn (r_dst R) folder (filter IsRealMessageID (map pc_key pend))))
    (\<lambda>f. classified v n m K pend) (\<lambda>_. marked C)"
  proof (rule hoare_call)
    fix s f w
    assume P: "classified v n m K pend s" and c: "dst_SearchMessageIDsIn (r_dst R) folder
      (filter IsRealMessageID (map pc_key pend)) (st_world s) = Some (Inr f, w)"
    show "classified v n m K pend (s\<lparr> st_world := w \<rparr>)"
      by (rule classified_later [OF P call_world(1) [OF dest_holds(3) c]])
        (simp add: call_world(2) [OF dest_holds(3) c])
  next
    fix s e w
    assume P: "classified v n m K pend s" and c: "dst_SearchMessageIDsIn (r_dst R) folder
      (filter IsRealMessageID (map pc_key pend)) (st_world s) = Some (Inl e, w)"
    show "marked C (s\<lparr> st_world := w \<rparr>)"
      using later_marked [OF call_world(1) [OF dest_holds(3) c]] P by (simp add: classified_def scanning_def)
  qed
next
  fix found :: "string set" and s s'
  assume "classified v n m K pend s" and "calm (holds C) s s'"
  then show "classified v n m K pend s'" using classified_later later_calm calm_selected by blast
next
  fix found rs kept s w
  assume P: "classified v n m K pend s" and sp: "split_of found pend rs kept" and W: "holds C (st_world s) w"
  let ?s = "s\<lparr> st_world := w, st_db := fold sql_insertCopied rs (st_db s) \<rparr>"
  have Q: "classified v n m K pend ?s"
    by (rule classified_later [OF P later_insert [OF W]]) (use W in \<open>simp add: holds_def\<close>)
  have kept: "kept = filter (\<lambda>p. pc_key p \<notin> found) pend" using sp by (simp add: split_of_def)
  have "kr_Key ` set rs = pc_key ` {p \<in> set pend. pc_key p \<in> found}"
    using arg_cong [where f = set, OF conjunct2 [OF sp [unfolded split_of_def]]] by auto
  then have "recorded C ?s k \<or> k \<in> pc_key ` set kept" if "k \<in> pc_key ` set pend" for k
    using that by (auto simp: recorded_def copied.has_fold kept)
  then show "classified v n m K kept ?s"
    using Q by (fastforce simp: classified_def due_def kept distinct_map inj_on_def)
qed (auto simp: classified_def scanning_def)

lemma hoare_copy_due:
  "hoare (classified v n m K pend) (copyPipeline R pend) (\<lambda>_ s. scanning C v n m s \<and> due C K {} s) (\<lambda>_. marked C)"
proof -
  let ?f = "\<lambda>f. case f of Inl e \<Rightarrow> ([], Some e) | Inr p \<Rightarrow> p"
  let ?go = "\<lambda>rl fl f. bindM (withVars empty_consumer (consume R rl fl (copyItems pend (fst (?f f))))) (\<lambda>c.
      case consErr c of
        Some e \<Rightarrow> throwM e
      | None \<Rightarrow> (case snd (?f f) of Some e \<Rightarrow> throwM e | None \<Rightarrow> ctxErr R))"
  have stream: "hoare (classified v n m K pend) (tryM (call (src_FetchFullStream (r_src R) (map pc_uid pend))))
    (\<lambda>f. Cover v n m K (snd (?f f) = None) (copyItems pend (fst (?f f))) [] []) (\<lambda>_. marked C)"
  proof (rule hoare_tryM, rule hoare_call)
    fix s a w
    assume P: "classified v n m K pend s"
      and c: "src_FetchFullStream (r_src R) (map pc_uid pend) (st_world s) = Some (Inr a, w)"
    have okC: "c_ok C (st_world s)" using P by (simp add: classified_def scanning_def marked_def)
    obtain msgs e where a: "a = (msgs, e)" by force
    let ?s = "s\<lparr> st_world := w \<rparr>"
    have Q: "classified v n m K pend ?s"
      by (rule classified_later [OF P call_world(1) [OF source_holds(4) c]])
        (simp add: call_world(2) [OF source_holds(4) c])
    have "recorded C ?s (pc_key p) \<or> pc_key p \<in> under_way (copyItems pend msgs) [] []"
      if e: "e = None" and p: "p \<in> set pend" for p
    proof -
      have sel: "c_selected C (st_world s) = Some (v, n)" using P by (simp add: classified_def scanning_def)
      have mail: "c_mail C v (pc_uid p) = Some (pc_key p)" using P p by (simp add: classified_def)
      consider "c_lost C w (pc_key p)" | "pc_uid p \<in> f_UID ` set msgs"
        using stream_complete [OF okC c [unfolded a e] sel _ _ mail] P p by (auto simp: classified_def)
      then show ?thesis
      proof cases
        case 1
        then show ?thesis by (simp add: recorded_def)
      next
        case 2
        then obtain full where full: "full \<in> set msgs" "f_UID full = pc_uid p" by auto
        have "byUID pend (pc_uid p) \<noteq> None"
          using p by (auto simp: byUID_def map_of_eq_None_iff image_image)
        then obtain pc where pc: "byUID pend (f_UID full) = Some pc" using full by auto
        then have "c_mail C v (pc_uid p) = Some (pc_key pc)"
          using byUID_Some [OF pc] P full by (auto simp: classified_def)
        then have "pc_key pc = pc_key p" using mail by simp
        moreover have "(full, pc) \<in> set (copyItems pend msgs)"
          using full pc by (force simp: copyItems_def List.map_filter_def)
        ultimately show ?thesis by (force simp: under_way_def)
      qed
    qed
    then show "Cover v n m K (snd (?f (Inr a)) = None) (copyItems pend (fst (?f (Inr a)))) [] [] ?s"
      using Q by (fastforce simp: Cover_def classified_def due_def a)
  next
    fix s e w
    assume P: "classified v n m K pend s"
      and c: "src_FetchFullStream (r_src R) (map pc_uid pend) (st_world s) = Some (Inl e, w)"
    have "classified v n m K pend (s\<lparr> st_world := w \<rparr>)"
      by (rule classified_later [OF P call_world(1) [OF source_holds(4) c]])
        (simp add: call_world(2) [OF source_holds(4) c])
    then show "Cover v n m K (snd (?f (Inl e)) = None) (copyItems pend (fst (?f (Inl e)))) [] [] (s\<lparr> st_world := w \<rparr>)"
      by (simp add: Cover_def classified_def)
  qed
  have go: "hoare (Cover v n m K (snd (?f f) = None) (copyItems pend (fst (?f f))) [] []) (?go rl fl f)
      (\<lambda>_ s. scanning C v n m s \<and> due C K {} s) (\<lambda>_. marked C)" for rl fl f
    by (rule hoare_conseq [OF cover.hoare_copyItems]) (auto simp: Cover_def due_def under_way_def)
  show ?thesis
    unfolding copyPipeline_def Let_def split_beta
    by (rule hoare_bindM [OF stream go])
qed

lemma hoare_window_due:
  "hoare (to_do v n m K metas) (mirrorWindow R metas)
    (\<lambda>_ s. scanning C v n m s \<and> due C K {} s) (\<lambda>_. marked C)"
  unfolding mirrorWindow_def
proof (rule hoare_bindM [OF hoare_classify_due])
  fix pend0
  have guard: "hoare (classified v n m K pend0)
      (if DestGuard (r_opts R) \<and> pend0 \<noteq> [] then guard R pend0 else returnM pend0)
      (classified v n m K) (\<lambda>_. marked C)"
    by (rule hoare_if [OF hoare_guard_due]) (auto simp: hoare_def returnM_def)
  have copy: "hoare (classified v n m K pend) (if pend = [] then returnM () else copyPipeline R pend)
      (\<lambda>_ s. scanning C v n m s \<and> due C K {} s) (\<lambda>_. marked C)" for pend
    by (rule hoare_if [OF _ hoare_copy_due]) (auto simp: hoare_def returnM_def classified_def due_def)
  show "hoare (classified v n m K pend0)
      (bindM (if DestGuard (r_opts R) \<and> pend0 \<noteq> [] then guard R pend0 else returnM pend0)
        (\<lambda>pend. if pend = [] then returnM () else copyPipeline R pend))
      (\<lambda>_ s. scanning C v n m s \<and> due C K {} s) (\<lambda>_. marked C)"
    by (rule hoare_bindM [OF guard copy])
qed


section \<open>The scan\<close>

definition window_keys :: "u32 \<Rightarrow> u32 \<Rightarrow> u32 \<Rightarrow> string set" where
  "window_keys v start stop = {k. \<exists>u. start \<le> u \<and> u \<le> stop \<and> c_mail C v u = Some k}"

lemma hoare_fetch_due:
  assumes "stop < n"
  shows "hoare (scanning C v n m) (call (src_FetchMetaRange (r_src R) start stop))
    (to_do v n m (window_keys v start stop)) (\<lambda>_. marked C)"
proof (rule hoare_call)
  fix s ms w
  assume P: "scanning C v n m s" and c: "src_FetchMetaRange (r_src R) start stop (st_world s) = Some (Inr ms, w)"
  have okC: "c_ok C (st_world s)" using P by (simp add: scanning_def marked_def)
  have sel: "c_selected C (st_world s) = Some (v, n)" using P by (simp add: scanning_def)
  have "scanning C v n m (s\<lparr> st_world := w \<rparr>)"
    by (rule later_scanning [OF call_world(1) [OF source_holds(3) c] _ P])
      (simp add: call_world(2) [OF source_holds(3) c])
  moreover have "own_mail v ms (s\<lparr> st_world := w \<rparr>)"
    using meta_mail [OF okC c sel] by (simp add: own_mail_def)
  moreover have "c_lost C w k" if "start \<le> u" "u \<le> stop" "c_mail C v u = Some k"
      and no: "k \<notin> DedupKey (rt_sha256 (r_rt R)) ` set ms" for u k
  proof -
    have "\<not> (\<exists>m \<in> set ms. m_UID m = u)"
    proof
      assume "\<exists>m \<in> set ms. m_UID m = u"
      then obtain m where m: "m \<in> set ms" "m_UID m = u" by blast
      then have "DedupKey (rt_sha256 (r_rt R)) m = k" using meta_mail [OF okC c sel m(1)] that by simp
      then show False using no m by blast
    qed
    then show ?thesis using meta_complete [OF okC c sel assms] that by blast
  qed
  ultimately show "to_do v n m (window_keys v start stop) ms (s\<lparr> st_world := w \<rparr>)"
    by (auto simp: to_do_def due_def recorded_def window_keys_def)
next
  fix s e w
  assume P: "scanning C v n m s" and c: "src_FetchMetaRange (r_src R) start stop (st_world s) = Some (Inl e, w)"
  show "marked C (s\<lparr> st_world := w \<rparr>)"
    using later_marked [OF call_world(1) [OF source_holds(3) c]] P by (simp add: scanning_def)
qed

lemma le_pred: "u < x \<Longrightarrow> u \<le> x - 1" for u x :: u32
proof -
  assume lt: "u < x"
  then have "x \<noteq> 0" by (auto simp: word_less_nat_alt)
  then have "unat (x - 1) = unat x - 1" by (rule unat_minus_one)
  then show ?thesis using lt by (simp add: word_less_nat_alt word_le_nat_alt)
qed

lemma pred_less: "0 < x \<Longrightarrow> x - 1 < x" for x :: u32
proof -
  assume gt: "0 < x"
  then have "unat (x - 1) = unat x - 1" by (intro unat_minus_one) auto
  then show ?thesis using gt by (simp add: word_less_nat_alt)
qed

lemma window_advance:
  assumes P: "scanning C v n (unat start) s" and d: "due C (window_keys v start (window_stop start batch n)) {} s"
    and lt: "start < n"
  shows "below C s v (unat (window_stop start batch n) + 1)"
    and "below C s v (min (unat (start + batch)) (unat n))"
proof -
  let ?stop = "window_stop start batch n"
  have old: "recorded C s k" if "0 < u" "u < start" "c_mail C v u = Some k" for u k
    using P that lt by (auto simp: scanning_def below_def word_less_nat_alt)
  have new: "recorded C s k" if "start \<le> u" "u \<le> ?stop" "c_mail C v u = Some k" for u k
    using d that by (auto simp: due_def window_keys_def)
  show "below C s v (unat ?stop + 1)"
    unfolding below_def using old new
    by (metis word_le_nat_alt less_Suc_eq_le Suc_eq_plus1 not_less)
  show "below C s v (min (unat (start + batch)) (unat n))"
    unfolding below_def
  proof (intro allI impI)
    fix u k
    assume u: "0 < u" "unat u < min (unat (start + batch)) (unat n)" and k: "c_mail C v u = Some k"
    then have "u < start + batch" and "u < n" by (simp_all add: word_less_nat_alt)
    then have "u \<le> start + batch - 1" and "u \<le> n - 1"
      by (simp_all add: le_pred)
    then have "u \<le> ?stop" by (simp add: window_stop_def)
    then show "recorded C s k" using old new u k by (metis not_less)
  qed
qed


lemma scanning_marked: "scanning C v n m s \<Longrightarrow> marked C s"
  by (simp add: scanning_def)

lemma hoare_still:
  assumes "steps (calm (holds C)) m"
  shows "hoare (scanning C v n k) m (\<lambda>_. scanning C v n k) (\<lambda>_. marked C)"
  by (rule still.hoare_calm [OF assms])
    (use later_scanning later_calm calm_selected scanning_marked in blast)+

lemma writes_SetLastUID: "writes (SetLastUID rt v) (sql_setMeta ''last_uid'' (FormatUint (unat v)))"
  unfolding SetLastUID_def metaSetUint_def by (rule writes_MetaSet)

lemma writes_SetUIDValidity: "writes (SetUIDValidity rt v) (sql_setMeta ''uidvalidity'' (FormatUint (unat v)))"
  unfolding SetUIDValidity_def metaSetUint_def by (rule writes_MetaSet)

lemma below_cong: "recorded C s' = recorded C s \<Longrightarrow> below C s' v m = below C s v m"
  by (simp add: below_def)

lemma hoare_commit:
  assumes lt: "start < n"
  shows "hoare (\<lambda>s. scanning C v n (unat start) s \<and> due C (window_keys v start (window_stop start batch n)) {} s)
    (SetLastUID (r_rt R) (window_stop start batch n))
    (\<lambda>_. scanning C v n (unat (start + batch))) (\<lambda>_. marked C)"
proof (rule still.hoare_writes [OF writes_SetLastUID])
  show "still.wsteps (SetLastUID (r_rt R) (window_stop start batch n))"
    unfolding SetLastUID_def metaSetUint_def by (rule still.wsteps_methods)
next
  fix s w
  let ?stop = "window_stop start batch n"
  assume "scanning C v n (unat start) s \<and> due C (window_keys v start ?stop) {} s" and W: "holds C (st_world s) w"
  then have P: "scanning C v n (unat start) s" and d: "due C (window_keys v start ?stop) {} s" by simp_all
  let ?s = "s\<lparr> st_world := w, st_db := sql_setMeta ''last_uid'' (FormatUint (unat ?stop)) (st_db s) \<rparr>"
  have rec: "recorded C s k \<Longrightarrow> recorded C ?s k" for k
    using W by (auto simp: recorded_def has_key_def holds_def keeps_lost_def)
  have below: "below C s v m \<Longrightarrow> below C ?s v m" for m
    using rec unfolding below_def by blast
  have val: "meta_reads (st_db s) ''uidvalidity'' v" using P by (simp add: scanning_def)
  have "marked C ?s"
    unfolding marked_def
    using below window_advance(1) [OF P d lt] val P W
    by (auto simp: meta_reads_set scanning_def marked_def holds_def keeps_lost_def dest: meta_reads_unique)
  moreover have "below C ?s v (min (unat (start + batch)) (unat n))"
    by (rule below [OF window_advance(2) [OF P d lt]])
  ultimately show "scanning C v n (unat (start + batch)) ?s"
    using P W by (simp add: scanning_def meta_reads_set holds_def)
next
  fix s w e
  let ?stop = "window_stop start batch n"
  assume "scanning C v n (unat start) s \<and> due C (window_keys v start ?stop) {} s" and W: "holds C (st_world s) w"
  then show "marked C (s\<lparr> st_world := w \<rparr>)"
    using later_marked [OF later_world [OF W]] scanning_marked by blast
qed

lemma hoare_step_due:
  assumes lt: "start < n"
  shows "hoare (to_do v n (unat start) (window_keys v start (window_stop start batch n)) metas)
    (mirrorStep R (window_stop start batch n) metas)
    (\<lambda>_. scanning C v n (unat (start + batch))) (\<lambda>_. marked C)"
proof -
  let ?K = "window_keys v start (window_stop start batch n)"
  have count: "hoare (to_do v n (unat start) ?K metas) (update_sum f)
      (\<lambda>_. to_do v n (unat start) ?K metas) (\<lambda>_. marked C)" for f
  proof (rule still.hoare_calm [OF still.calm.update_sum_steps])
    fix s s'
    assume P: "to_do v n (unat start) ?K metas s" and c: "calm (holds C) s s'"
    show "to_do v n (unat start) ?K metas s'"
      by (rule to_do_later [OF P later_calm [OF c] calm_selected [OF c]])
  qed (auto simp: to_do_def intro: scanning_marked)
  have quiet: "hoare (scanning C v n k) (bindM (getM (\<lambda>s. Copied (st_sum s))) (\<lambda>i. progress R ''mirror'' [] i))
      (\<lambda>_. scanning C v n k) (\<lambda>_. marked C)" for k
    by (rule hoare_still) (intro still.calm.rel.steps_compose still.calm.progress_steps)
  show ?thesis
    unfolding mirrorStep_def
    by (rule hoare_bindM [OF count hoare_bindM [OF hoare_window_due hoare_bindM [OF hoare_commit [OF lt] quiet]]])
qed

lemma hoare_scan_due:
  "hoare (scanning C v n (unat first)) (scanWindows (r_opts R) (ctxErr R) first n
     (\<lambda>start stop. call (src_FetchMetaRange (r_src R) start stop)) (mirrorStep R))
     (\<lambda>_ s. scanning C v n (unat n) s) (\<lambda>_. marked C)"
  unfolding scanWindows_def
proof (rule hoare_scanLoop [where Inv = "\<lambda>start. scanning C v n (unat start)"])
  fix start
  let ?b = "word_of_int (UIDBatch (r_opts R)) :: u32"
  assume lt: "start < n"
  have "n - 1 < n" by (rule pred_less) (use lt in \<open>auto simp: word_less_nat_alt\<close>)
  then have stop: "window_stop start ?b n < n"
    unfolding window_stop_def by (rule min.strict_coboundedI2)
  show "hoare (scanning C v n (unat start))
     (bindM (ctxErr R) (\<lambda>_. window_body (\<lambda>start stop. call (src_FetchMetaRange (r_src R) start stop))
        (mirrorStep R) start (window_stop start ?b n)))
     (\<lambda>_. scanning C v n (unat (start + ?b))) (\<lambda>_. marked C)"
    unfolding window_body_def
    by (rule hoare_bindM [OF hoare_still [OF still.calm.ctxErr_steps]], rule hoare_wrapM,
        rule hoare_bindM [OF hoare_fetch_due [OF stop] hoare_step_due [OF lt]])
next
  fix start s
  assume "\<not> start < n" and "scanning C v n (unat start) s"
  then show "scanning C v n (unat n) s" by (simp add: scanning_def word_less_nat_alt min_absorb2)
qed

section \<open>The pass\<close>

lemma below_1 [simp]: "below C s v (Suc 0)"
  by (auto simp: below_def word_less_nat_alt)

lemma hoare_mark_read:
  assumes "steps (calm (holds C)) (metaGetUint (r_rt R) key)"
    and I: "\<And>s s'. I s \<Longrightarrow> calm (holds C) s s' \<Longrightarrow> I s'" and E: "\<And>s. I s \<Longrightarrow> marked C s"
  shows "hoare I (metaGetUint (r_rt R) key) (\<lambda>n s. I s \<and> meta_reads (st_db s) key n) (\<lambda>_. marked C)"
proof (rule hoareI)
  fix s n s'
  assume P: "I s" and m: "metaGetUint (r_rt R) key s = Some (Inr n, s')"
  have c: "calm (holds C) s s'" by (rule stepsD [OF assms(1) m])
  then have "st_db s' = st_db s" by (simp add: calm_def)
  then show "I s' \<and> meta_reads (st_db s') key n"
    using I [OF P c] metaGetUint_reads [OF m] by simp
next
  fix s e s'
  assume P: "I s" and m: "metaGetUint (r_rt R) key s = Some (Inl e, s')"
  show "marked C s'" by (rule E [OF I [OF P stepsD [OF assms(1) m]]])
qed

lemma hoare_SetLastUID_0:
  "hoare (\<lambda>s. marked C s \<and> c_selected C (st_world s) = Some (v, n)) (SetLastUID (r_rt R) 0)
    (\<lambda>_ s. c_ok C (st_world s) \<and> c_selected C (st_world s) = Some (v, n) \<and>
       meta_reads (st_db s) ''last_uid'' 0) (\<lambda>_. marked C)"
proof (rule still.hoare_writes [OF writes_SetLastUID])
  show "still.wsteps (SetLastUID (r_rt R) 0)"
    unfolding SetLastUID_def metaSetUint_def by (rule still.wsteps_methods)
next
  fix s w
  assume "marked C s \<and> c_selected C (st_world s) = Some (v, n)" and "holds C (st_world s) w"
  then show "c_ok C (st_world (s\<lparr> st_world := w, st_db := sql_setMeta ''last_uid'' (FormatUint (unat (0 :: u32))) (st_db s) \<rparr>)) \<and>
      c_selected C (st_world (s\<lparr> st_world := w, st_db := sql_setMeta ''last_uid'' (FormatUint (unat (0 :: u32))) (st_db s) \<rparr>)) =
      Some (v, n) \<and> meta_reads (st_db (s\<lparr> st_world := w, st_db := sql_setMeta ''last_uid'' (FormatUint (unat (0 :: u32))) (st_db s) \<rparr>)) ''last_uid'' 0"
    using meta_reads_set [of "''last_uid''" 0] by (simp add: holds_def keeps_lost_def marked_def)
next
  fix s w e
  assume "marked C s \<and> c_selected C (st_world s) = Some (v, n)" and W: "holds C (st_world s) w"
  then show "marked C (s\<lparr> st_world := w \<rparr>)"
    using later_marked [OF later_world [OF W]] by blast
qed

lemma reset_marked: "c_ok C (st_world s) \<Longrightarrow> meta_reads (st_db s) ''last_uid'' 0 \<Longrightarrow> marked C s"
  unfolding marked_def by (auto dest: meta_reads_unique)

lemma hoare_SetUIDValidity_new:
  "hoare (\<lambda>s. c_ok C (st_world s) \<and> c_selected C (st_world s) = Some (v, n) \<and> meta_reads (st_db s) ''last_uid'' 0)
    (SetUIDValidity (r_rt R) v) (\<lambda>_. scanning C v n 1) (\<lambda>_. marked C)"
proof (rule still.hoare_writes [OF writes_SetUIDValidity])
  show "still.wsteps (SetUIDValidity (r_rt R) v)"
    unfolding SetUIDValidity_def metaSetUint_def by (rule still.wsteps_methods)
next
  fix s :: "'w st" and w
  assume P: "c_ok C (st_world s) \<and> c_selected C (st_world s) = Some (v, n) \<and> meta_reads (st_db s) ''last_uid'' 0"
    and W: "holds C (st_world s) w"
  let ?s = "s\<lparr> st_world := w, st_db := sql_setMeta ''uidvalidity'' (FormatUint (unat v)) (st_db s) \<rparr>"
  have "marked C ?s" by (rule reset_marked) (use P W in \<open>simp_all add: meta_reads_set holds_def keeps_lost_def\<close>)
  moreover have "below C ?s v (min 1 (unat n))" by (auto simp: below_def word_less_nat_alt)
  ultimately show "scanning C v n 1 ?s"
    using P W by (simp add: scanning_def meta_reads_set holds_def)
next
  fix s :: "'w st" and w e
  assume P: "c_ok C (st_world s) \<and> c_selected C (st_world s) = Some (v, n) \<and> meta_reads (st_db s) ''last_uid'' 0"
    and W: "holds C (st_world s) w"
  then show "marked C (s\<lparr> st_world := w \<rparr>)"
    by (intro reset_marked) (simp_all add: holds_def keeps_lost_def)
qed

lemma hoare_adopt:
  "hoare (\<lambda>s. marked C s \<and> c_selected C (st_world s) = Some (v, n))
    (adoptUIDValidity R v) (\<lambda>l. scanning C v n (unat (l + 1))) (\<lambda>_. marked C)"
proof -
  let ?I = "\<lambda>s. marked C s \<and> c_selected C (st_world s) = Some (v, n)"
  let ?I1 = "\<lambda>sv s. ?I s \<and> meta_reads (st_db s) ''uidvalidity'' sv"
  have calm1: "?I s'" if "?I s" and c: "calm (holds C) s s'" for s s'
    using later_marked [OF later_calm [OF c]] calm_selected [OF c] that(1) by simp
  have calm2: "?I1 sv s'" if "?I1 sv s" and c: "calm (holds C) s s'" for s s' sv
    using calm1 [OF _ c] that(1) c by (simp add: calm_def)
  have rd1: "hoare ?I (UIDValidity (r_rt R)) ?I1 (\<lambda>_. marked C)"
    unfolding UIDValidity_def
    by (rule hoare_mark_read [OF still.calm.mark_read_steps(1) [unfolded UIDValidity_def]])
      (use calm1 in blast)+
  have rd2: "hoare (?I1 sv) (LastUID (r_rt R)) (\<lambda>l s. ?I1 sv s \<and> meta_reads (st_db s) ''last_uid'' l)
      (\<lambda>_. marked C)" for sv
    unfolding LastUID_def
    by (rule hoare_mark_read [OF still.calm.mark_read_steps(2) [unfolded LastUID_def]])
      (use calm2 in blast)+
  have keep: "scanning C v n (unat (l + 1)) s"
    if "?I1 v s" "meta_reads (st_db s) ''last_uid'' l" for l s
  proof -
    have "below C s v (unat l + 1)" using that by (simp add: marked_def)
    moreover have "unat (l + 1) \<le> unat l + 1" 
      by (simp add: unat_word_ariths mod_less_eq_dividend)
    ultimately have "below C s v (min (unat (l + 1)) (unat n))" by (auto simp: below_def)
    then show ?thesis using that by (simp add: scanning_def)
  qed
  have reset: "hoare (\<lambda>s. ?I1 sv s \<and> meta_reads (st_db s) ''last_uid'' l)
     (bindM (if sv \<noteq> 0 then update_sum (\<lambda>sum. sum\<lparr> UIDValidityChanged := True \<rparr>) else returnM ()) (\<lambda>_.
       bindM (SetLastUID (r_rt R) 0) (\<lambda>_.
       bindM (SetUIDValidity (r_rt R) v) (\<lambda>_. returnM 0))))
     (\<lambda>l. scanning C v n (unat (l + 1))) (\<lambda>_. marked C)" for sv l
  proof (rule hoare_bindM [where Q = "\<lambda>_. ?I"])
    show "hoare (\<lambda>s. ?I1 sv s \<and> meta_reads (st_db s) ''last_uid'' l)
      (if sv \<noteq> 0 then update_sum (\<lambda>sum. sum\<lparr> UIDValidityChanged := True \<rparr>) else returnM ())
      (\<lambda>_. ?I) (\<lambda>_. marked C)"
      by (rule hoare_pre [where P' = ?I], rule hoare_if,
          rule still.hoare_calm [OF still.calm.update_sum_steps], erule (1) calm1, simp,
          rule hoare_returnM, simp)
    show "hoare ?I (bindM (SetLastUID (r_rt R) 0) (\<lambda>_. bindM (SetUIDValidity (r_rt R) v) (\<lambda>_. returnM 0)))
      (\<lambda>l. scanning C v n (unat (l + 1))) (\<lambda>_. marked C)"
      by (rule hoare_bindM [OF hoare_SetLastUID_0 hoare_bindM [OF hoare_SetUIDValidity_new]])
        (simp add: hoare_def returnM_def)
  qed
  show ?thesis
    unfolding adoptUIDValidity_def
  proof (rule hoare_bindM [OF rd1], rule hoare_bindM [OF rd2], rule hoare_if [OF reset])
    fix sv l
    assume "\<not> sv \<noteq> v"
    then show "hoare (\<lambda>s. ?I1 sv s \<and> meta_reads (st_db s) ''last_uid'' l) (returnM l)
        (\<lambda>l. scanning C v n (unat (l + 1))) (\<lambda>_. marked C)"
      using keep by (simp add: hoare_def returnM_def)
  qed
qed


sublocale fixed: dest_relation R "holds C" "level (holds C)"
  by unfold_locales
    (auto simp: level_def meta_reads_fingerprint
      intro: holds_refl holds_trans local_holds dest_holds)

lemma level_holds: "level (holds C) s s' \<Longrightarrow> later s s' \<and> c_selected C (st_world s') = c_selected C (st_world s)"
  by (auto simp: level_def holds_def keeps_lost_def later_def recorded_def has_key_def)

lemma hoare_marked: "steps (level (keeps_lost C)) m \<Longrightarrow> hoare (marked C) m (\<lambda>_. marked C) (\<lambda>_. marked C)"
  by (rule hoare_related [where Rel = "level (keeps_lost C)"]) (auto intro: later_marked later_level)

lemma hoare_fixed:
  assumes "steps (level (holds C)) m"
  shows "hoare (scanning C v n k) m (\<lambda>_. scanning C v n k) (\<lambda>_. marked C)"
  by (rule hoare_related [OF assms]) (auto dest!: level_holds intro: later_scanning scanning_marked)

lemma hoare_select:
  "hoare (marked C) (call (src_SelectFolder (r_src R)))
    (\<lambda>(v, n, x) s. marked C s \<and> c_selected C (st_world s) = Some (v, n)) (\<lambda>_. marked C)"
proof -
  have "marked C (s\<lparr> st_world := w \<rparr>)" if "marked C s" "src_SelectFolder (r_src R) (st_world s) = Some (r, w)" for s r w
    by (rule later_marked [OF later_level that(1)])
      (use stepsD [OF select_lost(1) that(2)] in \<open>simp add: level_def\<close>)
  then show ?thesis
    by (intro hoare_call) (auto dest: select_opens [rotated] simp: marked_def)
qed

text \<open>Seeding reads the destination and adds to the dedup set.\<close>

lemma later_trans: "later s t \<Longrightarrow> later t u \<Longrightarrow> later s u"
  unfolding later_def by metis

lemma later_db:
  assumes "db_copied d = db_copied (st_db s)"
    and "\<And>key n. key \<noteq> ''backfill_fingerprint'' \<Longrightarrow> meta_reads d key n = meta_reads (st_db s) key n"
  shows "later s (s\<lparr> st_db := d \<rparr>)"
  using assms by (simp add: later_def recorded_def has_key_def)

sublocale seeds: recording_relation R "holds C" later
proof unfold_locales
  show "later s (s\<lparr> st_db := sql_insertCopied r (st_db s) \<rparr>)" for s r
    using later_insert [OF holds_refl(1), of s "[r]"] by simp
  show "later s (s\<lparr> st_sum := sm \<rparr>)" for s sm
    by (simp add: later_def recorded_def)
qed (auto intro: holds_refl holds_trans local_holds dest_holds later_trans later_world later_db
      simp: meta_reads_fingerprint)

lemma SeedFromDest_complete: "hoare (marked C) (SeedFromDest R) (\<lambda>_. marked C) (\<lambda>_. marked C)"
  by (rule hoareI) (blast intro: later_marked stepsD [OF seeds.SeedFromDest_steps])+

lemma Run_complete:
  "hoare (marked C) (Run R) (\<lambda>_ s. \<exists>v n. scanning C v n (unat n) s) (\<lambda>_. marked C)"
proof -
  let ?scan = "\<lambda>l n. scanWindows (r_opts R) (ctxErr R) (l + 1) n
         (\<lambda>start stop. call (src_FetchMetaRange (r_src R) start stop)) (mirrorStep R)"
  have rest: "hoare (\<lambda>s. marked C s \<and> c_selected C (st_world s) = Some (v, n))
     (bindM (adoptUIDValidity R v) (\<lambda>l.
      bindM (wrapM ''backfill: %w'' [] (maybeBackfill R)) (\<lambda>_.
      bindM (?scan l n) (\<lambda>_.
      if ArchiveRouting (r_opts R) \<or> SentRouting (r_opts R) \<or> LabelPropagate (r_opts R)
      then wrapM ''propagate: %w'' [] (propagate R) else returnM ()))))
     (\<lambda>_ s. \<exists>v n. scanning C v n (unat n) s) (\<lambda>_. marked C)" for v n
    by (rule hoare_post [where Q' = "\<lambda>_. scanning C v n (unat n)"],
        rule hoare_bindM [OF hoare_adopt], rule hoare_bindM, rule hoare_wrapM,
        rule hoare_fixed [OF fixed.maybeBackfill_steps], rule hoare_bindM [OF hoare_scan_due],
        rule hoare_if, rule hoare_wrapM, rule hoare_fixed [OF fixed.propagate_steps],
        rule hoare_returnM, blast)
  have start: "hoare (marked C) (bindM (call (src_SelectFolder (r_src R))) (\<lambda>(v, n, _).
      bindM (adoptUIDValidity R v) (\<lambda>l.
      bindM (wrapM ''backfill: %w'' [] (maybeBackfill R)) (\<lambda>_.
      bindM (?scan l n) (\<lambda>_.
      if ArchiveRouting (r_opts R) \<or> SentRouting (r_opts R) \<or> LabelPropagate (r_opts R)
      then wrapM ''propagate: %w'' [] (propagate R) else returnM ())))))
     (\<lambda>_ s. \<exists>v n. scanning C v n (unat n) s) (\<lambda>_. marked C)"
    by (rule hoare_bindM [OF hoare_select], clarsimp simp only: prod.case split_paired_all, rule rest)
  show ?thesis
    unfolding Run_def
    by (rule hoare_bind_inv, rule hoare_marked [OF search.update_sum_steps],
        rule hoare_bind_inv, rule hoare_wrapM, rule hoare_marked [OF search.syncMembership_steps], rule start)
qed

end

end
