(* ===== verification/Soundness.thy ===== *)
theory Soundness
  imports Windows
begin

text \<open>
  No false record: the dedup set holds only keys of messages that the destination has stored, after
  any pass, whichever call fails.  A crash is a world in which every call fails from some point on,
  so this is the rule "state stays behind reality, never ahead" of the copy pipeline.

  What the pass relies on is stated of an abstract view of the outside world: the keys that the
  destination has stored so far, the key each issued append carries, and the keys of the messages of
  the selected source folder.
\<close>

section \<open>The view and the contract\<close>

text \<open>
  \<open>v_ok\<close> is an invariant of the outside world, kept by every call; \<open>v_key\<close> is the dedup key of a
  message body; \<open>v_stored w k\<close>: some message with key \<open>k\<close> has been stored
  at the destination; \<open>v_command w h k\<close>: the pending append \<open>h\<close> carries a message with key \<open>k\<close>;
  \<open>v_agree w u k\<close>: UID \<open>u\<close> of the selected source folder is a message with key \<open>k\<close>.
\<close>

record 'w view =
  v_ok :: "'w \<Rightarrow> bool"
  v_key :: "FullMessage \<Rightarrow> string"
  v_stored :: "'w \<Rightarrow> string \<Rightarrow> bool"
  v_command :: "'w \<Rightarrow> pendingAppend \<Rightarrow> string \<Rightarrow> bool"
  v_agree :: "'w \<Rightarrow> u32 \<Rightarrow> string \<Rightarrow> bool"

definition keeps_dest :: "('w, 'z) view_scheme \<Rightarrow> 'w \<Rightarrow> 'w \<Rightarrow> bool" where
  "keeps_dest V w w' \<longleftrightarrow> (v_ok V w \<longrightarrow> v_ok V w' \<and> (\<forall>k. v_stored V w k \<longrightarrow> v_stored V w' k) \<and>
     (\<forall>h k. v_command V w h k \<longrightarrow> v_command V w' h k))"

definition keeps_all :: "('w, 'z) view_scheme \<Rightarrow> 'w \<Rightarrow> 'w \<Rightarrow> bool" where
  "keeps_all V w w' \<longleftrightarrow> keeps_dest V w w' \<and>
     (v_ok V w \<longrightarrow> (\<forall>u k. v_agree V w u k \<longrightarrow> v_agree V w' u k))"

definition sound :: "('w, 'z) view_scheme \<Rightarrow> 'w st \<Rightarrow> bool" where
  "sound V s \<longleftrightarrow> v_ok V (st_world s) \<and> (\<forall>k. has_key (st_db s) k \<longrightarrow> v_stored V (st_world s) k)"

lemma sound_ok [simp]: "sound V s \<Longrightarrow> v_ok V (st_world s)"
  by (simp add: sound_def)

text \<open>The invariant of the copy pipeline.\<close>

definition backed :: "('w, 'z) view_scheme \<Rightarrow> KeyRecord list \<Rightarrow> 'w st \<Rightarrow> bool" where
  "backed V rs s \<longleftrightarrow> sound V s \<and> (\<forall>r \<in> set rs. v_stored V (st_world s) (kr_Key r))"

lemma backed_ok: "backed V rs s \<Longrightarrow> v_ok V (st_world s)"
  by (simp add: backed_def)

definition flowing :: "('w, 'z) view_scheme \<Rightarrow> (FullMessage \<times> pendingCopy) list \<Rightarrow> inflightAppend list \<Rightarrow>
    KeyRecord list \<Rightarrow> 'w st \<Rightarrow> bool" where
  "flowing V todo rg rs s \<longleftrightarrow> backed V rs s \<and>
     (\<forall>it \<in> set rg. v_command V (st_world s) (if_pa it) (pc_key (if_pc it)) \<and>
        v_key V (if_full it) = pc_key (if_pc it)) \<and>
     (\<forall>(full, pc) \<in> set todo. v_key V full = pc_key pc)"

lemma flowing_ok: "flowing V todo rg rs s \<Longrightarrow> v_ok V (st_world s)"
  by (auto simp: flowing_def dest: backed_ok)

definition agreed :: "('w, 'z) view_scheme \<Rightarrow> pendingCopy list \<Rightarrow> 'w st \<Rightarrow> bool" where
  "agreed V pend s \<longleftrightarrow> sound V s \<and> (\<forall>p \<in> set pend. v_agree V (st_world s) (pc_uid p) (pc_key p))"

lemma agreed_ok: "agreed V pend s \<Longrightarrow> v_ok V (st_world s)"
  by (simp add: agreed_def)

definition listed :: "('w, 'z) view_scheme \<Rightarrow> 'w Reconciler \<Rightarrow> MsgMeta list \<Rightarrow> 'w st \<Rightarrow> bool" where
  "listed V R ms s \<longleftrightarrow> sound V s \<and>
     (\<forall>m \<in> set ms. v_agree V (st_world s) (m_UID m) (DedupKey (rt_sha256 (r_rt R)) m))"

text \<open>
  The contract: an OK to an append means that the message is stored; a search finds and a fetch of
  the destination lists only stored messages; the UIDs of a selected folder do not change their
  messages, and the metadata of a message and its body have the same key.
\<close>

locale truthful_servers =
  fixes R :: "'w Reconciler" and V :: "('w, 'z) view_scheme"
  assumes local_keeps: "rt_sql (r_rt R) w = (r, w') \<Longrightarrow> keeps_all V w w'"
      "rt_ctx (r_rt R) w = (r, w') \<Longrightarrow> keeps_all V w w'"
      "rt_now (r_rt R) w = (t, w') \<Longrightarrow> keeps_all V w w'"
      "rt_perm (r_rt R) w = (p, w') \<Longrightarrow> keeps_all V w w'"
      "OnProgress (r_opts R) = Some f \<Longrightarrow> keeps_all V w (f phase item n w)"
    and select_keeps: "steps (keeps_dest V) (src_SelectFolder (r_src R))"
      "steps (keeps_dest V) (src_SelectNamedFolder (r_src R) name)"
    and source_keeps: "steps (keeps_all V) (src_ListFolders (r_src R))"
      "steps (keeps_all V) (src_SearchAllUIDs (r_src R))"
      "steps (keeps_all V) (src_FetchMetaRange (r_src R) a b)"
      "steps (keeps_all V) (src_FetchFullStream (r_src R) us)"
    and dest_keeps: "steps (keeps_all V) (dst_SelectNamedFolder (r_dst R) name)"
      "steps (keeps_all V) (dst_FetchMetaRange (r_dst R) a b)"
      "steps (keeps_all V) (dst_SearchMessageIDsIn (r_dst R) name ids)"
      "steps (keeps_all V) (dst_AppendTo (r_dst R) name full fl)"
      "steps (keeps_all V) (dst_BeginAppend (r_dst R) name full fl)"
      "steps (keeps_all V) (dst_WaitAppend (r_dst R) h)"
      "steps (keeps_all V) (dst_MoveMessageID (r_dst R) name to key)"
      "steps (keeps_all V) (dst_MoveUIDs (r_dst R) name us to)"
      "steps (keeps_all V) (dst_StoreKeywordByMessageID (r_dst R) name key add kw)"
      "steps (keeps_all V) (dst_StoreKeywordsUIDs (r_dst R) us fl)"
    and meta_agrees: "v_ok V w \<Longrightarrow> src_FetchMetaRange (r_src R) a b w = Some (Inr ms, w') \<Longrightarrow> m \<in> set ms \<Longrightarrow>
      v_agree V w' (m_UID m) (DedupKey (rt_sha256 (r_rt R)) m)"
    and stream_agrees: "v_ok V w \<Longrightarrow> src_FetchFullStream (r_src R) us w = Some (Inr (msgs, e), w') \<Longrightarrow>
      full \<in> set msgs \<Longrightarrow> v_agree V w' (f_UID full) k \<Longrightarrow> v_key V full = k"
    and begin_command: "v_ok V w \<Longrightarrow> dst_BeginAppend (r_dst R) name full fl w = Some (Inr h, w') \<Longrightarrow>
      v_command V w' h (v_key V full)"
    and wait_stores: "v_ok V w \<Longrightarrow> dst_WaitAppend (r_dst R) h w = Some (Inr (), w') \<Longrightarrow> v_command V w h k \<Longrightarrow>
      v_stored V w' k"
    and append_stores: "v_ok V w \<Longrightarrow> dst_AppendTo (r_dst R) name full fl w = Some (Inr (), w') \<Longrightarrow>
      v_stored V w' (v_key V full)"
    and search_stored: "v_ok V w \<Longrightarrow> dst_SearchMessageIDsIn (r_dst R) name ids w = Some (Inr found, w') \<Longrightarrow>
      k \<in> found \<Longrightarrow> v_stored V w' k"
    and meta_stored: "v_ok V w \<Longrightarrow> dst_FetchMetaRange (r_dst R) a b w = Some (Inr ms, w') \<Longrightarrow> m \<in> set ms \<Longrightarrow>
      v_stored V w' (DedupKey (rt_sha256 (r_rt R)) m)"
begin

lemma keeps_refl: "keeps_dest V w w" "keeps_all V w w"
  by (simp_all add: keeps_dest_def keeps_all_def)

lemma keeps_trans:
  "keeps_dest V a b \<Longrightarrow> keeps_dest V b c \<Longrightarrow> keeps_dest V a c"
  "keeps_all V a b \<Longrightarrow> keeps_all V b c \<Longrightarrow> keeps_all V a c"
  by (auto simp: keeps_dest_def keeps_all_def)

lemma keeps_all_dest: "keeps_all V w w' \<Longrightarrow> keeps_dest V w w'"
  by (simp add: keeps_all_def)

lemma keeps_ok: "keeps_dest V w w' \<Longrightarrow> v_ok V w \<Longrightarrow> v_ok V w'"
  by (simp add: keeps_dest_def)

lemmas weak = keeps_all_dest steps_weaken [OF _ keeps_all_dest]

sublocale every: phase_relation R "keeps_dest V" "apart (keeps_dest V)"
  by unfold_locales
    (auto simp: calm_def apart_def sql_deletePending_def sql_setFolder_def sql_setMeta_def
      intro: keeps_refl keeps_trans select_keeps local_keeps weak source_keeps dest_keeps)

sublocale plain: calm_relation R "keeps_dest V"
  by unfold_locales (auto intro: keeps_refl keeps_trans local_keeps weak)

sublocale mirror: calm_relation R "keeps_all V"
  by unfold_locales (auto intro: keeps_refl keeps_trans local_keeps)

lemma sound_calm: "sound V s \<Longrightarrow> apart (keeps_dest V) s s' \<Longrightarrow> sound V s'"
  by (auto simp: sound_def apart_has_key apart_def keeps_dest_def has_key_def)

lemma calm_weak: "calm (keeps_all V) s s' \<Longrightarrow> apart (keeps_dest V) s s'"
  by (simp add: calm_def apart_def keeps_all_def)

lemma sound_record:
  assumes "sound V s" and "\<And>r. r \<in> set rs \<Longrightarrow> v_stored V (st_world s) (kr_Key r)"
    and "keeps_dest V (st_world s) w"
  shows "sound V (s\<lparr> st_world := w, st_db := fold sql_insertCopied rs (st_db s) \<rparr>)"
  using assms by (auto simp: sound_def copied.has_fold keeps_dest_def)


lemma backed_calm: "backed V rs s \<Longrightarrow> apart (keeps_dest V) s s' \<Longrightarrow> backed V rs s'"
  using sound_calm by (auto simp: backed_def calm_def apart_def keeps_dest_def)

lemma backed_world: "backed V rs s \<Longrightarrow> keeps_dest V (st_world s) w \<Longrightarrow> backed V rs (s\<lparr> st_world := w \<rparr>)"
  by (rule backed_calm) (simp_all add: apart_def)

lemma flowing_world:
  "flowing V todo rg rs s \<Longrightarrow> keeps_dest V (st_world s) w \<Longrightarrow> flowing V todo rg rs (s\<lparr> st_world := w \<rparr>)"
  using backed_world [of rs s w] by (auto simp: flowing_def keeps_dest_def dest: backed_ok)

sublocale pipe: pipeline R "keeps_all V" "flowing V" "backed V"
proof unfold_locales
  fix todo rg rs s s'
  assume P: "flowing V todo rg rs s" and c: "calm (keeps_all V) s s'"
  then show "flowing V todo rg rs s'"
    using backed_calm [of rs s s'] calm_weak [OF c]
    by (auto simp: flowing_def calm_def apart_def keeps_dest_def keeps_all_def dest: backed_ok)
next
  fix rs s s'
  assume "backed V rs s" and "calm (keeps_all V) s s'"
  then show "backed V rs s'" by (blast intro: backed_calm calm_weak)
next
  fix todo rg rs s
  assume "flowing V todo rg rs s"
  then show "backed V rs s" by (simp add: flowing_def)
next
  fix todo rg rs s w
  assume P: "flowing V todo rg rs s" and W: "keeps_all V (st_world s) w"
  then have "sound V (s\<lparr> st_world := w, st_db := fold sql_insertCopied rs (st_db s) \<rparr>)"
    by (intro sound_record keeps_all_dest) (auto simp: flowing_def backed_def)
  then show "flowing V todo rg [] (s\<lparr> st_world := w, st_db := fold sql_insertCopied rs (st_db s) \<rparr>)"
    using P W by (auto simp: flowing_def backed_def keeps_all_def keeps_dest_def)
next
  fix rs s w
  assume P: "backed V rs s" and W: "keeps_all V (st_world s) w"
  then have "sound V (s\<lparr> st_world := w, st_db := fold sql_insertCopied rs (st_db s) \<rparr>)"
    by (intro sound_record keeps_all_dest) (auto simp: backed_def)
  then show "backed V [] (s\<lparr> st_world := w, st_db := fold sql_insertCopied rs (st_db s) \<rparr>)"
    by (simp add: backed_def)
next
  fix full pc todo rg rs s fl h w bf hk
  assume P: "flowing V ((full, pc) # todo) rg rs s"
    and b: "dst_BeginAppend (r_dst R) (pc_destFolder pc) full fl (st_world s) = Some (Inr h, w)"
  have "flowing V ((full, pc) # todo) rg rs (s\<lparr> st_world := w \<rparr>)"
    by (rule flowing_world [OF P keeps_all_dest [OF stepsD [OF dest_keeps(5) b]]])
  then show "flowing V todo (rg @ [\<lparr> if_pa = h, if_pc = pc, if_full = full, if_baseFlags = bf,
      if_hadKeywords = hk \<rparr>]) rs (s\<lparr> st_world := w \<rparr>)"
    using begin_command [OF flowing_ok [OF P] b] by (auto simp: flowing_def)
next
  fix full pc todo rg rs s fl e w
  assume P: "flowing V ((full, pc) # todo) rg rs s"
    and b: "dst_BeginAppend (r_dst R) (pc_destFolder pc) full fl (st_world s) = Some (Inl e, w)"
  show "backed V rs (s\<lparr> st_world := w \<rparr>)"
    using flowing_world [OF P keeps_all_dest [OF stepsD [OF dest_keeps(5) b]]] by (simp add: flowing_def)
next
  fix todo it rg rs s w now
  assume P: "flowing V todo (it # rg) rs s"
    and b: "dst_WaitAppend (r_dst R) (if_pa it) (st_world s) = Some (Inr (), w)"
  have "v_stored V w (pc_key (if_pc it))"
    using wait_stores [OF flowing_ok [OF P] b] P by (simp add: flowing_def)
  then show "flowing V todo rg (rs @ [copy_record (if_pc it) now]) (s\<lparr> st_world := w \<rparr>)"
    using flowing_world [OF P keeps_all_dest [OF stepsD [OF dest_keeps(6) b]]]
    by (auto simp: flowing_def backed_def copy_record_def)
next
  fix todo it rg rs s e w
  assume P: "flowing V todo (it # rg) rs s"
    and b: "dst_WaitAppend (r_dst R) (if_pa it) (st_world s) = Some (Inl e, w)"
  show "backed V rs (s\<lparr> st_world := w \<rparr>)"
    using flowing_world [OF P keeps_all_dest [OF stepsD [OF dest_keeps(6) b]]] by (simp add: flowing_def)
next
  fix todo it rg rs s e w w' now
  assume P: "flowing V todo (it # rg) rs s"
    and b: "dst_WaitAppend (r_dst R) (if_pa it) (st_world s) = Some (Inl e, w)"
    and a: "dst_AppendTo (r_dst R) (pc_destFolder (if_pc it)) (if_full it) (if_baseFlags it) w = Some (Inr (), w')"
  have k: "keeps_dest V (st_world s) w'"
    using keeps_trans(1) keeps_all_dest [OF stepsD [OF dest_keeps(6) b]]
      keeps_all_dest [OF stepsD [OF dest_keeps(4) a]] by blast
  have "v_stored V w' (pc_key (if_pc it))"
    using append_stores [OF keeps_ok [OF keeps_all_dest [OF stepsD [OF dest_keeps(6) b]] flowing_ok [OF P]] a] P
    by (simp add: flowing_def)
  then show "flowing V todo rg (rs @ [copy_record (if_pc it) now]) (s\<lparr> st_world := w' \<rparr>)"
    using flowing_world [OF P k] by (auto simp: flowing_def backed_def copy_record_def)
next
  fix todo it rg rs s e w e' w'
  assume P: "flowing V todo (it # rg) rs s"
    and b: "dst_WaitAppend (r_dst R) (if_pa it) (st_world s) = Some (Inl e, w)"
    and a: "dst_AppendTo (r_dst R) (pc_destFolder (if_pc it)) (if_full it) (if_baseFlags it) w = Some (Inl e', w')"
  have k: "keeps_dest V (st_world s) w'"
    using keeps_trans(1) keeps_all_dest [OF stepsD [OF dest_keeps(6) b]]
      keeps_all_dest [OF stepsD [OF dest_keeps(4) a]] by blast
  show "backed V rs (s\<lparr> st_world := w' \<rparr>)"
    using flowing_world [OF P k] by (simp add: flowing_def)
qed


abbreviation ended :: "gerr \<Rightarrow> 'w st \<Rightarrow> bool" where
  "ended \<equiv> \<lambda>_. sound V"

lemma agreed_calm: "agreed V pend s \<Longrightarrow> calm (keeps_all V) s s' \<Longrightarrow> agreed V pend s'"
  using sound_calm [of s s'] calm_weak [of s s'] by (auto simp: agreed_def calm_def keeps_all_def)

lemma listed_calm: "listed V R ms s \<Longrightarrow> calm (keeps_all V) s s' \<Longrightarrow> listed V R ms s'"
  using sound_calm [of s s'] calm_weak [of s s'] by (auto simp: listed_def calm_def keeps_all_def)

lemma hoare_sound: "steps (apart (keeps_dest V)) m \<Longrightarrow> hoare (sound V) m (\<lambda>_. sound V) ended"
  by (rule hoare_related [where Rel = "apart (keeps_dest V)"]) (auto intro: sound_calm)

lemma hoare_classify:
  "hoare (listed V R ms) (classify R ms [] {}) (agreed V) ended"
proof (rule hoareI)
  fix s pend s'
  assume l: "listed V R ms s" and c: "classify R ms [] {} s = Some (Inr pend, s')"
  have "listed V R ms s'" by (rule listed_calm [OF l stepsD [OF mirror.calm.classify_steps c]])
  moreover have "\<exists>m \<in> set ms. m_UID m = pc_uid p \<and> DedupKey (rt_sha256 (r_rt R)) m = pc_key p"
    if "p \<in> set pend" for p
    using classify_candidates [OF c that] .
  ultimately show "agreed V pend s'"
    by (metis agreed_def listed_def)
next
  fix s e s'
  assume l: "listed V R ms s" and c: "classify R ms [] {} s = Some (Inl e, s')"
  then show "sound V s'"
    using listed_calm [OF l stepsD [OF mirror.calm.classify_steps c]] by (simp add: listed_def)
qed

lemma hoare_sound_guard: "hoare (agreed V pend) (guard R pend) (agreed V) ended"
proof (rule mirror.hoare_guard [where S = "\<lambda>found rest s. agreed V pend s \<and> (\<forall>k \<in> found. v_stored V (st_world s) k)"])
  fix found folder rest
  show "hoare (\<lambda>s. agreed V pend s \<and> (\<forall>k\<in>found. v_stored V (st_world s) k))
    (call (dst_SearchMessageIDsIn (r_dst R) folder (filter IsRealMessageID (map pc_key pend))))
    (\<lambda>f s. agreed V pend s \<and> (\<forall>k\<in>found \<union> f. v_stored V (st_world s) k)) ended"
  proof (rule hoare_call)
    fix s f w
    assume P: "agreed V pend s \<and> (\<forall>k\<in>found. v_stored V (st_world s) k)"
      and c: "dst_SearchMessageIDsIn (r_dst R) folder (filter IsRealMessageID (map pc_key pend)) (st_world s) = Some (Inr f, w)"
    have k: "keeps_all V (st_world s) w" by (rule stepsD [OF dest_keeps(3) c])
    then have "agreed V pend (s\<lparr> st_world := w \<rparr>)"
      using P agreed_calm [of pend s "s\<lparr> st_world := w \<rparr>"] by (simp add: calm_def apart_def)
    then show "agreed V pend (s\<lparr>st_world := w\<rparr>) \<and> (\<forall>k\<in>found \<union> f. v_stored V (st_world (s\<lparr>st_world := w\<rparr>)) k)"
      using P k search_stored [OF agreed_ok [OF conjunct1 [OF P]] c]
      by (auto simp: keeps_all_def keeps_dest_def dest: agreed_ok)
  next
    fix s e w
    assume P: "agreed V pend s \<and> (\<forall>k\<in>found. v_stored V (st_world s) k)"
      and c: "dst_SearchMessageIDsIn (r_dst R) folder (filter IsRealMessageID (map pc_key pend)) (st_world s) = Some (Inl e, w)"
    have k: "keeps_all V (st_world s) w" by (rule stepsD [OF dest_keeps(3) c])
    then show "sound V (s\<lparr> st_world := w \<rparr>)"
      using P agreed_calm [of pend s "s\<lparr> st_world := w \<rparr>"] by (simp add: calm_def apart_def agreed_def)
  qed
next
  fix found s s'
  assume "agreed V pend s \<and> (\<forall>k\<in>found. v_stored V (st_world s) k)" and "calm (keeps_all V) s s'"
  then show "agreed V pend s' \<and> (\<forall>k\<in>found. v_stored V (st_world s') k)"
    using agreed_calm [of pend s s'] by (auto simp: calm_def apart_def keeps_all_def keeps_dest_def dest: agreed_ok)
next
  fix found rs kept s w
  assume P: "agreed V pend s \<and> (\<forall>k\<in>found. v_stored V (st_world s) k)"
    and sp: "split_of found pend rs kept" and W: "keeps_all V (st_world s) w"
  have "kr_Key ` set rs \<subseteq> found"
    using arg_cong [where f = set, OF conjunct2 [OF sp [unfolded split_of_def]]] by auto
  then have "sound V (s\<lparr> st_world := w, st_db := fold sql_insertCopied rs (st_db s) \<rparr>)"
    using P W by (intro sound_record keeps_all_dest) (auto simp: agreed_def)
  then show "agreed V kept (s\<lparr> st_world := w, st_db := fold sql_insertCopied rs (st_db s) \<rparr>)"
    using P W sp by (auto simp: agreed_def split_of_def keeps_all_def)
qed (auto simp: agreed_def)

lemma hoare_sound_copy: "hoare (agreed V pend) (copyPipeline R pend) (\<lambda>_. sound V) ended"
proof -
  let ?f = "\<lambda>f. case f of Inl e \<Rightarrow> ([], Some e) | Inr p \<Rightarrow> p"
  let ?go = "\<lambda>rl fl f. bindM (withVars empty_consumer (consume R rl fl (copyItems pend (fst (?f f))))) (\<lambda>c.
      case consErr c of
        Some e \<Rightarrow> throwM e
      | None \<Rightarrow> (case snd (?f f) of Some e \<Rightarrow> throwM e | None \<Rightarrow> ctxErr R))"
  have stream: "hoare (agreed V pend) (tryM (call (src_FetchFullStream (r_src R) (map pc_uid pend))))
    (\<lambda>f. flowing V (copyItems pend (fst (?f f))) [] []) ended"
  proof (rule hoare_tryM, rule hoare_call)
    fix s a w
    assume P: "agreed V pend s" and c: "src_FetchFullStream (r_src R) (map pc_uid pend) (st_world s) = Some (Inr a, w)"
    obtain msgs e where a: "a = (msgs, e)" by force
    have k: "keeps_all V (st_world s) w" by (rule stepsD [OF source_keeps(4) c])
    then have ag: "agreed V pend (s\<lparr> st_world := w \<rparr>)"
      using P agreed_calm [of pend s "s\<lparr> st_world := w \<rparr>"] by (simp add: calm_def apart_def)
    have "v_key V full = pc_key pc" if i: "(full, pc) \<in> set (copyItems pend msgs)" for full pc
      using stream_agrees [OF agreed_ok [OF P] c [unfolded a], of full "pc_key pc"] copyItems_pc [OF i] ag
      by (auto simp: agreed_def)
    then show "flowing V (copyItems pend (fst (?f (Inr a)))) [] [] (s\<lparr> st_world := w \<rparr>)"
      using ag by (auto simp: flowing_def backed_def agreed_def a)
  next
    fix s e w
    assume P: "agreed V pend s" and c: "src_FetchFullStream (r_src R) (map pc_uid pend) (st_world s) = Some (Inl e, w)"
    have k: "keeps_all V (st_world s) w" by (rule stepsD [OF source_keeps(4) c])
    then show "flowing V (copyItems pend (fst (?f (Inl e)))) [] [] (s\<lparr> st_world := w \<rparr>)"
      using P agreed_calm [of pend s "s\<lparr> st_world := w \<rparr>"]
      by (simp add: calm_def apart_def flowing_def backed_def agreed_def copyItems_def)
  qed
  have go: "hoare (flowing V (copyItems pend (fst (?f f))) [] []) (?go rl fl f) (\<lambda>_. sound V) ended" for rl fl f
    by (rule hoare_conseq [OF pipe.hoare_copyItems]) (auto simp: flowing_def backed_def)
  show ?thesis
    unfolding copyPipeline_def Let_def split_beta
    by (rule hoare_bindM [OF stream go])
qed

lemma hoare_sound_window: "hoare (listed V R metas) (mirrorWindow R metas) (\<lambda>_. sound V) ended"
  unfolding mirrorWindow_def
proof (rule hoare_bindM [OF hoare_classify], rule hoare_bindM [where Q = "agreed V"], goal_cases)
  case (1 pend)
  show ?case
    by (rule hoare_if [OF hoare_sound_guard]) (auto simp: hoare_def returnM_def)
next
  case (2 pend0 pend)
  show ?case
    by (rule hoare_if [OF _ hoare_sound_copy]) (auto simp: hoare_def returnM_def agreed_def)
qed

lemma hoare_sound_scan:
  "hoare (sound V) (scanWindows (r_opts R) (ctxErr R) first uidNext
     (\<lambda>start stop. call (src_FetchMetaRange (r_src R) start stop)) (mirrorStep R)) (\<lambda>_. sound V) ended"
proof (rule hoare_scanWindows_inv [where J = "\<lambda>_. listed V R"])
  show "hoare (sound V) (ctxErr R) (\<lambda>_. sound V) (\<lambda>_. sound V)"
    by (rule hoare_sound [OF every.ctxErr_steps])
next
  fix start stop
  show "hoare (sound V) (call (src_FetchMetaRange (r_src R) start stop)) (listed V R) (\<lambda>_. sound V)"
  proof (rule hoare_call)
    fix s ms w
    assume P: "sound V s" and c: "src_FetchMetaRange (r_src R) start stop (st_world s) = Some (Inr ms, w)"
    have "apart (keeps_dest V) s (s\<lparr> st_world := w \<rparr>)"
      using stepsD [OF source_keeps(3) c] by (simp add: calm_def apart_def keeps_all_def)
    then show "listed V R ms (s\<lparr> st_world := w \<rparr>)"
      using sound_calm [OF P] meta_agrees [OF sound_ok [OF P] c] by (auto simp: listed_def)
  next
    fix s e w
    assume P: "sound V s" and c: "src_FetchMetaRange (r_src R) start stop (st_world s) = Some (Inl e, w)"
    have "apart (keeps_dest V) s (s\<lparr> st_world := w \<rparr>)"
      using stepsD [OF source_keeps(3) c] by (simp add: calm_def apart_def keeps_all_def)
    then show "sound V (s\<lparr> st_world := w \<rparr>)" by (rule sound_calm [OF P])
  qed
next
  fix stop metas
  have quiet: "hoare (sound V) (bindM (SetLastUID (r_rt R) stop) (\<lambda>_.
     bindM (getM (\<lambda>s. Copied (st_sum s))) (\<lambda>n. progress R ''mirror'' [] n))) (\<lambda>_. sound V) (\<lambda>_. sound V)"
    by (rule hoare_sound) (intro every.rel.steps_compose every.local_steps plain.apart.mark_steps)
  show "hoare (listed V R metas) (mirrorStep R stop metas) (\<lambda>_. sound V) (\<lambda>_. sound V)"
    unfolding mirrorStep_def
    by (rule hoare_bindM [OF _ hoare_bindM [OF hoare_sound_window quiet]])
      (rule mirror.hoare_calm [OF mirror.calm.update_sum_steps], erule (1) listed_calm, simp add: listed_def)
qed

lemma Run_sound: "hoare (sound V) (Run R) (\<lambda>_. sound V) ended"
  unfolding Run_def
  by (rule hoare_bind_inv, rule hoare_sound [OF every.update_sum_steps],
      rule hoare_bind_inv, rule hoare_wrapM, rule hoare_sound [OF every.syncMembership_steps],
      rule hoare_bind_inv, rule hoare_sound [OF every.call_src(1)], clarsimp simp only: prod.case split_paired_all,
      rule hoare_bind_inv, rule hoare_sound [OF plain.apart.adoptUIDValidity_steps],
      rule hoare_bind_inv, rule hoare_wrapM, rule hoare_sound [OF every.maybeBackfill_steps],
      rule hoare_bind_inv, rule hoare_sound_scan, rule hoare_if, rule hoare_wrapM,
      rule hoare_sound [OF every.propagate_steps], rule hoare_returnM)


lemma hoare_sound_outer:
  assumes "steps (apart (keeps_dest V)) m"
  shows "hoare (\<lambda>p. sound V (fst p)) (outer m) (\<lambda>_ p. sound V (fst p)) (\<lambda>_ p. sound V (fst p))"
  by (rule hoare_outer) (use hoare_sound [OF assms] in simp)

lemma seedFromDestFolder_sound:
  "hoare (sound V) (seedFromDestFolder R folder item) (\<lambda>_. sound V) ended"
proof -
  let ?I = "\<lambda>p :: 'w st \<times> int. sound V (fst p)" and ?E = "\<lambda>_ (p :: 'w st \<times> int). sound V (fst p)"
  let ?key = "DedupKey (rt_sha256 (r_rt R))"
  let ?J = "\<lambda>(_ :: u32) ms (p :: 'w st \<times> int). sound V (fst p) \<and>
    (\<forall>m \<in> set ms. v_stored V (st_world (fst p)) (?key m))"
  have fetch: "hoare ?I (outer (call (dst_FetchMetaRange (r_dst R) a b))) (?J stop) ?E" for a b stop
  proof (rule hoare_outer, simp only: fst_conv, rule hoare_call)
    fix s ms w
    assume P: "sound V s" and c: "dst_FetchMetaRange (r_dst R) a b (st_world s) = Some (Inr ms, w)"
    have "apart (keeps_dest V) s (s\<lparr> st_world := w \<rparr>)"
      using stepsD [OF dest_keeps(2) c] by (simp add: calm_def apart_def keeps_all_def)
    then show "sound V (s\<lparr> st_world := w \<rparr>) \<and> (\<forall>m\<in>set ms. v_stored V (st_world (s\<lparr> st_world := w \<rparr>)) (?key m))"
      using sound_calm [OF P] meta_stored [OF sound_ok [OF P] c] by auto
  next
    fix s e w
    assume P: "sound V s" and c: "dst_FetchMetaRange (r_dst R) a b (st_world s) = Some (Inl e, w)"
    have "apart (keeps_dest V) s (s\<lparr> st_world := w \<rparr>)"
      using stepsD [OF dest_keeps(2) c] by (simp add: calm_def apart_def keeps_all_def)
    then show "sound V (s\<lparr> st_world := w \<rparr>)" by (rule sound_calm [OF P])
  qed
  have seed: "hoare (?J stop ms) (outer (SeedBatch (r_rt R) (map ?key ms))) (\<lambda>_. ?I) ?E" for stop ms
  proof (rule hoare_outer, simp only: fst_conv, rule every.hoare_writes [OF writes_SeedBatch every.wsteps_methods(2)])
    fix s w
    assume P: "sound V s \<and> (\<forall>m\<in>set ms. v_stored V (st_world s) (?key m))" and W: "keeps_dest V (st_world s) w"
    have "sound V (s\<lparr> st_world := w, st_db := fold sql_insertCopied (map seed_record (map ?key ms)) (st_db s) \<rparr>)"
      using P W by (intro sound_record) (auto simp: seed_record_def)
    then show "sound V (s\<lparr> st_world := w, st_db := fold (\<lambda>k. sql_insertCopied (seed_record k)) (map ?key ms) (st_db s) \<rparr>)"
      by (simp add: fold_map comp_def)
  next
    fix s w e
    assume P: "sound V s \<and> (\<forall>m\<in>set ms. v_stored V (st_world s) (?key m))" and W: "keeps_dest V (st_world s) w"
    then show "sound V (s\<lparr> st_world := w \<rparr>)" using sound_calm [of s "s\<lparr> st_world := w \<rparr>"] by (simp add: calm_def apart_def)
  qed
  have scan: "hoare ?I (scanWindows (r_opts R) (outer (ctxErr R)) 1 uidNext
         (\<lambda>start stop. outer (call (dst_FetchMetaRange (r_dst R) start stop)))
         (\<lambda>_ metas.
           bindM (outer (SeedBatch (r_rt R) (map ?key metas))) (\<lambda>_.
           bindM (modifyM (\<lambda>(s, seeded). (s, seeded + int (length (map ?key metas))))) (\<lambda>_.
           bindM (getM snd) (\<lambda>seeded.
           outer (progress R ''seed'' item seeded))))))
      (\<lambda>_ (s, l). sound V s) (\<lambda>e (s, l). sound V s)" for uidNext
    by (rule hoare_conseq [where P' = ?I and Q' = "\<lambda>_. ?I" and E' = ?E], rule hoare_scanWindows_inv [OF hoare_sound_outer [OF every.ctxErr_steps] fetch],
        rule hoare_bindM [OF seed], rule hoare_bind_inv, simp add: hoare_def modifyM_def split_beta,
        rule hoare_bind_inv, simp add: hoare_def getM_def, rule hoare_sound_outer [OF every.progress_steps], auto)
  show ?thesis
    unfolding seedFromDestFolder_def Let_def
    by (rule hoare_bind_inv, rule hoare_sound [OF every.call_dst(1)], clarsimp simp only: prod.case split_paired_all,
        rule hoare_if, rule hoare_returnM, rule hoare_withVars [OF scan], simp)
qed

lemma SeedFromDest_sound: "hoare (sound V) (SeedFromDest R) (\<lambda>_. sound V) ended"
  unfolding SeedFromDest_def Let_def
  by (rule hoare_foldM [where I = "\<lambda>_ _. sound V"], clarsimp simp only: prod.case split_paired_all,
      rule hoare_bind_inv, rule hoare_wrapM, rule seedFromDestFolder_sound, rule hoare_returnM)

end

end
