(* ===== verification/Uniqueness.thy ===== *)
theory Uniqueness
  imports Soundness
begin

text \<open>
  No duplicates: with the destination guard on, no pass makes a second copy of a message that has a
  Message-ID, whichever call fails and whatever an unanswered append turns out to have done.
\<close>

section \<open>Counting copies\<close>

text \<open>
  \<open>t_copies w k\<close> counts the copies of \<open>k\<close> in the destination folders together with the appends of
  \<open>k\<close> that have no answer yet and may still store one; \<open>t_open w\<close> are the pending appends that have
  no answer; \<open>t_absent w f k\<close>: folder \<open>f\<close> holds no message with key \<open>k\<close>.
\<close>

record 'w tally = "'w view" +
  t_copies :: "'w \<Rightarrow> string \<Rightarrow> nat"
  t_open :: "'w \<Rightarrow> pendingAppend set"
  t_absent :: "'w \<Rightarrow> string \<Rightarrow> string \<Rightarrow> bool"

definition shrinks :: "'w tally \<Rightarrow> 'w \<Rightarrow> 'w \<Rightarrow> bool" where
  "shrinks V w w' \<longleftrightarrow> keeps_dest V w w' \<and>
     (v_ok V w \<longrightarrow> (\<forall>k. t_copies V w' k \<le> t_copies V w k) \<and> t_open V w' = t_open V w)"

definition steady :: "'w tally \<Rightarrow> 'w \<Rightarrow> 'w \<Rightarrow> bool" where
  "steady V w w' \<longleftrightarrow> shrinks V w w' \<and> keeps_all V w w' \<and>
     (v_ok V w \<longrightarrow> (\<forall>f k. t_absent V w f k \<longrightarrow> t_absent V w' f k))"

text \<open>At most one more copy, of this key.\<close>

definition one_more :: "'w tally \<Rightarrow> string \<Rightarrow> 'w \<Rightarrow> 'w \<Rightarrow> bool" where
  "one_more V k0 w w' \<longleftrightarrow> (\<forall>k. t_copies V w' k \<le> t_copies V w k + (if k = k0 then 1 else 0))"

lemma one_moreD:
  assumes "one_more V k0 w w'"
  shows "k \<noteq> k0 \<Longrightarrow> t_copies V w' k \<le> t_copies V w k" and "t_copies V w' k0 \<le> t_copies V w k0 + 1"
  using spec [OF assms [unfolded one_more_def], of k] spec [OF assms [unfolded one_more_def], of k0]
  by simp_all

definition bounded :: "'w tally \<Rightarrow> (string \<Rightarrow> nat) \<Rightarrow> 'w st \<Rightarrow> bool" where
  "bounded V c0 s \<longleftrightarrow> (\<forall>k. IsRealMessageID k \<longrightarrow> t_copies V (st_world s) k \<le> max 1 (c0 k))"

text \<open>
  The invariant of the copy pipeline: the open appends are those of the ring, the keys under way are
  distinct, and none that is still to be appended has a copy.
\<close>

definition counted :: "'w tally \<Rightarrow> (string \<Rightarrow> nat) \<Rightarrow> (FullMessage \<times> pendingCopy) list \<Rightarrow>
    inflightAppend list \<Rightarrow> 'w st \<Rightarrow> bool" where
  "counted V c0 todo rg s \<longleftrightarrow> bounded V c0 s \<and> t_open V (st_world s) = if_pa ` set rg \<and>
     distinct (map if_pa rg) \<and>
     distinct (map (\<lambda>it. pc_key (if_pc it)) rg @ map (\<lambda>x. pc_key (snd x)) todo) \<and>
     (\<forall>it \<in> set rg. IsRealMessageID (pc_key (if_pc it)) \<longrightarrow> t_copies V (st_world s) (pc_key (if_pc it)) \<le> 1) \<and>
     (\<forall>x \<in> set todo. IsRealMessageID (pc_key (snd x)) \<longrightarrow> t_copies V (st_world s) (pc_key (snd x)) = 0)"

text \<open>Between two passes of a connection, and after one has failed.\<close>

definition resting :: "'w tally \<Rightarrow> (string \<Rightarrow> nat) \<Rightarrow> 'w st \<Rightarrow> bool" where
  "resting V c0 s \<longleftrightarrow> sound V s \<and> bounded V c0 s \<and> t_open V (st_world s) = {}"

definition halted :: "'w tally \<Rightarrow> (string \<Rightarrow> nat) \<Rightarrow> 'w st \<Rightarrow> bool" where
  "halted V c0 s \<longleftrightarrow> sound V s \<and> bounded V c0 s"

text \<open>
  The contract: a completed search misses no copy; a NO or BAD answer to an append means that
  nothing was stored; moves and flag changes do not multiply messages; nothing else adds copies to the
  destination folders.
\<close>

locale counting_servers = truthful_servers R V
  for R :: "'w Reconciler" and V :: "'w tally" +
  assumes local_steady: "rt_sql (r_rt R) w = (r, w') \<Longrightarrow> steady V w w'"
      "rt_ctx (r_rt R) w = (r, w') \<Longrightarrow> steady V w w'"
      "rt_now (r_rt R) w = (t, w') \<Longrightarrow> steady V w w'"
      "rt_perm (r_rt R) w = (p, w') \<Longrightarrow> steady V w w'"
      "OnProgress (r_opts R) = Some f \<Longrightarrow> steady V w (f phase item n w)"
    and select_shrinks: "steps (shrinks V) (src_SelectFolder (r_src R))"
      "steps (shrinks V) (src_SelectNamedFolder (r_src R) name)"
    and source_steady: "steps (steady V) (src_ListFolders (r_src R))"
      "steps (steady V) (src_SearchAllUIDs (r_src R))"
      "steps (steady V) (src_FetchMetaRange (r_src R) a b)"
      "steps (steady V) (src_FetchFullStream (r_src R) us)"
    and dest_steady: "steps (steady V) (dst_SelectNamedFolder (r_dst R) name)"
      "steps (steady V) (dst_FetchMetaRange (r_dst R) a b)"
      "steps (steady V) (dst_SearchMessageIDsIn (r_dst R) name ids)"
    and dest_shrinks: "steps (shrinks V) (dst_MoveMessageID (r_dst R) name to key)"
      "steps (shrinks V) (dst_MoveUIDs (r_dst R) name us to)"
      "steps (shrinks V) (dst_StoreKeywordByMessageID (r_dst R) name key add kw)"
      "steps (shrinks V) (dst_StoreKeywordsUIDs (r_dst R) us fl)"
    and begin_counts: "v_ok V w \<Longrightarrow> dst_BeginAppend (r_dst R) name full fl w = Some (Inr h, w') \<Longrightarrow>
      h \<notin> t_open V w \<and> t_open V w' = insert h (t_open V w) \<and> one_more V (v_key V full) w w'"
    and begin_fails: "v_ok V w \<Longrightarrow> dst_BeginAppend (r_dst R) name full fl w = Some (Inl e, w') \<Longrightarrow>
      one_more V (v_key V full) w w'"
    and wait_counts: "v_ok V w \<Longrightarrow> dst_WaitAppend (r_dst R) h w = Some (Inr (), w') \<Longrightarrow> h \<in> t_open V w \<Longrightarrow>
      t_open V w' = t_open V w - {h} \<and> (\<forall>k. t_copies V w' k \<le> t_copies V w k)"
    and wait_fails: "v_ok V w \<Longrightarrow> dst_WaitAppend (r_dst R) h w = Some (Inl e, w') \<Longrightarrow> t_copies V w' k \<le> t_copies V w k"
    and wait_rejects: "v_ok V w \<Longrightarrow> dst_WaitAppend (r_dst R) h w = Some (Inl e, w') \<Longrightarrow> isServerReject e \<Longrightarrow>
      h \<in> t_open V w \<Longrightarrow> t_open V w' = t_open V w - {h} \<and>
      (\<forall>k. IsRealMessageID k \<longrightarrow> v_command V w h k \<longrightarrow> t_copies V w' k < t_copies V w k)"
    and append_counts: "v_ok V w \<Longrightarrow> dst_AppendTo (r_dst R) name full fl w = Some (res, w') \<Longrightarrow>
      one_more V (v_key V full) w w' \<and> (res = Inr () \<longrightarrow> t_open V w' = t_open V w)"
    and search_complete: "v_ok V w \<Longrightarrow> dst_SearchMessageIDsIn (r_dst R) name ids w = Some (Inr found, w') \<Longrightarrow>
      k \<in> set ids \<Longrightarrow> IsRealMessageID k \<Longrightarrow> k \<notin> found \<Longrightarrow> t_absent V w' name k"
    and stream_distinct: "v_ok V w \<Longrightarrow> src_FetchFullStream (r_src R) us w = Some (Inr (msgs, err), w') \<Longrightarrow>
      distinct (map f_UID msgs)"
    and absent_everywhere: "v_ok V w \<Longrightarrow> t_open V w = {} \<Longrightarrow> \<forall>f \<in> set (destBucketFolders R). t_absent V w f k \<Longrightarrow>
      t_copies V w k = 0"
begin

lemma shrinks_refl: "shrinks V w w" "steady V w w"
  by (simp_all add: shrinks_def steady_def keeps_refl)

lemma shrinks_trans: "shrinks V a b \<Longrightarrow> shrinks V b c \<Longrightarrow> shrinks V a c"
  unfolding shrinks_def using keeps_trans(1) keeps_ok order_trans by (metis (no_types, lifting))

lemma steady_trans: "steady V a b \<Longrightarrow> steady V b c \<Longrightarrow> steady V a c"
  unfolding steady_def using keeps_trans(2) shrinks_trans keeps_ok by (metis shrinks_def)

lemma steady_shrinks: "steady V w w' \<Longrightarrow> shrinks V w w'"
  by (simp add: steady_def)

lemmas weaker = steady_shrinks steps_weaken [OF _ steady_shrinks]

sublocale hold: calm_relation R "steady V"
  by unfold_locales (auto intro: shrinks_refl steady_trans local_steady)

sublocale down: calm_relation R "shrinks V"
  by unfold_locales (auto intro: shrinks_refl shrinks_trans local_steady weaker)

text \<open>Between windows every append has been answered and the counts are within bounds.\<close>

lemma halted_shrinks: "halted V c0 s \<Longrightarrow> apart (shrinks V) s s' \<Longrightarrow> halted V c0 s'"
  unfolding halted_def bounded_def calm_def apart_def shrinks_def using sound_calm [of s s']
  by (auto simp: calm_def apart_def intro: order_trans)

lemma resting_shrinks: "resting V c0 s \<Longrightarrow> apart (shrinks V) s s' \<Longrightarrow> resting V c0 s'"
  using halted_shrinks [of c0 s s'] by (auto simp: resting_def halted_def calm_def apart_def shrinks_def)

lemma calm_steady: "calm (steady V) s s' \<Longrightarrow> apart (shrinks V) s s' \<and> calm (keeps_all V) s s'"
  by (simp add: calm_def apart_def steady_def)


text \<open>The effect of the appends on the counts.\<close>

lemma counted_world:
  assumes "counted V c0 todo rg s" and "\<And>k. t_copies V w k \<le> t_copies V (st_world s) k"
    and "t_open V w = t_open V (st_world s)"
  shows "counted V c0 todo rg (s\<lparr> st_world := w \<rparr>)"
proof -
  have "t_copies V w k \<le> n" if "t_copies V (st_world s) k \<le> n" for k n
    using assms(2) [of k] that by (rule order_trans)
  then show ?thesis
    using assms(1,3) by (simp add: counted_def bounded_def) (metis le_zero_eq)
qed

lemma counted_db [simp]: "counted V c0 todo rg (s\<lparr> st_world := w, st_db := d \<rparr>) = counted V c0 todo rg (s\<lparr> st_world := w \<rparr>)"
  by (simp add: counted_def bounded_def)

lemma bounded_one_more:
  assumes "bounded V c0 s" and "one_more V k0 (st_world s) w"
    and "IsRealMessageID k0 \<Longrightarrow> t_copies V (st_world s) k0 = 0"
  shows "bounded V c0 (s\<lparr> st_world := w \<rparr>)"
  unfolding bounded_def
proof (intro allI impI)
  fix k
  assume r: "IsRealMessageID k"
  have "t_copies V w k \<le> t_copies V (st_world s) k + (if k = k0 then 1 else 0)"
    using assms(2) by (simp add: one_more_def)
  moreover have "t_copies V (st_world s) k \<le> max 1 (c0 k)" using assms(1) r by (simp add: bounded_def)
  moreover have "k = k0 \<Longrightarrow> t_copies V (st_world s) k = 0" using assms(3) r by simp
  ultimately show "t_copies V (st_world (s\<lparr> st_world := w \<rparr>)) k \<le> max 1 (c0 k)"
    by (cases "k = k0") auto
qed

lemma counted_begin:
  assumes P: "counted V c0 ((full, pc) # todo) rg s"
    and h: "h \<notin> t_open V (st_world s)" "t_open V w = insert h (t_open V (st_world s))"
    and one: "one_more V (pc_key pc) (st_world s) w" and it: "if_pa it = h" "if_pc it = pc"
  shows "counted V c0 todo (rg @ [it]) (s\<lparr> st_world := w \<rparr>)"
proof -
  have other: "t_copies V w k \<le> t_copies V (st_world s) k" if "k \<noteq> pc_key pc" for k
    using one_moreD(1) [OF one that] .
  have own: "t_copies V w (pc_key pc) \<le> 1" if "IsRealMessageID (pc_key pc)"
    using one_moreD(2) [OF one] that P by (simp add: counted_def)
  have "bounded V c0 (s\<lparr> st_world := w \<rparr>)"
    by (rule bounded_one_more [OF _ one]) (use P in \<open>auto simp: counted_def\<close>)
  moreover have "t_copies V w (pc_key (if_pc it')) \<le> 1"
    if "it' \<in> set (rg @ [it])" "IsRealMessageID (pc_key (if_pc it'))" for it'
  proof (cases "it' \<in> set rg")
    case True
    then have "pc_key (if_pc it') \<in> (\<lambda>it. pc_key (if_pc it)) ` set rg" by (rule imageI)
    moreover have "pc_key pc \<notin> (\<lambda>it. pc_key (if_pc it)) ` set rg" using P by (simp add: counted_def)
    ultimately have "pc_key (if_pc it') \<noteq> pc_key pc" by metis
    from other [OF this] show ?thesis
      using P True that(2) by (fastforce simp: counted_def intro: order_trans)
  next
    case False
    then show ?thesis using that it own by simp
  qed
  moreover have "t_copies V w (pc_key (snd x)) = 0" if "x \<in> set todo" "IsRealMessageID (pc_key (snd x))" for x
  proof -
    have "pc_key (snd x) \<in> (\<lambda>x. pc_key (snd x)) ` set todo" using that(1) by (rule imageI)
    moreover have "pc_key pc \<notin> (\<lambda>x. pc_key (snd x)) ` set todo" using P by (simp add: counted_def)
    ultimately have "pc_key (snd x) \<noteq> pc_key pc" by metis
    from other [OF this] show ?thesis using P that by (auto simp: counted_def)
  qed
  ultimately show ?thesis
    using P h it by (auto simp: counted_def)
qed

text \<open>The oldest append is settled, with an OK or after a retry.\<close>

lemma counted_settled:
  assumes P: "counted V c0 todo (it # rg) s"
    and o': "t_open V w = t_open V (st_world s) - {if_pa it}"
    and le: "\<And>k. t_copies V w k \<le> t_copies V (st_world s) k"
  shows "counted V c0 todo rg (s\<lparr> st_world := w \<rparr>)"
proof -
  have "t_copies V w k \<le> n" if "t_copies V (st_world s) k \<le> n" for k n
    using le [of k] that by (rule order_trans)
  moreover have "t_open V w = if_pa ` set rg"
    using P o' by (auto simp: counted_def)
  ultimately show ?thesis
    using P by (simp add: counted_def bounded_def) (metis le_zero_eq)
qed

lemma counted_retried:
  assumes P: "counted V c0 todo rg s" and one: "one_more V k0 (st_world s) w"
    and open': "t_open V w = t_open V (st_world s)"
    and zero: "IsRealMessageID k0 \<Longrightarrow> t_copies V (st_world s) k0 = 0"
    and other: "k0 \<notin> (\<lambda>it. pc_key (if_pc it)) ` set rg \<union> (\<lambda>x. pc_key (snd x)) ` set todo"
  shows "counted V c0 todo rg (s\<lparr> st_world := w \<rparr>)"
proof -
  have le: "t_copies V w k \<le> t_copies V (st_world s) k" if "k \<noteq> k0" for k
    using one_moreD(1) [OF one that] .
  have "bounded V c0 (s\<lparr> st_world := w \<rparr>)"
    by (rule bounded_one_more [OF _ one zero]) (use P in \<open>simp add: counted_def\<close>)
  moreover have "t_copies V w (pc_key (if_pc it)) \<le> 1"
    if "it \<in> set rg" "IsRealMessageID (pc_key (if_pc it))" for it
    using le [of "pc_key (if_pc it)"] other P that by (fastforce simp: counted_def intro: order_trans)
  moreover have "t_copies V w (pc_key (snd x)) = 0" if "x \<in> set todo" "IsRealMessageID (pc_key (snd x))" for x
    using le [of "pc_key (snd x)"] other P that by (fastforce simp: counted_def)
  ultimately show ?thesis
    using P open' by (auto simp: counted_def)
qed


definition Flow where
  "Flow c0 todo rg rs s \<longleftrightarrow> flowing V todo rg rs s \<and> counted V c0 todo rg s"

definition Back where
  "Back c0 rs s \<longleftrightarrow> backed V rs s \<and> bounded V c0 s"

lemma bounded_le:
  "bounded V c0 s \<Longrightarrow> (\<And>k. t_copies V w k \<le> t_copies V (st_world s) k) \<Longrightarrow> bounded V c0 (s\<lparr> st_world := w \<rparr>)"
  unfolding bounded_def by (auto intro: order_trans)

lemma counted_cong: "st_world s' = st_world s \<Longrightarrow> counted V c0 todo rg s' = counted V c0 todo rg s"
  by (simp add: counted_def bounded_def)

lemma counted_calm: "v_ok V (st_world s) \<Longrightarrow> counted V c0 todo rg s \<Longrightarrow> calm (steady V) s s' \<Longrightarrow> counted V c0 todo rg s'"
  using counted_world [of c0 todo rg s "st_world s'"] counted_cong [of s' "s\<lparr> st_world := st_world s' \<rparr>"]
  by (simp add: calm_def apart_def steady_def shrinks_def)

lemma bounded_calm: "v_ok V (st_world s) \<Longrightarrow> bounded V c0 s \<Longrightarrow> calm (steady V) s s' \<Longrightarrow> bounded V c0 s'"
  using bounded_le [of c0 s "st_world s'"] by (simp add: calm_def apart_def steady_def shrinks_def bounded_def)

lemma counted_db': "v_ok V (st_world s) \<Longrightarrow> counted V c0 todo rg s \<Longrightarrow> steady V (st_world s) w \<Longrightarrow>
    counted V c0 todo rg (s\<lparr> st_world := w, st_db := d \<rparr>)"
  by (rule counted_calm [of "s\<lparr> st_db := d \<rparr>" c0 todo rg]) (simp_all add: calm_def counted_def bounded_def)

sublocale line: pipeline R "steady V" "Flow c0" "Back c0" for c0
proof unfold_locales
  fix todo rg rs s s'
  assume "Flow c0 todo rg rs s" and "calm (steady V) s s'"
  then show "Flow c0 todo rg rs s'"
    using pipe.P_calm counted_calm [OF flowing_ok] calm_steady by (metis Flow_def)
next
  fix rs s s'
  assume "Back c0 rs s" and "calm (steady V) s s'"
  then show "Back c0 rs s'"
    using pipe.E_calm bounded_calm [OF backed_ok] calm_steady by (metis Back_def)
next
  fix todo rg rs s
  assume "Flow c0 todo rg rs s"
  then show "Back c0 rs s"
    using pipe.P_fail [of todo rg rs s] by (simp add: Flow_def Back_def counted_def)
next
  fix todo rg rs s w
  assume P: "Flow c0 todo rg rs s" and W: "steady V (st_world s) w"
  then show "Flow c0 todo rg [] (s\<lparr> st_world := w, st_db := fold sql_insertCopied rs (st_db s) \<rparr>)"
    using pipe.P_flush [of todo rg rs s w] counted_db' [OF flowing_ok] by (auto simp: Flow_def steady_def)
next
  fix rs s w
  assume P: "Back c0 rs s" and W: "steady V (st_world s) w"
  have "bounded V c0 (s\<lparr> st_world := w \<rparr>)"
    by (rule bounded_le) (use P W in \<open>auto simp: Back_def steady_def shrinks_def dest: backed_ok\<close>)
  then show "Back c0 [] (s\<lparr> st_world := w, st_db := fold sql_insertCopied rs (st_db s) \<rparr>)"
    using P W pipe.E_flush [of rs s w] by (simp add: Back_def steady_def bounded_def)
next
  fix full pc todo rg rs s fl h w bf hk
  assume P: "Flow c0 ((full, pc) # todo) rg rs s"
    and b: "dst_BeginAppend (r_dst R) (pc_destFolder pc) full fl (st_world s) = Some (Inr h, w)"
  have okP: "v_ok V (st_world s)" using P by (auto simp: Flow_def dest: flowing_ok)
  have "v_key V full = pc_key pc" using P by (simp add: Flow_def flowing_def)
  then have "counted V c0 todo (rg @ [\<lparr> if_pa = h, if_pc = pc, if_full = full, if_baseFlags = bf,
      if_hadKeywords = hk \<rparr>]) (s\<lparr> st_world := w \<rparr>)"
    using P begin_counts [OF okP b] by (intro counted_begin [where full = full]) (simp_all add: Flow_def)
  then show "Flow c0 todo (rg @ [\<lparr> if_pa = h, if_pc = pc, if_full = full, if_baseFlags = bf,
      if_hadKeywords = hk \<rparr>]) rs (s\<lparr> st_world := w \<rparr>)"
    using pipe.P_begin [OF _ b] P by (simp add: Flow_def)
next
  fix full pc todo rg rs s fl e w
  assume P: "Flow c0 ((full, pc) # todo) rg rs s"
    and b: "dst_BeginAppend (r_dst R) (pc_destFolder pc) full fl (st_world s) = Some (Inl e, w)"
  have okP: "v_ok V (st_world s)" using P by (auto simp: Flow_def dest: flowing_ok)
  have "v_key V full = pc_key pc" using P by (simp add: Flow_def flowing_def)
  then have "bounded V c0 (s\<lparr> st_world := w \<rparr>)"
    using P begin_fails [OF okP b] by (intro bounded_one_more [of c0 s "pc_key pc"]) (simp_all add: Flow_def counted_def)
  then show "Back c0 rs (s\<lparr> st_world := w \<rparr>)"
    using P by (auto simp: Flow_def Back_def intro: pipe.P_begin_err [OF _ b])
next
  fix todo it rg rs s w now
  assume P: "Flow c0 todo (it # rg) rs s"
    and b: "dst_WaitAppend (r_dst R) (if_pa it) (st_world s) = Some (Inr (), w)"
  have okP: "v_ok V (st_world s)" using P by (auto simp: Flow_def dest: flowing_ok)
  have "counted V c0 todo rg (s\<lparr> st_world := w \<rparr>)"
  proof (rule counted_settled)
    have "if_pa it \<in> t_open V (st_world s)" using P by (simp add: Flow_def counted_def)
    from wait_counts [OF okP b this]
    show "t_open V w = t_open V (st_world s) - {if_pa it}" and "t_copies V w k \<le> t_copies V (st_world s) k" for k
      by simp_all
  qed (use P in \<open>simp add: Flow_def\<close>)
  then show "Flow c0 todo rg (rs @ [copy_record (if_pc it) now]) (s\<lparr> st_world := w \<rparr>)"
    using pipe.P_wait [OF _ b] P by (simp add: Flow_def)
next
  fix todo it rg rs s e w
  assume P: "Flow c0 todo (it # rg) rs s"
    and b: "dst_WaitAppend (r_dst R) (if_pa it) (st_world s) = Some (Inl e, w)"
  have okP: "v_ok V (st_world s)" using P by (auto simp: Flow_def dest: flowing_ok)
  have "bounded V c0 (s\<lparr> st_world := w \<rparr>)"
    by (rule bounded_le [OF _ wait_fails [OF okP b]]) (use P in \<open>simp add: Flow_def counted_def\<close>)
  then show "Back c0 rs (s\<lparr> st_world := w \<rparr>)"
    using P by (auto simp: Flow_def Back_def intro: pipe.P_wait_err [OF _ b])
next
  fix todo it rg rs s e w w' now
  assume P: "Flow c0 todo (it # rg) rs s"
    and b: "dst_WaitAppend (r_dst R) (if_pa it) (st_world s) = Some (Inl e, w)"
    and rej: "isServerReject e"
    and a: "dst_AppendTo (r_dst R) (pc_destFolder (if_pc it)) (if_full it) (if_baseFlags it) w = Some (Inr (), w')"
  have okP: "v_ok V (st_world s)" using P by (auto simp: Flow_def dest: flowing_ok)
  have okA: "v_ok V w" by (rule keeps_ok [OF keeps_all_dest [OF stepsD [OF dest_keeps(6) b]] okP])
  have it: "v_command V (st_world s) (if_pa it) (pc_key (if_pc it))" "v_key V (if_full it) = pc_key (if_pc it)"
    "if_pa it \<in> t_open V (st_world s)"
    using P by (simp_all add: Flow_def flowing_def counted_def)
  note r = wait_rejects [OF okP b rej it(3)]
  have c: "counted V c0 todo rg (s\<lparr> st_world := w \<rparr>)"
    by (rule counted_settled [OF _ conjunct1 [OF r] wait_fails [OF okP b]]) (use P in \<open>simp add: Flow_def\<close>)
  have zero: "t_copies V w (pc_key (if_pc it)) = 0" if "IsRealMessageID (pc_key (if_pc it))"
    using r it(1) P that by (fastforce simp: Flow_def counted_def)
  have "counted V c0 todo rg ((s\<lparr> st_world := w \<rparr>)\<lparr> st_world := w' \<rparr>)"
    by (rule counted_retried [OF c, of "pc_key (if_pc it)"])
      (use append_counts [OF okA a] zero P it(2) in \<open>auto simp: Flow_def counted_def\<close>)
  then show "Flow c0 todo rg (rs @ [copy_record (if_pc it) now]) (s\<lparr> st_world := w' \<rparr>)"
    using pipe.P_retry [OF _ b rej a] P by (simp add: Flow_def)
next
  fix todo it rg rs s e w e' w'
  assume P: "Flow c0 todo (it # rg) rs s"
    and b: "dst_WaitAppend (r_dst R) (if_pa it) (st_world s) = Some (Inl e, w)"
    and rej: "isServerReject e"
    and a: "dst_AppendTo (r_dst R) (pc_destFolder (if_pc it)) (if_full it) (if_baseFlags it) w = Some (Inl e', w')"
  have okP: "v_ok V (st_world s)" using P by (auto simp: Flow_def dest: flowing_ok)
  have okA: "v_ok V w" by (rule keeps_ok [OF keeps_all_dest [OF stepsD [OF dest_keeps(6) b]] okP])
  have it: "v_command V (st_world s) (if_pa it) (pc_key (if_pc it))" "v_key V (if_full it) = pc_key (if_pc it)"
    "if_pa it \<in> t_open V (st_world s)"
    using P by (simp_all add: Flow_def flowing_def counted_def)
  note r = wait_rejects [OF okP b rej it(3)]
  have b1: "bounded V c0 (s\<lparr> st_world := w \<rparr>)"
    by (rule bounded_le [OF _ wait_fails [OF okP b]]) (use P in \<open>simp add: Flow_def counted_def\<close>)
  have zero: "t_copies V w (pc_key (if_pc it)) = 0" if "IsRealMessageID (pc_key (if_pc it))"
    using r it(1) P that by (fastforce simp: Flow_def counted_def)
  have "bounded V c0 ((s\<lparr> st_world := w \<rparr>)\<lparr> st_world := w' \<rparr>)"
    by (rule bounded_one_more [OF b1, of "pc_key (if_pc it)"]) (use append_counts [OF okA a] zero it(2) in auto)
  then show "Back c0 rs (s\<lparr> st_world := w' \<rparr>)"
    using P by (auto simp: Flow_def Back_def intro: pipe.P_retry_err [OF _ b rej a])
qed


definition ready where
  "ready c0 pend s \<longleftrightarrow> agreed V pend s \<and> resting V c0 s \<and> distinct (map pc_key pend)"

definition fresh where
  "fresh c0 pend s \<longleftrightarrow> ready c0 pend s \<and>
     (\<forall>p \<in> set pend. IsRealMessageID (pc_key p) \<longrightarrow> t_copies V (st_world s) (pc_key p) = 0)"

lemma resting_calm: "resting V c0 s \<Longrightarrow> calm (steady V) s s' \<Longrightarrow> resting V c0 s'"
  using resting_shrinks calm_steady by blast

lemma resting_halted: "resting V c0 s \<Longrightarrow> halted V c0 s"
  by (simp add: resting_def halted_def)

lemma ready_ok: "ready c0 pend s \<Longrightarrow> v_ok V (st_world s)"
  by (auto simp: ready_def dest: agreed_ok)

lemma ready_calm: "ready c0 pend s \<Longrightarrow> calm (steady V) s s' \<Longrightarrow> ready c0 pend s'"
  using agreed_calm resting_calm calm_steady by (metis ready_def)

lemma calm_call: "steps (steady V) m \<Longrightarrow> m (st_world s) = Some (r, w) \<Longrightarrow> calm (steady V) s (s\<lparr> st_world := w \<rparr>)"
  by (auto simp: calm_def apart_def dest: stepsD)

lemma hoare_classify_ready:
  "hoare (\<lambda>s. listed V R ms s \<and> resting V c0 s) (classify R ms [] {}) (ready c0) (\<lambda>_. halted V c0)"
proof (rule hoareI)
  fix s pend s'
  assume P: "listed V R ms s \<and> resting V c0 s" and c: "classify R ms [] {} s = Some (Inr pend, s')"
  have "agreed V pend s'" using hoare_InrD [OF hoare_classify _ c] P by blast
  moreover have "resting V c0 s'" using P resting_calm stepsD [OF hold.calm.classify_steps c] by blast
  moreover have "distinct (map pc_key pend)" using classify_result [OF c] by auto
  ultimately show "ready c0 pend s'" by (simp add: ready_def)
next
  fix s e s'
  assume P: "listed V R ms s \<and> resting V c0 s" and c: "classify R ms [] {} s = Some (Inl e, s')"
  then show "halted V c0 s'" using resting_halted resting_calm stepsD [OF hold.calm.classify_steps c] by blast
qed

definition searched where
  "searched c0 pend found rest s \<longleftrightarrow> ready c0 pend s \<and> (\<forall>k \<in> found. v_stored V (st_world s) k) \<and>
     (\<exists>past. destBucketFolders R = past @ rest \<and>
        (\<forall>f \<in> set past. \<forall>p \<in> set pend. IsRealMessageID (pc_key p) \<longrightarrow> pc_key p \<notin> found \<longrightarrow>
           t_absent V (st_world s) f (pc_key p)))"

lemma searched_calm:
  assumes P: "searched c0 pend found rest s" and c: "calm (steady V) s s'"
  shows "searched c0 pend found rest s'"
proof -
  have "ready c0 pend s" using P by (simp add: searched_def)
  then have "ready c0 pend s'" and "v_ok V (st_world s)"
    using ready_calm c ready_ok by blast+
  moreover have "steady V (st_world s) (st_world s')" using c by (simp add: calm_def)
  ultimately show ?thesis
    using P unfolding searched_def steady_def shrinks_def keeps_dest_def by blast
qed

lemma searched_fresh:
  assumes "searched c0 pend found [] s" and "p \<in> set pend" and "IsRealMessageID (pc_key p)"
    and "pc_key p \<notin> found"
  shows "t_copies V (st_world s) (pc_key p) = 0"
  by (rule absent_everywhere) (use assms in \<open>auto simp: searched_def ready_def resting_def\<close>)

lemma hoare_guard_fresh:
  "hoare (ready c0 pend) (guard R pend) (fresh c0) (\<lambda>_. halted V c0)"
proof (rule hold.hoare_guard [where S = "searched c0 pend"])
  fix s
  assume "filter IsRealMessageID (map pc_key pend) = []" and "ready c0 pend s"
  then show "fresh c0 pend s" by (auto simp: fresh_def filter_empty_conv)
next
  fix s
  assume "ready c0 pend s"
  then show "searched c0 pend {} (destBucketFolders R) s" by (simp add: searched_def)
next
  fix found folder rest
  let ?ids = "filter IsRealMessageID (map pc_key pend)"
  show "hoare (searched c0 pend found (folder # rest)) (call (dst_SearchMessageIDsIn (r_dst R) folder ?ids))
    (\<lambda>f. searched c0 pend (found \<union> f) rest) (\<lambda>_. halted V c0)"
  proof (rule hoare_call)
    fix s f w
    assume P: "searched c0 pend found (folder # rest) s"
      and c: "dst_SearchMessageIDsIn (r_dst R) folder ?ids (st_world s) = Some (Inr f, w)"
    have okS: "v_ok V (st_world s)" using P by (auto simp: searched_def dest: ready_ok)
    have Q: "searched c0 pend found (folder # rest) (s\<lparr> st_world := w \<rparr>)"
      by (rule searched_calm [OF P calm_call [OF dest_steady(3) c]])
    then obtain past where past: "destBucketFolders R = (past @ [folder]) @ rest"
      and abs: "\<forall>f \<in> set past. \<forall>p \<in> set pend. IsRealMessageID (pc_key p) \<longrightarrow> pc_key p \<notin> found \<longrightarrow>
           t_absent V w f (pc_key p)"
      by (auto simp: searched_def)
    have "t_absent V w folder (pc_key p)"
      if "p \<in> set pend" "IsRealMessageID (pc_key p)" "pc_key p \<notin> f" for p
      using search_complete [OF okS c _ that(2,3)] that by auto
    then show "searched c0 pend (found \<union> f) rest (s\<lparr> st_world := w \<rparr>)"
      unfolding searched_def using Q past abs search_stored [OF okS c]
      by (intro conjI exI [of _ "past @ [folder]"]) (auto simp: searched_def)
  next
    fix s e w
    assume P: "searched c0 pend found (folder # rest) s"
      and c: "dst_SearchMessageIDsIn (r_dst R) folder ?ids (st_world s) = Some (Inl e, w)"
    show "halted V c0 (s\<lparr> st_world := w \<rparr>)"
      using searched_calm [OF P calm_call [OF dest_steady(3) c]] resting_halted
      by (simp add: searched_def ready_def)
  qed
next
  fix found s s'
  assume "searched c0 pend found [] s" and "calm (steady V) s s'"
  then show "searched c0 pend found [] s'" by (rule searched_calm)
next
  fix found rs kept s w
  assume P: "searched c0 pend found [] s" and sp: "split_of found pend rs kept" and W: "steady V (st_world s) w"
  let ?s = "s\<lparr> st_world := w, st_db := fold sql_insertCopied rs (st_db s) \<rparr>"
  have Q: "searched c0 pend found [] (s\<lparr> st_world := w \<rparr>)"
    by (rule searched_calm [OF P]) (use W in \<open>simp add: calm_def apart_def\<close>)
  have keys: "kr_Key ` set rs \<subseteq> found"
    using arg_cong [where f = set, OF conjunct2 [OF sp [unfolded split_of_def]]] by auto
  have snd: "sound V ?s"
    using P W keys by (intro sound_record) (auto simp: searched_def ready_def resting_def steady_def keeps_all_def)
  have kept: "kept = filter (\<lambda>p. pc_key p \<notin> found) pend" using sp by (simp add: split_of_def)
  have "ready c0 kept ?s"
    using Q snd
    by (auto simp: searched_def ready_def resting_def agreed_def bounded_def kept distinct_map inj_on_def)
  moreover have "\<forall>p \<in> set kept. IsRealMessageID (pc_key p) \<longrightarrow> t_copies V (st_world ?s) (pc_key p) = 0"
    using searched_fresh [OF Q] by (auto simp: kept)
  ultimately show "fresh c0 kept ?s" by (simp add: fresh_def)
next
  fix found s and e :: gerr
  assume "searched c0 pend found [] s"
  then show "halted V c0 s" by (simp add: searched_def ready_def resting_halted)
qed


lemma fresh_calm: "fresh c0 pend s \<Longrightarrow> calm (steady V) s s' \<Longrightarrow> fresh c0 pend s'"
  using ready_calm [of c0 pend s s'] ready_ok [of c0 pend s]
  unfolding fresh_def calm_def steady_def shrinks_def by (metis le_zero_eq)

lemma copyItems_keys:
  assumes "distinct (map pc_key pend)" and "distinct (map f_UID msgs)"
  shows "distinct (map (\<lambda>x. pc_key (snd x)) (copyItems pend msgs))"
  using assms(2)
proof (induction msgs)
  case Nil
  show ?case by (simp add: copyItems_def)
next
  case (Cons full msgs)
  have IH: "distinct (map (\<lambda>x. pc_key (snd x)) (copyItems pend msgs))" using Cons by simp
  show ?case
  proof (cases "byUID pend (f_UID full)")
    case None
    then show ?thesis using IH by (simp add: copyItems_def)
  next
    case (Some pc)
    have "pc_key (snd x) \<noteq> pc_key pc" if x: "x \<in> set (copyItems pend msgs)" for x
    proof
      assume eq: "pc_key (snd x) = pc_key pc"
      have "fst x \<in> set msgs" and i: "snd x \<in> set pend" "pc_uid (snd x) = f_UID (fst x)"
        using copyItems_pc [of "fst x" "snd x"] x by auto
      moreover have "snd x = pc"
        using assms(1) eq i byUID_Some [OF Some] by (auto simp: distinct_map dest: inj_onD)
      moreover have "pc_uid pc = f_UID full" using byUID_Some [OF Some] by simp
      ultimately show False using Cons.prems by force
    qed
    then have "pc_key pc \<notin> (\<lambda>x. pc_key (snd x)) ` set (copyItems pend msgs)" by (metis imageE)
    moreover have "copyItems pend (full # msgs) = (full, pc) # copyItems pend msgs"
      using Some by (simp add: copyItems_def)
    ultimately show ?thesis using IH by simp
  qed
qed

lemma hoare_copy_fresh: "hoare (fresh c0 pend) (copyPipeline R pend) (\<lambda>_. resting V c0) (\<lambda>_. halted V c0)"
proof -
  let ?f = "\<lambda>f. case f of Inl e \<Rightarrow> ([], Some e) | Inr p \<Rightarrow> p"
  let ?go = "\<lambda>rl fl f. bindM (withVars empty_consumer (consume R rl fl (copyItems pend (fst (?f f))))) (\<lambda>c.
      case consErr c of
        Some e \<Rightarrow> throwM e
      | None \<Rightarrow> (case snd (?f f) of Some e \<Rightarrow> throwM e | None \<Rightarrow> ctxErr R))"
  have none: "Flow c0 [] [] [] s" if "resting V c0 s" for s
    using that by (simp add: Flow_def flowing_def counted_def backed_def resting_def)
  have stream: "hoare (fresh c0 pend) (tryM (call (src_FetchFullStream (r_src R) (map pc_uid pend))))
    (\<lambda>f. Flow c0 (copyItems pend (fst (?f f))) [] []) (\<lambda>_. halted V c0)"
  proof (rule hoare_tryM, rule hoare_call)
    fix s a w
    assume P: "fresh c0 pend s" and c: "src_FetchFullStream (r_src R) (map pc_uid pend) (st_world s) = Some (Inr a, w)"
    have okS: "v_ok V (st_world s)" using P by (auto simp: fresh_def dest: ready_ok)
    obtain msgs e where a: "a = (msgs, e)" by force
    have Q: "fresh c0 pend (s\<lparr> st_world := w \<rparr>)"
      by (rule fresh_calm [OF P calm_call [OF source_steady(4) c]])
    have "v_key V full = pc_key pc" if i: "(full, pc) \<in> set (copyItems pend msgs)" for full pc
      using stream_agrees [OF okS c [unfolded a], of full "pc_key pc"] copyItems_pc [OF i] Q
      by (auto simp: fresh_def ready_def agreed_def)
    moreover have "distinct (map (\<lambda>x. pc_key (snd x)) (copyItems pend msgs))"
      using Q stream_distinct [OF okS c [unfolded a]] by (intro copyItems_keys) (simp_all add: fresh_def ready_def)
    moreover have "snd x \<in> set pend" if "x \<in> set (copyItems pend msgs)" for x
      using copyItems_pc [of "fst x" "snd x"] that by simp
    ultimately show "Flow c0 (copyItems pend (fst (?f (Inr a)))) [] [] (s\<lparr> st_world := w \<rparr>)"
      using Q by (auto simp: Flow_def flowing_def counted_def backed_def a fresh_def ready_def resting_def)
  next
    fix s e w
    assume P: "fresh c0 pend s" and c: "src_FetchFullStream (r_src R) (map pc_uid pend) (st_world s) = Some (Inl e, w)"
    have "fresh c0 pend (s\<lparr> st_world := w \<rparr>)"
      by (rule fresh_calm [OF P calm_call [OF source_steady(4) c]])
    then show "Flow c0 (copyItems pend (fst (?f (Inl e)))) [] [] (s\<lparr> st_world := w \<rparr>)"
      using none by (simp add: copyItems_def fresh_def ready_def)
  qed
  have go: "hoare (Flow c0 (copyItems pend (fst (?f f))) [] []) (?go rl fl f)
      (\<lambda>_. resting V c0) (\<lambda>_. halted V c0)" for rl fl f
    by (rule hoare_conseq [OF line.hoare_copyItems])
      (auto simp: Flow_def flowing_def counted_def backed_def Back_def resting_def halted_def)
  show ?thesis
    unfolding copyPipeline_def Let_def split_beta
    by (rule hoare_bindM [OF stream go])
qed

lemma hoare_window_unique:
  assumes "DestGuard (r_opts R)"
  shows "hoare (\<lambda>s. listed V R metas s \<and> resting V c0 s) (mirrorWindow R metas)
    (\<lambda>_. resting V c0) (\<lambda>_. halted V c0)"
  unfolding mirrorWindow_def
proof (rule hoare_bindM [OF hoare_classify_ready], rule hoare_bindM [where Q = "fresh c0"], goal_cases)
  case (1 pend)
  have "hoare (ready c0 pend) (returnM pend) (fresh c0) (\<lambda>_. halted V c0)" if "pend = []"
    using that by (simp add: hoare_def returnM_def fresh_def)
  then show ?case using hoare_guard_fresh assms by (auto intro!: hoare_if)
next
  case (2 pend0 pend)
  show ?case
    by (rule hoare_if [OF _ hoare_copy_fresh]) (auto simp: hoare_def returnM_def fresh_def ready_def)
qed

lemma hoare_shrinks: "steps (apart (shrinks V)) m \<Longrightarrow> hoare (resting V c0) m (\<lambda>_. resting V c0) (\<lambda>_. halted V c0)"
  by (rule hoareI) (metis stepsD resting_shrinks, metis stepsD resting_shrinks resting_halted)

sublocale quiet: phase_relation R "shrinks V" "apart (shrinks V)"
  by unfold_locales
    (auto intro: select_shrinks weaker source_steady dest_steady dest_shrinks)


lemma hoare_scan_unique:
  assumes "DestGuard (r_opts R)"
  shows "hoare (resting V c0) (scanWindows (r_opts R) (ctxErr R) first uidNext
     (\<lambda>start stop. call (src_FetchMetaRange (r_src R) start stop)) (mirrorStep R))
     (\<lambda>_. resting V c0) (\<lambda>_. halted V c0)"
proof (rule hoare_scanWindows_inv [where J = "\<lambda>_ ms s. listed V R ms s \<and> resting V c0 s"])
  show "hoare (resting V c0) (ctxErr R) (\<lambda>_. resting V c0) (\<lambda>_. halted V c0)"
    by (rule hoare_shrinks [OF down.apart.ctxErr_steps])
next
  fix start stop
  show "hoare (resting V c0) (call (src_FetchMetaRange (r_src R) start stop))
    (\<lambda>ms s. listed V R ms s \<and> resting V c0 s) (\<lambda>_. halted V c0)"
  proof (rule hoare_call)
    fix s ms w
    assume P: "resting V c0 s" and c: "src_FetchMetaRange (r_src R) start stop (st_world s) = Some (Inr ms, w)"
    have okS: "v_ok V (st_world s)" using P by (simp add: resting_def)
    have "resting V c0 (s\<lparr> st_world := w \<rparr>)"
      by (rule resting_calm [OF P calm_call [OF source_steady(3) c]])
    then show "listed V R ms (s\<lparr> st_world := w \<rparr>) \<and> resting V c0 (s\<lparr> st_world := w \<rparr>)"
      using meta_agrees [OF okS c] by (simp add: listed_def resting_def)
  next
    fix s e w
    assume P: "resting V c0 s" and c: "src_FetchMetaRange (r_src R) start stop (st_world s) = Some (Inl e, w)"
    show "halted V c0 (s\<lparr> st_world := w \<rparr>)"
      by (rule resting_halted [OF resting_calm [OF P calm_call [OF source_steady(3) c]]])
  qed
next
  fix stop metas
  let ?J = "\<lambda>s. listed V R metas s \<and> resting V c0 s"
  have quiet: "hoare (resting V c0) (bindM (SetLastUID (r_rt R) stop) (\<lambda>_.
     bindM (getM (\<lambda>s. Copied (st_sum s))) (\<lambda>n. progress R ''mirror'' [] n))) (\<lambda>_. resting V c0) (\<lambda>_. halted V c0)"
    by (rule hoare_shrinks) (intro down.apart.rel.steps_compose down.apart.local_steps down.apart.mark_steps)
  have count: "hoare ?J (update_sum f) (\<lambda>_. ?J) (\<lambda>_. halted V c0)" for f
    by (rule hold.hoare_calm [OF hold.calm.update_sum_steps])
      (use listed_calm resting_calm calm_steady resting_halted in blast)+
  show "hoare ?J (mirrorStep R stop metas) (\<lambda>_. resting V c0) (\<lambda>_. halted V c0)"
    unfolding mirrorStep_def
    by (rule hoare_bindM [OF count hoare_bindM [OF hoare_window_unique [OF assms] quiet]])
qed

text \<open>Seeding reads the destination and adds to the dedup set.\<close>

sublocale seeds: recording_relation R "shrinks V" "\<lambda>s s'. shrinks V (st_world s) (st_world s')"
  by unfold_locales
    (auto intro: shrinks_refl shrinks_trans local_steady weaker dest_steady dest_shrinks)

lemma SeedFromDest_unique: "hoare (resting V c0) (SeedFromDest R) (\<lambda>_. resting V c0) (\<lambda>_. halted V c0)"
proof -
  have "resting V c0 s'" if "resting V c0 s" "sound V s'" "shrinks V (st_world s) (st_world s')" for s s'
    using that by (auto simp: resting_def bounded_def shrinks_def intro: order_trans dest: sound_ok)
  then show ?thesis
    using stepsD [OF seeds.SeedFromDest_steps] hoare_InrD [OF SeedFromDest_sound] hoare_InlD [OF SeedFromDest_sound]
    by (intro hoareI) (meson resting_def resting_halted)+
qed

lemma Run_unique:
  assumes "DestGuard (r_opts R)"
  shows "hoare (resting V c0) (Run R) (\<lambda>_. resting V c0) (\<lambda>_. halted V c0)"
  unfolding Run_def
  by (rule hoare_bind_inv, rule hoare_shrinks [OF down.apart.update_sum_steps],
      rule hoare_bind_inv, rule hoare_wrapM, rule hoare_shrinks [OF quiet.syncMembership_steps],
      rule hoare_bind_inv, rule hoare_shrinks [OF quiet.call_src(1)], clarsimp simp only: prod.case split_paired_all,
      rule hoare_bind_inv, rule hoare_shrinks [OF down.apart.adoptUIDValidity_steps],
      rule hoare_bind_inv, rule hoare_wrapM, rule hoare_shrinks [OF quiet.maybeBackfill_steps],
      rule hoare_bind_inv, rule hoare_scan_unique [OF assms], rule hoare_if, rule hoare_wrapM,
      rule hoare_shrinks [OF quiet.propagate_steps], rule hoare_returnM)

end

end
