(* ===== verification/ServerFacts.thy ===== *)
theory ServerFacts
  imports Server Supervision Completeness Uniqueness
begin

text \<open>
  The servers keep the contracts: the laws of the fetch and search interface, and, with the clients
  wired to them, those of the three contracts of the reconciler.
\<close>

section \<open>What the commands leave alone\<close>

text \<open>Time passes: mail arrives and disappears at the source.\<close>

definition later_mail :: "net \<Rightarrow> net \<Rightarrow> bool" where
  "later_mail n n' \<longleftrightarrow> (\<forall>f. nt_next n f \<le> nt_next n' f) \<and> nt_gone n \<subseteq> nt_gone n'"

definition same_dest :: "net \<Rightarrow> net \<Rightarrow> bool" where
  "same_dest n n' \<longleftrightarrow> nt_boxes n' = nt_boxes n \<and> nt_uidnext n' = nt_uidnext n \<and>
     nt_appends n' = nt_appends n \<and> nt_log n' = nt_log n"

text \<open>Commands to the source; those that do not select; commands to the destination that read.\<close>

definition on_source :: "net \<Rightarrow> net \<Rightarrow> bool" where
  "on_source n n' \<longleftrightarrow> later_mail n n' \<and> same_dest n n' \<and> nt_dst n' = nt_dst n"

definition in_source :: "net \<Rightarrow> net \<Rightarrow> bool" where
  "in_source n n' \<longleftrightarrow> on_source n n' \<and> lo_selected (nt_src n') = lo_selected (nt_src n) \<and>
     lo_limit (nt_src n') = lo_limit (nt_src n)"

definition on_dest :: "net \<Rightarrow> net \<Rightarrow> bool" where
  "on_dest n n' \<longleftrightarrow> later_mail n n' \<and> same_dest n n' \<and> nt_src n' = nt_src n"

definition waiting :: "net \<Rightarrow> net \<Rightarrow> bool" where
  "waiting n n' \<longleftrightarrow> later_mail n n' \<and> same_dest n n' \<and> nt_src n' = nt_src n \<and> nt_dst n' = nt_dst n"

lemmas relation_defs = later_mail_def same_dest_def on_source_def in_source_def on_dest_def waiting_def

lemma relations_refl: "on_source n n" "in_source n n" "on_dest n n" "waiting n n"
  by (simp_all add: relation_defs)

lemma later_mail_trans: "later_mail a b \<Longrightarrow> later_mail b c \<Longrightarrow> later_mail a c"
  by (auto simp: later_mail_def intro: order_trans)

lemma relations_trans:
  "on_source a b \<Longrightarrow> on_source b c \<Longrightarrow> on_source a c"
  "in_source a b \<Longrightarrow> in_source b c \<Longrightarrow> in_source a c"
  "on_dest a b \<Longrightarrow> on_dest b c \<Longrightarrow> on_dest a c"
  "waiting a b \<Longrightarrow> waiting b c \<Longrightarrow> waiting a c"
  using later_mail_trans [of a b c] by (simp_all add: on_source_def in_source_def on_dest_def waiting_def same_dest_def)

lemma observe_waiting: "waiting n (observe S n)"
  by (auto simp: observe_def relation_defs split: event.split)

lemma waiting_relations: "waiting n n' \<Longrightarrow> in_source n n'" "waiting n n' \<Longrightarrow> on_dest n n'" "waiting n n' \<Longrightarrow> on_source n n'"
  "in_source n n' \<Longrightarrow> on_source n n'"
  by (simp_all add: relation_defs)

lemma kill_relations: "in_source n (kill src_party n)" "on_source n (kill src_party n)" "on_dest n (kill dst_party n)"
  by (simp_all add: relation_defs kill_def src_party_def dst_party_def)

text \<open>A command keeps a relation when its effect does.\<close>

lemma steps_serve:
  assumes "\<And>a b c. Q a b \<Longrightarrow> Q b c \<Longrightarrow> Q a c" and "\<And>n. Q n (observe S n)" and "\<And>n. Q n (kill p n)"
    and "\<And>n. Q n (snd (act n))"
  shows "steps Q (serve S p act)"
proof (rule stepsI)
  fix n r n'
  let ?n = "observe S n"
  have 1: "Q n ?n" "Q n (kill p ?n)" "Q n (snd (act ?n))" "Q n (kill p (snd (act ?n)))"
    using assms by blast+
  assume "serve S p act n = Some (r, n')"
  then have "n' = ?n \<or> n' = kill p ?n \<or> n' = snd (act ?n) \<or> n' = kill p (snd (act ?n))"
    by (auto simp: serve_def Let_def split: if_splits event.splits)
  then show "Q n n'" using 1 by auto
qed

lemma serve_Inr:
  assumes "serve S p act n = Some (Inr a, n')"
  shows "act (observe S n) = (Inr a, n')" and "\<not> lo_dead (pt_line p n)"
  using assms by (auto simp: serve_def Let_def split: if_splits event.splits)

lemma serve_returns: "serve S p act n \<noteq> None"
  by (auto simp: serve_def Let_def split: event.splits)

lemma steps_do_fetch:
  assumes "\<And>a b c. Q a b \<Longrightarrow> Q b c \<Longrightarrow> Q a c" and "\<And>n. Q n (observe S n)"
    and "\<And>n q st d. (lo_dead (pt_line p n) \<longrightarrow> d) \<Longrightarrow>
      Q n (pt_set p ((pt_line p n)\<lparr> lo_queue := q, lo_status := st, lo_dead := d \<rparr>) n)"
  shows "steps Q (do_fetch S p us opts)"
proof (rule stepsI)
  fix n r n'
  assume "do_fetch S p us opts n = Some (r, n')"
  then obtain q st d where f: "fetch_result S p us opts (si_plan S (nt_time n)) (observe S n) = (q, st, d)"
    and n': "n' = pt_set p ((pt_line p (observe S n))\<lparr> lo_queue := q, lo_status := st, lo_dead := d \<rparr>) (observe S n)"
    by (auto simp: do_fetch_def Let_def split: prod.splits)
  have "lo_dead (pt_line p (observe S n)) \<longrightarrow> d"
    using f by (auto simp: fetch_result_def Let_def)
  then show "Q n n'" unfolding n' using assms by blast
qed

lemma library_fields [simp]:
  "ic_Select (library S p fr) = (\<lambda>name. serve S p (do_select S p name))"
  "ic_UIDSearch (library S p fr) = (\<lambda>crit. serve S p (do_search S p crit))"
  "ic_HasSpecialUse (library S p fr) = returnM True"
  "ic_List (library S p fr) = (\<lambda>special. serve S p (\<lambda>n. (Inr (map (\<lambda>sf. \<lparr> ld_Mailbox = sf_name sf, ld_Attrs = si_attrs S (sf_name sf) \<rparr>) (si_source S)), n)))"
  "ic_Create (library S p fr) = (\<lambda>name. serve S p (\<lambda>n. (Inl (ImapErr StatusNO ''already exists''), n)))"
  "ic_Fetch (library S p fr) = do_fetch S p" "ic_Next (library S p fr) = do_next p" "ic_CloseFetch (library S p fr) = do_close p"
  "ic_Append (library S p fr) = do_append"
  "ic_Write (library S p fr) = (\<lambda>i raw. serve S p (\<lambda>n. (Inr (), set_command i (\<lambda>c. if cm_complete c then c else c\<lparr> cm_raw := raw \<rparr>) n)))"
  "ic_CloseAppend (library S p fr) = (\<lambda>i. serve S p (\<lambda>n. (Inr (), set_command i complete_command n)))"
  "ic_WaitAppend (library S p fr) = do_wait S"
  "ic_Move (library S p fr) = (\<lambda>us target. serve S p (do_move S us target))"
  "ic_Store (library S p fr) = (\<lambda>us op fl. serve S p (do_store us op fl))"
  "ic_Idle (library S p fr) = serve S p (\<lambda>n. (Inr 0, n))"
  "ic_IdleClose (library S p fr) = (\<lambda>i. serve S p (\<lambda>n. (Inr (), n)))"
  "ic_IdleWait (library S p fr) = (\<lambda>i. serve S p (\<lambda>n. (Inr (), n)))"
  "ic_ReadHeader (library S p fr) = si_read S"
  "ic_Dial (library S p fr) = (\<lambda>tls addr. do_dial S fr)"
  "ic_Login (library S p fr) = (\<lambda>user password. serve S p (\<lambda>n. (Inr (), n)))"
  "ic_Logout (library S p fr) = (\<lambda>n. n)" "ic_Close (library S p fr) = kill p"
  by (simp_all add: library_def)

section \<open>The source client\<close>

text \<open>Lifting a relation of the network to the client: the endpoint stays.\<close>

definition with_ep :: "(net \<Rightarrow> net \<Rightarrow> bool) \<Rightarrow> net conn \<Rightarrow> net conn \<Rightarrow> bool" where
  "with_ep Q p p' \<longleftrightarrow> cl_ep (fst p') = cl_ep (fst p) \<and> Q (snd p) (snd p')"

lemma steps_lib: "steps Q m \<Longrightarrow> steps (with_ep Q) (lib m)"
  by (auto simp: steps_def lib_def zoomM_def with_ep_def split: option.splits)

lemma steps_nextMessage:
  "(\<And>n x n'. ic_Next L i n = (x, n') \<Longrightarrow> Q n n') \<Longrightarrow> steps (with_ep Q) (nextMessage L i)"
  by (auto simp: steps_def nextMessage_def with_ep_def split: prod.splits)

lemma do_next_source: "do_next src_party i n = (x, n') \<Longrightarrow> in_source n n'"
  by (auto simp: do_next_def src_party_def relation_defs split: list.splits)

lemma fetch_source:
  "in_source n (pt_set src_party ((pt_line src_party n)\<lparr> lo_queue := q, lo_status := st, lo_dead := d \<rparr>) n)"
  by (simp add: relation_defs src_party_def)

lemma steps_do_close: "(\<And>n. Q n n) \<Longrightarrow> steps Q (do_close p i)"
  by (auto simp: steps_def do_close_def)

lemma steps_same: "(\<And>n. Q n n) \<Longrightarrow> steps Q (returnM a)"
  by (auto simp: steps_def returnM_def)

lemma steps_serve_source:
  "(\<And>n. in_source n (snd (act n))) \<Longrightarrow> steps in_source (serve S src_party act)"
  "(\<And>n. on_source n (snd (act n))) \<Longrightarrow> steps on_source (serve S src_party act)"
  by (auto intro!: steps_serve intro: relations_trans kill_relations observe_waiting waiting_relations)

interpretation source_plain: plain_client "src_library S" "with_ep in_source" for S
proof unfold_locales
  show "steps (with_ep in_source) (lib (ic_UIDSearch (src_library S) c))" for c
    unfolding src_library_def library_fields
    by (intro steps_lib steps_serve_source(1)) (auto simp: do_search_def relations_refl split: option.split)
  show "steps (with_ep in_source) (lib (ic_HasSpecialUse (src_library S)))"
    unfolding src_library_def library_fields by (intro steps_lib steps_same relations_refl)
  show "steps (with_ep in_source) (lib (ic_List (src_library S) b))" for b
    unfolding src_library_def library_fields by (intro steps_lib steps_serve_source(1)) (simp add: relations_refl)
  show "steps (with_ep in_source) (lib (ic_Fetch (src_library S) us opts))" for us opts
    unfolding src_library_def library_fields
    by (rule steps_lib, rule steps_do_fetch, erule (1) relations_trans(2),
        rule waiting_relations(1) [OF observe_waiting], rule fetch_source)
  show "steps (with_ep in_source) (lib (ic_CloseFetch (src_library S) i))" for i
    unfolding src_library_def library_fields by (intro steps_lib steps_do_close relations_refl)
  show "steps (with_ep in_source) (nextMessage (src_library S) i)" for i
    by (rule steps_nextMessage) (simp add: src_library_def do_next_source)
qed (auto simp: with_ep_def relations_refl intro: relations_trans)

lemma with_ep_weaken: "(\<And>n n'. Q n n' \<Longrightarrow> Q' n n') \<Longrightarrow> steps (with_ep Q) m \<Longrightarrow> steps (with_ep Q') m"
  by (auto elim!: steps_weaken simp: with_ep_def)

lemmas source_weaken = with_ep_weaken [of in_source on_source, OF waiting_relations(4)]

lemma steps_select:
  assumes "\<And>name. steps Q (ic_Select L name)" and "\<And>n. Q n n"
  shows "steps (with_ep Q) (SelectNamedFolder L name)" and "steps (with_ep Q) (SelectFolder L)"
proof -
  show s: "steps (with_ep Q) (SelectNamedFolder L name)" for name
    using steps_lib [OF assms(1) [of name]] unfolding SelectNamedFolder_def steps_def with_ep_def
    by (auto simp: bindM_def tryM_def assign_def modifyM_def failAt_def field_def getM_def throwM_def returnM_def
        split: option.splits sum.splits)
  have "steps (with_ep Q) (field cl_ep)"
    by (auto simp: steps_def field_def getM_def with_ep_def assms(2))
  with s show "steps (with_ep Q) (SelectFolder L)"
    unfolding SelectFolder_def by (auto simp: steps_def field_def getM_def bindM_def)
qed

lemma select_source: "steps (with_ep on_source) (SelectNamedFolder (src_library S) name)"
proof (rule steps_select(1))
  show "steps on_source (ic_Select (src_library S) name)" for name
    unfolding src_library_def library_fields
    by (rule steps_serve_source(2))
      (auto simp: do_select_def src_party_def relation_defs split: option.split)
qed (rule relations_refl)

interpretation source: reading_client "src_library S" "with_ep on_source" for S
  by unfold_locales
    (auto simp: with_ep_def relations_refl intro: relations_trans source_weaken source_plain.read_Rel select_source)

section \<open>The destination client\<close>

text \<open>
  The client's cache of the selected folder is right as long as the connection lives, and \<open>stays\<close> is
  what a command that does not select does to the line.
\<close>

definition cache_ok :: "net conn \<Rightarrow> bool" where
  "cache_ok p \<longleftrightarrow> (cl_selected (fst p) \<noteq> [] \<longrightarrow> \<not> lo_dead (nt_dst (snd p)) \<longrightarrow>
     lo_selected (nt_dst (snd p)) = Some (cl_selected (fst p)))"

definition stays :: "net \<Rightarrow> net \<Rightarrow> bool" where
  "stays n n' \<longleftrightarrow> lo_selected (nt_dst n') = lo_selected (nt_dst n) \<and> (lo_dead (nt_dst n) \<longrightarrow> lo_dead (nt_dst n'))"

definition cached :: "(net \<Rightarrow> net \<Rightarrow> bool) \<Rightarrow> net conn \<Rightarrow> net conn \<Rightarrow> bool" where
  "cached Q p p' \<longleftrightarrow> cl_ep (fst p') = cl_ep (fst p) \<and> Q (snd p) (snd p') \<and> (cache_ok p \<longrightarrow> cache_ok p')"

text \<open>The keys of the messages in the folders.\<close>

definition keys_of :: "site \<Rightarrow> (string \<times> mail list) list \<Rightarrow> string list" where
  "keys_of S boxes = map (mail_key S) (concat (map snd boxes))"

definition count :: "site \<Rightarrow> net \<Rightarrow> string \<Rightarrow> nat" where
  "count S n k = count_list (keys_of S (nt_boxes n)) k"

definition box_keys :: "site \<Rightarrow> net \<Rightarrow> string set" where
  "box_keys S n = set (keys_of S (nt_boxes n))"

definition box_names :: "net \<Rightarrow> string list" where
  "box_names n = map fst (nt_boxes n)"

text \<open>Commands that do not append: no message is copied, and the messages keep their keys.\<close>

definition moving :: "site \<Rightarrow> net \<Rightarrow> net \<Rightarrow> bool" where
  "moving S n n' \<longleftrightarrow> later_mail n n' \<and> nt_src n' = nt_src n \<and> nt_appends n' = nt_appends n \<and>
     nt_log n' = nt_log n \<and> box_names n' = box_names n \<and>
     (distinct (box_names n) \<longrightarrow> (\<forall>k. count S n' k \<le> count S n k)) \<and> box_keys S n' \<subseteq> box_keys S n"

text \<open>All commands: what is stored stays in the log, and a command that is written stays as it is.\<close>

definition commands_kept :: "net \<Rightarrow> net \<Rightarrow> bool" where
  "commands_kept n n' \<longleftrightarrow> length (nt_appends n) \<le> length (nt_appends n') \<and>
     (\<forall>i < length (nt_appends n). cm_complete (nt_appends n ! i) \<longrightarrow>
        cm_complete (nt_appends n' ! i) \<and> cm_folder (nt_appends n' ! i) = cm_folder (nt_appends n ! i) \<and>
        sent_mail (nt_appends n' ! i) = sent_mail (nt_appends n ! i))"

definition storing :: "site \<Rightarrow> net \<Rightarrow> net \<Rightarrow> bool" where
  "storing S n n' \<longleftrightarrow> later_mail n n' \<and> nt_src n' = nt_src n \<and> nt_log n \<subseteq> nt_log n' \<and>
     box_names n' = box_names n \<and> commands_kept n n' \<and>
     (box_keys S n \<subseteq> nt_log n \<longrightarrow> box_keys S n' \<subseteq> nt_log n')"

lemma commands_kept_trans: "commands_kept a b \<Longrightarrow> commands_kept b c \<Longrightarrow> commands_kept a c"
  unfolding commands_kept_def by fastforce

lemma dest_refl: "moving S n n" "storing S n n" "stays n n" "commands_kept n n"
  by (simp_all add: moving_def storing_def stays_def commands_kept_def later_mail_def)

lemma moving_trans: "moving S a b \<Longrightarrow> moving S b c \<Longrightarrow> moving S a c"
  using later_mail_trans [of a b c] unfolding moving_def by (auto intro: order_trans)

lemma storing_trans: "storing S a b \<Longrightarrow> storing S b c \<Longrightarrow> storing S a c"
  using later_mail_trans [of a b c] commands_kept_trans [of a b c] unfolding storing_def by auto

lemma stays_trans: "stays a b \<Longrightarrow> stays b c \<Longrightarrow> stays a c"
  by (simp add: stays_def)

lemma on_dest_moving: "on_dest n n' \<Longrightarrow> moving S n n'"
  by (simp add: on_dest_def same_dest_def moving_def count_def box_keys_def box_names_def)

lemma moving_storing: "moving S n n' \<Longrightarrow> storing S n n'"
  unfolding moving_def storing_def by (auto simp: commands_kept_def)

lemma waiting_stays: "waiting n n' \<Longrightarrow> stays n n'"
  by (simp add: waiting_def stays_def)

lemma kill_stays: "stays n (kill dst_party n)"
  by (simp add: stays_def kill_def dst_party_def)

text \<open>A call of the library that keeps a relation and does not select.\<close>

definition dest_call :: "(net \<Rightarrow> net \<Rightarrow> bool) \<Rightarrow> net \<Rightarrow> net \<Rightarrow> bool" where
  "dest_call Q n n' \<longleftrightarrow> Q n n' \<and> stays n n'"

lemma steps_lib_dest: "steps (dest_call Q) m \<Longrightarrow> steps (cached Q) (lib m)"
  by (auto simp: steps_def lib_def zoomM_def cached_def dest_call_def cache_ok_def stays_def split: option.splits)

lemma steps_serve_dest:
  assumes "\<And>a b c. Q a b \<Longrightarrow> Q b c \<Longrightarrow> Q a c" and "\<And>n n'. on_dest n n' \<Longrightarrow> Q n n'"
    and "\<And>n. Q n (snd (act n))" and "\<And>n. stays n (snd (act n))"
  shows "steps (dest_call Q) (serve S dst_party act)"
proof (rule steps_serve)
  show "dest_call Q a b \<Longrightarrow> dest_call Q b c \<Longrightarrow> dest_call Q a c" for a b c
    unfolding dest_call_def by (blast intro: assms(1) stays_trans)
  show "dest_call Q n (observe S n)" for n
    unfolding dest_call_def by (blast intro: assms(2) waiting_relations waiting_stays observe_waiting)
  show "dest_call Q n (kill dst_party n)" for n
    unfolding dest_call_def by (blast intro: assms(2) kill_relations kill_stays)
  show "dest_call Q n (snd (act n))" for n
    unfolding dest_call_def by (blast intro: assms(3,4))
qed

lemma do_next_dest: "do_next dst_party i n = (x, n') \<Longrightarrow> on_dest n n' \<and> stays n n'"
  by (auto simp: do_next_def dst_party_def relation_defs stays_def split: list.splits)

lemma dest_reads:
  assumes trans: "\<And>a b c. Q a b \<Longrightarrow> Q b c \<Longrightarrow> Q a c" and sub: "\<And>n n'. on_dest n n' \<Longrightarrow> Q n n'"
  shows "steps (cached Q) (lib (ic_UIDSearch (dst_library S) c))"
    and "steps (cached Q) (lib (ic_HasSpecialUse (dst_library S)))"
    and "steps (cached Q) (lib (ic_List (dst_library S) b))"
    and "steps (cached Q) (lib (ic_Fetch (dst_library S) us opts))"
    and "steps (cached Q) (lib (ic_CloseFetch (dst_library S) i))"
    and "steps (cached Q) (nextMessage (dst_library S) i)"
    and "steps (cached Q) (lib (ic_Create (dst_library S) name))"
proof -
  have refl: "Q n n" for n by (rule sub [OF relations_refl(3)])
  have c_refl: "dest_call Q n n" for n by (simp add: dest_call_def refl dest_refl)
  show "steps (cached Q) (lib (ic_UIDSearch (dst_library S) c))"
    unfolding dst_library_def library_fields
    by (rule steps_lib_dest, rule steps_serve_dest [OF trans sub])
      (auto simp: do_search_def refl dest_refl split: option.split)
  show "steps (cached Q) (lib (ic_HasSpecialUse (dst_library S)))"
    unfolding dst_library_def library_fields by (intro steps_lib_dest steps_same c_refl)
  show "steps (cached Q) (lib (ic_List (dst_library S) b))" "steps (cached Q) (lib (ic_Create (dst_library S) name))"
    unfolding dst_library_def library_fields
    by (rule steps_lib_dest, rule steps_serve_dest [OF trans sub], auto simp: refl dest_refl)+
  show "steps (cached Q) (lib (ic_Fetch (dst_library S) us opts))"
    unfolding dst_library_def library_fields
  proof (rule steps_lib_dest, rule steps_do_fetch)
    show "dest_call Q a b \<Longrightarrow> dest_call Q b c \<Longrightarrow> dest_call Q a c" for a b c
      unfolding dest_call_def by (blast intro: trans stays_trans)
    show "dest_call Q n (observe S n)" for n
      unfolding dest_call_def by (blast intro: sub waiting_relations waiting_stays observe_waiting)
    fix n q st d
    assume d: "lo_dead (pt_line dst_party n) \<longrightarrow> d"
    let ?n = "pt_set dst_party ((pt_line dst_party n)\<lparr> lo_queue := q, lo_status := st, lo_dead := d \<rparr>) n"
    have "on_dest n ?n" by (simp add: relation_defs dst_party_def)
    moreover have "stays n ?n" using d by (simp add: stays_def dst_party_def)
    ultimately show "dest_call Q n ?n" by (simp add: dest_call_def sub)
  qed
  show "steps (cached Q) (lib (ic_CloseFetch (dst_library S) i))"
    unfolding dst_library_def library_fields by (intro steps_lib_dest steps_do_close c_refl)
  show "steps (cached Q) (nextMessage (dst_library S) i)"
  proof (rule stepsI)
    fix p r p'
    assume "nextMessage (dst_library S) i p = Some (r, p')"
    then obtain x where n: "do_next dst_party i (snd p) = (x, snd p')" and c: "fst p' = fst p"
      by (auto simp: nextMessage_def dst_library_def split: prod.splits)
    have "on_dest (snd p) (snd p')" "stays (snd p) (snd p')"
      using do_next_dest [OF n] by simp_all
    then show "cached Q p p'" using c by (auto simp: cached_def sub cache_ok_def stays_def)
  qed
qed

lemma select_dest:
  assumes trans: "\<And>a b c. Q a b \<Longrightarrow> Q b c \<Longrightarrow> Q a c" and sub: "\<And>n n'. on_dest n n' \<Longrightarrow> Q n n'"
  shows "steps (cached Q) (SelectNamedFolder (dst_library S) name)"
proof (rule stepsI)
  fix p r p'
  assume r: "SelectNamedFolder (dst_library S) name p = Some (r, p')"
  then obtain q n' where s: "serve S dst_party (do_select S dst_party name) (snd p) = Some (q, n')"
    and p': "(case q of Inl e \<Rightarrow> p' = ((fst p)\<lparr> cl_selected := [] \<rparr>, n')
      | Inr d \<Rightarrow> p' = ((fst p)\<lparr> cl_selected := name, cl_arbitraryKeywords := FlagWildcard \<in> set (sd_PermanentFlags d) \<rparr>, n'))"
    by (auto simp: SelectNamedFolder_def dst_library_def bindM_def tryM_def lib_def zoomM_def assign_def modifyM_def
        failAt_def field_def getM_def throwM_def returnM_def split: option.splits sum.splits)
  have "steps on_dest (serve S dst_party (do_select S dst_party name))"
  proof (rule steps_serve)
    show "on_dest n (snd (do_select S dst_party name n))" for n
      by (auto simp: do_select_def dst_party_def relation_defs split: option.split)
  qed (blast intro: relations_trans waiting_relations observe_waiting kill_relations)+
  then have "Q (snd p) n'" using s by (auto dest: stepsD sub)
  moreover have "lo_selected (nt_dst n') = Some name" if "q = Inr d" for d
    using serve_Inr(1) [OF s [unfolded that]] by (auto simp: do_select_def dst_party_def split: option.splits if_splits)
  ultimately show "cached Q p p'"
    using p' by (auto simp: cached_def cache_ok_def split: sum.splits)
qed

lemma cached_trans: "(\<And>a b c. Q a b \<Longrightarrow> Q b c \<Longrightarrow> Q a c) \<Longrightarrow> cached Q p q \<Longrightarrow> cached Q q r \<Longrightarrow> cached Q p r"
  unfolding cached_def by auto

lemma dest_reading:
  assumes trans: "\<And>a b c. Q a b \<Longrightarrow> Q b c \<Longrightarrow> Q a c" and sub: "\<And>n n'. on_dest n n' \<Longrightarrow> Q n n'"
  shows "reading_client (dst_library S) (cached Q)"
proof unfold_locales
  show "cached Q p p" for p
    by (simp add: cached_def sub [OF relations_refl(3)])
  show "cached Q p q \<Longrightarrow> cached Q q r \<Longrightarrow> cached Q p r" for p q r
    by (rule cached_trans [OF trans])
  show "cached Q (cl, w) (cl\<lparr> cl_guardChunk := n \<rparr>, w)" for cl w n
    by (simp add: cached_def cache_ok_def sub [OF relations_refl(3)])
qed (auto intro: dest_reads [OF trans sub] select_dest [OF trans sub])

interpretation dest: reading_client "dst_library S" "cached on_dest" for S
  by (rule dest_reading [OF relations_trans(3)])

section \<open>Moving messages and changing flags\<close>

lemma mail_key_cong:
  assumes "ml_raw m = ml_raw m'" and "ml_date m = ml_date m'"
  shows "mail_key S m = mail_key S m'"
  using assms by (auto simp: mail_key_def mail_meta_def DedupKey_def synth_input_def Let_def split: prod.split)

lemma mail_key_simps [simp]:
  "mail_key S (m\<lparr> ml_uid := u \<rparr>) = mail_key S m" "mail_key S (m\<lparr> ml_flags := fl \<rparr>) = mail_key S m"
  by (rule mail_key_cong; simp)+

lemma keys_of_simps [simp]:
  "keys_of S [] = []" "keys_of S ((g, ms) # bs) = map (mail_key S) ms @ keys_of S bs"
  by (simp_all add: keys_of_def)

lemma map_key_renumber [simp]: "map (mail_key S) (renumber u ms) = map (mail_key S) ms"
  by (induction ms arbitrary: u) simp_all

lemma add_mail_names [simp]: "map fst (add_mail f ms bs) = map fst bs"
  by (simp add: add_mail_def split_beta)

lemma add_mail_keys: "set (keys_of S (add_mail f ms bs)) \<subseteq> set (keys_of S bs) \<union> mail_key S ` set ms"
proof (induction bs)
  case (Cons b bs)
  then show ?case by (cases b) (auto simp: add_mail_def split: if_splits)
qed (simp add: add_mail_def)

lemma add_mail_other: "f \<notin> set (map fst bs) \<Longrightarrow> add_mail f ms bs = bs"
  by (induction bs) (auto simp: add_mail_def)

lemma add_mail_count:
  "distinct (map fst bs) \<Longrightarrow>
   count_list (keys_of S (add_mail f ms bs)) k \<le> count_list (keys_of S bs) k + count_list (map (mail_key S) ms) k"
proof (induction bs)
  case (Cons b bs)
  then show ?case
    using add_mail_other [of f bs ms] by (cases b) (auto simp: add_mail_def)
qed (simp add: add_mail_def)

text \<open>Taking messages out of one folder.\<close>

definition take_out :: "string \<Rightarrow> (mail \<Rightarrow> bool) \<Rightarrow> (string \<times> mail list) list \<Rightarrow> (string \<times> mail list) list" where
  "take_out f q bs = map (\<lambda>(g, ms). (g, if g = f then filter (\<lambda>m. \<not> q m) ms else ms)) bs"

definition in_box :: "string \<Rightarrow> (string \<times> mail list) list \<Rightarrow> mail list" where
  "in_box f bs = (case map_of bs f of None \<Rightarrow> [] | Some ms \<Rightarrow> ms)"

lemma take_out_names [simp]: "map fst (take_out f q bs) = map fst bs"
  by (simp add: take_out_def split_beta)

lemma take_out_keys: "set (keys_of S (take_out f q bs)) \<subseteq> set (keys_of S bs)"
proof (induction bs)
  case (Cons b bs)
  then show ?case by (cases b) (auto simp: take_out_def split: if_splits)
qed (simp add: take_out_def)

lemma take_out_other: "f \<notin> set (map fst bs) \<Longrightarrow> take_out f q bs = bs"
  by (induction bs) (auto simp: take_out_def)

lemma count_split:
  "count_list (map g (filter (\<lambda>m. \<not> q m) ms)) k + count_list (map g (filter q ms)) k = count_list (map g ms) k"
  by (induction ms) auto

lemma take_out_count:
  "distinct (map fst bs) \<Longrightarrow>
   count_list (keys_of S (take_out f q bs)) k + count_list (map (mail_key S) (filter q (in_box f bs))) k
     = count_list (keys_of S bs) k"
proof (induction bs)
  case (Cons b bs)
  obtain g ms where b: "b = (g, ms)" by (cases b)
  show ?case
  proof (cases "g = f")
    case True
    then have "f \<notin> set (map fst bs)" using Cons.prems b by auto
    then show ?thesis
      using True b take_out_other [of f bs q] count_split [of "mail_key S" q ms k]
      by (simp add: take_out_def in_box_def)
  next
    case False
    then show ?thesis using Cons b by (simp add: take_out_def in_box_def)
  qed
qed (simp add: take_out_def in_box_def)

lemma in_box_keys: "mail_key S ` set (in_box f bs) \<subseteq> set (keys_of S bs)"
proof (induction bs)
  case (Cons b bs)
  obtain g ms where b: "b = (g, ms)" by (cases b)
  then have "in_box f (b # bs) = (if g = f then ms else in_box f bs)" by (simp add: in_box_def)
  then show ?case using Cons b by auto
qed (simp add: in_box_def)

lemma selected_dest: "lo_selected (nt_dst n) = Some f \<Longrightarrow> selected_mail S dst_party n = in_box f (nt_boxes n)"
  by (simp add: selected_mail_def dst_party_def in_box_def split: option.split)

definition move_boxes :: "UIDSet \<Rightarrow> string \<Rightarrow> string \<Rightarrow> net \<Rightarrow> net" where
  "move_boxes us target f n =
     (let going = filter (\<lambda>m. in_set us (ml_uid m)) (in_box f (nt_boxes n)) in
      n\<lparr> nt_boxes := add_mail target (renumber (nt_uidnext n) going) (take_out f (\<lambda>m. in_set us (ml_uid m)) (nt_boxes n)),
         nt_uidnext := nt_uidnext n + of_nat (length going) \<rparr>)"

lemma do_move_cases:
  "snd (do_move S us target n) = n \<or> (\<exists>f. snd (do_move S us target n) = move_boxes us target f n)"
proof (cases "lo_selected (nt_dst n)")
  case (Some f)
  then show ?thesis
    using selected_dest [OF Some, of S] by (auto simp: do_move_def move_boxes_def take_out_def Let_def)
qed (simp add: do_move_def)

lemma move_moving: "moving S n (snd (do_move S us target n))"
proof -
  consider "snd (do_move S us target n) = n" | f where "snd (do_move S us target n) = move_boxes us target f n"
    using do_move_cases by blast
  then show ?thesis
  proof cases
    case 2
    let ?q = "\<lambda>m. in_set us (ml_uid m)"
    let ?going = "filter ?q (in_box f (nt_boxes n))"
    let ?left = "take_out f ?q (nt_boxes n)"
    have "count_list (keys_of S (add_mail target (renumber (nt_uidnext n) ?going) ?left)) k \<le> count S n k"
      if "distinct (map fst (nt_boxes n))" for k
      using add_mail_count [of ?left S target "renumber (nt_uidnext n) ?going" k] take_out_count [OF that, of S f ?q k] that
      by (simp add: count_def)
    moreover have "set (keys_of S (add_mail target (renumber (nt_uidnext n) ?going) ?left)) \<subseteq> box_keys S n"
    proof -
      have "mail_key S ` set (renumber (nt_uidnext n) ?going) = set (map (mail_key S) ?going)"
        by (metis map_key_renumber set_map)
      then have "mail_key S ` set (renumber (nt_uidnext n) ?going) \<subseteq> mail_key S ` set (in_box f (nt_boxes n))"
        by auto
      then show ?thesis
        unfolding box_keys_def
        by (rule order_trans [OF add_mail_keys Un_least [OF take_out_keys order_trans [OF _ in_box_keys]]])
    qed
    ultimately show ?thesis
      using 2 by (simp add: move_boxes_def moving_def later_mail_def box_names_def count_def box_keys_def Let_def)
  qed (simp add: dest_refl)
qed

lemma store_keys:
  "keys_of S (map (\<lambda>(g, ms). (g, if g = f then map (\<lambda>m. if q m then m\<lparr> ml_flags := h m \<rparr> else m) ms else ms)) bs)
     = keys_of S bs"
  by (induction bs) (auto simp: if_distrib [of "mail_key S"])

lemma store_moving: "moving S n (snd (do_store us op fl n))"
proof (cases "lo_selected (nt_dst n)")
  case (Some f)
  have "map (fst \<circ> (\<lambda>(g, ms). (g, if g = f then h ms else ms))) bs = map fst bs" for h :: "mail list \<Rightarrow> mail list" and bs
    by (induction bs) auto
  then show ?thesis
    using Some unfolding do_store_def moving_def later_mail_def box_names_def count_def box_keys_def
    by (simp add: store_keys)
qed (simp add: do_store_def dest_refl)

lemma move_store_stays: "stays n (snd (do_move S us target n))" "stays n (snd (do_store us op fl n))"
  by (auto simp: stays_def do_move_def do_store_def Let_def split: option.split)

lemma dest_moving:
  assumes trans: "\<And>a b c. Q a b \<Longrightarrow> Q b c \<Longrightarrow> Q a c" and sub: "\<And>n n'. moving S n n' \<Longrightarrow> Q n n'"
  shows "moving_client (dst_library S) (cached Q)"
proof -
  have sub': "on_dest n n' \<Longrightarrow> Q n n'" for n n' by (rule sub [OF on_dest_moving])
  show ?thesis
  proof (rule moving_client.intro [OF dest_reading [OF trans sub']], unfold_locales)
    show "steps (cached Q) (lib (ic_Move (dst_library S) us folder))" for us folder
      unfolding dst_library_def library_fields
      by (rule steps_lib_dest, rule steps_serve_dest [OF trans sub']) (auto intro: sub move_moving move_store_stays)
    show "steps (cached Q) (lib (ic_Store (dst_library S) us op flags))" for us op flags
      unfolding dst_library_def library_fields
      by (rule steps_lib_dest, rule steps_serve_dest [OF trans sub']) (auto intro: sub store_moving move_store_stays)
    show "steps (cached Q) (lib (ic_Create (dst_library S) folder))" for folder
      by (rule dest_reads(7) [OF trans sub'])
    show "cached Q (cl, w) (cl\<lparr> cl_selected := [] \<rparr>, w)" for cl w
      by (simp add: cached_def cache_ok_def sub [OF dest_refl(1)])
  qed
qed

interpretation moves: moving_client "dst_library S" "cached (moving S)" for S
  by (rule dest_moving [OF moving_trans])

section \<open>Appending\<close>

definition faithful :: "(command \<Rightarrow> command) \<Rightarrow> bool" where
  "faithful f \<longleftrightarrow> (\<forall>c. cm_complete c \<longrightarrow> cm_complete (f c) \<and> cm_folder (f c) = cm_folder c \<and> sent_mail (f c) = sent_mail c)"

lemma set_command_simps [simp]:
  "nt_time (set_command i f n) = nt_time n" "nt_next (set_command i f n) = nt_next n"
  "nt_gone (set_command i f n) = nt_gone n" "nt_src (set_command i f n) = nt_src n"
  "nt_dst (set_command i f n) = nt_dst n" "nt_boxes (set_command i f n) = nt_boxes n"
  "nt_uidnext (set_command i f n) = nt_uidnext n" "nt_log (set_command i f n) = nt_log n"
  "length (nt_appends (set_command i f n)) = length (nt_appends n)"
  "j < length (nt_appends n) \<Longrightarrow> nt_appends (set_command i f n) ! j = (if j = i then f (nt_appends n ! i) else nt_appends n ! j)"
  by (auto simp: set_command_def)

lemma set_command_storing: "faithful f \<Longrightarrow> storing S n (set_command i f n)"
  by (auto simp: storing_def later_mail_def box_names_def commands_kept_def box_keys_def faithful_def)

lemma set_command_stays: "stays n (set_command i f n)"
  by (simp add: stays_def)

lemma deliver_storing: "storing S n (deliver S c n)"
proof -
  have "set (keys_of S (add_mail (cm_folder c) [stored_mail S n c] (nt_boxes n))) \<subseteq>
      set (keys_of S (nt_boxes n)) \<union> {mail_key S (stored_mail S n c)}"
    using add_mail_keys [of S "cm_folder c" "[stored_mail S n c]" "nt_boxes n"] by simp
  then show ?thesis
    by (auto simp: storing_def deliver_def later_mail_def box_names_def commands_kept_def box_keys_def)
qed

lemma deliver_stays: "stays n (deliver S c n)"
  by (simp add: stays_def deliver_def)

lemma answer_storing: "storing S n (answer i n)"
  unfolding answer_def by (rule set_command_storing) (simp add: faithful_def sent_mail_def)

lemma do_wait_cases:
  assumes "do_wait S i n = Some (r, n')"
  defines "n1 \<equiv> observe S n" and "c \<equiv> nt_appends n ! i"
  shows "(\<exists>e. r = Inl e) \<and> (n' = n1 \<or> n' = kill dst_party n1) \<and> \<not> (\<exists>e. r = Inl e \<and> isServerReject e)
    \<or> i < length (nt_appends n) \<and> cm_complete c \<and> cm_open c \<and>
      ((\<exists>e. r = Inl e) \<and> n' = answer i n1
       \<or> cm_folder c \<in> fst ` set (nt_boxes n) \<and> r = Inr () \<and> n' = deliver S c (answer i n1)
       \<or> cm_folder c \<in> fst ` set (nt_boxes n) \<and> r = Inl lost \<and> n' = kill dst_party (deliver S c (answer i n1)))"
  using assms by (auto simp: do_wait_def Let_def lost_def isServerReject_def split: if_splits event.splits)

lemma append_facts:
  "storing S n (n\<lparr> nt_appends := nt_appends n @ [c] \<rparr>)" "stays n (n\<lparr> nt_appends := nt_appends n @ [c] \<rparr>)"
  by (simp_all add: storing_def stays_def later_mail_def box_names_def commands_kept_def box_keys_def nth_append)

lemma dest_writing:
  assumes trans: "\<And>a b c. Q a b \<Longrightarrow> Q b c \<Longrightarrow> Q a c" and sub: "\<And>n n'. storing S n n' \<Longrightarrow> Q n n'"
  shows "writing_client (dst_library S) (cached Q)"
proof -
  have sub': "moving S n n' \<Longrightarrow> Q n n'" for n n' by (rule sub [OF moving_storing])
  have sub'': "on_dest n n' \<Longrightarrow> Q n n'" for n n' by (rule sub' [OF on_dest_moving])
  have set_cmd: "steps (cached Q) (lib (serve S dst_party (\<lambda>n. (Inr (), set_command i f n))))" if "faithful f" for i f
    by (rule steps_lib_dest, rule steps_serve_dest [OF trans sub''])
      (auto intro: sub set_command_storing [OF that] set_command_stays)
  show ?thesis
  proof (rule writing_client.intro [OF dest_moving [OF trans sub']], unfold_locales)
    show "steps (cached Q) (lib (ic_Append (dst_library S) folder len ao))" for folder len ao
      unfolding dst_library_def library_fields do_append_def
      by (rule steps_lib_dest) (auto simp: steps_def dest_call_def intro: sub append_facts)
    show "steps (cached Q) (lib (ic_Write (dst_library S) i raw))" for i raw
      unfolding dst_library_def library_fields by (rule set_cmd) (simp add: faithful_def)
    show "steps (cached Q) (lib (ic_CloseAppend (dst_library S) i))" for i
      unfolding dst_library_def library_fields by (rule set_cmd) (simp add: faithful_def sent_mail_def complete_command_def)
    show "steps (cached Q) (lib (ic_WaitAppend (dst_library S) i))" for i
      unfolding dst_library_def library_fields
    proof (rule steps_lib_dest, rule stepsI)
      fix n r n'
      assume "do_wait S i n = Some (r, n')"
      note cases = do_wait_cases [OF this]
      let ?n = "observe S n"
      let ?d = "deliver S (nt_appends n ! i) (answer i ?n)"
      have seen: "dest_call Q n ?n"
        using observe_waiting by (auto simp: dest_call_def intro: sub'' waiting_relations waiting_stays)
      have killed: "dest_call Q m (kill dst_party m)" for m
        by (auto simp: dest_call_def intro: sub'' kill_relations kill_stays)
      have answered: "dest_call Q ?n (answer i ?n)"
        by (auto simp: dest_call_def answer_def intro: sub answer_storing [unfolded answer_def] set_command_stays)
      have delivered: "dest_call Q (answer i ?n) ?d"
        by (auto simp: dest_call_def intro: sub deliver_storing deliver_stays)
      have compose: "dest_call Q a b \<Longrightarrow> dest_call Q b c \<Longrightarrow> dest_call Q a c" for a b c
        unfolding dest_call_def by (blast intro: trans stays_trans)
      have "n' \<in> {?n, kill dst_party ?n, answer i ?n, ?d, kill dst_party ?d}"
        using cases by auto
      moreover have "dest_call Q n ?d" by (rule compose [OF compose [OF seen answered] delivered])
      ultimately show "dest_call Q n n'"
        using seen compose [OF seen killed] compose [OF seen answered] compose [OF _ killed] by auto
    qed
  qed
qed

interpretation writes: writing_client "dst_library S" "cached (storing S)" for S
  by (rule dest_writing [OF storing_trans])

end
