(* ===== verification/ServerFetch.thy ===== *)
theory ServerFetch
  imports ServerFacts
begin

text \<open>
  The servers keep the contracts of fetching and searching, and what the client methods return over
  them.
\<close>

section \<open>Fetching\<close>

definition party_ok :: "party \<Rightarrow> bool" where
  "party_ok p \<longleftrightarrow> (\<forall>n l. pt_line p (pt_set p l n) = l) \<and> (\<forall>S n l. pt_find p S (pt_set p l n) = pt_find p S n)"

lemma parties_ok: "party_ok src_party" "party_ok dst_party"
  by (simp_all add: party_ok_def src_party_def dst_party_def visible_def fun_eq_iff)

definition box_contents :: "site \<Rightarrow> party \<Rightarrow> net \<Rightarrow> FetchOptions \<Rightarrow> FetchMessageBuffer list" where
  "box_contents S p n opts = map (mail_buffer S opts) (selected_mail S p n)"

fun delivered :: "('e + 'a) list \<Rightarrow> 'a list" where
  "delivered (Inr a # xs) = a # delivered xs"
| "delivered _ = []"

definition box_pending :: "party \<Rightarrow> net \<Rightarrow> FetchMessageBuffer list" where
  "box_pending p n = delivered (lo_queue (pt_line p n))"

definition box_whole :: "party \<Rightarrow> net \<Rightarrow> bool" where
  "box_whole p n \<longleftrightarrow> lo_status (pt_line p n) = None"

lemma delivered_simps [simp]: "delivered (map Inr xs) = xs" "delivered (map Inr xs @ Inl e # ys) = xs"
  by (induction xs) simp_all

lemma delivered_cons: "delivered (x # xs) = (case x of Inl e \<Rightarrow> [] | Inr a \<Rightarrow> a # delivered xs)"
  by (cases x) simp_all

lemma selected_set:
  assumes "party_ok p" and "lo_selected l = lo_selected (pt_line p n)"
  shows "selected_mail S p (pt_set p l n) = selected_mail S p n"
  using assms by (simp add: selected_mail_def party_ok_def split: option.split)

lemma fetch_result_law:
  assumes "fetch_result S p us opts ev n = (q, st, d)"
  shows "(\<exists>k. delivered q = take k (items (box_contents S p n) us opts)) \<and>
    (st = None \<longrightarrow> delivered q = items (box_contents S p n) us opts)"
proof -
  let ?its = "map (mail_buffer S opts) (filter (\<lambda>m. in_set us (ml_uid m)) (selected_mail S p n))"
  have its: "?its = items (box_contents S p n) us opts"
    by (simp add: items_def box_contents_def filter_map comp_def mail_buffer_def)
  have "q = [] \<and> st \<noteq> None \<or> (\<exists>k e. q = map Inr (take k ?its) @ [Inl e] \<and> st \<noteq> None) \<or> q = map Inr ?its"
    using assms unfolding fetch_result_def Let_def by (auto split: if_splits event.splits)
  then consider "q = []" "st \<noteq> None" | k e where "q = map Inr (take k ?its) @ [Inl e]" "st \<noteq> None"
    | "q = map Inr ?its"
    by blast
  then show ?thesis
  proof cases
    case 1
    then show ?thesis by (auto intro: exI [of _ 0])
  next
    case (2 k e)
    then have "delivered q = take k ?its" by simp
    then show ?thesis unfolding its using 2(2) by auto
  next
    case 3
    then show ?thesis unfolding its by (auto intro: exI [of _ "length (items (box_contents S p n) us opts)"])
  qed
qed

lemma do_fetch_law:
  assumes "party_ok p" and "do_fetch S p us opts n = Some (r, n')"
  shows "(\<exists>k. box_pending p n' = take k (items (box_contents S p n') us opts)) \<and>
    (box_whole p n' \<longrightarrow> box_pending p n' = items (box_contents S p n') us opts)"
    and "box_contents S p n' = box_contents S p (observe S n)"
proof -
  let ?n = "observe S n"
  from assms(2) obtain q st d where f: "fetch_result S p us opts (si_plan S (nt_time n)) ?n = (q, st, d)"
    and n': "n' = pt_set p ((pt_line p ?n)\<lparr> lo_queue := q, lo_status := st, lo_dead := d \<rparr>) ?n"
    by (auto simp: do_fetch_def Let_def split: prod.splits)
  show c: "box_contents S p n' = box_contents S p ?n"
    using selected_set [OF assms(1), of "(pt_line p ?n)\<lparr> lo_queue := q, lo_status := st, lo_dead := d \<rparr>" ?n S]
    by (simp add: n' box_contents_def fun_eq_iff)
  have "pt_line p n' = (pt_line p ?n)\<lparr> lo_queue := q, lo_status := st, lo_dead := d \<rparr>"
    using assms(1) by (simp add: n' party_ok_def)
  then show "(\<exists>k. box_pending p n' = take k (items (box_contents S p n') us opts)) \<and>
    (box_whole p n' \<longrightarrow> box_pending p n' = items (box_contents S p n') us opts)"
    using fetch_result_law [OF f] c by (simp add: box_pending_def box_whole_def items_def)
qed

lemma do_next_law:
  assumes "party_ok p" and "do_next p i n = (x, n')"
  shows "box_contents S p n' = box_contents S p n \<and> box_whole p n' = box_whole p n \<and>
    (x = None \<longrightarrow> box_pending p n = []) \<and> (\<forall>b. x = Some (Inr b) \<longrightarrow> box_pending p n = b # box_pending p n')"
proof (cases "lo_queue (pt_line p n)")
  case (Cons y ys)
  then have "x = Some y" and n': "n' = pt_set p ((pt_line p n)\<lparr> lo_queue := ys \<rparr>) n"
    using assms(2) by (auto simp: do_next_def)
  moreover have "pt_line p n' = (pt_line p n)\<lparr> lo_queue := ys \<rparr>"
    using assms(1) by (simp add: n' party_ok_def)
  moreover have "box_contents S p n' = box_contents S p n"
    using selected_set [OF assms(1), of "(pt_line p n)\<lparr> lo_queue := ys \<rparr>" n S] by (simp add: n' box_contents_def fun_eq_iff)
  ultimately show ?thesis by (auto simp: Cons box_pending_def box_whole_def)
qed (use assms(2) in \<open>simp add: do_next_def box_pending_def\<close>)

lemma library_fetching: "party_ok p \<Longrightarrow> fetch_library (library S p fr) (box_contents S p) (box_pending p) (box_whole p)"
proof unfold_locales
  assume p: "party_ok p"
  show "(\<exists>k. box_pending p w' = take k (items (box_contents S p w') us opts)) \<and>
      (box_whole p w' \<longrightarrow> box_pending p w' = items (box_contents S p w') us opts)"
    if "ic_Fetch (library S p fr) us opts w = Some (Inr i, w')" for us opts w i w'
    using do_fetch_law(1) [OF p] that by simp
  show "box_contents S p w' = box_contents S p w \<and> box_whole p w' = box_whole p w \<and>
      (x = None \<longrightarrow> box_pending p w = []) \<and> (\<forall>b. x = Some (Inr b) \<longrightarrow> box_pending p w = b # box_pending p w')"
    if "ic_Next (library S p fr) i w = (x, w')" for i w x w'
    using do_next_law [OF p] that by simp
  show "box_contents S p w' = box_contents S p w \<and> (r = Inr () \<longrightarrow> box_whole p w)"
    if "ic_CloseFetch (library S p fr) i w = Some (r, w')" for i w r w'
    using that by (auto simp: do_close_def box_whole_def split: option.splits)
qed

interpretation src_fetch: fetch_library "src_library S" "box_contents S src_party" "box_pending src_party" "box_whole src_party" for S
  unfolding src_library_def by (rule library_fetching [OF parties_ok(1)])

section \<open>Searching\<close>

lemma contains_self: "contains v v"
  by (cases v) simp_all

lemma bufferMeta_header: "m_MessageID (bufferMeta (library S p fr) b) = fst (header_fields S (fb_FindBodySection b metaSection))"
  by (simp add: bufferMeta_def parseMetaHeader_def header_fields_def split: prod.split option.split)

lemma dest_contents: "dest_call on_dest n n' \<Longrightarrow> box_contents S dst_party n' = box_contents S dst_party n"
  by (auto simp: dest_call_def on_dest_def same_dest_def stays_def box_contents_def selected_mail_def dst_party_def
      split: option.split)

lemma observe_dest_contents: "box_contents S dst_party (observe S n) = box_contents S dst_party n"
  by (rule dest_contents) (simp add: dest_call_def waiting_relations(2) [OF observe_waiting] waiting_stays [OF observe_waiting])

lemma do_search_found:
  assumes "do_search S p crit n = (Inr us, n')"
  shows "set us = fb_UID ` {b \<in> set (box_contents S p n metaOptions). sat (buffer_has S b) crit}"
proof -
  have "us = map ml_uid (filter (\<lambda>m. sat (buffer_has S (mail_buffer S metaOptions m)) crit) (selected_mail S p n))"
    using assms by (auto simp: do_search_def split: option.splits)
  moreover have "fb_UID (mail_buffer S opts m) = ml_uid m" for opts m
    by (simp add: mail_buffer_def)
  moreover have "{b \<in> f ` A. Q b} = f ` {m \<in> A. Q (f m)}" for f :: "mail \<Rightarrow> FetchMessageBuffer" and A Q
    by auto
  ultimately show ?thesis
    by (simp add: box_contents_def image_image)
qed

interpretation dst_search: search_library "dst_library S" "box_contents S dst_party" "box_pending dst_party"
  "box_whole dst_party" "buffer_has S" for S
proof (rule search_library.intro, unfold dst_library_def, rule library_fetching [OF parties_ok(2)], unfold_locales)
  fix c w y w'
  assume "ic_UIDSearch (library S dst_party fresh_dst) c w = Some (y, w')"
  then have s: "serve S dst_party (do_search S dst_party c) w = Some (y, w')" by simp
  have "steps (dest_call on_dest) (serve S dst_party (do_search S dst_party c))"
    by (rule steps_serve_dest [OF relations_trans(3)])
      (auto simp: do_search_def relations_refl dest_refl split: option.split)
  then have "dest_call on_dest w w'" using s by (rule stepsD)
  then have "box_contents S dst_party w' = box_contents S dst_party w" by (rule dest_contents)
  moreover have "set us = fb_UID ` {b \<in> set (box_contents S dst_party w metaOptions). sat (buffer_has S b) c}"
    if y: "y = Inr us" for us
    using do_search_found [OF serve_Inr(1) [OF s [unfolded y]]] by (simp add: observe_dest_contents)
  ultimately show "box_contents S dst_party w' = box_contents S dst_party w \<and>
      (\<forall>us. y = Inr us \<longrightarrow> set us = fb_UID ` {b \<in> set (box_contents S dst_party w metaOptions). sat (buffer_has S b) c})"
    by blast
next
  fix us opts w z w'
  assume "ic_Fetch (library S dst_party fresh_dst) us opts w = Some (z, w')"
  then show "box_contents S dst_party w' = box_contents S dst_party w"
    using do_fetch_law(2) [OF parties_ok(2)] observe_dest_contents by simp
next
  fix b v
  assume "m_MessageID (bufferMeta (library S dst_party fresh_dst) b) = v"
  then show "buffer_has S b ''Message-Id'' v"
    using contains_self by (simp add: bufferMeta_header buffer_has_def)
qed

end
