(* ===== verification/ServerContract.thy ===== *)
theory ServerContract
  imports ServerFetch
begin

text \<open>
  The view of the reference servers that the contracts of the reconciler speak about, and what the
  calls of the two clients do to it.
\<close>

section \<open>Keys of messages\<close>

lemma mail_meta_simps [simp]:
  "m_UID (mail_meta S m) = ml_uid m" "DedupKey (si_sha S) (mail_meta S m) = mail_key S m"
  by (simp_all add: mail_meta_def mail_key_def split: prod.split)

lemma meta_of_buffer: "bufferMeta (library S p fr) (mail_buffer S metaOptions m) = mail_meta S m"
proof -
  have "fb_FindBodySection (mail_buffer S metaOptions m) metaSection = si_header S (ml_raw m)"
    by (simp add: mail_buffer_def metaOptions_def)
  then show ?thesis
    by (simp add: bufferMeta_def parseMetaHeader_def mail_meta_def header_fields_def mail_buffer_def split: prod.split)
qed

lemma body_of_buffer:
  "bufferFull (mail_buffer S fullOptions m) =
     \<lparr> f_UID = ml_uid m, f_Raw = ml_raw m, f_Flags = ml_flags m, f_InternalDate = ml_date m \<rparr>"
  by (simp add: bufferFull_def mail_buffer_def fullOptions_def fullSection_def metaSection_def)

lemma TrimSpace_Nil: "TrimSpace [] = []"
  by (simp add: TrimSpace_def TrimFunc_def trim_segs_def)

lemma message_id_trimmed: "TrimSpace (m_MessageID (mail_meta S m)) = m_MessageID (mail_meta S m)"
  by (auto simp: mail_meta_def header_fields_def TrimSpace_Nil split: option.split prod.splits)

lemma mail_key_id: "m_MessageID (mail_meta S m) \<noteq> [] \<Longrightarrow> mail_key S m = m_MessageID (mail_meta S m)"
  by (simp add: mail_key_def DedupKey_def message_id_trimmed)

lemma real_mail_key:
  assumes "IsRealMessageID (mail_key S m)"
  shows "m_MessageID (mail_meta S m) = mail_key S m" and "m_MessageID (mail_meta S m) \<noteq> []"
proof -
  show "m_MessageID (mail_meta S m) \<noteq> []"
    using assms by (auto simp: mail_key_def DedupKey_def message_id_trimmed IsRealMessageID_def HasPrefix_def)
  then show "m_MessageID (mail_meta S m) = mail_key S m" by (simp add: mail_key_id)
qed

text \<open>A key that is a Message-ID does not depend on the date.\<close>

lemma real_key_same:
  assumes "IsRealMessageID (mail_key S m)" and "ml_raw m' = ml_raw m"
  shows "mail_key S m' = mail_key S m"
proof -
  have "m_MessageID (mail_meta S m') = m_MessageID (mail_meta S m)"
    using assms(2) by (simp add: mail_meta_def split: prod.split)
  then show ?thesis using real_mail_key [OF assms(1)] mail_key_id [of S m'] by simp
qed

definition full_mail :: "FullMessage \<Rightarrow> mail" where
  "full_mail full = \<lparr> ml_uid = f_UID full, ml_raw = f_Raw full, ml_flags = f_Flags full, ml_date = f_InternalDate full \<rparr>"

section \<open>A run of BeginAppend\<close>

text \<open>The destination holds the commands \<open>before\<close> and one more, for this message.\<close>

definition building :: "net \<Rightarrow> string \<Rightarrow> FullMessage \<Rightarrow> (command \<Rightarrow> bool) \<Rightarrow> net \<Rightarrow> bool" where
  "building n0 folder full P n \<longleftrightarrow> later_mail n0 n \<and> nt_src n = nt_src n0 \<and> nt_boxes n = nt_boxes n0 \<and> nt_log n = nt_log n0 \<and>
     (\<exists>c. nt_appends n = nt_appends n0 @ [c] \<and> cm_folder c = folder \<and> cm_open c \<and>
        cm_size c = int (length (f_Raw full)) \<and> cm_raw c \<in> {[], f_Raw full} \<and>
        (case cm_date c of None \<Rightarrow> zero_time | Some t \<Rightarrow> t) = f_InternalDate full \<and>
        (cm_complete c \<longrightarrow> cm_raw c = f_Raw full) \<and> P c)"

lemma building_on_dest: "building n0 folder full P n \<Longrightarrow> on_dest n n' \<Longrightarrow> building n0 folder full P n'"
  using later_mail_trans [of n0 n n'] by (auto simp: building_def on_dest_def same_dest_def)

lemma building_weaken: "building n0 folder full P n \<Longrightarrow> (\<And>c. P c \<Longrightarrow> Q c) \<Longrightarrow> building n0 folder full Q n"
  by (auto simp: building_def)

lemma hoare_serve:
  assumes "\<And>n n'. I n \<Longrightarrow> on_dest n n' \<Longrightarrow> I n'" and "\<And>n. I n \<Longrightarrow> I (snd (act n))"
    and "\<And>n a. I n \<Longrightarrow> fst (act n) = Inr a \<Longrightarrow> Q a (snd (act n))"
  shows "hoare I (serve S dst_party act) Q (\<lambda>_. I)"
proof (rule hoareI)
  fix n a n'
  assume I: "I n" and r: "serve S dst_party act n = Some (Inr a, n')"
  have "I (observe S n)" by (rule assms(1) [OF I]) (simp add: waiting_relations(2) [OF observe_waiting])
  then show "Q a n'" using assms(3) serve_Inr(1) [OF r] by (metis fst_conv snd_conv)
next
  fix n e n'
  let ?n = "observe S n"
  assume I: "I n" and r: "serve S dst_party act n = Some (Inl e, n')"
  have 1: "I ?n" by (rule assms(1) [OF I]) (simp add: waiting_relations(2) [OF observe_waiting])
  have "n' = ?n \<or> n' = kill dst_party ?n \<or> n' = snd (act ?n) \<or> n' = kill dst_party (snd (act ?n))"
    using r by (auto simp: serve_def Let_def split: if_splits event.splits)
  moreover have "I (kill dst_party m)" if "I m" for m using assms(1) [OF that] kill_relations(3) by blast
  ultimately show "I n'" using 1 assms(2) [OF 1] by auto
qed

lemma hoare_lib:
  assumes "hoare I m Q (\<lambda>_. E)"
  shows "hoare (\<lambda>p. fst p = cl \<and> I (snd p)) (lib m) (\<lambda>a p. fst p = cl \<and> Q a (snd p)) (\<lambda>_ p. fst p = cl \<and> E (snd p))"
  by (rule hoareI) (use assms in \<open>auto simp: lib_def zoomM_def split: option.splits dest: hoare_InrD hoare_InlD\<close>)

lemma hoare_libAt:
  assumes "hoare P (lib m) Q (\<lambda>_. E')" and "\<And>args e. hoare E' (failAt fmt args e) Q E"
  shows "hoare P (libAt fmt args m) Q E"
proof -
  have "hoare (case r of Inl e \<Rightarrow> E' | Inr a \<Rightarrow> Q a) (case r of Inl e \<Rightarrow> failAt fmt args e | Inr a \<Rightarrow> returnM a) Q E" for r
    by (cases r) (simp_all add: assms(2) hoare_returnM)
  then show ?thesis
    unfolding libAt_def by (rule hoare_bindM [OF hoare_tryM, rotated]) (use assms(1) in simp)
qed

lemma building_set_command:
  assumes "building n0 folder full P n"
    and "\<And>c. P c \<Longrightarrow> cm_folder (f c) = cm_folder c \<and> cm_open (f c) = cm_open c \<and> cm_size (f c) = cm_size c \<and>
      cm_date (f c) = cm_date c"
    and "\<And>c. P c \<Longrightarrow> cm_size c = int (length (f_Raw full)) \<Longrightarrow> cm_raw c \<in> {[], f_Raw full} \<Longrightarrow>
      (cm_complete c \<longrightarrow> cm_raw c = f_Raw full) \<Longrightarrow>
      cm_raw (f c) \<in> {[], f_Raw full} \<and> (cm_complete (f c) \<longrightarrow> cm_raw (f c) = f_Raw full) \<and> Q (f c)"
  shows "building n0 folder full Q (set_command (length (nt_appends n0)) f n)"
proof -
  obtain c where c: "nt_appends n = nt_appends n0 @ [c]" "cm_folder c = folder" "cm_open c"
      "cm_size c = int (length (f_Raw full))" "cm_raw c \<in> {[], f_Raw full}"
      "(case cm_date c of None \<Rightarrow> zero_time | Some t \<Rightarrow> t) = f_InternalDate full"
      "cm_complete c \<longrightarrow> cm_raw c = f_Raw full" "P c"
    using assms(1) by (auto simp: building_def)
  have "nt_appends (set_command (length (nt_appends n0)) f n) = nt_appends n0 @ [f c]"
    using c(1) by (simp add: set_command_def)
  then show ?thesis
    using assms(1) assms(2) [OF c(8)] assms(3) [OF c(8,4,5,7)] c unfolding building_def by (auto simp: later_mail_def)
qed

lemma hoare_BeginAppend:
  "hoare (\<lambda>p. p = (cl, n0)) (BeginAppend (dst_library S) folder full fl)
    (\<lambda>h p. fst p = cl \<and> h = \<lparr> pa_cmd = length (nt_appends n0), pa_folder = folder, pa_addr = Addr (cl_ep cl) \<rparr> \<and>
       building n0 folder full cm_complete (snd p))
    (\<lambda>_ p. fst p = cl \<and> building n0 folder full (\<lambda>_. True) (snd p))"
proof -
  let ?i = "length (nt_appends n0)"
  let ?at = "\<lambda>P p. fst p = cl \<and> building n0 folder full P (snd p)"
  have appended: "hoare (\<lambda>p. p = (cl, n0)) (lib (do_append folder (int (length (f_Raw full))) (appendOptions full fl)))
      (\<lambda>i p. i = ?i \<and> ?at (\<lambda>c. \<not> cm_complete c) p) (\<lambda>_. ?at (\<lambda>_. True))"
    by (auto simp: hoare_def lib_def zoomM_def do_append_def building_def appendOptions_def IsZero_def zero_time_def
        later_mail_def)
  have written: "hoare (?at (\<lambda>c. \<not> cm_complete c))
      (lib (serve S dst_party (\<lambda>n. (Inr (), set_command ?i (\<lambda>c. if cm_complete c then c else c\<lparr> cm_raw := f_Raw full \<rparr>) n))))
      (\<lambda>_. ?at (\<lambda>c. cm_raw c = f_Raw full)) (\<lambda>_. ?at (\<lambda>c. \<not> cm_complete c))"
    by (rule hoare_lib, rule hoare_serve, erule (1) building_on_dest)
      (auto elim!: building_set_command)
  have closed: "hoare (?at (\<lambda>_. True)) (lib (serve S dst_party (\<lambda>n. (Inr (), set_command ?i complete_command n))))
      (\<lambda>_. ?at (\<lambda>_. True)) (\<lambda>_. ?at (\<lambda>_. True))"
    by (rule hoare_lib, rule hoare_serve, erule (1) building_on_dest)
      (auto elim!: building_set_command simp: complete_command_def)
  have finished: "hoare (?at (\<lambda>c. cm_raw c = f_Raw full)) (lib (serve S dst_party (\<lambda>n. (Inr (), set_command ?i complete_command n))))
      (\<lambda>_. ?at cm_complete) (\<lambda>_. ?at (\<lambda>c. cm_raw c = f_Raw full))"
    by (rule hoare_lib, rule hoare_serve, erule (1) building_on_dest)
      (auto elim!: building_set_command simp: complete_command_def)
  have quiet: "hoare (?at P) (failAt fmt args e) Q (\<lambda>_. ?at (\<lambda>_. True))"
    for P fmt args e and Q :: "'r \<Rightarrow> net conn \<Rightarrow> bool"
    by (auto simp: hoare_def failAt_def field_def prog_defs elim: building_weaken)
  have result: "hoare (?at cm_complete) (bindM (field cl_ep) (\<lambda>ep. returnM \<lparr> pa_cmd = ?i, pa_folder = folder, pa_addr = Addr ep \<rparr>))
      (\<lambda>h p. fst p = cl \<and> h = \<lparr> pa_cmd = ?i, pa_folder = folder, pa_addr = Addr (cl_ep cl) \<rparr> \<and>
         building n0 folder full cm_complete (snd p)) (\<lambda>_. ?at (\<lambda>_. True))"
    by (auto simp: hoare_def field_def prog_defs)
  let ?Q = "\<lambda>h p. fst p = cl \<and> h = \<lparr> pa_cmd = ?i, pa_folder = folder, pa_addr = Addr (cl_ep cl) \<rparr> \<and>
    building n0 folder full cm_complete (snd p)"
  have after_write: "hoare (case r of Inl e \<Rightarrow> ?at (\<lambda>c. \<not> cm_complete c) | Inr u \<Rightarrow> ?at (\<lambda>c. cm_raw c = f_Raw full))
      (case r of
         Inl e \<Rightarrow> bindM (tryM (lib (serve S dst_party (\<lambda>n. (Inr (), set_command ?i complete_command n)))))
           (\<lambda>_. failAt ''append write to %s: %w'' [] e)
       | Inr (u :: unit) \<Rightarrow> bindM (libAt ''append close to %s: %w'' [] (serve S dst_party (\<lambda>n. (Inr (), set_command ?i complete_command n))))
           (\<lambda>_. bindM (field cl_ep) (\<lambda>ep. returnM \<lparr> pa_cmd = ?i, pa_folder = folder, pa_addr = Addr ep \<rparr>)))
      ?Q (\<lambda>_. ?at (\<lambda>_. True))" for r :: "gerr + unit"
  proof (cases r)
    case (Inl e)
    have "hoare (?at (\<lambda>c. \<not> cm_complete c)) (tryM (lib (serve S dst_party (\<lambda>n. (Inr (), set_command ?i complete_command n)))))
        (\<lambda>_. ?at (\<lambda>_. True)) (\<lambda>_. ?at (\<lambda>_. True))"
      by (rule hoare_tryM, rule hoare_pre [OF closed]) (auto elim: building_weaken)
    then show ?thesis unfolding Inl by (simp add: hoare_bindM [OF _ quiet])
  next
    case (Inr u)
    show ?thesis unfolding Inr sum.case by (rule hoare_bindM [OF hoare_libAt [OF finished quiet] result])
  qed
  show ?thesis
    unfolding BeginAppend_def dst_library_def library_fields
  proof (rule hoare_bindM [OF appended])
    fix i
    show "hoare (\<lambda>p. i = ?i \<and> ?at (\<lambda>c. \<not> cm_complete c) p)
        (bindM (tryM (lib (serve S dst_party (\<lambda>n. (Inr (), set_command i (\<lambda>c. if cm_complete c then c else c\<lparr> cm_raw := f_Raw full \<rparr>) n))))) (\<lambda>r.
         case r of
           Inl e \<Rightarrow> bindM (tryM (lib (serve S dst_party (\<lambda>n. (Inr (), set_command i complete_command n)))))
             (\<lambda>_. failAt ''append write to %s: %w'' [] e)
         | Inr _ \<Rightarrow> bindM (libAt ''append close to %s: %w'' [] (serve S dst_party (\<lambda>n. (Inr (), set_command i complete_command n))))
             (\<lambda>_. bindM (field cl_ep) (\<lambda>ep. returnM \<lparr> pa_cmd = i, pa_folder = folder, pa_addr = Addr ep \<rparr>))))
        ?Q (\<lambda>_. ?at (\<lambda>_. True))"
    proof (cases "i = ?i")
      case True
      have "hoare (?at (\<lambda>c. \<not> cm_complete c))
          (tryM (lib (serve S dst_party (\<lambda>n. (Inr (), set_command ?i (\<lambda>c. if cm_complete c then c else c\<lparr> cm_raw := f_Raw full \<rparr>) n)))))
          (\<lambda>r. case r of Inl e \<Rightarrow> ?at (\<lambda>c. \<not> cm_complete c) | Inr u \<Rightarrow> ?at (\<lambda>c. cm_raw c = f_Raw full)) (\<lambda>_. ?at (\<lambda>_. True))"
        by (rule hoare_tryM) (use written in simp)
      then show ?thesis
        unfolding True by (rule hoare_pre [OF hoare_bindM [OF _ after_write]]) simp
    qed (simp add: hoare_def)
  qed
qed

end
