(* ===== verification/Reference.thy ===== *)
theory Reference
  imports ServerContract
begin

text \<open>
  The reference servers, with the clients of the program between them and the reconciler, keep the
  three contracts of the reconciler.
\<close>

section \<open>The view\<close>

definition net_ok :: "site \<Rightarrow> string set \<Rightarrow> net \<Rightarrow> bool" where
  "net_ok S B n \<longleftrightarrow> distinct (box_names n) \<and> [] \<notin> set (box_names n) \<and> set (box_names n) \<subseteq> B \<and> box_keys S n \<subseteq> nt_log n"

definition site_ok :: "site \<Rightarrow> bool" where
  "site_ok S \<longleftrightarrow> distinct (map sf_name (si_source S)) \<and> distinct (map sf_validity (si_source S)) \<and>
     (\<forall>sf \<in> set (si_source S). distinct (map ml_uid (sf_mail sf)))"

definition folder_of :: "site \<Rightarrow> string \<Rightarrow> source_folder option" where
  "folder_of S f = find (\<lambda>sf. sf_name sf = f) (si_source S)"

text \<open>UID \<open>u\<close> of the selected source folder is a message with key \<open>k\<close>.\<close>

definition agrees :: "site \<Rightarrow> net \<Rightarrow> u32 \<Rightarrow> string \<Rightarrow> bool" where
  "agrees S n u k \<longleftrightarrow> (\<exists>f sf m. lo_selected (nt_src n) = Some f \<and> folder_of S f = Some sf \<and> m \<in> set (sf_mail sf) \<and>
     ml_uid m = u \<and> mail_key S m = k)"

definition issued :: "site \<Rightarrow> net \<Rightarrow> pendingAppend \<Rightarrow> string \<Rightarrow> bool" where
  "issued S n h k \<longleftrightarrow> pa_cmd h < length (nt_appends n) \<and> cm_complete (nt_appends n ! pa_cmd h) \<and>
     mail_key S (sent_mail (nt_appends n ! pa_cmd h)) = k"

definition under_way_keys :: "site \<Rightarrow> net \<Rightarrow> string list" where
  "under_way_keys S n = map (\<lambda>c. mail_key S (sent_mail c)) (filter (\<lambda>c. cm_open c \<and> cm_complete c) (nt_appends n))"

definition copies :: "site \<Rightarrow> net \<Rightarrow> string \<Rightarrow> nat" where
  "copies S n k = (if IsRealMessageID k then count S n k + count_list (under_way_keys S n) k else 0)"

definition unanswered :: "net conn \<Rightarrow> pendingAppend set" where
  "unanswered p = {h. pa_cmd h < length (nt_appends (snd p)) \<and> cm_complete (nt_appends (snd p) ! pa_cmd h) \<and>
     cm_open (nt_appends (snd p) ! pa_cmd h) \<and> pa_folder h = cm_folder (nt_appends (snd p) ! pa_cmd h) \<and>
     pa_addr h = Addr (cl_ep (fst p))}"

definition lacks :: "site \<Rightarrow> net \<Rightarrow> string \<Rightarrow> string \<Rightarrow> bool" where
  "lacks S n f k \<longleftrightarrow> k \<notin> mail_key S ` set (in_box f (nt_boxes n))"

abbreviation dst_conn :: "net links \<Rightarrow> net conn" where
  "dst_conn l \<equiv> (ln_dst l, ln_net l)"

abbreviation src_conn :: "net links \<Rightarrow> net conn" where
  "src_conn l \<equiv> (ln_src l, ln_net l)"

definition ref_view :: "site \<Rightarrow> string set \<Rightarrow> net links tally" where
  "ref_view S B =
     \<lparr> v_ok = (\<lambda>l. site_ok S \<and> net_ok S B (ln_net l) \<and> cache_ok (dst_conn l)),
       v_key = (\<lambda>full. mail_key S (full_mail full)),
       v_stored = (\<lambda>l k. k \<in> nt_log (ln_net l)),
       v_command = (\<lambda>l. issued S (ln_net l)),
       v_agree = (\<lambda>l. agrees S (ln_net l)),
       t_copies = (\<lambda>l. copies S (ln_net l)),
       t_open = (\<lambda>l. unanswered (dst_conn l)),
       t_absent = (\<lambda>l. lacks S (ln_net l)) \<rparr>"

lemma ref_view_simps [simp]:
  "v_ok (ref_view S B) l \<longleftrightarrow> site_ok S \<and> net_ok S B (ln_net l) \<and> cache_ok (dst_conn l)"
  "v_key (ref_view S B) full = mail_key S (full_mail full)"
  "v_stored (ref_view S B) l k \<longleftrightarrow> k \<in> nt_log (ln_net l)"
  "v_command (ref_view S B) l = issued S (ln_net l)" "v_agree (ref_view S B) l = agrees S (ln_net l)"
  "t_copies (ref_view S B) l = copies S (ln_net l)" "t_open (ref_view S B) l = unanswered (dst_conn l)"
  "t_absent (ref_view S B) l = lacks S (ln_net l)"
  by (simp_all add: ref_view_def)

section \<open>Calls of the clients, seen from the reconciler\<close>

text \<open>A call to one connection, or to neither.\<close>

definition dst_links :: "(net \<Rightarrow> net \<Rightarrow> bool) \<Rightarrow> net links \<Rightarrow> net links \<Rightarrow> bool" where
  "dst_links Q l l' \<longleftrightarrow> ln_src l' = ln_src l \<and> cached Q (dst_conn l) (dst_conn l')"

definition src_links :: "(net \<Rightarrow> net \<Rightarrow> bool) \<Rightarrow> net links \<Rightarrow> net links \<Rightarrow> bool" where
  "src_links Q l l' \<longleftrightarrow> ln_dst l' = ln_dst l \<and> Q (ln_net l) (ln_net l')"

lemma steps_on_dst: "steps (cached Q) m \<Longrightarrow> steps (dst_links Q) (on_dst m)"
  by (auto simp: steps_def on_dst_def zoomM_def dst_links_def split: option.splits)

lemma steps_on_src: "steps (with_ep Q) m \<Longrightarrow> steps (src_links Q) (on_src m)"
  by (auto simp: steps_def on_src_def zoomM_def src_links_def with_ep_def split: option.splits)

lemma issued_kept: "commands_kept n n' \<Longrightarrow> issued S n h k \<Longrightarrow> issued S n' h k"
  by (auto simp: issued_def commands_kept_def)

lemma net_ok_storing: "storing S n n' \<Longrightarrow> net_ok S B n \<Longrightarrow> net_ok S B n'"
  by (simp add: storing_def net_ok_def)

lemma dst_storing_keeps: "dst_links (storing S) l l' \<Longrightarrow> keeps_all (ref_view S B) l l'"
  using net_ok_storing [of S "ln_net l" "ln_net l'" B]
  by (auto simp: dst_links_def cached_def keeps_all_def keeps_dest_def storing_def agrees_def intro: issued_kept)

lemma moving_copies:
  assumes "moving S n n'" and "distinct (box_names n)"
  shows "copies S n' k \<le> copies S n k"
  using assms by (simp add: copies_def moving_def under_way_keys_def)

lemma dst_moving_shrinks:
  assumes "dst_links (moving S) l l'"
  shows "shrinks (ref_view S B) l l'"
proof -
  have "dst_links (storing S) l l'"
    using assms moving_storing by (auto simp: dst_links_def cached_def)
  then have "keeps_dest (ref_view S B) l l'"
    using dst_storing_keeps by (simp add: keeps_all_def)
  moreover have "copies S (ln_net l') k \<le> copies S (ln_net l) k" if "net_ok S B (ln_net l)" for k
    using assms that by (intro moving_copies) (simp_all add: dst_links_def cached_def net_ok_def)
  moreover have "unanswered (dst_conn l') = unanswered (dst_conn l)"
    using assms by (simp add: dst_links_def cached_def moving_def unanswered_def)
  ultimately show ?thesis by (simp add: shrinks_def)
qed

lemma dst_reading_steady:
  assumes "dst_links on_dest l l'"
  shows "steady (ref_view S B) l l'"
proof -
  have m: "dst_links (moving S) l l'" using assms on_dest_moving by (auto simp: dst_links_def cached_def)
  then have "dst_links (storing S) l l'" using moving_storing by (auto simp: dst_links_def cached_def)
  then have "keeps_all (ref_view S B) l l'" by (rule dst_storing_keeps)
  moreover have "lacks S (ln_net l') f k = lacks S (ln_net l) f k" for f k
    using assms by (simp add: dst_links_def cached_def on_dest_def same_dest_def lacks_def)
  ultimately show ?thesis using dst_moving_shrinks [OF m, of B] by (simp add: steady_def)
qed

lemma source_shrinks:
  assumes "src_links on_source l l'"
  shows "shrinks (ref_view S B) l l'"
proof -
  have d: "nt_dst (ln_net l') = nt_dst (ln_net l)" "same_dest (ln_net l) (ln_net l')" "ln_dst l' = ln_dst l"
    using assms by (simp_all add: src_links_def on_source_def)
  have "net_ok S B (ln_net l') = net_ok S B (ln_net l)" "cache_ok (dst_conn l') = cache_ok (dst_conn l)"
    "issued S (ln_net l') = issued S (ln_net l)" "copies S (ln_net l') = copies S (ln_net l)"
    "unanswered (dst_conn l') = unanswered (dst_conn l)" "nt_log (ln_net l') = nt_log (ln_net l)"
    using d by (simp_all add: same_dest_def net_ok_def box_names_def box_keys_def cache_ok_def issued_def copies_def
        count_def under_way_keys_def unanswered_def fun_eq_iff)
  then show ?thesis by (simp add: shrinks_def keeps_dest_def)
qed

lemma source_steady:
  assumes "src_links in_source l l'"
  shows "steady (ref_view S B) l l'"
proof -
  have s: "shrinks (ref_view S B) l l'"
    by (rule source_shrinks) (use assms in \<open>simp add: src_links_def in_source_def\<close>)
  have "agrees S (ln_net l') = agrees S (ln_net l)" "lacks S (ln_net l') = lacks S (ln_net l)"
    using assms by (simp_all add: src_links_def in_source_def on_source_def same_dest_def agrees_def lacks_def fun_eq_iff)
  then show ?thesis using s by (simp add: steady_def keeps_all_def shrinks_def)
qed

section \<open>The contract of soundness\<close>

abbreviation ref_rec :: "site \<Rightarrow> Mirror \<Rightarrow> string \<Rightarrow> string \<Rightarrow> net links Reconciler" where
  "ref_rec S m a b \<equiv> sessionReconciler (site_platform S) m a b"

lemma ref_rec_rt: "r_rt (ref_rec S m a b) = wire_runtime (site_runtime S)"
  by (simp add: sessionReconciler_def New_def site_platform_def)

lemma ref_rec_src: "r_src (ref_rec S m a b) = wire_source (src_library S)"
  by (simp add: sessionReconciler_def New_def site_platform_def)

lemma ref_rec_dst: "r_dst (ref_rec S m a b) = wire_dest (dst_library S)"
  by (simp add: sessionReconciler_def New_def site_platform_def)

lemma ref_rec_sha: "rt_sha256 (r_rt (ref_rec S m a b)) = si_sha S"
  by (simp add: ref_rec_rt wire_runtime_def site_runtime_def)

lemma ref_rec_progress: "OnProgress (r_opts (ref_rec S m a b)) = Some (onProgress (site_runtime S))"
  by (simp add: sessionReconciler_def New_def sessionOptions_def site_platform_def)

lemmas wires = ref_rec_src ref_rec_dst wire_source_def wire_dest_def

text \<open>The calls that reach neither connection.\<close>

lemma local_links:
  "rt_sql (r_rt (ref_rec S m a b)) l = (r, l') \<Longrightarrow> src_links waiting l l'"
  "rt_ctx (r_rt (ref_rec S m a b)) l = (r, l') \<Longrightarrow> src_links waiting l l'"
  "rt_now (r_rt (ref_rec S m a b)) l = (t, l') \<Longrightarrow> src_links waiting l l'"
  "rt_perm (r_rt (ref_rec S m a b)) l = (p, l') \<Longrightarrow> src_links waiting l l'"
  "OnProgress (r_opts (ref_rec S m a b)) = Some f \<Longrightarrow> src_links waiting l (f phase item n l)"
  using observe_waiting
  by (auto simp: ref_rec_rt ref_rec_progress wire_runtime_def on_net_def site_runtime_def src_links_def onProgress_def
      relations_refl)

lemma src_links_mono: "src_links Q l l' \<Longrightarrow> (\<And>n n'. Q n n' \<Longrightarrow> Q' n n') \<Longrightarrow> src_links Q' l l'"
  by (auto simp: src_links_def)

lemmas local_in_source = local_links [THEN src_links_mono, OF _ waiting_relations(1)]

lemma source_calls:
  "steps (src_links on_source) (src_SelectFolder (r_src (ref_rec S m a b)))"
  "steps (src_links on_source) (src_SelectNamedFolder (r_src (ref_rec S m a b)) name)"
  "steps (src_links in_source) (src_ListFolders (r_src (ref_rec S m a b)))"
  "steps (src_links in_source) (src_SearchAllUIDs (r_src (ref_rec S m a b)))"
  "steps (src_links in_source) (src_FetchMetaRange (r_src (ref_rec S m a b)) start stop)"
  "steps (src_links in_source) (src_FetchFullStream (r_src (ref_rec S m a b)) us)"
  by (simp_all add: wires)
    (intro steps_on_src source.SelectFolder_steps select_source source_plain.ListFolders_steps
      source_plain.SearchAllUIDs_steps source_plain.FetchMetaRange_steps source_plain.streamAll_steps)+

lemma dest_calls:
  "steps (dst_links on_dest) (dst_SelectNamedFolder (r_dst (ref_rec S m a b)) name)"
  "steps (dst_links on_dest) (dst_FetchMetaRange (r_dst (ref_rec S m a b)) start stop)"
  "steps (dst_links on_dest) (dst_SearchMessageIDsIn (r_dst (ref_rec S m a b)) name ids)"
  "steps (dst_links (moving S)) (dst_MoveMessageID (r_dst (ref_rec S m a b)) name to key)"
  "steps (dst_links (moving S)) (dst_MoveUIDs (r_dst (ref_rec S m a b)) name us to)"
  "steps (dst_links (moving S)) (dst_StoreKeywordByMessageID (r_dst (ref_rec S m a b)) name key add kw)"
  "steps (dst_links (moving S)) (dst_StoreKeywordsUIDs (r_dst (ref_rec S m a b)) us fl)"
  "steps (dst_links (storing S)) (dst_AppendTo (r_dst (ref_rec S m a b)) name full fl)"
  "steps (dst_links (storing S)) (dst_BeginAppend (r_dst (ref_rec S m a b)) name full fl)"
  "steps (dst_links (storing S)) (dst_WaitAppend (r_dst (ref_rec S m a b)) h)"
  by (simp_all add: wires)
    (intro steps_on_dst dest.select_Rel dest.FetchMetaRange_steps dest.SearchMessageIDsIn_steps
      moves.MoveMessageID_steps moves.MoveUIDs_steps moves.StoreKeywordByMessageID_steps moves.StoreKeywordsUIDs_steps
      writes.AppendTo_steps writes.BeginAppend_steps writes.WaitAppend_steps)+

lemma links_weaken:
  "dst_links (moving S) l l' \<Longrightarrow> dst_links (storing S) l l'"
  "dst_links on_dest l l' \<Longrightarrow> dst_links (moving S) l l'"
  using moving_storing on_dest_moving by (auto simp: dst_links_def cached_def)

text \<open>What is read from the source and from the destination.\<close>

lemma selected_source_eq:
  "selected_mail S src_party n = (case lo_selected (nt_src n) of
      None \<Rightarrow> []
    | Some f \<Rightarrow> (case folder_of S f of None \<Rightarrow> [] | Some sf \<Rightarrow> visible n sf))"
  by (simp add: selected_mail_def src_party_def folder_of_def split: option.split)

lemma selected_source:
  assumes "ml \<in> set (selected_mail S src_party n)"
  shows "agrees S n (ml_uid ml) (mail_key S ml)"
proof -
  obtain f where f: "lo_selected (nt_src n) = Some f" using assms by (cases "lo_selected (nt_src n)") (simp_all add: selected_source_eq)
  obtain sf where sf: "folder_of S f = Some sf" using assms f by (cases "folder_of S f") (simp_all add: selected_source_eq)
  have "ml \<in> set (visible n sf)" using assms f sf by (simp add: selected_source_eq)
  then show ?thesis using f sf by (auto simp: agrees_def visible_def)
qed

lemma agrees_unique:
  assumes "site_ok S" and "agrees S n u k" and "agrees S n u k'"
  shows "k = k'"
proof -
  obtain f sf m m' where f: "lo_selected (nt_src n) = Some f" "folder_of S f = Some sf"
      "m \<in> set (sf_mail sf)" "ml_uid m = u" "mail_key S m = k" "m' \<in> set (sf_mail sf)" "ml_uid m' = u" "mail_key S m' = k'"
    using assms(2,3) by (auto simp: agrees_def)
  have "sf \<in> set (si_source S)" using f(2) by (auto simp: folder_of_def find_Some_iff)
  then have "distinct (map ml_uid (sf_mail sf))" using assms(1) by (simp add: site_ok_def)
  then show ?thesis using f by (auto simp: distinct_map inj_on_def)
qed

lemma metas_items:
  "map (bufferMeta (library S p fr)) (items (box_contents S p n) us metaOptions) =
     map (mail_meta S) (filter (\<lambda>ml. in_set us (ml_uid ml)) (selected_mail S p n))"
proof -
  have "fb_UID (mail_buffer S opts ml) = ml_uid ml" for opts ml by (simp add: mail_buffer_def)
  then show ?thesis by (simp add: items_def box_contents_def filter_map comp_def meta_of_buffer)
qed

lemma source_metas:
  assumes "src_FetchMetaRange (r_src (ref_rec S m a b)) start stop l = Some (Inr ms, l')"
  shows "set ms = mail_meta S ` {ml \<in> set (selected_mail S src_party (ln_net l')). in_set (UIDRange start stop) (ml_uid ml)}"
proof -
  from assms(1) obtain cl' where "FetchMetaRange (src_library S) start stop (src_conn l) = Some (Inr ms, (cl', ln_net l'))"
    by (auto simp: wires on_src_def zoomM_def split: option.splits)
  then have "ms = sort_key m_UID (map (bufferMeta (src_library S))
      (items (box_contents S src_party (ln_net l')) (UIDRange start stop) metaOptions))"
    unfolding FetchMetaRange_def by (rule src_fetch.fetchMetas_complete)
  then show ?thesis unfolding src_library_def metas_items by simp
qed

lemma source_bodies:
  assumes "src_FetchFullStream (r_src (ref_rec S m a b)) us l = Some (Inr (msgs, e), l')"
  shows "\<exists>n. msgs = take n (bodies (items (box_contents S src_party (ln_net l')) (UIDSetNum us) fullOptions))"
    and "us \<noteq> [] \<Longrightarrow> e = None \<Longrightarrow>
      msgs = bodies (items (box_contents S src_party (ln_net l')) (UIDSetNum us) fullOptions)"
proof -
  from assms obtain cl' where s: "streamAll (src_library S) us (src_conn l) = Some (Inr (msgs, e), (cl', ln_net l'))"
    by (auto simp: wires on_src_def zoomM_def split: option.splits)
  show "\<exists>n. msgs = take n (bodies (items (box_contents S src_party (ln_net l')) (UIDSetNum us) fullOptions))"
  proof (cases "us = []")
    case True
    then have "msgs = []" using s by (auto simp: streamAll_def FetchFullStream_def returnM_def)
    then show ?thesis by (intro exI [of _ 0]) simp
  qed (use src_fetch.streamAll_delivers [OF s] in auto)
  show "us \<noteq> [] \<Longrightarrow> e = None \<Longrightarrow>
      msgs = bodies (items (box_contents S src_party (ln_net l')) (UIDSetNum us) fullOptions)"
    using src_fetch.streamAll_delivers [OF s] by auto
qed

lemma bodies_items:
  "bodies (items (box_contents S p n) us fullOptions) =
     map (\<lambda>ml. \<lparr> f_UID = ml_uid ml, f_Raw = ml_raw ml, f_Flags = ml_flags ml, f_InternalDate = ml_date ml \<rparr>)
       (filter (\<lambda>ml. ml_raw ml \<noteq> [] \<and> in_set us (ml_uid ml)) (selected_mail S p n))"
proof -
  have "fb_FindBodySection (mail_buffer S fullOptions ml) fullSection = ml_raw ml"
    and "fb_UID (mail_buffer S fullOptions ml) = ml_uid ml" for ml
    by (simp_all add: mail_buffer_def fullOptions_def fullSection_def metaSection_def)
  then show ?thesis
    by (simp add: bodies_def items_def box_contents_def filter_map comp_def body_of_buffer conj_commute)
qed

lemma stream_mail:
  assumes "src_FetchFullStream (r_src (ref_rec S m a b)) us l = Some (Inr (msgs, e), l')" and "full \<in> set msgs"
  obtains ml where "ml \<in> set (selected_mail S src_party (ln_net l'))" and "f_UID full = ml_uid ml"
    and "mail_key S (full_mail full) = mail_key S ml"
proof -
  obtain ml where "ml \<in> set (selected_mail S src_party (ln_net l'))"
      and full: "full = \<lparr> f_UID = ml_uid ml, f_Raw = ml_raw ml, f_Flags = ml_flags ml, f_InternalDate = ml_date ml \<rparr>"
    using source_bodies(1) [OF assms(1)] assms(2) by (auto simp: bodies_items dest!: in_set_takeD)
  moreover have "mail_key S (full_mail full) = mail_key S ml"
    by (rule mail_key_cong) (simp_all add: full full_mail_def)
  ultimately show ?thesis using that by simp
qed

lemma selected_dest_keys: "mail_key S ` set (selected_mail S dst_party n) \<subseteq> box_keys S n"
proof (cases "lo_selected (nt_dst n)")
  case (Some f)
  then show ?thesis using selected_dest [OF Some, of S] in_box_keys [of S f "nt_boxes n"] by (simp add: box_keys_def)
qed (simp add: selected_mail_def dst_party_def)

lemma dest_metas:
  assumes "dst_FetchMetaRange (r_dst (ref_rec S m a b)) start stop l = Some (Inr ms, l')" and "x \<in> set ms"
  shows "DedupKey (si_sha S) x \<in> box_keys S (ln_net l')"
proof -
  from assms(1) obtain cl' where "FetchMetaRange (dst_library S) start stop (dst_conn l) = Some (Inr ms, (cl', ln_net l'))"
    by (auto simp: wires on_dst_def zoomM_def split: option.splits)
  then have "ms = sort_key m_UID (map (bufferMeta (dst_library S))
      (items (box_contents S dst_party (ln_net l')) (UIDRange start stop) metaOptions))"
    unfolding FetchMetaRange_def by (rule dst_search.fetchMetas_complete)
  then have "x \<in> mail_meta S ` set (selected_mail S dst_party (ln_net l'))"
    using assms(2) unfolding dst_library_def metas_items by auto
  then show ?thesis using selected_dest_keys [of S "ln_net l'"] by auto
qed

lemma dest_message_ids:
  "message_ids (dst_library S) (box_contents S dst_party n) =
     {k. k \<noteq> [] \<and> (\<exists>ml \<in> set (selected_mail S dst_party n). m_MessageID (mail_meta S ml) = k)}"
proof -
  have "map (bufferMeta (dst_library S)) (box_contents S dst_party n metaOptions) = map (mail_meta S) (selected_mail S dst_party n)"
    by (simp add: box_contents_def dst_library_def meta_of_buffer)
  then show ?thesis by (auto simp: message_ids_def metaIDs_def)
qed

lemma searchRound_dead:
  assumes "lo_dead (nt_dst (snd p))" and "rest \<noteq> []"
  shows "searchRound (dst_library S) (rest, found) p \<noteq> Some (Inr r, p')"
proof
  assume run: "searchRound (dst_library S) (rest, found) p = Some (Inr r, p')"
  have s: "serve S dst_party act n = Some (Inl lost, observe S n)" if "lo_dead (nt_dst n)" for act :: "net \<Rightarrow> (gerr + u32 list) \<times> net" and n
    using that waiting_stays [OF observe_waiting, of n S] observe_waiting [of n S]
    by (simp add: serve_def Let_def dst_party_def waiting_def)
  have "\<not> isBadResponse lost" by (simp add: isBadResponse_def lost_def)
  then show False
    using run assms s
    by (auto simp: searchRound_def searchAnswer_def field_def failAt_def ofOption_def lib_def zoomM_def tryM_def getM_def
        throwM_def bindM_def dst_library_def split: option.splits)
qed

lemma search_alive:
  assumes "untilM (searchRound (dst_library S)) (ids, {}) p = Some (Inr found, p')" and "ids \<noteq> []"
  shows "\<not> lo_dead (nt_dst (snd p))"
  using assms searchRound_dead [OF _ assms(2), of p S "{}"]
  by (subst (asm) untilM_unfold) (force elim!: bindM_InrE)

lemma in_box_other: "f \<notin> set (map fst bs) \<Longrightarrow> in_box f bs = []"
  by (simp add: in_box_def map_of_eq_None_iff [THEN iffD2])

lemma ensureSelected_selects:
  assumes "ensureSelected L name p = Some (Inr (), p')"
  shows "cl_selected (fst p') = name"
  using assms
  by (auto simp: ensureSelected_def field_def SelectNamedFolder_def lib_def assign_def failAt_def prog_defs
      split: if_splits option.splits sum.splits)

lemma dest_search:
  assumes run: "dst_SearchMessageIDsIn (r_dst (ref_rec S m a b)) name ids l = Some (Inr found, l')"
    and ok: "cache_ok (dst_conn l)" and names: "[] \<notin> set (box_names (ln_net l))"
  shows "found \<subseteq> box_keys S (ln_net l')"
    and "k \<in> set ids \<Longrightarrow> IsRealMessageID k \<Longrightarrow> k \<notin> found \<Longrightarrow> lacks S (ln_net l') name k"
proof -
  from run have s: "SearchMessageIDsIn (dst_library S) name ids (dst_conn l) = Some (Inr found, dst_conn l')"
    by (auto simp: wires on_dst_def zoomM_def split: option.splits)
  have "found \<subseteq> box_keys S (ln_net l') \<and>
    (k \<in> set ids \<longrightarrow> IsRealMessageID k \<longrightarrow> k \<notin> found \<longrightarrow> lacks S (ln_net l') name k)"
  proof (cases "ids = []")
    case True
    then show ?thesis using s by (simp add: SearchMessageIDsIn_def returnM_def)
  next
    case False
    then obtain p1 where e: "ensureSelected (dst_library S) name (dst_conn l) = Some (Inr (), p1)"
      and u: "untilM (searchRound (dst_library S)) (ids, {}) p1 = Some (Inr found, dst_conn l')"
      using s by (auto simp: SearchMessageIDsIn_def elim!: bindM_InrE)
    have 1: "cached on_dest (dst_conn l) p1" by (rule stepsD [OF dest.ensureSelected_steps e])
    have 2: "cached on_dest (dst_conn l) (dst_conn l')" by (rule stepsD [OF dest.SearchMessageIDsIn_steps s])
    have boxes: "nt_boxes (snd p1) = nt_boxes (ln_net l')" "nt_boxes (ln_net l) = nt_boxes (ln_net l')"
      using 1 2 by (simp_all add: cached_def on_dest_def same_dest_def)
    note found = dst_search.search_loop(2,3) [OF u, unfolded dest_message_ids]
    have "k \<in> box_keys S (ln_net l')" if kf: "k \<in> found" for k
    proof -
      obtain ml where "k \<noteq> []" "ml \<in> set (selected_mail S dst_party (snd p1))" "m_MessageID (mail_meta S ml) = k"
        using found(1) kf by blast
      then have "k \<in> mail_key S ` set (selected_mail S dst_party (snd p1))" using mail_key_id [of S ml] by force
      then show ?thesis using selected_dest_keys [of S "snd p1"] boxes by (auto simp: box_keys_def)
    qed
    moreover have "k \<in> found" if k: "k \<in> set ids" "IsRealMessageID k" and there: "\<not> lacks S (ln_net l') name k"
    proof -
      obtain ml where ml: "ml \<in> set (in_box name (nt_boxes (ln_net l')))" "mail_key S ml = k"
        using there by (auto simp: lacks_def)
      then have "name \<in> set (box_names (ln_net l))"
        using in_box_other [of name "nt_boxes (ln_net l')"] by (force simp: box_names_def boxes(2))
      then have "name \<noteq> []" using names by auto
      moreover have "cl_selected (fst p1) = name" by (rule ensureSelected_selects [OF e])
      moreover have "cache_ok p1" using 1 ok by (simp add: cached_def)
      ultimately have "lo_selected (nt_dst (snd p1)) = Some name"
        using search_alive [OF u False] by (simp add: cache_ok_def)
      then have "ml \<in> set (selected_mail S dst_party (snd p1))" using ml selected_dest boxes by simp
      moreover have "m_MessageID (mail_meta S ml) = k" "k \<noteq> []" using real_mail_key [of S ml] k(2) ml(2) by simp_all
      ultimately show ?thesis using found(2) k(1) by blast
    qed
    ultimately show ?thesis by blast
  qed
  then show "found \<subseteq> box_keys S (ln_net l')"
    and "k \<in> set ids \<Longrightarrow> IsRealMessageID k \<Longrightarrow> k \<notin> found \<Longrightarrow> lacks S (ln_net l') name k" by blast+
qed

section \<open>Appending\<close>

lemma sent_full:
  assumes "building n0 folder full cm_complete n"
  obtains c where "nt_appends n = nt_appends n0 @ [c]" and "cm_folder c = folder" and "cm_open c" and "cm_complete c"
    and "mail_key S (sent_mail c) = mail_key S (full_mail full)"
proof -
  from assms obtain c where c: "nt_appends n = nt_appends n0 @ [c]" "cm_folder c = folder" "cm_open c" "cm_complete c"
      "cm_raw c = f_Raw full" "(case cm_date c of None \<Rightarrow> zero_time | Some t \<Rightarrow> t) = f_InternalDate full"
    by (auto simp: building_def)
  have "mail_key S (sent_mail c) = mail_key S (full_mail full)"
    by (rule mail_key_cong) (simp_all add: sent_mail_def full_mail_def c)
  then show ?thesis using that c by blast
qed

lemma dest_begin:
  assumes "dst_BeginAppend (r_dst (ref_rec S m a b)) name full fl l = Some (r, l')"
  shows "ln_dst l' = ln_dst l" and "building (ln_net l) name full (\<lambda>_. True) (ln_net l')"
    and "r = Inr h \<Longrightarrow> building (ln_net l) name full cm_complete (ln_net l') \<and>
      h = \<lparr> pa_cmd = length (nt_appends (ln_net l)), pa_folder = name, pa_addr = Addr (cl_ep (ln_dst l)) \<rparr>"
proof -
  let ?n = "ln_net l"
  from assms have s: "BeginAppend (dst_library S) name full fl (ln_dst l, ?n) = Some (r, dst_conn l')"
    by (auto simp: wires on_dst_def zoomM_def split: option.splits)
  note h = hoareD [OF hoare_BeginAppend [of "ln_dst l" ?n S name full fl], of "(ln_dst l, ?n)"]
  show "ln_dst l' = ln_dst l" and "building ?n name full (\<lambda>_. True) (ln_net l')"
    using h s by (auto split: sum.splits elim: building_weaken)
  show "building ?n name full cm_complete (ln_net l') \<and>
      h = \<lparr> pa_cmd = length (nt_appends ?n), pa_folder = name, pa_addr = Addr (cl_ep (ln_dst l)) \<rparr>" if "r = Inr h"
    using h s that by simp
qed

lemma copies_building:
  assumes "building n0 folder full P n"
  shows "copies S n k \<le> copies S n0 k + (if k = mail_key S (full_mail full) then 1 else 0)"
proof -
  from assms obtain c where c: "nt_appends n = nt_appends n0 @ [c]" "nt_boxes n = nt_boxes n0"
      "cm_complete c \<longrightarrow> cm_raw c = f_Raw full" "(case cm_date c of None \<Rightarrow> zero_time | Some t \<Rightarrow> t) = f_InternalDate full"
    by (auto simp: building_def)
  have "cm_complete c \<Longrightarrow> mail_key S (sent_mail c) = mail_key S (full_mail full)"
    by (rule mail_key_cong) (use c in \<open>simp_all add: sent_mail_def full_mail_def\<close>)
  then show ?thesis using c by (simp add: copies_def count_def under_way_keys_def)
qed

lemma unanswered_building:
  assumes "building n0 folder full cm_complete n" and "h = \<lparr> pa_cmd = length (nt_appends n0), pa_folder = folder, pa_addr = Addr (cl_ep cl) \<rparr>"
  shows "h \<notin> unanswered (cl, n0)" and "unanswered (cl, n) = insert h (unanswered (cl, n0))"
    and "issued S n h (mail_key S (full_mail full))"
proof -
  obtain c where c: "nt_appends n = nt_appends n0 @ [c]" "cm_folder c = folder" "cm_open c" "cm_complete c"
    "mail_key S (sent_mail c) = mail_key S (full_mail full)" by (rule sent_full [OF assms(1)])
  show "h \<notin> unanswered (cl, n0)" by (simp add: unanswered_def assms(2))
  show "unanswered (cl, n) = insert h (unanswered (cl, n0))"
    using c by (auto simp: unanswered_def assms(2) nth_append less_Suc_eq)
  show "issued S n h (mail_key S (full_mail full))"
    using c by (simp add: issued_def assms(2))
qed

text \<open>The answer of the server to an append.\<close>

lemma count_list_remove:
  "i < length xs \<Longrightarrow> P (xs ! i) \<Longrightarrow> \<not> P y \<Longrightarrow>
   count_list (map g (filter P (xs[i := y]))) k + (if g (xs ! i) = k then 1 else 0) = count_list (map g (filter P xs)) k"
proof (induction xs arbitrary: i)
  case (Cons x xs)
  show ?case
  proof (cases i)
    case (Suc j)
    then show ?thesis using Cons.IH [of j] Cons.prems by (simp split: if_splits)
  qed (use Cons.prems in simp)
qed simp

lemma answer_facts:
  assumes "i < length (nt_appends n)" and "cm_complete (nt_appends n ! i)" and "cm_open (nt_appends n ! i)"
  shows "count_list (under_way_keys S (answer i n)) k +
      (if mail_key S (sent_mail (nt_appends n ! i)) = k then 1 else 0) = count_list (under_way_keys S n) k"
    and "unanswered (cl, answer i n) = unanswered (cl, n) - {h. pa_cmd h = i}"
proof -
  let ?c = "nt_appends n ! i"
  have a: "nt_appends (answer i n) = (nt_appends n)[i := ?c\<lparr> cm_open := False \<rparr>]"
    using assms(1) by (simp add: answer_def set_command_def)
  show "count_list (under_way_keys S (answer i n)) k + (if mail_key S (sent_mail ?c) = k then 1 else 0) =
      count_list (under_way_keys S n) k"
    unfolding under_way_keys_def a by (rule count_list_remove) (use assms in simp_all)
  show "unanswered (cl, answer i n) = unanswered (cl, n) - {h. pa_cmd h = i}"
    using assms(1) by (auto simp: unanswered_def a nth_list_update split: if_splits)
qed

lemma deliver_copies:
  assumes "i < length (nt_appends n)" and "cm_complete (nt_appends n ! i)" and "cm_open (nt_appends n ! i)"
    and "distinct (box_names n)"
  shows "copies S (deliver S (nt_appends n ! i) (answer i n)) k \<le> copies S n k"
proof (cases "IsRealMessageID k")
  case True
  let ?c = "nt_appends n ! i"
  let ?m = "stored_mail S (answer i n) ?c"
  have boxes: "nt_boxes (answer i n) = nt_boxes n" by (simp add: answer_def)
  have same: "mail_key S ?m = k \<longleftrightarrow> mail_key S (sent_mail ?c) = k"
    using True real_key_same [of S ?m "sent_mail ?c"] real_key_same [of S "sent_mail ?c" ?m]
    by (auto simp: stored_mail_def sent_mail_def)
  have "count S (deliver S ?c (answer i n)) k \<le> count S n k + (if mail_key S ?m = k then 1 else 0)"
    using add_mail_count [of "nt_boxes n" S "cm_folder ?c" "[?m]" k] assms(4)
    by (simp add: count_def deliver_def boxes box_names_def split: if_splits)
  moreover have "under_way_keys S (deliver S ?c (answer i n)) = under_way_keys S (answer i n)"
    by (simp add: under_way_keys_def deliver_def)
  ultimately show ?thesis
    using True answer_facts(1) [OF assms(1-3), of S k] same by (simp add: copies_def split: if_splits)
qed (simp add: copies_def)

lemma waiting_same:
  "waiting n n' \<Longrightarrow> copies S n' = copies S n" "waiting n n' \<Longrightarrow> unanswered (cl, n') = unanswered (cl, n)"
  "waiting n n' \<Longrightarrow> box_names n' = box_names n" "waiting n n' \<Longrightarrow> nt_appends n' = nt_appends n"
  by (simp_all add: waiting_def same_dest_def copies_def count_def under_way_keys_def unanswered_def box_names_def fun_eq_iff)

lemma kill_same [simp]:
  "copies S (kill dst_party n) = copies S n" "unanswered (cl, kill dst_party n) = unanswered (cl, n)"
  "nt_log (kill dst_party n) = nt_log n"
  by (simp_all add: kill_def dst_party_def copies_def count_def under_way_keys_def unanswered_def fun_eq_iff)

lemma unanswered_deliver [simp]: "unanswered (cl, deliver S c n) = unanswered (cl, n)"
  by (simp add: unanswered_def deliver_def)

text \<open>A handle of an append that has no answer is determined by its command.\<close>

lemma unanswered_inj: "h \<in> unanswered p \<Longrightarrow> unanswered p - {h'. pa_cmd h' = pa_cmd h} = unanswered p - {h}"
  by (auto simp: unanswered_def intro: pendingAppend.equality)

lemma dest_wait:
  assumes run: "dst_WaitAppend (r_dst (ref_rec S m a b)) h l = Some (r, l')" and ok: "distinct (box_names (ln_net l))"
  shows "copies S (ln_net l') k \<le> copies S (ln_net l) k"
    and "r = Inr () \<Longrightarrow> h \<in> unanswered (dst_conn l) \<Longrightarrow> unanswered (dst_conn l') = unanswered (dst_conn l) - {h}"
    and "r = Inr () \<Longrightarrow> issued S (ln_net l) h k \<Longrightarrow> k \<in> nt_log (ln_net l')"
    and "r = Inl e \<Longrightarrow> isServerReject e \<Longrightarrow> h \<in> unanswered (dst_conn l) \<Longrightarrow>
      unanswered (dst_conn l') = unanswered (dst_conn l) - {h} \<and>
      (IsRealMessageID k \<longrightarrow> issued S (ln_net l) h k \<longrightarrow> copies S (ln_net l') k < copies S (ln_net l) k)"
proof -
  let ?n = "ln_net l" and ?i = "pa_cmd h"
  let ?n1 = "observe S ?n" and ?c = "nt_appends ?n ! ?i"
  from run obtain r0 where s: "do_wait S ?i ?n = Some (r0, ln_net l')" and r: "r = (case r0 of Inl e \<Rightarrow>
      Inl (Wrap ''append to %q on %s: %w'' [pa_folder h, pa_addr h] e) | Inr a \<Rightarrow> Inr a)" and cl: "ln_dst l' = ln_dst l"
    by (auto simp: wires on_dst_def zoomM_def WaitAppend_def wrapM_def lib_def dst_library_def split: option.splits sum.splits)
  note w = observe_waiting [of ?n S]
  note same = waiting_same [OF w]
  consider (quiet) e where "r0 = Inl e" "\<not> isServerReject e" "ln_net l' = ?n1 \<or> ln_net l' = kill dst_party ?n1"
    | (answered) e where "r0 = Inl e" "ln_net l' = answer ?i ?n1" "?i < length (nt_appends ?n)" "cm_complete ?c" "cm_open ?c"
    | (stored) "r0 = Inr () \<and> ln_net l' = deliver S ?c (answer ?i ?n1) \<or>
        r0 = Inl lost \<and> ln_net l' = kill dst_party (deliver S ?c (answer ?i ?n1))"
      "?i < length (nt_appends ?n)" "cm_complete ?c" "cm_open ?c"
    using do_wait_cases [OF s] by blast
  then have "copies S (ln_net l') k \<le> copies S ?n k \<and>
    (r = Inr () \<longrightarrow> h \<in> unanswered (dst_conn l) \<longrightarrow> unanswered (dst_conn l') = unanswered (dst_conn l) - {h}) \<and>
    (r = Inr () \<longrightarrow> issued S ?n h k \<longrightarrow> k \<in> nt_log (ln_net l')) \<and>
    (r = Inl e \<longrightarrow> isServerReject e \<longrightarrow> h \<in> unanswered (dst_conn l) \<longrightarrow>
      unanswered (dst_conn l') = unanswered (dst_conn l) - {h} \<and>
      (IsRealMessageID k \<longrightarrow> issued S ?n h k \<longrightarrow> copies S (ln_net l') k < copies S ?n k))"
  proof cases
    case (quiet e')
    then have "copies S (ln_net l') k \<le> copies S ?n k" using same(1) by auto
    then show ?thesis using quiet(1,2) r by (auto simp: isServerReject_def)
  next
    case (answered e')
    note c = answer_facts [of ?i ?n1, unfolded same(4), OF answered(3-5)]
    have "copies S (answer ?i ?n1) k + (if IsRealMessageID k \<and> mail_key S (sent_mail ?c) = k then 1 else 0) = copies S ?n1 k"
      using c(1) [of S k] by (simp add: copies_def count_def answer_def split: if_splits)
    then have "copies S (ln_net l') k + (if IsRealMessageID k \<and> mail_key S (sent_mail ?c) = k then 1 else 0) = copies S ?n k"
      using same(1) [of S] answered(2) by simp
    moreover have "unanswered (dst_conn l') = unanswered (dst_conn l) - {h'. pa_cmd h' = ?i}"
      using c(2) same(2) by (simp add: cl answered(2))
    ultimately show ?thesis
      using unanswered_inj [of h "dst_conn l"] answered(1) r by (auto simp: issued_def split: if_splits)
  next
    case stored
    have d: "distinct (box_names ?n1)" using ok same(3) by simp
    have "copies S (deliver S ?c (answer ?i ?n1)) k \<le> copies S ?n k"
      using deliver_copies [of ?i ?n1 S k, unfolded same(4), OF stored(2-4) d] same(1) by simp
    moreover have "unanswered (dst_conn l') = unanswered (dst_conn l) - {h'. pa_cmd h' = ?i}"
      using stored(1) answer_facts(2) [of ?i ?n1, unfolded same(4), OF stored(2-4)] same(2) by (auto simp: cl)
    moreover have "mail_key S (sent_mail ?c) \<in> nt_log (deliver S ?c (answer ?i ?n1))"
      by (simp add: deliver_def)
    moreover have "\<not> isServerReject (Wrap fmt args lost)" for fmt args by (simp add: isServerReject_def lost_def)
    moreover have "r = Inr () \<and> ln_net l' = deliver S ?c (answer ?i ?n1) \<or>
        r = Inl (Wrap ''append to %q on %s: %w'' [pa_folder h, pa_addr h] lost) \<and>
        ln_net l' = kill dst_party (deliver S ?c (answer ?i ?n1))"
      using stored(1) r by (elim disjE conjE) (simp_all only: sum.case simp_thms)
    ultimately show ?thesis
      using unanswered_inj [of h "dst_conn l"] by (elim disjE conjE) (simp_all add: issued_def, blast+)
  qed
  then show "copies S (ln_net l') k \<le> copies S ?n k"
    and "r = Inr () \<Longrightarrow> h \<in> unanswered (dst_conn l) \<Longrightarrow> unanswered (dst_conn l') = unanswered (dst_conn l) - {h}"
    and "r = Inr () \<Longrightarrow> issued S ?n h k \<Longrightarrow> k \<in> nt_log (ln_net l')"
    and "r = Inl e \<Longrightarrow> isServerReject e \<Longrightarrow> h \<in> unanswered (dst_conn l) \<Longrightarrow>
      unanswered (dst_conn l') = unanswered (dst_conn l) - {h} \<and>
      (IsRealMessageID k \<longrightarrow> issued S ?n h k \<longrightarrow> copies S (ln_net l') k < copies S ?n k)"
    by blast+
qed

section \<open>The contracts\<close>

definition ref_tally :: "site \<Rightarrow> Mirror \<Rightarrow> string \<Rightarrow> string \<Rightarrow> net links tally" where
  "ref_tally S m a b = ref_view S (set (destBucketFolders (ref_rec S m a b)))"

lemma steady_keeps: "steady V l l' \<Longrightarrow> keeps_all V l l'"
  by (simp add: steady_def)

lemma shrinks_keeps: "shrinks V l l' \<Longrightarrow> keeps_dest V l l'"
  by (simp add: shrinks_def)

lemmas local_steady = local_in_source [THEN source_steady]

lemma source_calls_steady:
  "steps (steady (ref_view S B)) (src_ListFolders (r_src (ref_rec S m a b)))"
  "steps (steady (ref_view S B)) (src_SearchAllUIDs (r_src (ref_rec S m a b)))"
  "steps (steady (ref_view S B)) (src_FetchMetaRange (r_src (ref_rec S m a b)) start stop)"
  "steps (steady (ref_view S B)) (src_FetchFullStream (r_src (ref_rec S m a b)) us)"
  by (rule steps_weaken [OF source_calls(3) source_steady] steps_weaken [OF source_calls(4) source_steady]
      steps_weaken [OF source_calls(5) source_steady] steps_weaken [OF source_calls(6) source_steady], assumption)+

lemma source_calls_shrink:
  "steps (shrinks (ref_view S B)) (src_SelectFolder (r_src (ref_rec S m a b)))"
  "steps (shrinks (ref_view S B)) (src_SelectNamedFolder (r_src (ref_rec S m a b)) name)"
  by (rule steps_weaken [OF source_calls(1) source_shrinks] steps_weaken [OF source_calls(2) source_shrinks], assumption)+

lemma dest_calls_steady:
  "steps (steady (ref_view S B)) (dst_SelectNamedFolder (r_dst (ref_rec S m a b)) name)"
  "steps (steady (ref_view S B)) (dst_FetchMetaRange (r_dst (ref_rec S m a b)) start stop)"
  "steps (steady (ref_view S B)) (dst_SearchMessageIDsIn (r_dst (ref_rec S m a b)) name ids)"
  by (rule steps_weaken [OF dest_calls(1) dst_reading_steady] steps_weaken [OF dest_calls(2) dst_reading_steady]
      steps_weaken [OF dest_calls(3) dst_reading_steady], assumption)+

lemma dest_calls_shrink:
  "steps (shrinks (ref_view S B)) (dst_MoveMessageID (r_dst (ref_rec S m a b)) name to key)"
  "steps (shrinks (ref_view S B)) (dst_MoveUIDs (r_dst (ref_rec S m a b)) name us to)"
  "steps (shrinks (ref_view S B)) (dst_StoreKeywordByMessageID (r_dst (ref_rec S m a b)) name key add kw)"
  "steps (shrinks (ref_view S B)) (dst_StoreKeywordsUIDs (r_dst (ref_rec S m a b)) us fl)"
  by (rule steps_weaken [OF dest_calls(4) dst_moving_shrinks] steps_weaken [OF dest_calls(5) dst_moving_shrinks]
      steps_weaken [OF dest_calls(6) dst_moving_shrinks] steps_weaken [OF dest_calls(7) dst_moving_shrinks], assumption)+

lemma dest_calls_keep:
  "steps (keeps_all (ref_view S B)) (dst_MoveMessageID (r_dst (ref_rec S m a b)) name to key)"
  "steps (keeps_all (ref_view S B)) (dst_MoveUIDs (r_dst (ref_rec S m a b)) name us to)"
  "steps (keeps_all (ref_view S B)) (dst_StoreKeywordByMessageID (r_dst (ref_rec S m a b)) name key add kw)"
  "steps (keeps_all (ref_view S B)) (dst_StoreKeywordsUIDs (r_dst (ref_rec S m a b)) us fl)"
  "steps (keeps_all (ref_view S B)) (dst_AppendTo (r_dst (ref_rec S m a b)) name full fl)"
  "steps (keeps_all (ref_view S B)) (dst_BeginAppend (r_dst (ref_rec S m a b)) name full fl)"
  "steps (keeps_all (ref_view S B)) (dst_WaitAppend (r_dst (ref_rec S m a b)) h)"
  by (rule steps_weaken [OF dest_calls(4) dst_storing_keeps [OF links_weaken(1)]]
      steps_weaken [OF dest_calls(5) dst_storing_keeps [OF links_weaken(1)]]
      steps_weaken [OF dest_calls(6) dst_storing_keeps [OF links_weaken(1)]]
      steps_weaken [OF dest_calls(7) dst_storing_keeps [OF links_weaken(1)]]
      steps_weaken [OF dest_calls(8) dst_storing_keeps] steps_weaken [OF dest_calls(9) dst_storing_keeps]
      steps_weaken [OF dest_calls(10) dst_storing_keeps], assumption)+

lemma AppendTo_split:
  assumes "dst_AppendTo (r_dst (ref_rec S m a b)) name full fl l = Some (r, l')"
  shows "(\<exists>e. dst_BeginAppend (r_dst (ref_rec S m a b)) name full fl l = Some (Inl e, l') \<and> r = Inl e) \<or>
    (\<exists>h l1. dst_BeginAppend (r_dst (ref_rec S m a b)) name full fl l = Some (Inr h, l1) \<and>
       dst_WaitAppend (r_dst (ref_rec S m a b)) h l1 = Some (r, l'))"
proof -
  from assms obtain p' where run: "AppendTo (dst_library S) name full fl (dst_conn l) = Some (r, p')"
    and l': "l' = l\<lparr> ln_dst := fst p', ln_net := snd p' \<rparr>"
    by (auto simp: wires on_dst_def zoomM_def split: option.splits)
  show ?thesis
  proof (cases "BeginAppend (dst_library S) name full fl (dst_conn l)")
    case None
    then show ?thesis using run by (simp add: AppendTo_def bindM_def)
  next
    case (Some x)
    obtain q p1 where x: "x = (q, p1)" by (cases x)
    show ?thesis
    proof (cases q)
      case (Inl e)
      then show ?thesis using run Some x l' by (auto simp: AppendTo_def bindM_def wires on_dst_def zoomM_def)
    next
      case (Inr h)
      let ?l1 = "l\<lparr> ln_dst := fst p1, ln_net := snd p1 \<rparr>"
      have "dst_BeginAppend (r_dst (ref_rec S m a b)) name full fl l = Some (Inr h, ?l1)"
        using Some x Inr by (simp add: wires on_dst_def zoomM_def)
      moreover have "dst_WaitAppend (r_dst (ref_rec S m a b)) h ?l1 = Some (r, l')"
        using run Some x Inr l' by (simp add: AppendTo_def bindM_def wires on_dst_def zoomM_def)
      ultimately show ?thesis by blast
    qed
  qed
qed

lemma keeps_ok_net: "keeps_all (ref_view S B) l l' \<Longrightarrow> v_ok (ref_view S B) l \<Longrightarrow> net_ok S B (ln_net l')"
  by (simp add: keeps_all_def keeps_dest_def)

lemma begin_issues:
  assumes "dst_BeginAppend (r_dst (ref_rec S m a b)) name full fl l = Some (Inr h, l')"
  shows "issued S (ln_net l') h (mail_key S (full_mail full))"
  using unanswered_building(3) dest_begin(3) [OF assms refl] by blast

lemma append_logs:
  assumes "dst_AppendTo (r_dst (ref_rec S m a b)) name full fl l = Some (Inr (), l')" and "v_ok (ref_view S B) l"
  shows "mail_key S (full_mail full) \<in> nt_log (ln_net l')"
proof -
  obtain h l1 where b: "dst_BeginAppend (r_dst (ref_rec S m a b)) name full fl l = Some (Inr h, l1)"
    and w: "dst_WaitAppend (r_dst (ref_rec S m a b)) h l1 = Some (Inr (), l')"
    using AppendTo_split [OF assms(1)] by blast
  have "net_ok S B (ln_net l1)"
    by (rule keeps_ok_net [OF stepsD [OF dest_calls_keep(6) b] assms(2)])
  then have "distinct (box_names (ln_net l1))" by (simp add: net_ok_def)
  then show ?thesis using dest_wait(3) [OF w _ refl begin_issues [OF b]] by blast
qed

interpretation ref_sound: truthful_servers "sessionReconciler (site_platform S) m a b" "ref_tally S m a b" for S m a b
proof unfold_locales
  fix l l' :: "net links" and r
  assume "rt_sql (r_rt (ref_rec S m a b)) l = (r, l')"
  then show "keeps_all (ref_tally S m a b) l l'"
    unfolding ref_tally_def by (rule steady_keeps [OF local_steady(1)])
next
  fix l l' :: "net links" and r
  assume "rt_ctx (r_rt (ref_rec S m a b)) l = (r, l')"
  then show "keeps_all (ref_tally S m a b) l l'"
    unfolding ref_tally_def by (rule steady_keeps [OF local_steady(2)])
next
  fix l l' :: "net links" and r
  assume "rt_now (r_rt (ref_rec S m a b)) l = (r, l')"
  then show "keeps_all (ref_tally S m a b) l l'"
    unfolding ref_tally_def by (rule steady_keeps [OF local_steady(3)])
next
  fix l l' :: "net links" and r
  assume "rt_perm (r_rt (ref_rec S m a b)) l = (r, l')"
  then show "keeps_all (ref_tally S m a b) l l'"
    unfolding ref_tally_def by (rule steady_keeps [OF local_steady(4)])
next
  fix l :: "net links" and f phase item i
  assume "OnProgress (r_opts (ref_rec S m a b)) = Some f"
  then show "keeps_all (ref_tally S m a b) l (f phase item i l)"
    unfolding ref_tally_def by (rule steady_keeps [OF local_steady(5)])
next
  fix start stop l ms l' x
  assume "v_ok (ref_tally S m a b) l"
    and f: "src_FetchMetaRange (r_src (ref_rec S m a b)) start stop l = Some (Inr ms, l')" and x: "x \<in> set ms"
  show "v_agree (ref_tally S m a b) l' (m_UID x) (DedupKey (rt_sha256 (r_rt (ref_rec S m a b))) x)"
    using x unfolding source_metas [OF f] by (auto simp: ref_tally_def ref_rec_sha intro: selected_source)
next
  fix us l msgs e l' full k
  assume ok: "v_ok (ref_tally S m a b) l"
    and f: "src_FetchFullStream (r_src (ref_rec S m a b)) us l = Some (Inr (msgs, e), l')" and x: "full \<in> set msgs"
    and k: "v_agree (ref_tally S m a b) l' (f_UID full) k"
  obtain ml where ml: "ml \<in> set (selected_mail S src_party (ln_net l'))" "f_UID full = ml_uid ml"
    "mail_key S (full_mail full) = mail_key S ml" by (rule stream_mail [OF f x])
  show "v_key (ref_tally S m a b) full = k"
    using agrees_unique [OF _ selected_source [OF ml(1)]] k ok ml(2,3) by (simp add: ref_tally_def)
next
  fix name full fl l h l'
  assume "dst_BeginAppend (r_dst (ref_rec S m a b)) name full fl l = Some (Inr h, l')"
  then show "v_command (ref_tally S m a b) l' h (v_key (ref_tally S m a b) full)"
    by (simp add: ref_tally_def begin_issues)
next
  fix h l l' k
  assume "v_ok (ref_tally S m a b) l" and w: "dst_WaitAppend (r_dst (ref_rec S m a b)) h l = Some (Inr (), l')"
    and "v_command (ref_tally S m a b) l h k"
  then show "v_stored (ref_tally S m a b) l' k"
    using dest_wait(3) [OF w] by (simp add: ref_tally_def net_ok_def)
next
  fix name full fl l l'
  assume "v_ok (ref_tally S m a b) l" and "dst_AppendTo (r_dst (ref_rec S m a b)) name full fl l = Some (Inr (), l')"
  then show "v_stored (ref_tally S m a b) l' (v_key (ref_tally S m a b) full)"
    using append_logs by (simp add: ref_tally_def)
next
  fix name ids l found l' k
  assume ok: "v_ok (ref_tally S m a b) l"
    and s: "dst_SearchMessageIDsIn (r_dst (ref_rec S m a b)) name ids l = Some (Inr found, l')" and k: "k \<in> found"
  have "net_ok S (set (destBucketFolders (ref_rec S m a b))) (ln_net l')"
    by (rule keeps_ok_net [OF steady_keeps [OF stepsD [OF dest_calls_steady(3) s]] ok [unfolded ref_tally_def]])
  then show "v_stored (ref_tally S m a b) l' k"
    using dest_search(1) [OF s] ok k by (auto simp: ref_tally_def net_ok_def)
next
  fix start stop l ms l' x
  assume ok: "v_ok (ref_tally S m a b) l"
    and f: "dst_FetchMetaRange (r_dst (ref_rec S m a b)) start stop l = Some (Inr ms, l')" and x: "x \<in> set ms"
  have "net_ok S (set (destBucketFolders (ref_rec S m a b))) (ln_net l')"
    by (rule keeps_ok_net [OF steady_keeps [OF stepsD [OF dest_calls_steady(2) f]] ok [unfolded ref_tally_def]])
  then show "v_stored (ref_tally S m a b) l' (DedupKey (rt_sha256 (r_rt (ref_rec S m a b))) x)"
    using dest_metas [OF f x] by (auto simp: ref_tally_def net_ok_def ref_rec_sha)
qed (unfold ref_tally_def, (rule dest_calls_keep
    steps_weaken [OF source_calls_shrink(1) shrinks_keeps] steps_weaken [OF source_calls_shrink(2) shrinks_keeps]
    steps_weaken [OF source_calls_steady(1) steady_keeps] steps_weaken [OF source_calls_steady(2) steady_keeps]
    steps_weaken [OF source_calls_steady(3) steady_keeps] steps_weaken [OF source_calls_steady(4) steady_keeps]
    steps_weaken [OF dest_calls_steady(1) steady_keeps] steps_weaken [OF dest_calls_steady(2) steady_keeps]
    steps_weaken [OF dest_calls_steady(3) steady_keeps], assumption?)+)

text \<open>The messages of a stream have distinct UIDs, and a destination without open appends is what its folders hold.\<close>

lemma stream_UIDs_distinct:
  assumes "site_ok S" and "src_FetchFullStream (r_src (ref_rec S m a b)) us l = Some (Inr (msgs, e), l')"
  shows "distinct (map f_UID msgs)"
proof -
  have "distinct (map ml_uid (selected_mail S src_party n))" for n
  proof (cases "lo_selected (nt_src n)")
    case (Some f)
    have "distinct (map ml_uid (visible n sf))" if "folder_of S f = Some sf" for sf
    proof -
      have "sf \<in> set (si_source S)" using that by (auto simp: folder_of_def find_Some_iff)
      then show ?thesis using assms(1) unfolding visible_def site_ok_def by (blast intro: distinct_map_filter)
    qed
    then show ?thesis using Some by (simp add: selected_source_eq split: option.split)
  qed (simp add: selected_source_eq)
  then have "distinct (map f_UID (bodies (items (box_contents S src_party (ln_net l')) (UIDSetNum us) fullOptions)))"
    by (simp add: bodies_items comp_def distinct_map_filter)
  then show ?thesis
    using source_bodies(1) [OF assms(2)] by (auto simp flip: take_map)
qed

lemma absent_no_copies:
  assumes "net_ok S B n" and "unanswered (cl, n) = {}" and "\<forall>f \<in> B. lacks S n f k"
  shows "copies S n k = 0"
proof -
  have "k \<notin> set (under_way_keys S n)"
  proof
    assume "k \<in> set (under_way_keys S n)"
    then obtain i where "i < length (nt_appends n)" "cm_open (nt_appends n ! i)" "cm_complete (nt_appends n ! i)"
      by (auto simp: under_way_keys_def in_set_conv_nth)
    then have "\<lparr> pa_cmd = i, pa_folder = cm_folder (nt_appends n ! i), pa_addr = Addr (cl_ep cl) \<rparr> \<in> unanswered (cl, n)"
      by (simp add: unanswered_def)
    then show False using assms(2) by simp
  qed
  moreover have "k \<notin> set (keys_of S (nt_boxes n))"
  proof
    assume "k \<in> set (keys_of S (nt_boxes n))"
    then obtain f ms where f: "(f, ms) \<in> set (nt_boxes n)" "k \<in> mail_key S ` set ms"
      by (auto simp: keys_of_def)
    have "map_of (nt_boxes n) f = Some ms"
      using f(1) assms(1) by (simp add: net_ok_def box_names_def)
    moreover have "f \<in> B" using f(1) assms(1) by (force simp: net_ok_def box_names_def)
    ultimately show False using assms(3) f(2) by (auto simp: lacks_def in_box_def)
  qed
  ultimately show ?thesis by (simp add: copies_def count_def count_list_0_iff)
qed

lemma begin_counts_one:
  assumes "dst_BeginAppend (r_dst (ref_rec S m a b)) name full fl l = Some (r, l')"
  shows "one_more (ref_view S B) (mail_key S (full_mail full)) l l'"
  using copies_building [OF dest_begin(2) [OF assms]] by (simp add: one_more_def)

interpretation ref_unique: counting_servers "sessionReconciler (site_platform S) m a b" "ref_tally S m a b" for S m a b
proof (rule counting_servers.intro, rule ref_sound.truthful_servers_axioms, unfold_locales)
  fix l l' :: "net links" and r
  assume "rt_sql (r_rt (ref_rec S m a b)) l = (r, l')"
  then show "steady (ref_tally S m a b) l l'"
    unfolding ref_tally_def by (rule local_steady(1))
next
  fix l l' :: "net links" and r
  assume "rt_ctx (r_rt (ref_rec S m a b)) l = (r, l')"
  then show "steady (ref_tally S m a b) l l'"
    unfolding ref_tally_def by (rule local_steady(2))
next
  fix l l' :: "net links" and r
  assume "rt_now (r_rt (ref_rec S m a b)) l = (r, l')"
  then show "steady (ref_tally S m a b) l l'"
    unfolding ref_tally_def by (rule local_steady(3))
next
  fix l l' :: "net links" and r
  assume "rt_perm (r_rt (ref_rec S m a b)) l = (r, l')"
  then show "steady (ref_tally S m a b) l l'"
    unfolding ref_tally_def by (rule local_steady(4))
next
  fix l :: "net links" and f phase item i
  assume "OnProgress (r_opts (ref_rec S m a b)) = Some f"
  then show "steady (ref_tally S m a b) l (f phase item i l)"
    unfolding ref_tally_def by (rule local_steady(5))
next
  fix name full fl l h l'
  assume b: "dst_BeginAppend (r_dst (ref_rec S m a b)) name full fl l = Some (Inr h, l')"
  note d = dest_begin(1,2) [OF b] dest_begin(3) [OF b refl]
  show "h \<notin> t_open (ref_tally S m a b) l \<and> t_open (ref_tally S m a b) l' = insert h (t_open (ref_tally S m a b) l) \<and>
      one_more (ref_tally S m a b) (v_key (ref_tally S m a b) full) l l'"
    using unanswered_building [OF conjunct1 [OF d(3)] conjunct2 [OF d(3)]] d(1) begin_counts_one [OF b]
    by (simp add: ref_tally_def)
next
  fix name full fl l e l'
  assume "dst_BeginAppend (r_dst (ref_rec S m a b)) name full fl l = Some (Inl e, l')"
  then show "one_more (ref_tally S m a b) (v_key (ref_tally S m a b) full) l l'"
    using begin_counts_one by (simp add: ref_tally_def)
next
  fix h l l'
  assume "v_ok (ref_tally S m a b) l" and w: "dst_WaitAppend (r_dst (ref_rec S m a b)) h l = Some (Inr (), l')"
    and "h \<in> t_open (ref_tally S m a b) l"
  then show "t_open (ref_tally S m a b) l' = t_open (ref_tally S m a b) l - {h} \<and>
      (\<forall>k. t_copies (ref_tally S m a b) l' k \<le> t_copies (ref_tally S m a b) l k)"
    using dest_wait(1,2) [OF w] by (simp add: ref_tally_def net_ok_def)
next
  fix h l e l' k
  assume "v_ok (ref_tally S m a b) l" and w: "dst_WaitAppend (r_dst (ref_rec S m a b)) h l = Some (Inl e, l')"
  then show "t_copies (ref_tally S m a b) l' k \<le> t_copies (ref_tally S m a b) l k"
    using dest_wait(1) [OF w] by (simp add: ref_tally_def net_ok_def)
next
  fix h l e l'
  assume "v_ok (ref_tally S m a b) l" and w: "dst_WaitAppend (r_dst (ref_rec S m a b)) h l = Some (Inl e, l')"
    and "isServerReject e" and "h \<in> t_open (ref_tally S m a b) l"
  then show "t_open (ref_tally S m a b) l' = t_open (ref_tally S m a b) l - {h} \<and>
      (\<forall>k. IsRealMessageID k \<longrightarrow> v_command (ref_tally S m a b) l h k \<longrightarrow>
        t_copies (ref_tally S m a b) l' k < t_copies (ref_tally S m a b) l k)"
    using dest_wait(4) [OF w _ refl] by (simp add: ref_tally_def net_ok_def)
next
  fix name full fl l r l'
  assume ok: "v_ok (ref_tally S m a b) l" and ap: "dst_AppendTo (r_dst (ref_rec S m a b)) name full fl l = Some (r, l')"
  let ?V = "ref_tally S m a b"
  show "one_more ?V (v_key ?V full) l l' \<and> (r = Inr () \<longrightarrow> t_open ?V l' = t_open ?V l)"
  proof (cases "\<exists>e. dst_BeginAppend (r_dst (ref_rec S m a b)) name full fl l = Some (Inl e, l') \<and> r = Inl e")
    case True
    then show ?thesis using begin_counts_one by (auto simp: ref_tally_def)
  next
    case False
    then obtain h l1 where b: "dst_BeginAppend (r_dst (ref_rec S m a b)) name full fl l = Some (Inr h, l1)"
      and w: "dst_WaitAppend (r_dst (ref_rec S m a b)) h l1 = Some (r, l')"
      using AppendTo_split [OF ap] by blast
    note d = dest_begin(1,2) [OF b] dest_begin(3) [OF b refl]
    have "net_ok S (set (destBucketFolders (ref_rec S m a b))) (ln_net l1)"
      by (rule keeps_ok_net [OF stepsD [OF dest_calls_keep(6) b] ok [unfolded ref_tally_def]])
    then have dist: "distinct (box_names (ln_net l1))" by (simp add: net_ok_def)
    have "one_more ?V (v_key ?V full) l l1" using begin_counts_one [OF b] by (simp add: ref_tally_def)
    then have "one_more ?V (v_key ?V full) l l'"
      using dest_wait(1) [OF w dist, THEN order_trans] by (simp add: one_more_def ref_tally_def)
    moreover have "unanswered (dst_conn l1) = insert h (unanswered (dst_conn l))" "h \<notin> unanswered (dst_conn l)"
      using unanswered_building(1,2) [OF conjunct1 [OF d(3)] conjunct2 [OF d(3)]] d(1) by simp_all
    ultimately show ?thesis using dest_wait(2) [OF w dist] by (auto simp: ref_tally_def)
  qed
next
  fix name ids l found l' k
  assume "v_ok (ref_tally S m a b) l" and s: "dst_SearchMessageIDsIn (r_dst (ref_rec S m a b)) name ids l = Some (Inr found, l')"
    and "k \<in> set ids" "IsRealMessageID k" "k \<notin> found"
  then show "t_absent (ref_tally S m a b) l' name k"
    using dest_search(2) [OF s] by (simp add: ref_tally_def net_ok_def)
next
  fix us l msgs e l'
  assume "v_ok (ref_tally S m a b) l" and "src_FetchFullStream (r_src (ref_rec S m a b)) us l = Some (Inr (msgs, e), l')"
  then show "distinct (map f_UID msgs)" by (auto simp: ref_tally_def intro: stream_UIDs_distinct)
next
  fix l k
  assume "v_ok (ref_tally S m a b) l" and "t_open (ref_tally S m a b) l = {}"
    and "\<forall>f \<in> set (destBucketFolders (ref_rec S m a b)). t_absent (ref_tally S m a b) l f k"
  then show "t_copies (ref_tally S m a b) l k = 0"
    by (simp add: ref_tally_def) (rule absent_no_copies, blast+)
qed (unfold ref_tally_def, (rule source_calls_shrink source_calls_steady dest_calls_steady dest_calls_shrink)+)

end
