(* ===== verification/ReferenceLedger.thy ===== *)
theory ReferenceLedger
  imports Reference
begin

text \<open>
  The ledger of the reference servers: which mail the source has, and what of it is lost to the mirror.
\<close>

section \<open>The ledger\<close>

definition limit_ok :: "net \<Rightarrow> bool" where
  "limit_ok n \<longleftrightarrow> (\<forall>f. lo_selected (nt_src n) = Some f \<longrightarrow> lo_limit (nt_src n) \<le> nt_next n f)"

definition validity_of :: "site \<Rightarrow> u32 \<Rightarrow> source_folder option" where
  "validity_of S v = find (\<lambda>sf. sf_validity sf = v) (si_source S)"

definition mail_of :: "site \<Rightarrow> source_folder \<Rightarrow> u32 \<Rightarrow> string option" where
  "mail_of S sf u = map_option (mail_key S) (find (\<lambda>m. ml_uid m = u) (sf_mail sf))"

definition gone :: "site \<Rightarrow> net \<Rightarrow> string \<Rightarrow> bool" where
  "gone S n k \<longleftrightarrow> (\<exists>sf \<in> set (si_source S). \<exists>m \<in> set (sf_mail sf). mail_key S m = k \<and>
     ((sf_name sf, ml_uid m) \<in> nt_gone n \<or> ml_raw m = []))"

definition assigned :: "site \<Rightarrow> net \<Rightarrow> u32 \<Rightarrow> u32 \<Rightarrow> bool" where
  "assigned S n v u \<longleftrightarrow> (\<exists>sf. validity_of S v = Some sf \<and> u < nt_next n (sf_name sf))"

definition opened :: "site \<Rightarrow> net \<Rightarrow> (u32 \<times> u32) option" where
  "opened S n = (case lo_selected (nt_src n) of
      None \<Rightarrow> None
    | Some f \<Rightarrow> map_option (\<lambda>sf. (sf_validity sf, lo_limit (nt_src n))) (folder_of S f))"

definition ref_ledger :: "site \<Rightarrow> net links ledger" where
  "ref_ledger S =
     \<lparr> c_ok = (\<lambda>l. site_ok S \<and> limit_ok (ln_net l)),
       c_mail = (\<lambda>v u. Option.bind (validity_of S v) (\<lambda>sf. mail_of S sf u)),
       c_selected = (\<lambda>l. opened S (ln_net l)), c_lost = (\<lambda>l. gone S (ln_net l)),
       c_seen = (\<lambda>l. assigned S (ln_net l)) \<rparr>"

lemma ref_ledger_simps [simp]:
  "c_ok (ref_ledger S) l \<longleftrightarrow> site_ok S \<and> limit_ok (ln_net l)"
  "c_mail (ref_ledger S) v u = Option.bind (validity_of S v) (\<lambda>sf. mail_of S sf u)"
  "c_selected (ref_ledger S) l = opened S (ln_net l)" "c_lost (ref_ledger S) l = gone S (ln_net l)"
  "c_seen (ref_ledger S) l = assigned S (ln_net l)"
  by (simp_all add: ref_ledger_def)

section \<open>What the calls do to it\<close>

definition sel_source :: "net \<Rightarrow> net \<Rightarrow> bool" where
  "sel_source n n' \<longleftrightarrow> on_source n n' \<and> (limit_ok n \<longrightarrow> limit_ok n')"

lemma limit_ok_same:
  "later_mail n n' \<Longrightarrow> lo_selected (nt_src n') = lo_selected (nt_src n) \<Longrightarrow> lo_limit (nt_src n') = lo_limit (nt_src n) \<Longrightarrow>
   limit_ok n \<Longrightarrow> limit_ok n'"
  by (auto simp: limit_ok_def later_mail_def intro: order_trans)

lemma in_source_sel: "in_source n n' \<Longrightarrow> sel_source n n'"
  by (auto simp: sel_source_def in_source_def on_source_def intro: limit_ok_same)

lemma sel_source_trans: "sel_source a b \<Longrightarrow> sel_source b c \<Longrightarrow> sel_source a c"
  using relations_trans(1) by (auto simp: sel_source_def)

lemma later_lost: "later_mail n n' \<Longrightarrow> gone S n k \<Longrightarrow> gone S n' k"
  by (auto simp: gone_def later_mail_def)

lemma later_assigned: "later_mail n n' \<Longrightarrow> assigned S n v u \<Longrightarrow> assigned S n' v u"
  by (auto simp: assigned_def later_mail_def intro: order_less_le_trans)

lemma sel_source_lost: "src_links sel_source l l' \<Longrightarrow> keeps_lost (ref_ledger S) l l'"
  by (auto simp: src_links_def sel_source_def on_source_def keeps_lost_def intro: later_lost later_assigned)

lemma opened_same:
  assumes "lo_selected (nt_src n') = lo_selected (nt_src n)" and "lo_limit (nt_src n') = lo_limit (nt_src n)"
  shows "opened S n' = opened S n"
  unfolding opened_def assms ..

lemma in_source_holds:
  assumes "src_links in_source l l'"
  shows "holds (ref_ledger S) l l'"
proof -
  have "keeps_lost (ref_ledger S) l l'"
    by (rule sel_source_lost [OF src_links_mono [OF assms in_source_sel]])
  moreover have "opened S (ln_net l') = opened S (ln_net l)"
    by (rule opened_same) (use assms in \<open>simp_all add: src_links_def in_source_def\<close>)
  ultimately show ?thesis by (simp add: holds_def)
qed

lemma storing_holds:
  assumes "dst_links (storing S) l l'"
  shows "holds (ref_ledger S) l l'"
proof -
  have n: "later_mail (ln_net l) (ln_net l')" "nt_src (ln_net l') = nt_src (ln_net l)"
    using assms by (simp_all add: dst_links_def cached_def storing_def)
  then have "opened S (ln_net l') = opened S (ln_net l)" by (intro opened_same) simp_all
  moreover have "limit_ok (ln_net l) \<Longrightarrow> limit_ok (ln_net l')" by (rule limit_ok_same [OF n(1)]) (simp_all add: n(2))
  ultimately show ?thesis
    by (auto simp: holds_def keeps_lost_def intro: later_lost [OF n(1)] later_assigned [OF n(1)])
qed

lemma do_select_sel: "sel_source n (snd (do_select S src_party name n))"
proof -
  have "on_source n (snd (do_select S src_party name n))"
    by (auto simp: do_select_def src_party_def relation_defs split: option.split)
  moreover have "limit_ok (snd (do_select S src_party name n))"
    by (auto simp: do_select_def src_party_def limit_ok_def split: option.split)
  ultimately show ?thesis by (simp add: sel_source_def)
qed

lemma serve_select_sel: "steps sel_source (serve S src_party (do_select S src_party name))"
  by (rule steps_serve, erule (1) sel_source_trans, rule in_source_sel [OF waiting_relations(1) [OF observe_waiting]],
      rule in_source_sel [OF kill_relations(1)], rule do_select_sel)

lemma select_calls:
  "steps (src_links sel_source) (src_SelectFolder (r_src (ref_rec S m a b)))"
  "steps (src_links sel_source) (src_SelectNamedFolder (r_src (ref_rec S m a b)) name)"
proof -
  have "steps sel_source (ic_Select (src_library S) name)" for name
    unfolding src_library_def library_fields by (rule serve_select_sel)
  moreover have "sel_source n n" for n by (rule in_source_sel [OF relations_refl(2)])
  ultimately show "steps (src_links sel_source) (src_SelectFolder (r_src (ref_rec S m a b)))"
    and "steps (src_links sel_source) (src_SelectNamedFolder (r_src (ref_rec S m a b)) name)"
    by (simp_all add: wires steps_on_src steps_select)
qed

lemma select_opened:
  assumes "src_SelectFolder (r_src (ref_rec S m a b)) l = Some (Inr (v, n, x), l')"
  shows "opened S (ln_net l') = Some (v, n)"
proof -
  from assms obtain d where s: "serve S src_party (do_select S src_party (ep_Folder (cl_ep (ln_src l)))) (ln_net l) = Some (Inr d, ln_net l')"
    and d: "v = sd_UIDValidity d" "n = sd_UIDNext d"
    by (auto simp: wires on_src_def zoomM_def SelectFolder_def SelectNamedFolder_def src_library_def prog_defs field_def
        lib_def assign_def failAt_def split: option.splits sum.splits)
  let ?n1 = "observe S (ln_net l)" and ?name = "ep_Folder (cl_ep (ln_src l))"
  have act: "do_select S src_party ?name ?n1 = (Inr d, ln_net l')" by (rule serve_Inr(1) [OF s])
  then obtain sf where sf: "folder_of S ?name = Some sf"
    by (cases "folder_of S ?name") (simp_all add: do_select_def src_party_def folder_of_def)
  have l': "ln_net l' = snd (do_select S src_party ?name ?n1)" and d': "Inr d = fst (do_select S src_party ?name ?n1)"
    by (simp_all add: act)
  have "lo_selected (nt_src (ln_net l')) = Some ?name \<and> lo_limit (nt_src (ln_net l')) = n \<and> v = sf_validity sf"
    unfolding l' using d' d sf by (auto simp: do_select_def src_party_def folder_of_def split: if_splits)
  then show ?thesis using sf by (simp add: opened_def)
qed

section \<open>What the source delivers\<close>

lemma opened_folder:
  assumes "site_ok S" and "opened S n = Some (v, limit)"
  obtains f sf where "lo_selected (nt_src n) = Some f" and "folder_of S f = Some sf" and "validity_of S v = Some sf"
    and "sf_name sf = f" and "sf \<in> set (si_source S)" and "limit = lo_limit (nt_src n)"
proof -
  obtain f sf where f: "lo_selected (nt_src n) = Some f" "folder_of S f = Some sf" "v = sf_validity sf" "limit = lo_limit (nt_src n)"
    using assms(2) by (auto simp: opened_def split: option.splits)
  have sf: "sf \<in> set (si_source S)" "sf_name sf = f" using f(2) by (auto simp: folder_of_def find_Some_iff)
  have "validity_of S v = Some sf"
  proof (cases "validity_of S v")
    case None
    then show ?thesis using sf f(3) by (auto simp: validity_of_def find_None_iff)
  next
    case (Some sf')
    then have "sf' \<in> set (si_source S)" "sf_validity sf' = v" by (auto simp: validity_of_def find_Some_iff)
    then show ?thesis using Some sf f(3) assms(1) by (auto simp: site_ok_def distinct_map inj_on_def)
  qed
  then show ?thesis using that f sf by blast
qed

lemma mail_of_Some:
  assumes "mail_of S sf u = Some k"
  obtains ml where "ml \<in> set (sf_mail sf)" and "ml_uid ml = u" and "mail_key S ml = k"
proof -
  obtain ml where "find (\<lambda>m. ml_uid m = u) (sf_mail sf) = Some ml" and k: "mail_key S ml = k"
    using assms by (auto simp: mail_of_def)
  then have "ml \<in> set (sf_mail sf)" "ml_uid ml = u" by (auto simp: find_Some_iff)
  then show ?thesis using that k by blast
qed

lemma mail_of_eq:
  assumes "site_ok S" and "sf \<in> set (si_source S)" and "ml \<in> set (sf_mail sf)"
  shows "mail_of S sf (ml_uid ml) = Some (mail_key S ml)"
proof (cases "find (\<lambda>m. ml_uid m = ml_uid ml) (sf_mail sf)")
  case None
  then show ?thesis using assms(3) by (auto simp: find_None_iff)
next
  case (Some ml')
  then have "ml' \<in> set (sf_mail sf)" "ml_uid ml' = ml_uid ml" by (auto simp: find_Some_iff)
  moreover have "distinct (map ml_uid (sf_mail sf))" using assms(1,2) by (simp add: site_ok_def)
  ultimately have "ml' = ml" using assms(3) by (auto simp: distinct_map inj_on_def)
  then show ?thesis using Some by (simp add: mail_of_def)
qed

text \<open>A message with an assigned UID of the selected folder is there or lost.\<close>

lemma there_or_lost:
  assumes "site_ok S" and "opened S n = Some (v, limit)" and "Option.bind (validity_of S v) (\<lambda>sf. mail_of S sf u) = Some k"
    and "assigned S n v u"
  shows "gone S n k \<or> (\<exists>ml \<in> set (selected_mail S src_party n). ml_uid ml = u \<and> mail_key S ml = k \<and> ml_raw ml \<noteq> [])"
proof -
  obtain f sf where f: "lo_selected (nt_src n) = Some f" "folder_of S f = Some sf" "validity_of S v = Some sf" "sf_name sf = f"
    "sf \<in> set (si_source S)" by (rule opened_folder [OF assms(1,2)])
  obtain ml where ml: "ml \<in> set (sf_mail sf)" "ml_uid ml = u" "mail_key S ml = k"
    by (rule mail_of_Some [of S sf u k]) (use assms(3) f(3) in simp)
  have "u < nt_next n f" using assms(4) f(3,4) by (simp add: assigned_def)
  then show ?thesis
    using ml f by (auto simp: selected_source_eq visible_def gone_def)
qed

lemma opened_assigned:
  assumes "site_ok S" and "limit_ok n" and "opened S n = Some (v, limit)" and "u < limit"
  shows "assigned S n v u"
proof -
  obtain f sf where "lo_selected (nt_src n) = Some f" "validity_of S v = Some sf" "sf_name sf = f" "limit = lo_limit (nt_src n)"
    by (rule opened_folder [OF assms(1,3)])
  then show ?thesis using assms(2,4) by (auto simp: assigned_def limit_ok_def intro: order_less_le_trans)
qed

lemma listed_mail:
  assumes "site_ok S" and "opened S n = Some (v, limit)" and "ml \<in> set (selected_mail S src_party n)"
  shows "assigned S n v (ml_uid ml) \<and> Option.bind (validity_of S v) (\<lambda>sf. mail_of S sf (ml_uid ml)) = Some (mail_key S ml)"
proof -
  obtain f sf where f: "lo_selected (nt_src n) = Some f" "folder_of S f = Some sf" "validity_of S v = Some sf" "sf_name sf = f"
    "sf \<in> set (si_source S)" by (rule opened_folder [OF assms(1,2)])
  have ml: "ml \<in> set (visible n sf)" using assms(3) f by (simp add: selected_source_eq)
  then show ?thesis using mail_of_eq [OF assms(1) f(5)] f by (auto simp: assigned_def visible_def)
qed

interpretation ref_complete: complete_source "sessionReconciler (site_platform S) mr fa fb" "ref_ledger S" for S mr fa fb
proof unfold_locales
  fix l l' :: "net links" and r
  assume "rt_sql (r_rt (ref_rec S mr fa fb)) l = (r, l')"
  then show "holds (ref_ledger S) l l'" by (rule in_source_holds [OF local_in_source(1)])
next
  fix l l' :: "net links" and r
  assume "rt_ctx (r_rt (ref_rec S mr fa fb)) l = (r, l')"
  then show "holds (ref_ledger S) l l'" by (rule in_source_holds [OF local_in_source(2)])
next
  fix l l' :: "net links" and r
  assume "rt_now (r_rt (ref_rec S mr fa fb)) l = (r, l')"
  then show "holds (ref_ledger S) l l'" by (rule in_source_holds [OF local_in_source(3)])
next
  fix l l' :: "net links" and r
  assume "rt_perm (r_rt (ref_rec S mr fa fb)) l = (r, l')"
  then show "holds (ref_ledger S) l l'" by (rule in_source_holds [OF local_in_source(4)])
next
  fix l :: "net links" and f phase item i
  assume "OnProgress (r_opts (ref_rec S mr fa fb)) = Some f"
  then show "holds (ref_ledger S) l (f phase item i l)" by (rule in_source_holds [OF local_in_source(5)])
next
  fix l v n x l'
  assume "src_SelectFolder (r_src (ref_rec S mr fa fb)) l = Some (Inr (v, n, x), l')"
  then show "c_selected (ref_ledger S) l' = Some (v, n)" by (simp add: select_opened)
next
  fix start stop l ms l' v n u k
  assume ok: "c_ok (ref_ledger S) l" and f: "src_FetchMetaRange (r_src (ref_rec S mr fa fb)) start stop l = Some (Inr ms, l')"
    and v: "c_selected (ref_ledger S) l = Some (v, n)" and u: "stop < n" "start \<le> u" "u \<le> stop"
    and k: "c_mail (ref_ledger S) v u = Some k"
  have h: "holds (ref_ledger S) l l'" by (rule in_source_holds [OF stepsD [OF source_calls(5) f]])
  have o: "opened S (ln_net l') = Some (v, n)" "site_ok S" "limit_ok (ln_net l')"
    using h v ok by (simp_all add: holds_def keeps_lost_def)
  have "assigned S (ln_net l') v u" by (rule opened_assigned [OF o(2,3,1)]) (use u in simp)
  from there_or_lost [OF o(2,1) _ this] k
  have "gone S (ln_net l') k \<or> (\<exists>ml \<in> set (selected_mail S src_party (ln_net l')). ml_uid ml = u)" by auto
  moreover have "\<exists>x \<in> set ms. m_UID x = u" if h: "ml \<in> set (selected_mail S src_party (ln_net l'))" "ml_uid ml = u" for ml
    using h u unfolding source_metas [OF f] by (intro bexI [of _ "mail_meta S ml"]) auto
  ultimately show "c_lost (ref_ledger S) l' k \<or> (\<exists>x \<in> set ms. m_UID x = u)" by auto
next
  fix start stop l ms l' v n x
  assume ok: "c_ok (ref_ledger S) l" and f: "src_FetchMetaRange (r_src (ref_rec S mr fa fb)) start stop l = Some (Inr ms, l')"
    and v: "c_selected (ref_ledger S) l = Some (v, n)" and x: "x \<in> set ms"
  have h: "holds (ref_ledger S) l l'" by (rule in_source_holds [OF stepsD [OF source_calls(5) f]])
  obtain ml where ml: "ml \<in> set (selected_mail S src_party (ln_net l'))" "x = mail_meta S ml"
    using x unfolding source_metas [OF f] by auto
  show "c_seen (ref_ledger S) l' v (m_UID x) \<and>
      c_mail (ref_ledger S) v (m_UID x) = Some (DedupKey (rt_sha256 (r_rt (ref_rec S mr fa fb))) x)"
    using listed_mail [OF _ _ ml(1)] ok h v by (simp add: ml(2) ref_rec_sha holds_def)
next
  fix us l msgs l' v n u k
  assume ok: "c_ok (ref_ledger S) l" and f: "src_FetchFullStream (r_src (ref_rec S mr fa fb)) us l = Some (Inr (msgs, None), l')"
    and v: "c_selected (ref_ledger S) l = Some (v, n)" and u: "u \<in> set us" "c_seen (ref_ledger S) l v u"
    and k: "c_mail (ref_ledger S) v u = Some k"
  have h: "holds (ref_ledger S) l l'" by (rule in_source_holds [OF stepsD [OF source_calls(6) f]])
  have o: "opened S (ln_net l') = Some (v, n)" "site_ok S" "assigned S (ln_net l') v u"
    using h v ok u by (simp_all add: holds_def keeps_lost_def)
  have "us \<noteq> []" using u by auto
  from source_bodies(2) [OF f this refl]
  have msgs: "f_UID ` set msgs = ml_uid ` {ml \<in> set (selected_mail S src_party (ln_net l')). ml_raw ml \<noteq> [] \<and> ml_uid ml \<in> set us}"
    by (simp add: bodies_items image_image)
  from there_or_lost [OF o(2,1) _ o(3)] k show "c_lost (ref_ledger S) l' k \<or> u \<in> f_UID ` set msgs"
    using u(1) unfolding msgs by auto
qed (rule steps_weaken [OF select_calls(1) sel_source_lost] steps_weaken [OF select_calls(2) sel_source_lost]
    steps_weaken [OF source_calls(3) in_source_holds] steps_weaken [OF source_calls(4) in_source_holds]
    steps_weaken [OF source_calls(5) in_source_holds] steps_weaken [OF source_calls(6) in_source_holds]
    steps_weaken [OF dest_calls(1) storing_holds [OF links_weaken(1) [OF links_weaken(2)]]]
    steps_weaken [OF dest_calls(2) storing_holds [OF links_weaken(1) [OF links_weaken(2)]]]
    steps_weaken [OF dest_calls(3) storing_holds [OF links_weaken(1) [OF links_weaken(2)]]]
    steps_weaken [OF dest_calls(4) storing_holds [OF links_weaken(1)]]
    steps_weaken [OF dest_calls(5) storing_holds [OF links_weaken(1)]]
    steps_weaken [OF dest_calls(6) storing_holds [OF links_weaken(1)]]
    steps_weaken [OF dest_calls(7) storing_holds [OF links_weaken(1)]]
    steps_weaken [OF dest_calls(8) storing_holds] steps_weaken [OF dest_calls(9) storing_holds]
    steps_weaken [OF dest_calls(10) storing_holds], assumption?)+

end
