(* ===== verification/Platform.thy ===== *)
theory Platform
  imports Supervision Uniqueness Completeness
begin

text \<open>
  A mirror over many sessions, for any platform that keeps a contract: the two IMAP libraries with the
  servers behind them, the database driver, the context and the clock are parameters.  The contract of the
  servers is the one of a pass, for every session; the rest says what connecting, waiting and hanging up
  leave alone.
\<close>

section \<open>The frame of a session\<close>

text \<open>
  \<open>W\<close> relates the links before and after a call that a connected session makes outside the passes: the
  database, the context, the clock, the pauses, IDLE, and opening the destination folders.  \<open>U\<close> does so for
  dialling either server, resolving the source folders and closing a connection.
\<close>

locale session_frame =
  fixes P :: "'w platform" and m :: Mirror and U W :: "'w links \<Rightarrow> 'w links \<Rightarrow> bool"
  assumes local_frame: "W l (snd (on_net (rt_sql (pl_rt P)) l))" "W l (snd (on_net (rt_ctx (pl_rt P)) l))"
      "W l (snd (on_net (rt_now (pl_rt P)) l))" "W l (snd (on_net (pl_clock P) l))"
      "W l (snd (on_net (\<lambda>w. ((), pl_wait P d w)) l))" "W l (snd (on_net (\<lambda>w. ((), pl_sleep P d w)) l))"
      "W l (l\<lparr> ln_heartbeat := h \<rparr>)" "W l (l\<lparr> ln_lastLog := h \<rparr>)"
    and idle_frame: "steps W (on_src (Idle (pl_src P)))" "steps W (on_src (lib (ic_IdleClose (pl_src P) c)))"
      "steps W (on_src (lib (ic_IdleWait (pl_src P) c)))"
    and open_frame: "f \<in> set (destFolders m) \<Longrightarrow> steps W (on_dst (EnsureNamedFolder (pl_dst P) f))"
      "steps W (on_dst (SelectFolder (pl_dst P)))"
    and connect_frame: "steps U (dialSource P (mi_Source m))" "steps U (on_src (ResolveSpecialUse (pl_src P)))"
      "steps U (on_src (ResolveFolder (pl_src P) name))" "steps U (dialDest P (mi_Dest m))"
      "U l (closeSource P l)" "U l (closeDest P l)"

section \<open>Stored messages\<close>

text \<open>\<open>v_stored\<close> is about everything the destination has stored so far, so no call ever takes a key out of it.\<close>

locale truthful_platform =
  session_frame P m "keeps_dest V" "keeps_dest V"
  for P :: "'w platform" and m :: Mirror and V :: "('w links, 'z) view_scheme" +
  assumes servers: "truthful_servers (sessionReconciler P m a b) V"

lemma sound_keeps: "sound V s \<Longrightarrow> keeps_dest V (st_world s) l \<Longrightarrow> sound V (s\<lparr> st_world := l \<rparr>)"
  by (simp add: sound_def keeps_dest_def)

sublocale truthful_platform \<subseteq> soundly: supervised P m "keeps_dest V" "keeps_dest V" "sound V" "sound V"
proof unfold_locales
  show "sound V (s\<lparr> st_world := l \<rparr>)" if "sound V s" "dialDest P (mi_Dest m) (st_world s) = Some (Inr (), l)" for s l
    using that by (auto intro: sound_keeps stepsD [OF connect_frame(4)])
qed (rule local_frame idle_frame open_frame connect_frame truthful_servers.Run_sound [OF servers]
    truthful_servers.SeedFromDest_sound [OF servers] | erule (1) sound_keeps | assumption)+

context truthful_platform
begin

lemmas mirror_sound = soundly.mirror_keeps

end

section \<open>Copies\<close>

text \<open>
  Connecting again adds no copies, where the appends that were under way count already, and a new connection
  to the destination has no append under way.
\<close>

definition reconnects :: "'w tally \<Rightarrow> 'w \<Rightarrow> 'w \<Rightarrow> bool" where
  "reconnects V l l' \<longleftrightarrow> keeps_dest V l l' \<and> (v_ok V l \<longrightarrow> (\<forall>k. t_copies V l' k \<le> t_copies V l k))"

lemma shrinks_reconnects: "shrinks V l l' \<Longrightarrow> reconnects V l l'"
  by (simp add: shrinks_def reconnects_def)

lemma reconnects_keeps: "reconnects V l l' \<Longrightarrow> keeps_dest V l l'"
  by (simp add: reconnects_def)

locale counting_platform =
  session_frame P m "reconnects V" "shrinks V"
  for P :: "'w platform" and m :: Mirror and V :: "'w links tally" +
  assumes servers: "counting_servers (sessionReconciler P m a b) V"
    and fresh: "dialDest P (mi_Dest m) l = Some (Inr (), l') \<Longrightarrow> t_open V l' = {}"
    and guard_on: "mi_DestGuard m"

lemma halted_keeps: "halted V c0 s \<Longrightarrow> reconnects V (st_world s) l \<Longrightarrow> halted V c0 (s\<lparr> st_world := l \<rparr>)"
  using sound_keeps by (auto simp: halted_def bounded_def reconnects_def intro: order_trans)

lemma resting_keeps: "resting V c0 s \<Longrightarrow> shrinks V (st_world s) l \<Longrightarrow> resting V c0 (s\<lparr> st_world := l \<rparr>)"
  using sound_keeps by (auto simp: resting_def bounded_def shrinks_def intro: order_trans)

sublocale counting_platform \<subseteq> uniquely: supervised P m "reconnects V" "shrinks V" "halted V c0" "resting V c0" for c0
proof unfold_locales
  fix a b
  have "DestGuard (r_opts (sessionReconciler P m a b))"
    using guard_on by (simp add: sessionReconciler_def New_def sessionOptions_def)
  then show "hoare (resting V c0) (Run (sessionReconciler P m a b)) (\<lambda>_. resting V c0) (\<lambda>_. halted V c0)"
    by (rule counting_servers.Run_unique [OF servers])
  show "hoare (resting V c0) (SeedFromDest (sessionReconciler P m a b)) (\<lambda>_. resting V c0) (\<lambda>_. halted V c0)"
    by (rule counting_servers.SeedFromDest_unique [OF servers])
next
  fix s l
  assume s: "halted V c0 s" and d: "dialDest P (mi_Dest m) (st_world s) = Some (Inr (), l)"
  have "halted V c0 (s\<lparr> st_world := l \<rparr>)" by (rule halted_keeps [OF s stepsD [OF connect_frame(4) d]])
  then show "resting V c0 (s\<lparr> st_world := l \<rparr>)" using fresh [OF d] by (simp add: halted_def resting_def)
next
  show "halted V c0 s" if "resting V c0 s" for s using that by (simp add: halted_def resting_def)
qed (rule local_frame idle_frame open_frame connect_frame shrinks_reconnects
    | erule (1) halted_keeps | erule (1) resting_keeps | assumption)+

context counting_platform
begin

lemmas mirror_unique = uniquely.mirror_keeps

end

section \<open>The ledger\<close>

locale complete_platform =
  session_frame P m "keeps_lost C" "keeps_lost C"
  for P :: "'w platform" and m :: Mirror and C :: "'w links ledger" +
  assumes servers: "complete_source (sessionReconciler P m a b) C"

lemma marked_keeps: "marked C s \<Longrightarrow> keeps_lost C (st_world s) l \<Longrightarrow> marked C (s\<lparr> st_world := l \<rparr>)"
  by (fastforce simp: marked_def keeps_lost_def below_def recorded_def)

sublocale complete_platform \<subseteq> completely: supervised P m "keeps_lost C" "keeps_lost C" "marked C" "marked C"
proof unfold_locales
  fix a b
  show "hoare (marked C) (Run (sessionReconciler P m a b)) (\<lambda>_. marked C) (\<lambda>_. marked C)"
    by (rule hoare_post [OF complete_source.Run_complete [OF servers]]) (auto simp: scanning_def)
  show "hoare (marked C) (SeedFromDest (sessionReconciler P m a b)) (\<lambda>_. marked C) (\<lambda>_. marked C)"
    by (rule complete_source.SeedFromDest_complete [OF servers])
next
  show "marked C (s\<lparr> st_world := l \<rparr>)" if "marked C s" "dialDest P (mi_Dest m) (st_world s) = Some (Inr (), l)" for s l
    using that by (auto intro: marked_keeps stepsD [OF connect_frame(4)])
qed (rule local_frame idle_frame open_frame connect_frame | erule (1) marked_keeps | assumption)+

context complete_platform
begin

lemmas mirror_complete = completely.mirror_keeps

end

end
