(* ===== verification/ReferenceRun.thy ===== *)
theory ReferenceRun
  imports ReferenceLedger Platform
begin

text \<open>
  The supervision loop over the reference servers: what connecting, disconnecting, waiting and idling do to
  the view and to the ledger.  So the platform of the reference servers, with the clients of the program, keeps
  the three contracts of a mirror that runs over many sessions.
\<close>

section \<open>Steps of a session outside the reconciler\<close>

lemma platform_fields [simp]:
  "pl_src (site_platform S) = src_library S" "pl_dst (site_platform S) = dst_library S"
  "pl_rt (site_platform S) = site_runtime S"
  by (simp_all add: site_platform_def)

lemma local_platform:
  "src_links waiting l (snd (on_net (rt_sql (pl_rt (site_platform S))) l))"
  "src_links waiting l (snd (on_net (rt_ctx (pl_rt (site_platform S))) l))"
  "src_links waiting l (snd (on_net (rt_now (pl_rt (site_platform S))) l))"
  "src_links waiting l (snd (on_net (pl_clock (site_platform S)) l))"
  "src_links waiting l (snd (on_net (\<lambda>w. ((), pl_wait (site_platform S) d w)) l))"
  "src_links waiting l (snd (on_net (\<lambda>w. ((), pl_sleep (site_platform S) d w)) l))"
  "src_links waiting l (l\<lparr> ln_heartbeat := h \<rparr>)" "src_links waiting l (l\<lparr> ln_lastLog := h \<rparr>)"
  using observe_waiting
  by (simp_all add: src_links_def on_net_def site_platform_def site_runtime_def relations_refl)

lemma idle_calls:
  "steps (src_links in_source) (on_src (Idle (pl_src (site_platform S))))"
  "steps (src_links in_source) (on_src (lib (ic_IdleClose (pl_src (site_platform S)) c)))"
  "steps (src_links in_source) (on_src (lib (ic_IdleWait (pl_src (site_platform S)) c)))"
  unfolding Idle_def platform_fields src_library_def library_fields
  by (rule steps_on_src, rule steps_lib, rule steps_serve_source(1), simp add: relations_refl)+

lemma open_calls:
  "steps (dst_links (moving S)) (on_dst (EnsureNamedFolder (pl_dst (site_platform S)) f))"
  "steps (dst_links on_dest) (on_dst (SelectFolder (pl_dst (site_platform S))))"
  unfolding platform_fields by (intro steps_on_dst moves.EnsureNamedFolder_steps dest.SelectFolder_steps)+

lemma steps_Dial:
  assumes trans: "\<And>a b c. Q a b \<Longrightarrow> Q b c \<Longrightarrow> Q a c"
    and "\<And>n. Q n (observe S n)" and "\<And>n. Q n (fr n)" and "\<And>n. Q n (kill p n)" and "\<And>n. Q n n"
  shows "steps Q (Dial (library S p fr) ep)"
proof -
  have "step_relation Q" by unfold_locales (use assms(5) trans in blast)+
  note compose = step_relation.steps_compose [OF this] step_relation.steps_modifyM [OF this]
  have "steps Q (do_dial S fr)"
    using assms(2,3) trans by (fastforce simp: steps_def do_dial_def Let_def split: event.splits)
  moreover have "steps Q (serve S p (\<lambda>n. (Inr (), n)))"
    by (rule steps_serve) (use assms in auto)
  ultimately show ?thesis
    unfolding Dial_def library_fields by (intro compose) (use assms(4) in auto)
qed

lemma sel_source_steps: "sel_source n (fresh_src n)" "sel_source n (kill src_party n)" "sel_source n (observe S n)" "sel_source n n"
proof -
  show "sel_source n (fresh_src n)"
    by (simp add: sel_source_def relation_defs fresh_src_def limit_ok_def new_line_def)
  show "sel_source n (kill src_party n)" "sel_source n (observe S n)" "sel_source n n"
    by (auto intro!: in_source_sel kill_relations relations_refl waiting_relations(1) observe_waiting)
qed

lemma steps_net: "steps Q m \<Longrightarrow> steps (\<lambda>l l'. ln_src l' = ln_src l \<and> ln_dst l' = ln_dst l \<and> Q (ln_net l) (ln_net l')) (net m)"
  by (auto simp: steps_def net_def zoomM_def split: option.splits)

lemma connect_calls:
  "steps (src_links sel_source) (dialSource (site_platform S) ep)"
  "steps (src_links in_source) (on_src (ResolveSpecialUse (pl_src (site_platform S))))"
  "steps (src_links in_source) (on_src (ResolveFolder (pl_src (site_platform S)) name))"
  "src_links in_source l (closeSource (site_platform S) l)"
  "dst_links on_dest l (closeDest (site_platform S) l)"
proof -
  have "steps sel_source (Dial (src_library S) ep)"
    unfolding src_library_def by (rule steps_Dial, erule (1) sel_source_trans) (rule sel_source_steps)+
  from steps_net [OF this] show "steps (src_links sel_source) (dialSource (site_platform S) ep)"
    by (fastforce simp: steps_def dialSource_def src_links_def bindM_def modifyM_def split: option.splits sum.splits)
  have 1: "steps (with_ep in_source) (ResolveFolder (src_library S) name)" for name
    by (rule source_plain.ResolveFolder_steps)
  then show "steps (src_links in_source) (on_src (ResolveFolder (pl_src (site_platform S)) name))"
    unfolding platform_fields by (rule steps_on_src)
  have "steps (\<lambda>p p'. in_source (snd p) (snd p')) (ResolveSpecialUse (src_library S))"
    using 1 by (auto simp: steps_def with_ep_def ResolveSpecialUse_def field_def assign_def prog_defs relations_refl
      split: option.splits sum.splits)
  then show "steps (src_links in_source) (on_src (ResolveSpecialUse (pl_src (site_platform S))))"
    by (auto simp: steps_def on_src_def zoomM_def src_links_def split: option.splits)
  show "src_links in_source l (closeSource (site_platform S) l)"
    by (simp add: src_links_def closeSource_def hangUp_def Close_def modifyM_def kill_relations(1) src_library_def)
  have "cached on_dest (dst_conn l) (ln_dst l, kill dst_party (ln_net l))"
    by (simp add: cached_def cache_ok_def kill_relations(3)) (simp add: kill_def dst_party_def)
  then show "dst_links on_dest l (closeDest (site_platform S) l)"
    by (simp add: dst_links_def closeDest_def hangUp_def Close_def modifyM_def dst_library_def)
qed

section \<open>A new connection to the destination\<close>

text \<open>Appends without an answer are decided; nothing else changes at the destination.\<close>

definition redial :: "site \<Rightarrow> net \<Rightarrow> net \<Rightarrow> bool" where
  "redial S n n' \<longleftrightarrow> later_mail n n' \<and> nt_src n' = nt_src n \<and> nt_boxes n' = nt_boxes n \<and> nt_log n' = nt_log n \<and>
     commands_kept n n' \<and> (\<forall>k. count_list (under_way_keys S n') k \<le> count_list (under_way_keys S n) k)"

lemma redial_trans: "redial S a b \<Longrightarrow> redial S b c \<Longrightarrow> redial S a c"
  using later_mail_trans [of a b c] commands_kept_trans [of a b c] by (auto simp: redial_def intro: order_trans)

lemma on_dest_redial: "on_dest n n' \<Longrightarrow> redial S n n'"
  by (simp add: redial_def on_dest_def same_dest_def commands_kept_def under_way_keys_def)

lemma fresh_dst_closed:
  "\<forall>c \<in> set (nt_appends (fresh_dst n)). \<not> cm_open c" "redial S n (fresh_dst n)"
proof -
  show "\<forall>c \<in> set (nt_appends (fresh_dst n)). \<not> cm_open c" by (simp add: fresh_dst_def)
  then have "under_way_keys S (fresh_dst n) = []" by (simp add: under_way_keys_def filter_empty_conv)
  then show "redial S n (fresh_dst n)"
    by (simp add: redial_def fresh_dst_def later_mail_def commands_kept_def sent_mail_def)
qed

lemma dial_dest:
  assumes "Dial (dst_library S) ep n = Some (r, n')"
  shows "redial S n n'"
    and "r = Inr cl \<Longrightarrow> cl_selected cl = [] \<and> (\<forall>c \<in> set (nt_appends n'). \<not> cm_open c)"
    and "r = Inl e \<Longrightarrow> nt_dst n' = nt_dst n \<or> lo_dead (nt_dst n')"
proof -
  have obs: "redial S m (observe S m)" for m by (rule on_dest_redial [OF waiting_relations(2) [OF observe_waiting]])
  have refl: "redial S m m" for m by (rule on_dest_redial [OF relations_refl(3)])
  have killed: "redial S m (kill dst_party m)" for m by (rule on_dest_redial [OF kill_relations(3)])
  have "steps (redial S) (Dial (dst_library S) ep)"
    unfolding dst_library_def
    by (rule steps_Dial, erule (1) redial_trans) (rule obs fresh_dst_closed(2) killed refl)+
  then show "redial S n n'" using assms by (rule stepsD)
  have line: "nt_dst (observe S m) = nt_dst m" and cmds: "nt_appends (observe S m) = nt_appends m" for m
    using observe_waiting [of m S] by (simp_all add: waiting_def same_dest_def)
  let ?login = "serve S dst_party (\<lambda>n. (Inr (), n))"
  have run: "(\<exists>e. do_dial S fresh_dst n = Some (Inl e, n') \<and> (\<exists>e'. r = Inl e')) \<or>
      (\<exists>n1. do_dial S fresh_dst n = Some (Inr (), n1) \<and>
        ((\<exists>e n2. ?login n1 = Some (Inl e, n2) \<and> n' = kill dst_party n2 \<and> (\<exists>e'. r = Inl e')) \<or>
         (?login n1 = Some (Inr (), n') \<and> (\<exists>c. r = Inr c \<and> cl_selected c = []))))"
    using assms unfolding Dial_def dst_library_def library_fields
    by (auto simp: bindM_def wrapM_def tryM_def modifyM_def throwM_def returnM_def split: option.splits sum.splits)
  have dial: "n1 = fresh_dst (observe S n)" if "do_dial S fresh_dst n = Some (Inr (), n1)" for n1
    using that by (auto simp: do_dial_def Let_def split: event.splits)
  show "r = Inr cl \<Longrightarrow> cl_selected cl = [] \<and> (\<forall>c \<in> set (nt_appends n'). \<not> cm_open c)"
  proof -
    assume "r = Inr cl"
    then obtain n1 where "do_dial S fresh_dst n = Some (Inr (), n1)" and l: "?login n1 = Some (Inr (), n')"
      and "cl_selected cl = []" using run by auto
    moreover have "n' = observe S n1" using serve_Inr(1) [OF l] by simp
    ultimately show ?thesis using dial cmds fresh_dst_closed(1) by simp
  qed
  show "r = Inl e \<Longrightarrow> nt_dst n' = nt_dst n \<or> lo_dead (nt_dst n')"
  proof -
    have "lo_dead (nt_dst (kill dst_party m))" for m by (simp add: kill_def dst_party_def)
    moreover have "nt_dst n' = nt_dst n" if "do_dial S fresh_dst n = Some (Inl e, n')" for e
      using that line by (auto simp: do_dial_def Let_def split: event.splits)
    ultimately show "r = Inl e \<Longrightarrow> nt_dst n' = nt_dst n \<or> lo_dead (nt_dst n')" using run by auto
  qed
qed

lemma dialDest_links:
  assumes "dialDest (site_platform S) ep l = Some (r, l')"
  shows "ln_src l' = ln_src l" and "redial S (ln_net l) (ln_net l')" and "cache_ok (dst_conn l) \<Longrightarrow> cache_ok (dst_conn l')"
    and "r = Inr () \<Longrightarrow> unanswered (dst_conn l') = {}"
proof -
  have "(\<exists>e n'. Dial (dst_library S) ep (ln_net l) = Some (Inl e, n') \<and> r = Inl e \<and> l' = l\<lparr> ln_net := n' \<rparr>) \<or>
      (\<exists>cl n'. Dial (dst_library S) ep (ln_net l) = Some (Inr cl, n') \<and> r = Inr () \<and> l' = l\<lparr> ln_net := n', ln_dst := cl \<rparr>)"
    using assms by (auto simp: dialDest_def net_def zoomM_def bindM_def modifyM_def split: option.splits sum.splits)
  then show "ln_src l' = ln_src l" "redial S (ln_net l) (ln_net l')" "cache_ok (dst_conn l) \<Longrightarrow> cache_ok (dst_conn l')"
    "r = Inr () \<Longrightarrow> unanswered (dst_conn l') = {}"
    using dial_dest by (auto simp: cache_ok_def unanswered_def) (metis nth_mem)+
qed

section \<open>The contracts of a mirror\<close>

definition mirror_view :: "site \<Rightarrow> Mirror \<Rightarrow> net links tally" where
  "mirror_view S mr = ref_view S (set (destFolders mr))"

lemma ref_tally_mirror: "ref_tally S mr a b = mirror_view S mr"
proof -
  have "set (destBucketFolders (ref_rec S mr a b)) = set (destFolders mr)"
    by (auto simp: destBucketFolders_def destFolders_def sessionReconciler_def New_def sessionOptions_def Let_def)
  then show ?thesis by (simp add: ref_tally_def mirror_view_def)
qed

lemma local_shrinks: "src_links waiting l l' \<Longrightarrow> shrinks (ref_view S B) l l'"
  by (rule source_shrinks, erule src_links_mono, erule waiting_relations(3))

lemma in_source_shrinks: "src_links in_source l l' \<Longrightarrow> shrinks (ref_view S B) l l'"
  by (rule source_shrinks, erule src_links_mono, erule waiting_relations(4))

lemma on_dest_shrinks: "dst_links on_dest l l' \<Longrightarrow> shrinks (ref_view S B) l l'"
  by (rule dst_moving_shrinks [OF links_weaken(2)])

lemma sel_source_shrinks: "src_links sel_source l l' \<Longrightarrow> shrinks (ref_view S B) l l'"
  by (rule source_shrinks, erule src_links_mono) (simp add: sel_source_def)

lemma dialDest_reconnects: "steps (reconnects (ref_view S B)) (dialDest (site_platform S) ep)"
proof (rule stepsI)
  fix l r l'
  assume "dialDest (site_platform S) ep l = Some (r, l')"
  note d = dialDest_links [OF this]
  have same: "net_ok S B (ln_net l') = net_ok S B (ln_net l)" "copies S (ln_net l') k \<le> copies S (ln_net l) k" for k
    using d(2) by (simp_all add: redial_def net_ok_def box_names_def box_keys_def copies_def count_def)
  moreover have "issued S (ln_net l) h k \<Longrightarrow> issued S (ln_net l') h k" for h k
    by (rule issued_kept) (use d(2) in \<open>simp_all add: redial_def\<close>)
  moreover have "nt_log (ln_net l') = nt_log (ln_net l)" using d(2) by (simp add: redial_def)
  ultimately show "reconnects (ref_view S B) l l'"
    using d(3) by (simp add: reconnects_def keeps_dest_def)
qed

text \<open>The calls of a session that are not calls of the reconciler.\<close>

lemmas local_session_shrinks = local_platform [THEN local_shrinks]

lemma session_shrinks:
  "steps (shrinks (ref_view S B)) (on_src (Idle (pl_src (site_platform S))))"
  "steps (shrinks (ref_view S B)) (on_src (lib (ic_IdleClose (pl_src (site_platform S)) c)))"
  "steps (shrinks (ref_view S B)) (on_src (lib (ic_IdleWait (pl_src (site_platform S)) c)))"
  "steps (shrinks (ref_view S B)) (on_dst (EnsureNamedFolder (pl_dst (site_platform S)) f))"
  "steps (shrinks (ref_view S B)) (on_dst (SelectFolder (pl_dst (site_platform S))))"
  by (rule steps_weaken [OF idle_calls(1) in_source_shrinks] steps_weaken [OF idle_calls(2) in_source_shrinks]
      steps_weaken [OF idle_calls(3) in_source_shrinks] steps_weaken [OF open_calls(1) dst_moving_shrinks]
      steps_weaken [OF open_calls(2) on_dest_shrinks], assumption)+

lemma session_reconnects:
  "steps (reconnects (ref_view S B)) (dialSource (site_platform S) ep)"
  "steps (reconnects (ref_view S B)) (on_src (ResolveSpecialUse (pl_src (site_platform S))))"
  "steps (reconnects (ref_view S B)) (on_src (ResolveFolder (pl_src (site_platform S)) name))"
  by (rule steps_weaken [OF connect_calls(1) shrinks_reconnects [OF sel_source_shrinks]]
      steps_weaken [OF connect_calls(2) shrinks_reconnects [OF in_source_shrinks]]
      steps_weaken [OF connect_calls(3) shrinks_reconnects [OF in_source_shrinks]], assumption)+

lemmas closing_reconnects =
  connect_calls(4) [THEN in_source_shrinks, THEN shrinks_reconnects]
  connect_calls(5) [THEN on_dest_shrinks, THEN shrinks_reconnects]

lemmas session_calls = session_shrinks session_reconnects dialDest_reconnects

lemmas session_calls_keep =
  session_shrinks [THEN steps_weaken [OF _ shrinks_keeps]]
  session_reconnects [THEN steps_weaken [OF _ reconnects_keeps]]
  dialDest_reconnects [THEN steps_weaken [OF _ reconnects_keeps]]
  local_session_shrinks [THEN shrinks_keeps] closing_reconnects [THEN reconnects_keeps]

interpretation run_sound: truthful_platform "site_platform S" mr "mirror_view S mr" for S mr
proof (intro truthful_platform.intro truthful_platform_axioms.intro session_frame.intro)
  show "truthful_servers (sessionReconciler (site_platform S) mr a b) (mirror_view S mr)" for a b
    using ref_sound.truthful_servers_axioms [of S mr a b] by (simp only: ref_tally_mirror)
qed (unfold mirror_view_def, (rule session_calls_keep | assumption)+)

text \<open>The destination guard is what the copies of a mirror depend on, so the site is taken with it on.\<close>

definition guarding :: "Mirror \<Rightarrow> Mirror" where
  "guarding mr = mr\<lparr> mi_DestGuard := True \<rparr>"

interpretation run_unique: counting_platform "site_platform S" "guarding mr" "mirror_view S (guarding mr)" for S mr
proof (intro counting_platform.intro counting_platform_axioms.intro session_frame.intro)
  show "counting_servers (sessionReconciler (site_platform S) (guarding mr) a b) (mirror_view S (guarding mr))" for a b
    using ref_unique.counting_servers_axioms [of S "guarding mr" a b] by (simp only: ref_tally_mirror)
  show "t_open (mirror_view S (guarding mr)) l' = {}"
    if "dialDest (site_platform S) (mi_Dest (guarding mr)) l = Some (Inr (), l')" for l l'
    using dialDest_links(4) [OF that refl] by (simp add: mirror_view_def)
  show "mi_DestGuard (guarding mr)" by (simp add: guarding_def)
qed (unfold mirror_view_def, (rule session_calls local_session_shrinks closing_reconnects | assumption)+)

section \<open>The ledger over many sessions\<close>

lemma local_lost: "src_links waiting l l' \<Longrightarrow> keeps_lost (ref_ledger S) l l'"
  by (rule sel_source_lost, erule src_links_mono, rule in_source_sel, erule waiting_relations(1))

lemma in_source_lost: "src_links in_source l l' \<Longrightarrow> keeps_lost (ref_ledger S) l l'"
  by (rule sel_source_lost, erule src_links_mono, erule in_source_sel)

lemma dest_lost: "dst_links (storing S) l l' \<Longrightarrow> keeps_lost (ref_ledger S) l l'"
  using storing_holds by (auto simp: holds_def)

lemma dialDest_lost: "steps (keeps_lost (ref_ledger S)) (dialDest (site_platform S) ep)"
proof (rule stepsI)
  fix l r l'
  assume "dialDest (site_platform S) ep l = Some (r, l')"
  then have "redial S (ln_net l) (ln_net l')" by (rule dialDest_links)
  then have n: "later_mail (ln_net l) (ln_net l')" "nt_src (ln_net l') = nt_src (ln_net l)"
    by (simp_all add: redial_def)
  have "limit_ok (ln_net l) \<Longrightarrow> limit_ok (ln_net l')" by (rule limit_ok_same [OF n(1)]) (simp_all add: n(2))
  then show "keeps_lost (ref_ledger S) l l'"
    by (auto simp: keeps_lost_def intro: later_lost [OF n(1)] later_assigned [OF n(1)])
qed

lemma session_lost:
  "steps (keeps_lost (ref_ledger S)) (on_src (Idle (pl_src (site_platform S))))"
  "steps (keeps_lost (ref_ledger S)) (on_src (lib (ic_IdleClose (pl_src (site_platform S)) c)))"
  "steps (keeps_lost (ref_ledger S)) (on_src (lib (ic_IdleWait (pl_src (site_platform S)) c)))"
  "steps (keeps_lost (ref_ledger S)) (on_dst (EnsureNamedFolder (pl_dst (site_platform S)) f))"
  "steps (keeps_lost (ref_ledger S)) (on_dst (SelectFolder (pl_dst (site_platform S))))"
  "steps (keeps_lost (ref_ledger S)) (dialSource (site_platform S) ep)"
  "steps (keeps_lost (ref_ledger S)) (on_src (ResolveSpecialUse (pl_src (site_platform S))))"
  "steps (keeps_lost (ref_ledger S)) (on_src (ResolveFolder (pl_src (site_platform S)) name))"
  by (rule steps_weaken [OF idle_calls(1) in_source_lost] steps_weaken [OF idle_calls(2) in_source_lost]
      steps_weaken [OF idle_calls(3) in_source_lost] steps_weaken [OF open_calls(1) dest_lost [OF links_weaken(1)]]
      steps_weaken [OF open_calls(2) dest_lost [OF links_weaken(1) [OF links_weaken(2)]]]
      steps_weaken [OF connect_calls(1) sel_source_lost] steps_weaken [OF connect_calls(2) in_source_lost]
      steps_weaken [OF connect_calls(3) in_source_lost], assumption)+

interpretation run_complete: complete_platform "site_platform S" mr "ref_ledger S" for S mr
proof (intro complete_platform.intro complete_platform_axioms.intro session_frame.intro)
  show "complete_source (sessionReconciler (site_platform S) mr a b) (ref_ledger S)" for a b
    by (rule ref_complete.complete_source_axioms)
qed (rule session_lost dialDest_lost local_platform [THEN local_lost] connect_calls(4) [THEN in_source_lost]
    connect_calls(5) [THEN links_weaken(2), THEN links_weaken(1), THEN dest_lost] | assumption)+

end
