(* ===== verification/Answers.thy ===== *)
theory Answers
  imports ImapxFacts
begin

text \<open>
  The methods of the client return: the fetch loops end because a fetch has finitely many messages, the
  search loop because a round shortens the list or halves the chunk.
\<close>

section \<open>A library that answers\<close>

text \<open>\<open>left\<close> is the number of messages that a fetch still has to deliver.\<close>

locale ending_client =
  fixes L :: "'w imapclient" and left :: "'w \<Rightarrow> nat"
  assumes answers: "ic_Select L name w \<noteq> None" "ic_UIDSearch L crit w \<noteq> None" "ic_HasSpecialUse L w \<noteq> None"
      "ic_List L special w \<noteq> None" "ic_Fetch L us opts w \<noteq> None" "ic_CloseFetch L i w \<noteq> None"
      "ic_Append L name len ao w \<noteq> None" "ic_Write L i raw w \<noteq> None" "ic_CloseAppend L i w \<noteq> None"
      "ic_WaitAppend L i w \<noteq> None" "ic_Move L us name w \<noteq> None" "ic_Store L us op fl w \<noteq> None"
    and fewer: "ic_Next L i w = (Some x, w') \<Longrightarrow> left w' < left w"
begin

abbreviation okC :: "'w conn \<Rightarrow> bool" where
  "okC \<equiv> \<lambda>p. 1 \<le> cl_guardChunk (fst p)"

lemma lib_settles: "(\<And>w. m w \<noteq> None) \<Longrightarrow> settles okC (lib m)"
  by (rule settlesI) (fastforce simp: lib_def zoomM_def split: option.split)

lemmas calls = answers [THEN lib_settles]

lemma struct_settles: "settles okC (field f)" "(\<And>cl. 1 \<le> cl_guardChunk cl \<Longrightarrow> 1 \<le> cl_guardChunk (g cl)) \<Longrightarrow> settles okC (assign g)"
  by (simp_all add: field_def assign_def settles_basic settles_modifyM)

lemma failAt_settles: "settles okC (failAt fmt args e)"
  unfolding failAt_def by (intro settles_compose struct_settles)

lemma libAt_settles: "settles okC (lib m) \<Longrightarrow> settles okC (libAt fmt args m)"
  unfolding libAt_def by (intro settles_compose failAt_settles)

lemma next_settles: "settles okC (nextMessage L i)"
  by (rule settlesI) (auto simp: nextMessage_def split: prod.splits)

lemma abortFetch_settles: "settles okC (abortFetch L i e)"
  unfolding abortFetch_def by (intro settles_compose calls)

lemmas parts = settles_compose struct_settles failAt_settles libAt_settles calls next_settles abortFetch_settles

section \<open>Folders\<close>

lemma SelectNamedFolder_settles: "settles okC (SelectNamedFolder L name)"
  unfolding SelectNamedFolder_def by (intro parts) simp_all

lemma SelectFolder_settles: "settles okC (SelectFolder L)"
  unfolding SelectFolder_def by (intro parts SelectNamedFolder_settles)

lemma ensureSelected_settles: "settles okC (ensureSelected L name)"
  unfolding ensureSelected_def by (intro parts SelectNamedFolder_settles)

lemma listing_settles: "settles okC (SearchAllUIDs L)" "settles okC (ListFolders L)"
  unfolding SearchAllUIDs_def ListFolders_def by (intro parts)+

section \<open>Fetching\<close>

lemma next_fewer: "nextMessage L i p = Some (Inr (Some x), p') \<Longrightarrow> left (snd p') < left (snd p)"
  by (auto simp: nextMessage_def split: prod.splits dest: fewer)

lemma next_total: "\<exists>r p'. nextMessage L i p = Some (Inr r, p')"
  by (auto simp: nextMessage_def split: prod.splits)

lemma collectMetas_settles: "settles okC (collectMetas L i)"
proof -
  let ?body = "\<lambda>metas. bindM (nextMessage L i) (\<lambda>r. case r of
       None \<Rightarrow> returnM (Inr metas)
     | Some (Inl e) \<Rightarrow> abortFetch L i (Wrap ''fetch metas: %w'' [] e)
     | Some (Inr buf) \<Rightarrow> returnM (Inl (metas @ [bufferMeta L buf])))"
  have body: "settles okC (?body metas)" for metas
    by (intro parts)
  have "left (snd p') < left (snd p)" if "?body metas p = Some (Inr (Inl metas'), p')" for metas metas' p p'
    using that by (rule bindM_InrE)
      (auto simp: returnM_def abortFetch_def throwM_def elim!: bindM_InrE dest: next_fewer split: option.splits sum.splits)
  then have "settles okC (untilM ?body metas)" for metas
    by (rule settles_untilM [OF body])
  then show ?thesis unfolding collectMetas_def by simp
qed

lemma fetchMetas_settles: "settles okC (fetchMetas L us)"
  unfolding fetchMetas_def by (intro parts collectMetas_settles)

lemma FetchMetaRange_settles: "settles okC (FetchMetaRange L a b)"
  unfolding FetchMetaRange_def by (rule fetchMetas_settles)

lemma conn_call_settles: "settles okC m \<Longrightarrow> settles (\<lambda>q. okC (fst q)) (conn_call m)"
  by (rule settlesI, drule (1) settlesD) (auto simp: conn_call_def zoomM_def)

lemma conn_abort: "conn_call (abortFetch L i e) q \<noteq> Some (Inr a, q')"
  by (auto simp: conn_call_def zoomM_def abortFetch_def throwM_def elim!: bindM_InrE split: option.splits)

lemma callback_settles: "settles (\<lambda>q. P (fst q)) (callback f)"
  by (rule settlesI) (auto simp: callback_def split: prod.split)

lemma streamLoop_settles: "settles (\<lambda>q. okC (fst q)) (streamLoop L i fn)"
proof -
  let ?body = "\<lambda>_ :: unit. bindM (conn_call (nextMessage L i)) (\<lambda>r. case r of
       None \<Rightarrow> returnM (Inr ())
     | Some (Inl e) \<Rightarrow> conn_call (abortFetch L i (Wrap ''fetch full stream: %w'' [] e))
     | Some (Inr buf) \<Rightarrow>
         (if fb_FindBodySection buf fullSection = [] then returnM (Inl ())
          else bindM (callback (fn (bufferFull buf))) (\<lambda>err. case err of
              None \<Rightarrow> returnM (Inl ())
            | Some e \<Rightarrow> conn_call (abortFetch L i e))))"
  have body: "settles (\<lambda>q. okC (fst q)) (?body u)" for u
    by (intro parts conn_call_settles callback_settles)
  have "left (snd (fst q')) < left (snd (fst q))" if "?body u q = Some (Inr (Inl u'), q')" for u u' q q'
    using that
  proof (rule bindM_InrE)
    fix r q1
    assume n: "conn_call (nextMessage L i) q = Some (Inr r, q1)"
    assume rest: "(case r of None \<Rightarrow> returnM (Inr ())
     | Some (Inl e) \<Rightarrow> conn_call (abortFetch L i (Wrap ''fetch full stream: %w'' [] e))
     | Some (Inr buf) \<Rightarrow>
         (if fb_FindBodySection buf fullSection = [] then returnM (Inl ())
          else bindM (callback (fn (bufferFull buf))) (\<lambda>err. case err of
              None \<Rightarrow> returnM (Inl ())
            | Some e \<Rightarrow> conn_call (abortFetch L i e)))) q1 = Some (Inr (Inl u'), q')"
    obtain x where "r = Some x" and "fst q' = fst q1"
      using rest
      by (auto simp: returnM_def callback_def conn_abort elim!: bindM_InrE split: option.splits sum.splits if_splits prod.splits)
    then show ?thesis
      using n by (auto simp: conn_call_def zoomM_def split: option.splits dest: next_fewer)
  qed
  then have "settles (\<lambda>q. okC (fst q)) (untilM ?body u)" for u
    by (rule settles_untilM [OF body, where \<mu> = "\<lambda>_ q. left (snd (fst q))"])
  then show ?thesis unfolding streamLoop_def by simp
qed

lemma FetchFullStream_settles: "settles (\<lambda>q. okC (fst q)) (FetchFullStream L us fn)"
  unfolding FetchFullStream_def by (intro parts conn_call_settles streamLoop_settles)

lemma streamAll_settles: "settles okC (streamAll L us)"
proof (rule settlesI)
  fix p :: "'w conn"
  assume "okC p"
  then obtain r q where "FetchFullStream L us (\<lambda>m ms. (None, ms @ [m])) (p, []) = Some (r, q)" "okC (fst q)"
    by (metis fst_conv settlesD [OF FetchFullStream_settles])
  then show "\<exists>r p'. streamAll L us p = Some (r, p') \<and> okC p'"
    by (cases q) (auto simp: streamAll_def split: sum.split)
qed

section \<open>Searching\<close>

lemma searchAnswer_settles: "settles okC (searchAnswer L chunk rest found r)"
  unfolding searchAnswer_def by (intro parts fetchMetas_settles) auto

lemma searchRound_settles: "settles okC (searchRound L v)"
proof (rule settlesI)
  fix p :: "'w conn"
  assume ok: "okC p"
  obtain rest found where v: "v = (rest, found)" by force
  show "\<exists>r p'. searchRound L v p = Some (r, p') \<and> okC p'"
  proof (cases "rest = []")
    case False
    then have "take (nat (cl_guardChunk (fst p))) rest \<noteq> []" using ok by simp
    then obtain crit where crit: "orMessageIDCriteria (take (nat (cl_guardChunk (fst p))) rest) = Some crit"
      using orMessageIDCriteria_tree by blast
    have "settles okC (bindM (tryM (lib (ic_UIDSearch L crit))) (searchAnswer L (cl_guardChunk (fst p)) rest found))"
      by (intro parts searchAnswer_settles)
    from settlesD [OF this ok] show ?thesis
      using False crit by (simp add: v searchRound_def field_def bindM_getM)
  qed (use ok in \<open>simp add: v searchRound_def returnM_def\<close>)
qed

lemma searchRound_less:
  assumes ok: "okC p" and round: "searchRound L (rest, found) p = Some (Inr (Inl v'), p')"
  shows "length (fst v') + nat (cl_guardChunk (fst p')) < length rest + nat (cl_guardChunk (fst p))"
proof -
  let ?n = "cl_guardChunk (fst p)"
  have ne: "rest \<noteq> []" using round by (auto simp: searchRound_def returnM_def)
  then obtain crit where
    "bindM (tryM (lib (ic_UIDSearch L crit))) (searchAnswer L ?n rest found) p = Some (Inr (Inl v'), p')"
    using round by (cases "orMessageIDCriteria (take (nat ?n) rest)")
      (simp_all add: searchRound_def field_def bindM_getM, simp_all add: ofOption_def bindM_def)
  then obtain q p1 where "tryM (lib (ic_UIDSearch L crit)) p = Some (Inr q, p1)"
    and a: "searchAnswer L ?n rest found q p1 = Some (Inr (Inl v'), p')"
    by (rule bindM_InrE)
  then have cl: "fst p1 = fst p" by (auto simp: tryM_def lib_def zoomM_def split: option.splits)
  show ?thesis
  proof (cases q)
    case (Inl e)
    then show ?thesis
      using a cl by (auto simp: searchAnswer_def assign_def bindM_modifyM returnM_def failAt_def field_def bindM_getM throwM_def
          split: if_splits)
  next
    case (Inr us)
    then have "fst v' = drop (nat ?n) rest" and "fst p' = fst p"
      using a cl by (auto simp: searchAnswer_def returnM_def elim!: bindM_InrE dest!: fetchMetas_client split: if_splits)
    then show ?thesis using ok ne by (cases rest) auto
  qed
qed

lemma SearchMessageIDsIn_settles: "settles okC (SearchMessageIDsIn L folder ids)"
proof -
  have "settles okC (untilM (searchRound L) v)" for v
    by (rule settles_untilM [OF searchRound_settles, where \<mu> = "\<lambda>v p. length (fst v) + nat (cl_guardChunk (fst p))"])
      (metis prod.collapse searchRound_less)
  then show ?thesis unfolding SearchMessageIDsIn_def by (intro parts ensureSelected_settles)
qed

lemma searchMessageID_settles: "settles okC (searchMessageID L folder mid)"
  unfolding searchMessageID_def by (intro parts ensureSelected_settles)

section \<open>Writing\<close>

lemma append_settles: "settles okC (BeginAppend L folder msg flags)" "settles okC (WaitAppend L h)"
  unfolding BeginAppend_def WaitAppend_def by (intro parts)+

lemma AppendTo_settles: "settles okC (AppendTo L folder msg flags)"
  unfolding AppendTo_def by (intro parts append_settles)

lemma storing_settles: "settles okC (storeFlags L us op flags)"
  unfolding storeFlags_def by (intro parts)

lemma MoveMessageID_settles: "settles okC (MoveMessageID L a b mid)"
  unfolding MoveMessageID_def by (intro parts searchMessageID_settles)

lemma MoveUIDs_settles: "settles okC (MoveUIDs L a us b)"
  unfolding MoveUIDs_def by (intro parts ensureSelected_settles) simp

lemma keyword_settles: "settles okC (StoreKeywordByMessageID L folder mid add kw)" "settles okC (StoreKeywordsUIDs L us kws)"
  unfolding StoreKeywordByMessageID_def StoreKeywordsUIDs_def
  by (intro parts searchMessageID_settles storing_settles)+

end

end
