(* ===== verification/Termination.thy ===== *)
theory Termination
  imports Phases
begin

text \<open>
  Every pass ends.  The calls of the two connections are assumed to return, and the UIDs of the folders
  to leave room for one more batch below \<open>2 ^ 32\<close>; then no loop of a pass goes on forever: the windowed
  scans count up to UIDNEXT and the propagation loop empties its queue.
\<close>

section \<open>Parts of a pass\<close>

lemma settles_call: "settles Ok m \<Longrightarrow> settles (\<lambda>s. Ok (st_world s)) (call m)"
  by (rule settlesI) (fastforce simp: settles_def call_eq split: option.split)

lemma settles_outer: "settles P m \<Longrightarrow> settles (\<lambda>p. P (fst p)) (outer m)"
  by (rule settlesI) (fastforce simp: settles_def outer_def zoomM_def split: option.split)

lemma settles_vars: "(\<And>s l. fst (f (s, l)) = s) \<Longrightarrow> settles (\<lambda>p. P (fst p)) (modifyM f)"
  by (auto intro!: settles_modifyM)

lemma settles_withVars: "settles (\<lambda>p. P (fst p)) m \<Longrightarrow> settles P (withVars l m)"
  by (rule settlesI, drule_tac s = "(s, l)" in settlesD) (auto simp: withVars_def split: sum.splits)

lemma settles_scanWindows:
  assumes "0 < (word_of_int (UIDBatch opts) :: u32)" and "unat uidNext + unat (word_of_int (UIDBatch opts) :: u32) \<le> 2 ^ 32"
    and "settles P ctx" and "\<And>start stop. settles P (fetch start stop)" and "\<And>stop ms. settles P (fn stop ms)"
  shows "settles P (scanWindows opts ctx first uidNext fetch fn)"
  unfolding scanWindows_def scanLoop_windows [OF assms(1,2)] window_body_def
  by (intro settles_compose assms)

section \<open>Servers that answer\<close>

text \<open>
  \<open>Ok\<close> is an invariant of the outside world, \<open>limit\<close> bounds UIDNEXT.
\<close>

locale responsive_servers =
  fixes R :: "'w Reconciler" and Ok :: "'w \<Rightarrow> bool" and limit :: nat
  assumes local_ok: "rt_sql (r_rt R) w = (q, w') \<Longrightarrow> Ok w \<Longrightarrow> Ok w'"
      "rt_ctx (r_rt R) w = (q, w') \<Longrightarrow> Ok w \<Longrightarrow> Ok w'"
      "rt_now (r_rt R) w = (t, w') \<Longrightarrow> Ok w \<Longrightarrow> Ok w'"
      "rt_perm (r_rt R) w = (p, w') \<Longrightarrow> Ok w \<Longrightarrow> Ok w'"
      "OnProgress (r_opts R) = Some f \<Longrightarrow> Ok w \<Longrightarrow> Ok (f phase item i w)"
    and source_answers: "settles Ok (src_SelectFolder (r_src R))" "settles Ok (src_SelectNamedFolder (r_src R) name)"
      "settles Ok (src_ListFolders (r_src R))" "settles Ok (src_SearchAllUIDs (r_src R))"
      "settles Ok (src_FetchMetaRange (r_src R) a b)" "settles Ok (src_FetchFullStream (r_src R) us)"
    and dest_answers: "settles Ok (dst_SelectNamedFolder (r_dst R) name)"
      "settles Ok (dst_FetchMetaRange (r_dst R) a b)" "settles Ok (dst_SearchMessageIDsIn (r_dst R) name ids)"
      "settles Ok (dst_MoveMessageID (r_dst R) name to key)" "settles Ok (dst_MoveUIDs (r_dst R) name us to)"
      "settles Ok (dst_StoreKeywordByMessageID (r_dst R) name key add kw)"
      "settles Ok (dst_StoreKeywordsUIDs (r_dst R) us fl)"
      "settles Ok (dst_AppendTo (r_dst R) name full fl)" "settles Ok (dst_BeginAppend (r_dst R) name full fl)"
      "settles Ok (dst_WaitAppend (r_dst R) h)"
    and room: "Ok w \<Longrightarrow> src_SelectFolder (r_src R) w = Some (Inr (v, n, x), w') \<Longrightarrow> unat n \<le> limit"
      "Ok w \<Longrightarrow> src_SelectNamedFolder (r_src R) name w = Some (Inr (v, n, x), w') \<Longrightarrow> unat n \<le> limit"
      "Ok w \<Longrightarrow> dst_SelectNamedFolder (r_dst R) name w = Some (Inr (v, n, x), w') \<Longrightarrow> unat n \<le> limit"
begin

abbreviation okS :: "'w st \<Rightarrow> bool" where
  "okS \<equiv> \<lambda>s. Ok (st_world s)"

sublocale keep: pass_relation R "\<lambda>w w'. Ok w \<longrightarrow> Ok w'" "\<lambda>s s'. okS s \<longrightarrow> okS s'"
  by unfold_locales (auto intro: local_ok settles_steps source_answers dest_answers)

lemma writes_settles: "writes m g \<Longrightarrow> keep.wsteps m \<Longrightarrow> settles okS m"
  by (rule settles_of_steps [OF writes_total])

lemma reads_settles: "reads m g \<Longrightarrow> keep.wsteps m \<Longrightarrow> settles okS m"
  by (rule settles_of_steps [OF reads_total])

lemma store_settles:
  "settles okS (HasKey (r_rt R) k)" "settles okS (MemberHas (r_rt R) f k)"
  "settles okS (MemberFolders (r_rt R) k)" "settles okS (MemberKeys (r_rt R) f)"
  "settles okS (PendingOps (r_rt R) i)" "settles okS (FolderState (r_rt R) f)"
  "settles okS (MetaGet (r_rt R) k)"
  "settles okS (DeletePendingBatch (r_rt R) ids)" "settles okS (MemberChangeBatch (r_rt R) f items)"
  "settles okS (SetFolderState (r_rt R) f uv lu)" "settles okS (MetaSet (r_rt R) k v)"
  "settles okS (RecordKeys (r_rt R) rs)" "settles okS (SeedBatch (r_rt R) ks)"
  by (rule reads_settles writes_settles, rule store_facts, rule keep.wsteps_store)+

lemma local_settles:
  "settles okS (ctxErr R)" "settles okS (nowUnix R)" "settles okS (progress R phase item i)"
  "settles okS (update_sum g)" "settles okS (countMove R want i)" "settles okS (go_order (r_rt R) xs)"
proof -
  show "settles okS (ctxErr R)"
    by (rule settles_of_steps [OF _ keep.ctxErr_steps]) (auto simp: ctxErr_def split: prod.split option.split)
  show "settles okS (nowUnix R)"
    by (rule settles_of_steps [OF _ keep.nowUnix_steps]) (auto simp: nowUnix_def split: prod.split)
  show "settles okS (progress R phase item i)"
    by (rule settles_of_steps [OF _ keep.progress_steps])
      (auto simp: progress_def returnM_def modifyM_def split: option.split)
  show "settles okS (update_sum g)" for g
    by (rule settles_of_steps [OF _ keep.update_sum_steps]) (simp add: update_sum_def modifyM_def)
  then show "settles okS (countMove R want i)" unfolding countMove_def .
  show "settles okS (go_order (r_rt R) xs)"
    by (rule settles_of_steps [OF _ keep.go_order_steps]) (auto simp: go_order_def split: prod.split)
qed

lemma mark_settles: "settles okS (UIDValidity (r_rt R))" "settles okS (LastUID (r_rt R))"
  "settles okS (SetUIDValidity (r_rt R) v)" "settles okS (SetLastUID (r_rt R) v)"
  unfolding UIDValidity_def LastUID_def metaGetUint_def SetUIDValidity_def SetLastUID_def metaSetUint_def Let_def
  by (intro settles_compose store_settles)+

lemma MemberUIDKeys_settles: "settles okS (MemberUIDKeys (r_rt R) f)"
  unfolding MemberUIDKeys_def Let_def
  by (intro settles_compose local_settles reads_settles [OF reads_sql_query keep.wsteps_sql_query])

lemmas answers = source_answers [THEN settles_call] dest_answers [THEN settles_call]
lemmas basic = store_settles local_settles mark_settles MemberUIDKeys_settles answers

abbreviation okP :: "'w st \<times> 'l \<Rightarrow> bool" where
  "okP \<equiv> \<lambda>p. okS (fst p)"

lemma routing_settles: "settles okS (gatePending R key kind)" "settles okS (destFolderFor R key)" "settles okS (labelsFor R key)"
  unfolding gatePending_def destFolderFor_def labelsFor_def Let_def by (intro settles_compose basic)+

lemma record_settles: "settles okS (recordAdditions R folder metas kindFor)" "settles okS (recordRemovals R folder kind keys)"
  unfolding recordAdditions_def recordRemovals_def Let_def by (intro settles_compose basic routing_settles)+

text \<open>A scan over a folder that has been opened.\<close>

definition fits :: "u32 \<Rightarrow> bool" where
  "fits n \<longleftrightarrow> 0 < (word_of_int (UIDBatch (r_opts R)) :: u32) \<and> unat n + unat (word_of_int (UIDBatch (r_opts R)) :: u32) \<le> 2 ^ 32"

lemma scan_settles:
  "fits n \<Longrightarrow> settles P ctx \<Longrightarrow> (\<And>start stop. settles P (fetch start stop)) \<Longrightarrow> (\<And>stop ms. settles P (fn stop ms)) \<Longrightarrow>
   settles P (scanWindows (r_opts R) ctx first n fetch fn)"
  unfolding fits_def by (rule settles_scanWindows) auto

text \<open>The call that opens a folder, with what follows it.\<close>

lemma settles_select:
  assumes sel: "settles Ok m" and room: "\<And>w v n x w'. Ok w \<Longrightarrow> m w = Some (Inr (v, n, x), w') \<Longrightarrow> unat n \<le> limit"
    and batch: "0 < (word_of_int (UIDBatch (r_opts R)) :: u32)" "limit + unat (word_of_int (UIDBatch (r_opts R)) :: u32) \<le> 2 ^ 32"
    and rest: "\<And>v n x. fits n \<Longrightarrow> settles okS (f (v, n, x))"
  shows "settles okS (bindM (call m) f)"
proof (rule settlesI)
  fix s
  assume ok: "okS s"
  then obtain r w where m: "m (st_world s) = Some (r, w)" "Ok w" using settlesD [OF sel] by blast
  show "\<exists>r s'. bindM (call m) f s = Some (r, s') \<and> okS s'"
  proof (cases r)
    case (Inr a)
    obtain v n x where a: "a = (v, n, x)" by (cases a)
    have "fits n" using room [OF ok m(1) [unfolded Inr a]] batch by (simp add: fits_def)
    from settlesD [OF rest [OF this], of "s\<lparr> st_world := w \<rparr>" v x] show ?thesis
      using m Inr a by (simp add: bindM_def call_eq)
  qed (use m in \<open>simp add: bindM_def call_eq\<close>)
qed

section \<open>The membership scan\<close>

lemma outer_settles:
  "settles okS m \<Longrightarrow> settles okP (outer m :: ('w st \<times> 'l, 'a) prog)"
  by (rule settles_outer)

lemma rebuildWatchedFolder_settles: "fits n \<Longrightarrow> settles okS (rebuildWatchedFolder R folder kind item v n)"
  unfolding rebuildWatchedFolder_def Let_def
  by (intro settles_compose basic settles_withVars scan_settles outer_settles settles_vars record_settles) auto

lemma syncWatchedFolder_settles:
  assumes "0 < (word_of_int (UIDBatch (r_opts R)) :: u32)" "limit + unat (word_of_int (UIDBatch (r_opts R)) :: u32) \<le> 2 ^ 32"
  shows "settles okS (syncWatchedFolder R folder kind item)"
  unfolding syncWatchedFolder_def Let_def
  by (rule settles_select [OF source_answers(2) _ assms], erule (1) room(2), simp only: prod.case)
    (intro settles_compose basic record_settles rebuildWatchedFolder_settles scan_settles, assumption+)

lemma syncMembership_settles:
  assumes "0 < (word_of_int (UIDBatch (r_opts R)) :: u32)" "limit + unat (word_of_int (UIDBatch (r_opts R)) :: u32) \<le> 2 ^ 32"
  shows "settles okS (syncMembership R)"
  unfolding syncMembership_def Let_def by (intro settles_compose basic syncWatchedFolder_settles assms)

section \<open>The backfill\<close>

lemma backfillMessage_settles: "settles okP (backfillMessage R folder m)"
  unfolding backfillMessage_def Let_def
  by (intro settles_compose outer_settles routing_settles settles_vars) auto

lemma groups_settles: "settles okS (storeGroups R v groups)" "settles okS (moveGroups R folder moves)"
  unfolding storeGroups_def moveGroups_def by (intro settles_compose basic)+

lemma backfillDestFolder_settles:
  assumes "0 < (word_of_int (UIDBatch (r_opts R)) :: u32)" "limit + unat (word_of_int (UIDBatch (r_opts R)) :: u32) \<le> 2 ^ 32"
  shows "settles okS (backfillDestFolder R folder)"
  unfolding backfillDestFolder_def
  by (rule settles_select [OF dest_answers(1) _ assms], erule (1) room(3), simp only: prod.case)
    (intro settles_compose basic settles_withVars scan_settles outer_settles backfillMessage_settles groups_settles, assumption+)

lemma maybeBackfill_settles:
  assumes "0 < (word_of_int (UIDBatch (r_opts R)) :: u32)" "limit + unat (word_of_int (UIDBatch (r_opts R)) :: u32) \<le> 2 ^ 32"
  shows "settles okS (maybeBackfill R)"
  unfolding maybeBackfill_def Let_def by (intro settles_compose basic backfillDestFolder_settles assms)

section \<open>Mirroring\<close>

lemma guardSplit_settles: "settles okS (guardSplit R found ps rs kept)"
  by (induction ps arbitrary: rs kept) (auto intro!: settles_compose basic)

lemma guard_settles: "settles okS (guard R pend)"
  unfolding guard_def Let_def by (intro settles_compose basic guardSplit_settles)

lemma failWith_settles: "settles okP (failWith e)"
  unfolding failWith_def by (rule settles_vars) simp

lemma flushRecords_settles: "settles okP (flushRecords R)"
  unfolding flushRecords_def by (intro settles_compose outer_settles basic failWith_settles settles_vars) auto

lemma confirmAppend_settles: "settles okP (confirmAppend R i it b)"
  unfolding confirmAppend_def by (intro settles_compose outer_settles basic flushRecords_settles settles_vars) auto

lemma settleOldest_settles: "settles okP (settleOldest R i)"
  unfolding settleOldest_def
  by (intro settles_compose outer_settles basic confirmAppend_settles failWith_settles settles_vars) auto

lemma consumeItem_settles: "settles okP (consumeItem R i j item)"
  unfolding consumeItem_def Let_def
  by (intro settles_compose outer_settles basic settleOldest_settles failWith_settles routing_settles settles_vars) auto

lemma drainRing_settles: "settles okP (drainRing R i j)"
  by (induction j) (auto intro!: settles_compose settleOldest_settles)

lemma copyPipeline_settles: "settles okS (copyPipeline R pend)"
  unfolding copyPipeline_def Let_def consume_def
  by (intro settles_compose basic settles_withVars consumeItem_settles drainRing_settles flushRecords_settles)

lemma classify_settles: "settles okS (classify R ms pend ks)"
  by (induction ms arbitrary: pend ks) (auto simp: Let_def intro!: settles_compose basic routing_settles)

lemma mirrorStep_settles: "settles okS (mirrorStep R stop metas)"
  unfolding mirrorStep_def mirrorWindow_def
  by (intro settles_compose basic classify_settles guard_settles copyPipeline_settles)

lemma adopt_settles: "settles okS (adoptUIDValidity R v)"
  unfolding adoptUIDValidity_def by (intro settles_compose basic)

section \<open>The propagation loop\<close>

lemma applyPending_settles: "settles okS (applyPending R op)"
proof -
  have "settles okS (moveFrom R want key folders)" for want key folders
    by (induction folders) (auto intro!: settles_compose basic)
  moreover have "settles okS (storeKeywordIn R key add kw folders)" for key add kw folders
    by (induction folders) (auto intro!: settles_compose basic)
  ultimately show ?thesis
    unfolding applyPending_def Let_def by (intro settles_compose routing_settles)
qed

lemma applyPage_settles: "settles okS (applyPage R ops ids)"
  by (induction ops arbitrary: ids) (auto intro!: settles_compose basic applyPending_settles)

text \<open>Each round deletes the operations that it has read, so the queue gets shorter.\<close>

lemma applyPage_result:
  assumes "applyPage R ops ids s = Some (Inr ids', s')"
  shows "ids' = ids @ map po_ID ops \<and> db_pending (st_db s') = db_pending (st_db s)"
  using assms
proof (induction ops arbitrary: ids s)
  case Nil
  then show ?case by (simp add: returnM_def)
next
  case (Cons op ops)
  let ?same = "\<lambda>s s' :: 'w st. st_db s' = st_db s"
  from Cons.prems obtain s1 s2 where c: "ctxErr R s = Some (Inr (), s1)" and a: "applyPending R op s1 = Some (Inr (), s2)"
    and rest: "applyPage R ops (ids @ [po_ID op]) s2 = Some (Inr ids', s')"
    by (auto simp: bindM_def tryM_def throwM_def split: option.splits sum.splits)
  have "db_pending (st_db s1) = db_pending (st_db s)"
    using c by (auto simp: ctxErr_def split: prod.splits option.splits)
  moreover have "db_pending (st_db s2) = db_pending (st_db s1)"
    using stepsD [OF untouched.applyPending_steps a] by simp
  ultimately show ?case using Cons.IH [OF rest] by simp
qed

lemma pending_page_removed:
  assumes "pending_page d n = op # ops"
  shows "length (db_pending (fold sql_deletePending (map po_ID (op # ops)) d)) < length (db_pending d)"
proof -
  have le: "length (db_pending (fold sql_deletePending is d)) \<le> length (db_pending d)" for "is" d
  proof (induction "is" arbitrary: d)
    case (Cons i "is")
    have "length (db_pending (sql_deletePending i d)) \<le> length (db_pending d)" by (simp add: sql_deletePending_def)
    then show ?case using Cons [of "sql_deletePending i d"] by simp
  qed simp
  have "op \<in> set (db_pending d)"
    using assms by (metis in_set_takeD list.set_intros(1) pending_page_def set_sort)
  then have "length (db_pending (sql_deletePending (po_ID op) d)) < length (db_pending d)"
    by (auto simp: sql_deletePending_def intro!: length_filter_less)
  then show ?thesis using le [of "map po_ID ops" "sql_deletePending (po_ID op) d"] by simp
qed

lemma propagate_settles: "settles okS (propagate R)"
proof -
  let ?body = "\<lambda>_ :: unit. bindM (PendingOps (r_rt R) 200) (\<lambda>ops.
     if ops = [] then returnM (Inr ())
     else bindM (bindM (applyPage R ops []) (DeletePendingBatch (r_rt R))) (\<lambda>_. returnM (Inl ())))"
  have total: "settles okS (?body u)" for u
    by (intro settles_compose basic applyPage_settles)
  have less: "length (db_pending (st_db s')) < length (db_pending (st_db s))"
    if b: "?body u s = Some (Inr (Inl u'), s')" for u u' s s'
  proof -
    from b obtain ops s1 where read: "PendingOps (r_rt R) 200 s = Some (Inr ops, s1)"
      and rest: "(if ops = [] then returnM (Inr ())
        else bindM (bindM (applyPage R ops []) (DeletePendingBatch (r_rt R))) (\<lambda>_. returnM (Inl ()))) s1 = Some (Inr (Inl u'), s')"
      by (rule bindM_InrE)
    have "ops \<noteq> []" using rest by (auto simp: returnM_def)
    have ops: "ops = pending_page (st_db s) 200" and s1: "st_db s1 = st_db s"
      by (rule reads_cases [OF reads_PendingOps read]; simp)+
    obtain s3 where "bindM (applyPage R ops []) (DeletePendingBatch (r_rt R)) s1 = Some (Inr (), s3)"
      and "s3 = s'"
      using rest [unfolded if_not_P [OF \<open>ops \<noteq> []\<close>]] by (rule bindM_InrE) (simp add: returnM_def)
    then have "bindM (applyPage R ops []) (DeletePendingBatch (r_rt R)) s1 = Some (Inr (), s')"
      by simp
    then obtain ids s2 where "applyPage R ops [] s1 = Some (Inr ids, s2)" and d: "DeletePendingBatch (r_rt R) ids s2 = Some (Inr (), s')"
      by (rule bindM_InrE)
    from applyPage_result [OF this(1)] have ids: "ids = map po_ID ops" and "db_pending (st_db s2) = db_pending (st_db s)"
      using s1 by simp_all
    obtain op ops' where "ops = op # ops'" using \<open>ops \<noteq> []\<close> by (cases ops) auto
    moreover have "st_db s' = fold sql_deletePending ids (st_db s2)"
      by (rule writes_cases [OF writes_DeletePendingBatch d]; simp)
    moreover have "pending_page (st_db s2) 200 = ops"
      using ops \<open>db_pending (st_db s2) = _\<close> by (simp add: pending_page_def)
    ultimately show ?thesis
      using pending_page_removed [of "st_db s2" 200 op ops'] ids \<open>db_pending (st_db s2) = _\<close> by simp
  qed
  show ?thesis
    unfolding propagate_def
    by (rule settles_untilM [OF total, where \<mu> = "\<lambda>_ s. length (db_pending (st_db s))"]) (rule less)
qed

section \<open>The pass and the seeding\<close>

lemma Run_settles:
  assumes "0 < (word_of_int (UIDBatch (r_opts R)) :: u32)" "limit + unat (word_of_int (UIDBatch (r_opts R)) :: u32) \<le> 2 ^ 32"
  shows "settles okS (Run R)"
proof -
  have main: "settles okS (bindM (call (src_SelectFolder (r_src R))) (\<lambda>(uidValidity, uidNext, _).
     bindM (adoptUIDValidity R uidValidity) (\<lambda>lastUID.
     bindM (wrapM ''backfill: %w'' [] (maybeBackfill R)) (\<lambda>_.
     bindM (scanWindows (r_opts R) (ctxErr R) (lastUID + 1) uidNext
         (\<lambda>start stop. call (src_FetchMetaRange (r_src R) start stop)) (mirrorStep R)) (\<lambda>_.
     if ArchiveRouting (r_opts R) \<or> SentRouting (r_opts R) \<or> LabelPropagate (r_opts R)
     then wrapM ''propagate: %w'' [] (propagate R) else returnM ())))))"
    by (rule settles_select [OF source_answers(1) _ assms], erule (1) room(1), simp only: prod.case)
      (intro settles_compose basic adopt_settles maybeBackfill_settles assms scan_settles mirrorStep_settles propagate_settles,
        assumption+)
  show ?thesis
    unfolding Run_def by (intro settles_bindM settles_wrapM basic syncMembership_settles assms main)
qed

lemma SeedFromDest_settles:
  assumes "0 < (word_of_int (UIDBatch (r_opts R)) :: u32)" "limit + unat (word_of_int (UIDBatch (r_opts R)) :: u32) \<le> 2 ^ 32"
  shows "settles okS (SeedFromDest R)"
proof -
  have "settles okS (seedFromDestFolder R folder item)" for folder item
    unfolding seedFromDestFolder_def Let_def
    by (rule settles_select [OF dest_answers(1) _ assms], erule (1) room(3), simp only: prod.case)
      (intro settles_compose basic settles_withVars scan_settles outer_settles settles_vars, (assumption | simp)+)
  then show ?thesis unfolding SeedFromDest_def Let_def by (intro settles_compose)
qed

end

end
