(* ===== verification/ReferenceEnd.thy ===== *)
theory ReferenceEnd
  imports ReferenceRun Answers Termination
begin

text \<open>
  The passes end on the reference servers: their libraries answer every call, and a folder that is opened
  has room for more messages.
\<close>

section \<open>The clients\<close>

lemma library_total:
  "ic_Select (library S p fr) name w \<noteq> None" "ic_UIDSearch (library S p fr) crit w \<noteq> None"
  "ic_HasSpecialUse (library S p fr) w \<noteq> None" "ic_List (library S p fr) special w \<noteq> None"
  "ic_Fetch (library S p fr) us opts w \<noteq> None" "ic_CloseFetch (library S p fr) i w \<noteq> None"
  "ic_Append (library S p fr) name len ao w \<noteq> None" "ic_Write (library S p fr) i raw w \<noteq> None"
  "ic_CloseAppend (library S p fr) i w \<noteq> None" "ic_WaitAppend (library S p fr) i w \<noteq> None"
  "ic_Move (library S p fr) us name w \<noteq> None" "ic_Store (library S p fr) us op fl w \<noteq> None"
  by (simp_all only: library_fields serve_returns not_False_eq_True)
    (auto simp: library_def returnM_def do_fetch_def do_close_def do_append_def do_wait_def Let_def split: prod.split event.split)

definition queued :: "party \<Rightarrow> net \<Rightarrow> nat" where
  "queued p n = length (lo_queue (pt_line p n))"

lemma library_ends:
  assumes "party_ok p"
  shows "ending_client (library S p fr) (queued p)"
proof (unfold_locales, (rule library_total)+)
  fix i w x w'
  assume "ic_Next (library S p fr) i w = (Some x, w')"
  then show "queued p w' < queued p w"
    using assms by (auto simp: do_next_def queued_def party_ok_def split: list.splits)
qed

interpretation src_ends: ending_client "src_library S" "queued src_party" for S
  unfolding src_library_def by (rule library_ends [OF parties_ok(1)])

interpretation dst_ends: ending_client "dst_library S" "queued dst_party" for S
  unfolding dst_library_def by (rule library_ends [OF parties_ok(2)])

section \<open>The reconciler of a session\<close>

definition chunks_ok :: "'w links \<Rightarrow> bool" where
  "chunks_ok l \<longleftrightarrow> 1 \<le> cl_guardChunk (ln_src l) \<and> 1 \<le> cl_guardChunk (ln_dst l)"

lemma wired_settles:
  fixes m :: "('w conn, 'a) prog"
  assumes "settles (\<lambda>p. 1 \<le> cl_guardChunk (fst p)) m"
  shows "settles chunks_ok (on_src m)" and "settles chunks_ok (on_dst m)"
proof -
  have run: "\<exists>r p'. m p = Some (r, p') \<and> 1 \<le> cl_guardChunk (fst p')" if "1 \<le> cl_guardChunk (fst p)" for p
    using settlesD [OF assms, of p] that by simp
  show "settles chunks_ok (on_src m)"
  proof (rule settlesI)
    fix l :: "'w links"
    assume "chunks_ok l"
    then show "\<exists>r l'. on_src m l = Some (r, l') \<and> chunks_ok l'"
      using run [of "(ln_src l, ln_net l)"] by (auto simp: chunks_ok_def on_src_def zoomM_def)
  qed
  show "settles chunks_ok (on_dst m)"
  proof (rule settlesI)
    fix l :: "'w links"
    assume "chunks_ok l"
    then show "\<exists>r l'. on_dst m l = Some (r, l') \<and> chunks_ok l'"
      using run [of "(ln_dst l, ln_net l)"] by (auto simp: chunks_ok_def on_dst_def zoomM_def)
  qed
qed

lemma select_room:
  assumes "SelectNamedFolder (library S p fr) name c = Some (Inr (v, n, x), c')"
  shows "unat n \<le> si_room S"
proof -
  from assms obtain d n' where s: "serve S p (do_select S p name) (snd c) = Some (Inr d, n')" and "n = sd_UIDNext d"
    by (auto simp: SelectNamedFolder_def prog_defs lib_def assign_def failAt_def field_def split: option.splits sum.splits)
  then show ?thesis
    using serve_Inr(1) [OF s] by (auto simp: do_select_def split: option.splits if_splits)
qed

lemma wired_room:
  "on_src (SelectNamedFolder (library S p fr) name) l = Some (Inr (v, n, x), l') \<Longrightarrow> unat n \<le> si_room S"
  "on_dst (SelectNamedFolder (library S p fr) name) l = Some (Inr (v, n, x), l') \<Longrightarrow> unat n \<le> si_room S"
  "on_src (SelectFolder (library S p fr)) l = Some (Inr (v, n, x), l') \<Longrightarrow> unat n \<le> si_room S"
  by (auto simp: on_src_def on_dst_def zoomM_def SelectFolder_def field_def bindM_getM dest: select_room split: option.splits)

lemmas rooms = wired_room [where p = src_party and fr = fresh_src, folded src_library_def]
  wired_room [where p = dst_party and fr = fresh_dst, folded dst_library_def]

interpretation ref_ends: responsive_servers "ref_rec S mr fa fb" chunks_ok "si_room S" for S mr fa fb
proof unfold_locales
  show "rt_sql (r_rt (ref_rec S mr fa fb)) w = (q, w') \<Longrightarrow> chunks_ok w \<Longrightarrow> chunks_ok w'"
    "rt_ctx (r_rt (ref_rec S mr fa fb)) w = (q, w') \<Longrightarrow> chunks_ok w \<Longrightarrow> chunks_ok w'"
    "rt_now (r_rt (ref_rec S mr fa fb)) w = (t, w') \<Longrightarrow> chunks_ok w \<Longrightarrow> chunks_ok w'"
    "rt_perm (r_rt (ref_rec S mr fa fb)) w = (p, w') \<Longrightarrow> chunks_ok w \<Longrightarrow> chunks_ok w'"
    "OnProgress (r_opts (ref_rec S mr fa fb)) = Some f \<Longrightarrow> chunks_ok w \<Longrightarrow> chunks_ok (f phase item i w)"
    for w q w' t p f phase item i
    by (auto simp: chunks_ok_def ref_rec_rt ref_rec_progress wire_runtime_def on_net_def onProgress_def split: prod.splits)
qed (simp_all add: wires wired_settles src_ends.SelectFolder_settles src_ends.SelectNamedFolder_settles src_ends.listing_settles
    src_ends.FetchMetaRange_settles src_ends.streamAll_settles dst_ends.SelectNamedFolder_settles dst_ends.FetchMetaRange_settles
    dst_ends.SearchMessageIDsIn_settles dst_ends.MoveMessageID_settles dst_ends.MoveUIDs_settles dst_ends.keyword_settles
    dst_ends.AppendTo_settles dst_ends.append_settles, (erule rooms)+)

end
