(* ===== verification/Passes.thy ===== *)
theory Passes
  imports ReferenceEnd
begin

text \<open>
  The guarantees of a pass and of a mirror, stated for all servers and platforms that keep the contracts; the
  witnesses are about the reference servers with the clients of the program.
\<close>

section \<open>A site for the witnesses\<close>

text \<open>Two messages, one of them without a Message-ID, and a connection that breaks now and then.\<close>

definition demo_site :: site where
  "demo_site =
     \<lparr> si_source = [\<lparr> sf_name = ''All'', sf_validity = 7,
         sf_mail = [\<lparr> ml_uid = 1, ml_raw = ''a'', ml_flags = [], ml_date = 5 \<rparr>,
                    \<lparr> ml_uid = 2, ml_raw = ''b'', ml_flags = [FlagSeen], ml_date = 6 \<rparr>] \<rparr>],
       si_attrs = (\<lambda>_. []), si_boxes = [''INBOX''], si_header = id,
       si_read = (\<lambda>hdr. Some (\<lambda>k. if k = ''Message-Id'' then (if take 1 hdr = ''a'' then ''<a>'' else []) else [])),
       si_sha = id, si_plan = (\<lambda>t. if t mod 50 = 49 then LostAfter else Arrive ''All'' 3), si_clock = int, si_room = 4000000000 \<rparr>"

definition demo_net :: net where
  "demo_net = \<lparr> nt_time = 0, nt_next = (\<lambda>_. 1), nt_gone = {}, nt_src = new_line, nt_dst = new_line,
     nt_boxes = [(''INBOX'', [])], nt_uidnext = 1, nt_appends = [], nt_log = {} \<rparr>"

definition demo_endpoint :: "string \<Rightarrow> Endpoint" where
  "demo_endpoint folder = \<lparr> ep_Host = ''host'', ep_Port = 993, ep_User = ''u'', ep_Password = ''p'',
     ep_Folder = folder, ep_Inbox = ''INBOX'', ep_TLS = True \<rparr>"

definition demo_mirror :: Mirror where
  "demo_mirror =
     \<lparr> mi_Name = ''demo'', mi_StatePath = ''/state'', mi_PollInterval = Minute, mi_IdleReset = Minute,
       mi_UIDBatch = 500, mi_Seed = SeedAlways, mi_DestGuard = True, mi_CarrySeen = True,
       mi_Source = demo_endpoint ''All'', mi_Dest = demo_endpoint ''INBOX'',
       mi_Archive = \<lparr> ar_Enabled = False, ar_Folder = [] \<rparr>,
       mi_Sent = \<lparr> se_Enabled = False, se_Folder = [], se_SourceFolder = [] \<rparr>,
       mi_Labels = \<lparr> la_Enabled = False, la_Propagate = False, la_Exclude = [], la_KeywordPrefix = [],
         la_KeywordReplacement = ''_'' \<rparr> \<rparr>"

definition demo_client :: "string \<Rightarrow> Client" where
  "demo_client folder = \<lparr> cl_ep = demo_endpoint folder, cl_selected = [], cl_guardChunk = 100, cl_arbitraryKeywords = False \<rparr>"

definition demo_state :: "net links st" where
  "demo_state =
     \<lparr> st_db = \<lparr> db_copied = [], db_meta = [], db_members = [], db_pending = [], db_seq = 0, db_folders = [] \<rparr>,
       st_world = \<lparr> ln_src = demo_client ''All'', ln_dst = demo_client ''INBOX'', ln_heartbeat = 0, ln_lastLog = 0, ln_net = demo_net \<rparr>,
       st_sum = empty_Summary \<rparr>"

lemma demo_ok: "v_ok (mirror_view demo_site demo_mirror) (st_world demo_state)"
  by (simp add: mirror_view_def demo_site_def demo_state_def demo_net_def demo_client_def demo_mirror_def demo_endpoint_def
      site_ok_def net_ok_def cache_ok_def box_names_def box_keys_def destFolders_def new_line_def)

lemma demo_sound: "sound (mirror_view demo_site demo_mirror) demo_state"
  unfolding sound_def using demo_ok by (simp add: demo_state_def has_key_def)

lemma demo_resting: "resting (mirror_view demo_site demo_mirror) (\<lambda>_. 0) demo_state"
  using demo_sound
  by (simp add: resting_def bounded_def mirror_view_def copies_def count_def under_way_keys_def unanswered_def
      demo_state_def demo_net_def)

lemma demo_marked: "marked (ref_ledger demo_site) demo_state"
proof -
  have "l = 0" if "meta_reads (st_db demo_state) key l" for key l
    using that by (simp add: meta_reads_def demo_state_def Let_def)
  moreover have "below (ref_ledger demo_site) demo_state v (unat (0 :: u32) + 1)" for v
    by (auto simp: below_def word_less_nat_alt)
  moreover have "c_ok (ref_ledger demo_site) (st_world demo_state)"
    by (simp add: limit_ok_def site_ok_def demo_site_def demo_state_def demo_net_def new_line_def)
  ultimately show ?thesis unfolding marked_def by blast
qed

section \<open>A pass\<close>

text \<open>
  C1. The dedup set stays behind reality: whatever call fails at whatever point of a pass or of the
  seeding, every key in the dedup set is the key of a message that the destination has stored.
\<close>

theorem passes_record_only_stored:
  assumes "truthful_servers R V"
  shows "hoare (sound V) (Run R) (\<lambda>_. sound V) (\<lambda>_. sound V) \<and>
    hoare (sound V) (SeedFromDest R) (\<lambda>_. sound V) (\<lambda>_. sound V)"
  using truthful_servers.Run_sound [OF assms] truthful_servers.SeedFromDest_sound [OF assms] by blast

theorem passes_record_only_stored_witness:
  "sound (mirror_view demo_site demo_mirror) demo_state \<and>
   hoare (sound (mirror_view demo_site demo_mirror)) (Run (ref_rec demo_site demo_mirror ''All'' []))
     (\<lambda>_. sound (mirror_view demo_site demo_mirror)) (\<lambda>_. sound (mirror_view demo_site demo_mirror))"
  using passes_record_only_stored [OF ref_sound.truthful_servers_axioms [of demo_site demo_mirror "''All''" "[]"]] demo_sound
  by (simp add: ref_tally_mirror)

text \<open>
  C2. With the destination guard on, no pass adds a second copy of a message with a Message-ID to the
  destination folders, counting the appends that were never answered, whatever call fails; when the
  pass succeeds every append has been answered.
\<close>

theorem Run_adds_no_duplicate:
  assumes "counting_servers R V" and "DestGuard (r_opts R)"
  shows "hoare (resting V before) (Run R) (\<lambda>_. resting V before) (\<lambda>_. halted V before)"
  by (rule counting_servers.Run_unique [OF assms])

theorem Run_adds_no_duplicate_witness:
  "resting (mirror_view demo_site demo_mirror) (\<lambda>_. 0) demo_state \<and>
   hoare (resting (mirror_view demo_site demo_mirror) (\<lambda>_. 0)) (Run (ref_rec demo_site demo_mirror ''All'' []))
     (\<lambda>_. resting (mirror_view demo_site demo_mirror) (\<lambda>_. 0)) (\<lambda>_. halted (mirror_view demo_site demo_mirror) (\<lambda>_. 0))"
proof -
  have "DestGuard (r_opts (ref_rec demo_site demo_mirror ''All'' []))"
    by (simp add: sessionReconciler_def New_def sessionOptions_def demo_mirror_def)
  from Run_adds_no_duplicate [OF ref_unique.counting_servers_axioms [of demo_site demo_mirror "''All''" "[]"] this, of "\<lambda>_. 0"]
  show ?thesis using demo_resting by (simp add: ref_tally_mirror)
qed

text \<open>
  C3. A pass that succeeds has mirrored everything: the source folder is open with some UIDVALIDITY and UIDNEXT,
  and every message below that UIDNEXT is in the dedup set, unless the source has not delivered it.  A
  pass that fails at any point leaves no gap below the stored mark.
\<close>

theorem Run_mirrors_everything:
  assumes "complete_source R C"
  shows "hoare (marked C) (Run R) (\<lambda>_ s. \<exists>v n. scanning C v n (unat n) s) (\<lambda>_. marked C)"
  by (rule complete_source.Run_complete [OF assms])

theorem Run_mirrors_everything_witness:
  "marked (ref_ledger demo_site) demo_state \<and>
   hoare (marked (ref_ledger demo_site)) (Run (ref_rec demo_site demo_mirror ''All'' []))
     (\<lambda>_ s. \<exists>v n. scanning (ref_ledger demo_site) v n (unat n) s) (\<lambda>_. marked (ref_ledger demo_site))"
  using Run_mirrors_everything [OF ref_complete.complete_source_axioms [of demo_site demo_mirror "''All''" "[]"]] demo_marked
  by blast

text \<open>
  C22. No pass and no seeding ever takes a key out of the dedup set or breaks the primary keys of the
  tables (one row per dedup key, per folder and message, per folder, per meta key, and distinct ids below
  the sequence number in the queue), whatever the servers, the database driver and the context do.
\<close>

theorem passes_keep_store:
  "steps (\<lambda>s s'. keeps_copied s s' \<and> keeps_db_ok s s') (Run R) \<and>
   steps (\<lambda>s s'. keeps_copied s s' \<and> keeps_db_ok s s') (SeedFromDest R)"
  by (intro conjI steps_conj keys.Run_steps keys.SeedFromDest_steps tables.Run_steps tables.SeedFromDest_steps)

text \<open>
  C9. Every pass and every seeding ends, whatever fails: when the calls to the two servers return, the batch is
  at least 1 and no window can reach past \<open>2 ^ 32\<close>, no loop goes on forever, from any database, and the
  condition on the outside world still holds afterwards.
\<close>

theorem passes_return:
  assumes "responsive_servers R Ok limit"
    and "0 < (word_of_int (UIDBatch (r_opts R)) :: u32)"
    and "limit + unat (word_of_int (UIDBatch (r_opts R)) :: u32) \<le> 2 ^ 32"
  shows "settles (\<lambda>s. Ok (st_world s)) (Run R) \<and> settles (\<lambda>s. Ok (st_world s)) (SeedFromDest R)"
  using responsive_servers.Run_settles [OF assms] responsive_servers.SeedFromDest_settles [OF assms] by blast

theorem passes_return_witness:
  "chunks_ok (st_world demo_state) \<and>
   settles (\<lambda>s. chunks_ok (st_world s)) (Run (ref_rec demo_site demo_mirror ''All'' []))"
proof -
  let ?R = "ref_rec demo_site demo_mirror ''All'' []"
  have batch: "word_of_int (UIDBatch (r_opts ?R)) = (500 :: u32)"
    by (simp add: sessionReconciler_def New_def sessionOptions_def demo_mirror_def)
  have "settles (\<lambda>s. chunks_ok (st_world s)) (Run ?R)"
    by (rule passes_return [OF ref_ends.responsive_servers_axioms, THEN conjunct1]) (simp_all add: batch, simp add: demo_site_def)
  then show ?thesis by (simp add: chunks_ok_def demo_state_def demo_client_def)
qed

section \<open>A mirror over many sessions\<close>

text \<open>
  C6. On every platform whose servers keep the contract of a pass in every session, and on which nothing else a
  session does takes anything out of what the destination has stored: after the supervision loop, and after
  any number of sessions while it runs, with connections that break at any point, reconnects, seedings,
  passes and idling, every key in the dedup set is the key of a message the destination has stored.
\<close>

theorem supervise_records_only_stored:
  assumes "truthful_platform P m V"
  shows "hoare (sound V) (supervise P m) (\<lambda>_. sound V) (\<lambda>_. sound V) \<and>
    (\<forall>n wait. hoare (sound V) (rounds P m n wait) (\<lambda>_. sound V) (\<lambda>_. sound V))"
  by (rule truthful_platform.mirror_sound [OF assms])

theorem supervise_records_only_stored_witness:
  "sound (mirror_view demo_site demo_mirror) demo_state \<and>
   hoare (sound (mirror_view demo_site demo_mirror)) (supervise (site_platform demo_site) demo_mirror)
     (\<lambda>_. sound (mirror_view demo_site demo_mirror)) (\<lambda>_. sound (mirror_view demo_site demo_mirror))"
  using supervise_records_only_stored [OF run_sound.truthful_platform_axioms [of demo_site demo_mirror]] demo_sound by blast

text \<open>
  C7. On every platform whose servers keep the counting contract in every session, where connecting again adds no
  copies to those stored or under way and a new connection has no append under way: after the loop and after
  any number of sessions, with the destination guard on, no message with a Message-ID gets a second copy,
  even when the answer to an append was lost with the connection.
\<close>

theorem supervise_adds_no_duplicate:
  assumes "counting_platform P m V"
  shows "hoare (halted V before) (supervise P m) (\<lambda>_. halted V before) (\<lambda>_. halted V before) \<and>
    (\<forall>n wait. hoare (halted V before) (rounds P m n wait) (\<lambda>_. halted V before) (\<lambda>_. halted V before))"
  by (rule counting_platform.mirror_unique [OF assms])

theorem supervise_adds_no_duplicate_witness:
  "halted (mirror_view demo_site demo_mirror) (\<lambda>_. 0) demo_state \<and>
   hoare (halted (mirror_view demo_site demo_mirror) (\<lambda>_. 0)) (supervise (site_platform demo_site) demo_mirror)
     (\<lambda>_. halted (mirror_view demo_site demo_mirror) (\<lambda>_. 0)) (\<lambda>_. halted (mirror_view demo_site demo_mirror) (\<lambda>_. 0))"
proof -
  have "guarding demo_mirror = demo_mirror" by (simp add: guarding_def demo_mirror_def)
  then have "counting_platform (site_platform demo_site) demo_mirror (mirror_view demo_site demo_mirror)"
    using run_unique.counting_platform_axioms [of demo_site demo_mirror] by simp
  from supervise_adds_no_duplicate [OF this, of "\<lambda>_. 0"] show ?thesis
    using demo_resting by (simp add: halted_def resting_def)
qed

text \<open>
  C8. On every platform whose source keeps the completeness contract in every session, where messages keep their
  UIDs under a UIDVALIDITY: after the loop and after any number of sessions the stored mark never runs ahead of the
  mirror: every message below it under the stored UIDVALIDITY is in the dedup set, unless the source has not
  delivered it.
\<close>

theorem supervise_leaves_no_gap:
  assumes "complete_platform P m C"
  shows "hoare (marked C) (supervise P m) (\<lambda>_. marked C) (\<lambda>_. marked C) \<and>
    (\<forall>n wait. hoare (marked C) (rounds P m n wait) (\<lambda>_. marked C) (\<lambda>_. marked C))"
  by (rule complete_platform.mirror_complete [OF assms])

theorem supervise_leaves_no_gap_witness:
  "marked (ref_ledger demo_site) demo_state \<and>
   hoare (marked (ref_ledger demo_site)) (supervise (site_platform demo_site) demo_mirror)
     (\<lambda>_. marked (ref_ledger demo_site)) (\<lambda>_. marked (ref_ledger demo_site))"
  using supervise_leaves_no_gap [OF run_complete.complete_platform_axioms [of demo_site demo_mirror]] demo_marked by blast

end
