(* ===== verification/Interleaving.thy ===== *)
theory Interleaving
  imports Passes
begin

text \<open>
  The two goroutines of \<open>copyPipeline\<close> and the channel between them: every interleaving of the source
  stream and the appends, where \<open>Mirror\<close> has the stream first and the appends after it.
\<close>

section \<open>The goroutines\<close>

type_synonym copyItem = "FullMessage \<times> pendingCopy"

definition pipelineDepth :: nat where
  "pipelineDepth = 8"

text \<open>
  The producer is the callback of \<open>FetchFullStream\<close>: \<open>Sending\<close> the items the stream still delivers, or
  \<open>Stopped\<close> with what \<open>FetchFullStream\<close> has returned, after which the channel is closed.
\<close>

datatype producer = Sending "copyItem list" | Stopped "gerr option"

record 'w pipe =
  pp_producer :: producer
  pp_ch :: "copyItem list"
  pp_consumer :: "'w st \<times> consumer"
  pp_done :: bool
  pp_cancelled :: bool

abbreviation appendSideFailed :: gerr where
  "appendSideFailed \<equiv> Msg ''append side failed'' []"

text \<open>
  A send waits for room in the channel, for \<open>failed\<close>, which is closed when the consumer has an error, or for
  the end of the context.  That the context ends is a step of the world outside (\<open>cancels\<close>), possible at any
  time; all other steps are steps of the two goroutines.  The consumer takes one item at a time, and when the channel is closed
  and empty it settles what is in flight.  \<open>streamErr\<close> is what the stream itself ends with.
\<close>

inductive pipe_step :: "'w Reconciler \<Rightarrow> nat \<Rightarrow> nat \<Rightarrow> gerr option \<Rightarrow> 'w pipe \<Rightarrow> 'w pipe \<Rightarrow> bool"
  for R ringLimit flushLimit streamErr where
  sent: "pp_producer p = Sending (x # xs) \<Longrightarrow> length (pp_ch p) < pipelineDepth \<Longrightarrow>
    pipe_step R ringLimit flushLimit streamErr p (p\<lparr> pp_producer := Sending xs, pp_ch := pp_ch p @ [x] \<rparr>)"
| aborted: "pp_producer p = Sending (x # xs) \<Longrightarrow> consErr (snd (pp_consumer p)) \<noteq> None \<Longrightarrow>
    pipe_step R ringLimit flushLimit streamErr p (p\<lparr> pp_producer := Stopped (Some appendSideFailed) \<rparr>)"
| cancels: "\<not> pp_cancelled p \<Longrightarrow> pipe_step R ringLimit flushLimit streamErr p (p\<lparr> pp_cancelled := True \<rparr>)"
| cancelled: "pp_producer p = Sending (x # xs) \<Longrightarrow> pp_cancelled p \<Longrightarrow>
    pipe_step R ringLimit flushLimit streamErr p (p\<lparr> pp_producer := Stopped (Some CtxErr) \<rparr>)"
| ended: "pp_producer p = Sending [] \<Longrightarrow>
    pipe_step R ringLimit flushLimit streamErr p (p\<lparr> pp_producer := Stopped streamErr \<rparr>)"
| received: "pp_ch p = x # xs \<Longrightarrow> consumeItem R ringLimit flushLimit x (pp_consumer p) = Some (Inr (), q) \<Longrightarrow>
    pipe_step R ringLimit flushLimit streamErr p (p\<lparr> pp_ch := xs, pp_consumer := q \<rparr>)"
| closed: "pp_producer p = Stopped e \<Longrightarrow> pp_ch p = [] \<Longrightarrow> \<not> pp_done p \<Longrightarrow>
    consume R ringLimit flushLimit [] (pp_consumer p) = Some (Inr (), q) \<Longrightarrow>
    pipe_step R ringLimit flushLimit streamErr p (p\<lparr> pp_consumer := q, pp_done := True \<rparr>)"

definition pipe_start :: "copyItem list \<Rightarrow> 'w st \<Rightarrow> 'w pipe" where
  "pipe_start todo s = \<lparr> pp_producer = Sending todo, pp_ch = [], pp_consumer = (s, empty_consumer),
     pp_done = False, pp_cancelled = False \<rparr>"

text \<open>What \<open>copyPipeline\<close> returns: the error of the consumer first, then that of the producer.\<close>

definition pipe_result :: "'w Reconciler \<Rightarrow> gerr option \<Rightarrow> gerr option \<Rightarrow> ('w st, unit) prog" where
  "pipe_result R consE prodE = (case consE of Some e \<Rightarrow> throwM e | None \<Rightarrow> (case prodE of Some e \<Rightarrow> throwM e | None \<Rightarrow> ctxErr R))"

definition pipe_outcome :: "'w Reconciler \<Rightarrow> 'w pipe \<Rightarrow> ((gerr + unit) \<times> 'w st) option" where
  "pipe_outcome R p = (case pp_producer p of
      Sending _ \<Rightarrow> None
    | Stopped e \<Rightarrow> pipe_result R (consErr (snd (pp_consumer p))) e (fst (pp_consumer p)))"

text \<open>The same work without a second goroutine, for a stream that delivers \<open>todo\<close> and ends with \<open>e\<close>.\<close>

definition sequential :: "'w Reconciler \<Rightarrow> nat \<Rightarrow> nat \<Rightarrow> copyItem list \<Rightarrow> gerr option \<Rightarrow> ('w st, unit) prog" where
  "sequential R ringLimit flushLimit todo e =
     bindM (withVars empty_consumer (consume R ringLimit flushLimit todo)) (\<lambda>c. pipe_result R (consErr c) e)"

definition pipe_limits :: "'w Options \<Rightarrow> nat \<times> nat" where
  "pipe_limits o' = (if DestGuard o' then (appendRing, recordFlushSize) else (1, 1))"

lemma copyPipeline_sequential:
  assumes "src_FetchFullStream (r_src R) (map pc_uid pend) (st_world s) = Some (Inr (msgs, e), w)"
  shows "copyPipeline R pend s =
    sequential R (fst (pipe_limits (r_opts R))) (snd (pipe_limits (r_opts R))) (copyItems pend msgs) e (s\<lparr> st_world := w \<rparr>)"
  using assms
  by (simp add: copyPipeline_def sequential_def pipe_result_def pipe_limits_def Let_def call_def zoomM_def tryM_def bindM_def
      split: option.split sum.split prod.split)

section \<open>The consumer\<close>

text \<open>An error of the consumer is final: it drains the channel without a further effect.\<close>

lemma consumeItem_failed: "consErr (snd q) \<noteq> None \<Longrightarrow> consumeItem R rl fl x q = Some (Inr (), q)"
  by (cases x, cases q) (simp add: consumeItem_def prog_defs)

lemma forM_failed: "consErr (snd q) \<noteq> None \<Longrightarrow> forM xs (consumeItem R rl fl) q = Some (Inr (), q)"
  by (induction xs) (simp_all add: prog_defs consumeItem_failed)

lemma finish_failed:
  assumes "consErr (snd q) = Some e" and "consume R rl fl [] q = Some (r, q')"
  shows "consErr (snd q') = Some e"
proof -
  obtain s c where q: "q = (s, c)" by (cases q)
  have "drainRing R fl n q = Some (Inr (), q)" for n
    using assms(1) by (cases n) (simp_all add: prog_defs)
  then have "flushRecords R q = Some (r, q')" using assms(2) by (simp add: consume_def prog_defs)
  then show ?thesis
    using assms(1) by (auto simp: q flushRecords_def failWith_def prog_defs outer_def split: if_splits option.splits sum.splits)
qed

lemma forM_append: "forM (xs @ ys) f = bindM (forM xs f) (\<lambda>_. forM ys f)"
  by (induction xs) (simp_all add: bindM_assoc)

lemma consume_split: "consume R rl fl xs = bindM (forM xs (consumeItem R rl fl)) (\<lambda>_. consume R rl fl [])"
  by (simp add: consume_def)

section \<open>Every interleaving is the sequential run\<close>

text \<open>
  \<open>took\<close> has been consumed, the channel comes next, and \<open>left\<close> has not been sent; \<open>q\<close> is the consumer before
  it settles what is in flight.
\<close>

definition pipe_inv :: "'w Reconciler \<Rightarrow> nat \<Rightarrow> nat \<Rightarrow> gerr option \<Rightarrow> copyItem list \<Rightarrow> 'w st \<Rightarrow> 'w pipe \<Rightarrow> bool" where
  "pipe_inv R rl fl streamErr todo s p \<longleftrightarrow> (\<exists>took left q.
     todo = took @ pp_ch p @ left \<and> forM took (consumeItem R rl fl) (s, empty_consumer) = Some (Inr (), q) \<and>
     (if pp_done p then pp_ch p = [] \<and> consume R rl fl [] q = Some (Inr (), pp_consumer p) else q = pp_consumer p) \<and>
     (case pp_producer p of
        Sending xs \<Rightarrow> left = xs \<and> \<not> pp_done p
      | Stopped e \<Rightarrow> left = [] \<and> e = streamErr \<or> e = Some CtxErr \<and> pp_cancelled p \<or> consErr (snd q) \<noteq> None))"

lemma pipe_invI:
  assumes "todo = took @ pp_ch p @ left" and "forM took (consumeItem R rl fl) (s, empty_consumer) = Some (Inr (), q)"
    and "if pp_done p then pp_ch p = [] \<and> consume R rl fl [] q = Some (Inr (), pp_consumer p) else q = pp_consumer p"
    and "case pp_producer p of Sending xs \<Rightarrow> left = xs \<and> \<not> pp_done p
      | Stopped e \<Rightarrow> left = [] \<and> e = streamErr \<or> e = Some CtxErr \<and> pp_cancelled p \<or> consErr (snd q) \<noteq> None"
  shows "pipe_inv R rl fl streamErr todo s p"
  using assms unfolding pipe_inv_def by blast

lemma pipe_inv_step:
  assumes "pipe_step R rl fl streamErr p p'" and "pipe_inv R rl fl streamErr todo s p"
  shows "pipe_inv R rl fl streamErr todo s p'"
proof -
  obtain took left q where i: "todo = took @ pp_ch p @ left"
    and f: "forM took (consumeItem R rl fl) (s, empty_consumer) = Some (Inr (), q)"
    and d: "if pp_done p then pp_ch p = [] \<and> consume R rl fl [] q = Some (Inr (), pp_consumer p) else q = pp_consumer p"
    and c: "case pp_producer p of Sending xs \<Rightarrow> left = xs \<and> \<not> pp_done p
      | Stopped e \<Rightarrow> left = [] \<and> e = streamErr \<or> e = Some CtxErr \<and> pp_cancelled p \<or> consErr (snd q) \<noteq> None"
    using assms(2) unfolding pipe_inv_def by blast
  show ?thesis
    using assms(1)
  proof cases
    case (sent x xs)
    then show ?thesis
      using i f d c by (intro pipe_invI [where took = took and left = xs and q = q]) simp_all
  next
    case (received x xs q')
    then have "\<not> pp_done p" and "q = pp_consumer p" using d by (simp_all split: if_splits)
    moreover have "forM (took @ [x]) (consumeItem R rl fl) (s, empty_consumer) = Some (Inr (), q')"
      using f received calculation by (simp add: forM_append prog_defs)
    moreover have "consErr (snd q') \<noteq> None" if "consErr (snd q) \<noteq> None"
      using that received(3) consumeItem_failed [OF that, of R rl fl x] calculation by simp
    ultimately show ?thesis
      using i c received by (intro pipe_invI [where took = "took @ [x]" and left = left and q = q']) (auto split: producer.splits)
  next
    case (closed e q')
    then show ?thesis
      using i f d c by (intro pipe_invI [where took = took and left = left and q = q]) simp_all
  next
    case (aborted x xs)
    then show ?thesis
      using i f d c by (intro pipe_invI [where took = took and left = left and q = q]) auto
  next
    case cancels
    then show ?thesis
      using i f d c by (intro pipe_invI [where took = took and left = left and q = q]) (auto split: producer.splits)
  next
    case (cancelled x xs)
    then show ?thesis
      using i f d c by (intro pipe_invI [where took = took and left = left and q = q]) auto
  next
    case ended
    then show ?thesis
      using i f d c by (intro pipe_invI [where took = took and left = left and q = q]) auto
  qed
qed

lemma pipe_inv_reachable:
  assumes "(pipe_step R rl fl streamErr)\<^sup>*\<^sup>* (pipe_start todo s) p"
  shows "pipe_inv R rl fl streamErr todo s p"
  using assms
proof (induction rule: rtranclp_induct)
  case base
  show ?case
    by (intro pipe_invI [where took = "[]" and left = todo and q = "(s, empty_consumer)"]) (simp_all add: pipe_start_def prog_defs)
qed (rule pipe_inv_step)

lemma sequential_consumed:
  assumes "forM todo (consumeItem R rl fl) (s, empty_consumer) = Some (Inr (), q)"
    and "consume R rl fl [] q = Some (Inr (), q')"
  shows "sequential R rl fl todo e s = pipe_result R (consErr (snd q')) e (fst q')"
  using assms unfolding sequential_def consume_split [of R rl fl todo]
  by (cases q') (simp add: withVars_def prog_defs)

lemma pipe_outcomes:
  assumes "(pipe_step R rl fl streamErr)\<^sup>*\<^sup>* (pipe_start todo s) p" and "pp_done p"
  shows "pipe_outcome R p = sequential R rl fl todo streamErr s \<or>
    pp_cancelled p \<and> pp_producer p = Stopped (Some CtxErr) \<and> (\<exists>n. pipe_outcome R p = sequential R rl fl (take n todo) (Some CtxErr) s)"
proof -
  obtain took left q where i: "todo = took @ pp_ch p @ left"
    and f: "forM took (consumeItem R rl fl) (s, empty_consumer) = Some (Inr (), q)"
    and d': "if pp_done p then pp_ch p = [] \<and> consume R rl fl [] q = Some (Inr (), pp_consumer p) else q = pp_consumer p"
    and c: "case pp_producer p of Sending xs \<Rightarrow> left = xs \<and> \<not> pp_done p
      | Stopped e \<Rightarrow> left = [] \<and> e = streamErr \<or> e = Some CtxErr \<and> pp_cancelled p \<or> consErr (snd q) \<noteq> None"
    using pipe_inv_reachable [OF assms(1)] unfolding pipe_inv_def by blast
  then have d: "consume R rl fl [] q = Some (Inr (), pp_consumer p)" and i: "todo = took @ left"
    using assms(2) by simp_all
  from c assms(2) obtain e where e: "pp_producer p = Stopped e" by (cases "pp_producer p") auto
  with c consider "left = []" "e = streamErr" | "e = Some CtxErr" "pp_cancelled p" | "consErr (snd q) \<noteq> None" by auto
  then show ?thesis
  proof cases
    case 1
    then show ?thesis using sequential_consumed [OF f d] i e by (simp add: pipe_outcome_def)
  next
    case 2
    then have "pipe_outcome R p = sequential R rl fl (take (length took) todo) (Some CtxErr) s"
      using sequential_consumed [OF f d] i e by (simp add: pipe_outcome_def)
    then show ?thesis using 2 e by blast
  next
    case 3
    then obtain er where er: "consErr (snd q) = Some er" by auto
    have "forM todo (consumeItem R rl fl) (s, empty_consumer) = Some (Inr (), q)"
      using f forM_failed [OF 3, of left] unfolding i forM_append by (simp add: prog_defs)
    from sequential_consumed [OF this d] show ?thesis
      using e finish_failed [OF er d] by (simp add: pipe_outcome_def pipe_result_def)
  qed
qed

section \<open>Bounds\<close>

text \<open>
  What the consumer holds between two items: at most \<open>n\<close> appends in flight, and fewer confirmed ones that
  are not yet recorded than it takes to write them, or as many if the writing has failed.
\<close>

definition held :: "nat \<Rightarrow> nat \<Rightarrow> consumer \<Rightarrow> bool" where
  "held n fl c \<longleftrightarrow> length (ring c) \<le> n \<and> length (records c) \<le> fl \<and> (consErr c = None \<longrightarrow> length (records c) < fl)"

abbreviation loaded :: "nat \<Rightarrow> nat \<Rightarrow> consumer \<Rightarrow> bool" where
  "loaded n fl c \<equiv> length (ring c) \<le> n \<and> length (records c) \<le> fl"

abbreviation going :: "nat \<Rightarrow> nat \<Rightarrow> consumer \<Rightarrow> bool" where
  "going n fl c \<equiv> held n fl c \<and> consErr c = None"

abbreviation quiet :: "gerr \<Rightarrow> 'w st \<times> consumer \<Rightarrow> bool" where
  "quiet \<equiv> \<lambda>_ _. False"

lemma hoare_tried: "hoare (\<lambda>p. Q (snd p)) (tryM (outer m)) (\<lambda>_ p. Q (snd p)) E"
  by (auto simp: hoare_def tryM_def outer_def zoomM_def split: option.splits)

lemma hoare_local:
  "hoare (\<lambda>p. Q (snd p)) (outer (update_sum f)) (\<lambda>_ p. Q (snd p)) E"
  "hoare (\<lambda>p. Q (snd p)) (outer (nowUnix R)) (\<lambda>_ p. Q (snd p)) E"
  "hoare (\<lambda>p. Q (snd p)) (outer (progress R phase item n)) (\<lambda>_ p. Q (snd p)) E"
  by (auto simp: hoare_def outer_def zoomM_def update_sum_def nowUnix_def progress_def prog_defs split: prod.splits option.splits)

lemma hoare_get: "(\<And>x. hoare (\<lambda>p. P p \<and> x = f p) (g x) Q E) \<Longrightarrow> hoare P (bindM (getM f) g) Q E"
  by (simp add: hoare_def getM_def bindM_def)

lemma hoare_set: "(\<And>s c. P (s, c) \<Longrightarrow> Q (f c)) \<Longrightarrow> hoare P (modifyM (\<lambda>(s, c). (s, f c))) (\<lambda>_ p. Q (snd p)) E"
  by (auto simp: hoare_def modifyM_def)

lemma failWith_held: "(\<And>s c. P (s, c) \<Longrightarrow> loaded n fl c) \<Longrightarrow> hoare P (failWith e) (\<lambda>_ p. held n fl (snd p)) quiet"
  unfolding failWith_def by (rule hoare_set) (auto simp: held_def)

lemma flushRecords_held:
  assumes "0 < fl"
  shows "hoare (\<lambda>p. loaded n fl (snd p)) (flushRecords R) (\<lambda>_ p. held n fl (snd p)) quiet"
  unfolding flushRecords_def
proof (rule hoare_get, rule hoare_if)
  fix x :: "KeyRecord list"
  show "hoare (\<lambda>p. loaded n fl (snd p) \<and> x = (case p of (s, c) \<Rightarrow> records c)) (returnM ()) (\<lambda>_ p. held n fl (snd p)) quiet" if "x = []"
    using that assms by (auto simp: hoare_def returnM_def held_def)
  show "hoare (\<lambda>p. loaded n fl (snd p) \<and> x = (case p of (s, c) \<Rightarrow> records c))
      (bindM (tryM (outer (RecordKeys (r_rt R) x))) (\<lambda>r. case r of Inl e \<Rightarrow> failWith e
         | Inr _ \<Rightarrow> modifyM (\<lambda>(s, c). (s, c\<lparr> records := [] \<rparr>)))) (\<lambda>_ p. held n fl (snd p)) quiet"
  proof (rule hoare_bindM [OF hoare_pre [OF hoare_tried [where Q = "loaded n fl"]]])
    fix r
    show "hoare (\<lambda>p. loaded n fl (snd p)) (case r of Inl e \<Rightarrow> failWith e
         | Inr _ \<Rightarrow> modifyM (\<lambda>(s, c). (s, c\<lparr> records := [] \<rparr>))) (\<lambda>_ p. held n fl (snd p)) quiet"
    proof (cases r)
      case (Inl e)
      then show ?thesis by (simp only: sum.case) (rule failWith_held, simp)
    next
      case (Inr u)
      have "hoare (\<lambda>p. loaded n fl (snd p)) (modifyM (\<lambda>(s, c). (s, c\<lparr> records := [] \<rparr>))) (\<lambda>_ p. held n fl (snd p)) quiet"
        by (rule hoare_set) (use assms in \<open>simp add: held_def\<close>)
      then show ?thesis using Inr by simp
    qed
  qed simp
qed

lemma confirmAppend_held:
  assumes "0 < fl"
  shows "hoare (\<lambda>p. going n fl (snd p)) (confirmAppend R fl it b) (\<lambda>_ p. held n fl (snd p)) quiet"
  unfolding confirmAppend_def
proof (rule hoare_bindM)
  show "hoare (\<lambda>p. going n fl (snd p)) (if b then outer (update_sum f) else returnM ()) (\<lambda>_ p. going n fl (snd p)) quiet" for f
    by (intro hoare_if hoare_local [where Q = "going n fl"] hoare_returnM)
  let ?ring = "loaded n fl"
  have last: "hoare (\<lambda>p. ?ring (snd p))
      (bindM (getM (\<lambda>(s, c). length (records c))) (\<lambda>len. if fl \<le> len then flushRecords R else returnM ()))
      (\<lambda>_ p. held n fl (snd p)) quiet"
  proof (rule hoare_get, rule hoare_if)
    fix len
    show "hoare (\<lambda>p. ?ring (snd p) \<and> len = (case p of (s, c) \<Rightarrow> length (records c))) (flushRecords R) (\<lambda>_ p. held n fl (snd p)) quiet"
      by (rule hoare_pre [OF flushRecords_held [OF assms]]) simp
    show "hoare (\<lambda>p. ?ring (snd p) \<and> len = (case p of (s, c) \<Rightarrow> length (records c))) (returnM ()) (\<lambda>_ p. held n fl (snd p)) quiet"
      if "\<not> fl \<le> len" using that by (auto simp: hoare_def returnM_def held_def)
  qed
  have read: "hoare (\<lambda>p. ?ring (snd p)) (getM f) (\<lambda>_ p. ?ring (snd p)) quiet" for f :: "'a st \<times> consumer \<Rightarrow> int"
    by (simp add: hoare_def getM_def)
  have add: "hoare (\<lambda>p. going n fl (snd p)) (modifyM (\<lambda>(s, c). (s, c\<lparr> records := records c @ [r] \<rparr>))) (\<lambda>_ p. ?ring (snd p)) quiet" for r
    by (rule hoare_set) (auto simp: held_def)
  show "hoare (\<lambda>p. going n fl (snd p))
     (bindM (outer (nowUnix R)) (\<lambda>now.
     bindM (modifyM (\<lambda>(s, c). (s, c\<lparr> records := records c @
         [\<lparr> kr_Key = pc_key (if_pc it), kr_UID = pc_uid (if_pc it), kr_CopiedAtUnix = now \<rparr>] \<rparr>))) (\<lambda>_.
     bindM (outer (update_sum (\<lambda>sum. sum\<lparr> Copied := Copied sum + 1 \<rparr>))) (\<lambda>_.
     bindM (getM (\<lambda>(s, c). Copied (st_sum s))) (\<lambda>n.
     bindM (outer (progress R ''mirror'' [] n)) (\<lambda>_.
     bindM (getM (\<lambda>(s, c). length (records c))) (\<lambda>len.
     if fl \<le> len then flushRecords R else returnM ()))))))) (\<lambda>_ p. held n fl (snd p)) quiet"
    by (rule hoare_bindM, rule hoare_local [where Q = "going n fl"], rule hoare_bindM, rule add, rule hoare_bindM,
      rule hoare_local [where Q = ?ring], rule hoare_bindM, rule read, rule hoare_bindM, rule hoare_local [where Q = ?ring], rule last)
qed

lemma settleOldest_held:
  assumes "0 < fl"
  shows "hoare (\<lambda>p. ring (snd p) \<noteq> [] \<and> going (Suc n) fl (snd p)) (settleOldest R fl) (\<lambda>_ p. held n fl (snd p)) quiet"
  unfolding settleOldest_def
proof (rule hoare_get)
  fix rg
  let ?P = "\<lambda>p :: 'a st \<times> consumer. (ring (snd p) \<noteq> [] \<and> going (Suc n) fl (snd p)) \<and> rg = (case p of (s, c) \<Rightarrow> ring c)"
  have fails: "hoare (\<lambda>p. going n fl (snd p)) (failWith e) (\<lambda>_ p. held n fl (snd p)) quiet" for e
    by (rule failWith_held) (simp add: held_def)
  show "hoare ?P (case rg of [] \<Rightarrow> throwM (Msg ''index out of range'' [])
     | it # rest \<Rightarrow>
         bindM (modifyM (\<lambda>(s, c). (s, c\<lparr> ring := rest \<rparr>))) (\<lambda>_.
         bindM (tryM (outer (call (dst_WaitAppend (r_dst R) (if_pa it))))) (\<lambda>r.
         case r of
           Inl err \<Rightarrow>
             (if \<not> if_hadKeywords it \<or> \<not> isServerReject err
              then failWith (Wrap ''uid %d: %w'' [FormatUint (unat (pc_uid (if_pc it)))] err)
              else bindM (tryM (outer (call (dst_AppendTo (r_dst R) (pc_destFolder (if_pc it))
                            (if_full it) (if_baseFlags it))))) (\<lambda>r2.
                case r2 of
                  Inl err2 \<Rightarrow> failWith (Wrap ''uid %d: %w'' [FormatUint (unat (pc_uid (if_pc it)))] err2)
                | Inr _ \<Rightarrow> confirmAppend R fl it False))
         | Inr _ \<Rightarrow> confirmAppend R fl it (if_hadKeywords it)))) (\<lambda>_ p. held n fl (snd p)) quiet"
  proof (cases rg)
    case Nil
    then show ?thesis by (auto simp: hoare_def)
  next
    case (Cons it rest)
    have pop: "hoare ?P (modifyM (\<lambda>(s, c). (s, c\<lparr> ring := rest \<rparr>))) (\<lambda>_ p. going n fl (snd p)) quiet"
      by (rule hoare_set) (use Cons in \<open>auto simp: held_def dest: arg_cong [where f = length]\<close>)
    note confirmed = confirmAppend_held [OF assms]
    show ?thesis
      unfolding Cons list.case
      by (rule hoare_bindM [OF pop [unfolded Cons]], rule hoare_bindM, rule hoare_tried [where Q = "going n fl"], split sum.split, intro conjI allI impI hoare_if fails confirmed,
        rule hoare_bindM, rule hoare_tried [where Q = "going n fl"], split sum.split, intro conjI allI impI fails confirmed)
  qed
qed

lemma consumeItem_held:
  assumes "0 < rl" and "0 < fl"
  shows "hoare (\<lambda>p. held (rl - 1) fl (snd p)) (consumeItem R rl fl item) (\<lambda>_ p. held (rl - 1) fl (snd p)) quiet"
proof -
  let ?H = "\<lambda>p :: 'a st \<times> consumer. held (rl - 1) fl (snd p)"
  obtain full pc where item: "item = (full, pc)" by (cases item)
  let ?G = "\<lambda>p :: 'a st \<times> consumer. going (rl - 1) fl (snd p)"
  have fails: "hoare ?G (failWith e) (\<lambda>_. ?H) quiet" for e
    by (rule failWith_held) (simp add: held_def)
  have pushed: "hoare (\<lambda>p. ring (snd p) \<noteq> [] \<and> going rl fl (snd p))
      (bindM (getM (\<lambda>(s, c). length (ring c))) (\<lambda>len. if rl \<le> len then settleOldest R fl else returnM ())) (\<lambda>_. ?H) quiet"
  proof (rule hoare_get, rule hoare_if)
    fix len
    let ?P = "\<lambda>p :: 'a st \<times> consumer. (ring (snd p) \<noteq> [] \<and> going rl fl (snd p)) \<and> len = (case p of (s, c) \<Rightarrow> length (ring c))"
    show "hoare ?P (settleOldest R fl) (\<lambda>_. ?H) quiet"
      by (rule hoare_pre [OF settleOldest_held [OF assms(2)]]) (use assms(1) in simp)
    show "hoare ?P (returnM ()) (\<lambda>_. ?H) quiet" if "\<not> rl \<le> len"
      using that by (auto simp: hoare_def returnM_def held_def)
  qed
  have push: "hoare ?G (modifyM (\<lambda>(s, c). (s, c\<lparr> ring := ring c @ [i] \<rparr>))) (\<lambda>_ p. ring (snd p) \<noteq> [] \<and> going rl fl (snd p)) quiet" for i
    by (rule hoare_set) (use assms(1) in \<open>auto simp: held_def\<close>)
  have labels: "hoare ?G (if b then bindM (tryM (outer m)) (\<lambda>r. case r of
         Inl e \<Rightarrow> bindM (failWith e) (\<lambda>_. returnM None) | Inr l \<Rightarrow> returnM (Some (f l))) else returnM (Some []))
      (\<lambda>kws p. ?H p \<and> (kws \<noteq> None \<longrightarrow> consErr (snd p) = None)) quiet" for b f and m :: "('a st, string list) prog"
  proof (rule hoare_if, rule hoare_bindM [OF hoare_tried [where Q = "going (rl - 1) fl"]])
    fix r
    show "hoare ?G (case r of Inl e \<Rightarrow> bindM (failWith e) (\<lambda>_. returnM None) | Inr l \<Rightarrow> returnM (Some (f l)))
      (\<lambda>kws p. ?H p \<and> (kws \<noteq> None \<longrightarrow> consErr (snd p) = None)) quiet"
    proof (cases r)
      case (Inl e)
      show ?thesis unfolding Inl sum.case by (rule hoare_bindM [OF fails]) (auto simp: hoare_def returnM_def)
    qed (auto simp: hoare_def returnM_def)
  qed (auto simp: hoare_def returnM_def)
  show ?thesis
    unfolding consumeItem_def item prod.case Let_def
  proof (rule hoare_get)
    fix err :: "gerr option"
    show "hoare (\<lambda>p. ?H p \<and> err = (case p of (s, c) \<Rightarrow> consErr c)) (if err \<noteq> None then returnM () else bindM (if SyncLabels (r_opts R)
           then bindM (tryM (outer (labelsFor R (pc_key pc)))) (\<lambda>r. case r of
                 Inl e \<Rightarrow> bindM (failWith e) (\<lambda>_. returnM None)
               | Inr labels \<Rightarrow> returnM (Some (labelKeywords (rt_lower (r_rt R)) (r_opts R) labels)))
           else returnM (Some [])) (\<lambda>kws. case kws of None \<Rightarrow> returnM ()
        | Some keywords \<Rightarrow>
            bindM (tryM (outer (call (dst_BeginAppend (r_dst R) (pc_destFolder pc) full
                      (safeFlags (f_Flags full) (CarrySeen (r_opts R)) @ keywords))))) (\<lambda>r.
            case r of
              Inl e \<Rightarrow> failWith (Wrap ''uid %d: %w'' [FormatUint (unat (pc_uid pc))] e)
            | Inr pa \<Rightarrow>
                bindM (modifyM (\<lambda>(s, c). (s, c\<lparr> ring := ring c @
                  [\<lparr> if_pa = pa, if_pc = pc, if_full = full, if_baseFlags = safeFlags (f_Flags full) (CarrySeen (r_opts R)),
                     if_hadKeywords = (keywords \<noteq> []) \<rparr>] \<rparr>))) (\<lambda>_.
                bindM (getM (\<lambda>(s, c). length (ring c))) (\<lambda>len.
                if rl \<le> len then settleOldest R fl else returnM ()))))) (\<lambda>_. ?H) quiet"
      by (rule hoare_if, simp add: hoare_def returnM_def, rule hoare_bindM [OF hoare_pre [OF labels]], simp add: split_beta,
        split option.split, intro conjI allI impI, simp add: hoare_def returnM_def,
        rule hoare_bindM [OF hoare_pre [OF hoare_tried [where Q = "going (rl - 1) fl"]]], simp,
        split sum.split, intro conjI allI impI, rule fails, rule hoare_bindM, rule push, rule pushed)
  qed
qed

lemma drainRing_held:
  assumes "0 < fl"
  shows "hoare (\<lambda>p. held n fl (snd p)) (drainRing R fl k) (\<lambda>_ p. held n fl (snd p)) quiet"
proof (induction k)
  case (Suc k)
  have "hoare (\<lambda>p. ring (snd p) \<noteq> [] \<and> going n fl (snd p)) (settleOldest R fl) (\<lambda>_ p. held n fl (snd p)) quiet"
    by (rule hoare_conseq [OF settleOldest_held [OF assms, where n = n]]) (auto simp: held_def)
  then have one: "hoare (\<lambda>p. held n fl (snd p) \<and> c = snd p) (bindM (settleOldest R fl) (\<lambda>_. drainRing R fl k)) (\<lambda>_ p. held n fl (snd p)) quiet"
    if "consErr c = None \<and> ring c \<noteq> []" for c
    by (rule hoare_pre [OF hoare_bindM [OF _ Suc]]) (use that in auto)
  show ?case
    unfolding drainRing.simps
    by (rule hoare_get, rule hoare_if, rule one, simp, auto simp: hoare_def returnM_def)
qed (auto simp: hoare_def returnM_def)

lemma finish_held:
  assumes "0 < fl"
  shows "hoare (\<lambda>p. held n fl (snd p)) (consume R rl fl []) (\<lambda>_ p. held n fl (snd p)) quiet"
proof -
  have count: "hoare (\<lambda>p. held n fl (snd p)) (getM f) (\<lambda>_ p. held n fl (snd p)) quiet" for f :: "'a st \<times> consumer \<Rightarrow> nat"
    by (simp add: hoare_def getM_def)
  have "hoare (\<lambda>p. held n fl (snd p)) (flushRecords R) (\<lambda>_ p. held n fl (snd p)) quiet"
    by (rule hoare_pre [OF flushRecords_held [OF assms]]) (simp add: held_def)
  then show ?thesis
    unfolding consume_def forM.simps bindM_returnM by (rule hoare_bindM [OF count hoare_bindM [OF drainRing_held [OF assms]]])
qed

section \<open>The pipeline of a reconciler\<close>

definition pipeline :: "'w Reconciler \<Rightarrow> gerr option \<Rightarrow> 'w pipe \<Rightarrow> 'w pipe \<Rightarrow> bool" where
  "pipeline R = pipe_step R (fst (pipe_limits (r_opts R))) (snd (pipe_limits (r_opts R)))"

lemma pipe_limits_pos: "0 < fst (pipe_limits o')" "0 < snd (pipe_limits o')"
  by (simp_all add: pipe_limits_def appendRing_def recordFlushSize_def)

definition bounded :: "'w Reconciler \<Rightarrow> 'w pipe \<Rightarrow> bool" where
  "bounded R p \<longleftrightarrow> length (pp_ch p) \<le> pipelineDepth \<and>
     held (fst (pipe_limits (r_opts R)) - 1) (snd (pipe_limits (r_opts R))) (snd (pp_consumer p))"

lemma bounded_step:
  assumes "pipeline R e p p'" and "bounded R p"
  shows "bounded R p'"
  using assms(1)[unfolded pipeline_def]
proof cases
  case (received x xs q)
  then show ?thesis
    using assms(2) hoare_InrD [OF consumeItem_held [OF pipe_limits_pos] _ received(3)] by (simp add: bounded_def)
next
  case (closed e' q)
  then show ?thesis
    using assms(2) hoare_InrD [OF finish_held [OF pipe_limits_pos(2)] _ closed(5)] by (simp add: bounded_def)
qed (use assms(2) in \<open>simp_all add: bounded_def\<close>)

lemma bounded_reachable:
  assumes "(pipeline R e)\<^sup>*\<^sup>* (pipe_start todo s) p"
  shows "bounded R p"
  using assms
proof (induction rule: rtranclp_induct)
  case base
  show ?case by (simp add: bounded_def pipe_start_def held_def empty_consumer_def pipe_limits_pos)
qed (rule bounded_step)

text \<open>The work that is left.\<close>

definition pipe_work :: "'w pipe \<Rightarrow> nat" where
  "pipe_work p = (case pp_producer p of Sending xs \<Rightarrow> 2 * length xs + 1 | Stopped _ \<Rightarrow> 0) + length (pp_ch p) +
     (if pp_done p then 0 else 1) + (if pp_cancelled p then 0 else 1)"

lemma pipe_work_step: "pipe_step R rl fl e p p' \<Longrightarrow> pipe_work p' < pipe_work p"
  by (induction rule: pipe_step.induct) (auto simp: pipe_work_def)

lemma pipe_work_run:
  assumes "(pipeline R e ^^ k) p p'"
  shows "pipe_work p' + k \<le> pipe_work p"
  using assms
proof (induction k arbitrary: p')
  case (Suc k)
  then obtain m where "(pipeline R e ^^ k) p m" "pipeline R e m p'" by auto
  then show ?case using Suc.IH pipe_work_step unfolding pipeline_def by fastforce
qed simp

lemma quiet_returns:
  assumes "hoare P m Q quiet" and "settles T m" and "P q" and "T q"
  shows "\<exists>a q'. m q = Some (Inr a, q') \<and> T q'"
proof -
  obtain r q' where r: "m q = Some (r, q')" "T q'" using settlesD [OF assms(2,4)] by blast
  then show ?thesis using hoare_InlD [OF assms(1,3)] by (cases r) auto
qed

context responsive_servers
begin

lemma finish_settles: "settles okP (consume R rl fl [])"
  unfolding consume_def forM.simps by (intro settles_compose drainRing_settles flushRecords_settles)

lemma pipe_ok:
  assumes "(pipeline R e)\<^sup>*\<^sup>* (pipe_start todo s) p" and "Ok (st_world s)"
  shows "okP (pp_consumer p)"
  using assms(1)
proof (induction rule: rtranclp_induct)
  case base
  show ?case using assms(2) by (simp add: pipe_start_def)
next
  case (step p p')
  from step.hyps(2)[unfolded pipeline_def] show ?case
  proof cases
    case (received x xs q)
    then show ?thesis using step.IH stepsD [OF settles_steps [OF consumeItem_settles] received(3)] by simp
  next
    case (closed e' q)
    then show ?thesis using step.IH stepsD [OF settles_steps [OF finish_settles] closed(5)] by simp
  qed (use step.IH in simp_all)
qed

lemma pipe_progress:
  assumes run: "(pipeline R e)\<^sup>*\<^sup>* (pipe_start todo s) p" and "Ok (st_world s)" and "\<not> pp_done p"
  shows "\<exists>p'. pipeline R e p p' \<and> pp_cancelled p' = pp_cancelled p"
proof -
  let ?rl = "fst (pipe_limits (r_opts R))" and ?fl = "snd (pipe_limits (r_opts R))"
  have ok: "okP (pp_consumer p)" by (rule pipe_ok [OF assms(1,2)])
  have b: "held (?rl - 1) ?fl (snd (pp_consumer p))" using bounded_reachable [OF run] by (simp add: bounded_def)
  show ?thesis
  proof (cases "pp_ch p")
    case (Cons x xs)
    obtain a q where "consumeItem R ?rl ?fl x (pp_consumer p) = Some (Inr a, q)"
      using quiet_returns [OF consumeItem_held [OF pipe_limits_pos] consumeItem_settles b ok] by blast
    then have c: "consumeItem R ?rl ?fl x (pp_consumer p) = Some (Inr (), q)" by simp
    from pipe_step.received [where streamErr = e, OF Cons c] show ?thesis unfolding pipeline_def by (intro exI conjI, assumption) simp
  next
    case Nil
    show ?thesis
    proof (cases "pp_producer p")
      case (Sending xs)
      have "length (pp_ch p) < pipelineDepth" by (simp add: Nil pipelineDepth_def)
      show ?thesis
      proof (cases xs)
        case Nil
        with Sending have "pp_producer p = Sending []" by simp
        from pipe_step.ended [OF this] show ?thesis unfolding pipeline_def by (intro exI conjI, assumption) simp
      next
        case (Cons x ys)
        with Sending have "pp_producer p = Sending (x # ys)" by simp
        from pipe_step.sent [OF this \<open>length (pp_ch p) < pipelineDepth\<close>] show ?thesis
          unfolding pipeline_def by (intro exI conjI, assumption) simp
      qed
    next
      case (Stopped e')
      obtain a q where "consume R ?rl ?fl [] (pp_consumer p) = Some (Inr a, q)"
        using quiet_returns [OF finish_held [OF pipe_limits_pos(2)] finish_settles b ok] by blast
      then have c: "consume R ?rl ?fl [] (pp_consumer p) = Some (Inr (), q)" by simp
      from pipe_step.closed [where streamErr = e, OF Stopped Nil assms(3) c] show ?thesis unfolding pipeline_def by (intro exI conjI, assumption) simp
    qed
  qed
qed

end

section \<open>Properties\<close>

text \<open>
  C5. However the stream of bodies and the appends interleave, when both goroutines have ended the
  database, the destination and the result are those of the pipeline that fetches first and appends
  after; or the context has ended, and they are those of a stream that broke off at some message.
\<close>

theorem copyPipeline_interleavings:
  assumes "src_FetchFullStream (r_src R) (map pc_uid pend) (st_world s) = Some (Inr (msgs, e), w)"
    and "(pipeline R e)\<^sup>*\<^sup>* (pipe_start (copyItems pend msgs) (s\<lparr> st_world := w \<rparr>)) p" and "pp_done p"
  shows "pipe_outcome R p = copyPipeline R pend s \<or>
    pp_cancelled p \<and> pp_producer p = Stopped (Some CtxErr) \<and> (\<exists>n. pipe_outcome R p = sequential R (fst (pipe_limits (r_opts R))) (snd (pipe_limits (r_opts R)))
       (take n (copyItems pend msgs)) (Some CtxErr) (s\<lparr> st_world := w \<rparr>))"
  using pipe_outcomes [OF assms(2)[unfolded pipeline_def] assms(3)] unfolding copyPipeline_sequential [where s = s, OF assms(1)] .

text \<open>
  C10. The two goroutines never wait for each other: while the calls of the servers return, one of them has a
  next step in every state that is reached before the end, without the context having to end for it.  A
  run has at most two steps per message and three more, one of which is the end of the context.
\<close>

theorem pipeline_never_stuck:
  assumes "responsive_servers R Ok limit" and "Ok (st_world s)" and "(pipeline R e ^^ k) (pipe_start todo s) p"
  shows "k \<le> 2 * length todo + 3 \<and> (pp_done p \<or> (\<exists>p'. pipeline R e p p' \<and> pp_cancelled p' = pp_cancelled p))"
proof
  show "k \<le> 2 * length todo + 3" using pipe_work_run [OF assms(3)] by (simp add: pipe_work_def pipe_start_def)
  have "(pipeline R e)\<^sup>*\<^sup>* (pipe_start todo s) p" using assms(3) by (rule relpowp_imp_rtranclp)
  then show "pp_done p \<or> (\<exists>p'. pipeline R e p p' \<and> pp_cancelled p' = pp_cancelled p)"
    using responsive_servers.pipe_progress [OF assms(1) _ assms(2)] by blast
qed

text \<open>
  C34. The pipeline is bounded: at most eight bodies wait in the channel, and between two messages at most
  three appends are unanswered, none without the destination guard.  While nothing has failed at most 49
  confirmed appends are unrecorded, none without the guard; once the append side has failed it is at most 50,
  and one without the guard.
\<close>

theorem pipeline_bounded:
  assumes "(pipeline R e)\<^sup>*\<^sup>* (pipe_start todo s) p"
  shows "length (pp_ch p) \<le> 8 \<and> length (ring (snd (pp_consumer p))) \<le> (if DestGuard (r_opts R) then 3 else 0) \<and>
    length (records (snd (pp_consumer p))) \<le> (if DestGuard (r_opts R) then 49 else 0) +
      (if consErr (snd (pp_consumer p)) = None then 0 else 1)"
  using bounded_reachable [OF assms]
  by (auto simp: bounded_def held_def pipelineDepth_def pipe_limits_def appendRing_def recordFlushSize_def)

text \<open>A destination that refuses every append, and two messages: the second is never sent.\<close>

definition refusing :: "nat Reconciler \<Rightarrow> nat Reconciler" where
  "refusing R = R\<lparr> r_opts := (r_opts R)\<lparr> SyncLabels := False \<rparr>,
     r_src := (r_src R)\<lparr> src_FetchFullStream := (\<lambda>us. returnM (map (\<lambda>u. \<lparr> f_UID = u, f_Raw = ''x'', f_Flags = [], f_InternalDate = 0 \<rparr>) us, None)) \<rparr>,
     r_dst := (r_dst R)\<lparr> dst_BeginAppend := (\<lambda>folder full flags. throwM (NetErr ''gone'')) \<rparr> \<rparr>"

definition two_candidates :: "pendingCopy list" where
  "two_candidates = [\<lparr> pc_uid = 1, pc_key = ''<a>'', pc_destFolder = ''All'' \<rparr>, \<lparr> pc_uid = 2, pc_key = ''<b>'', pc_destFolder = ''All'' \<rparr>]"

definition two_items :: "copyItem list" where
  "two_items = map (\<lambda>p. (\<lparr> f_UID = pc_uid p, f_Raw = ''x'', f_Flags = [], f_InternalDate = 0 \<rparr>, p)) two_candidates"

lemma two_items: "copyItems two_candidates (map fst two_items) = two_items"
  by (simp add: copyItems_def two_items_def two_candidates_def byUID_def map_filter_simps)

definition gone :: gerr where
  "gone = Wrap ''uid %d: %w'' [FormatUint 1] (NetErr ''gone'')"

lemma refused_run:
  fixes s :: "nat st"
  shows "(pipeline (refusing R) None)\<^sup>*\<^sup>* (pipe_start two_items s)
    \<lparr> pp_producer = Stopped (Some appendSideFailed), pp_ch = [], pp_consumer = (s, empty_consumer\<lparr> consErr := Some gone \<rparr>), pp_done = True, pp_cancelled = False \<rparr>"
proof -
  let ?R = "refusing R" and ?c = "empty_consumer\<lparr> consErr := Some gone \<rparr>"
  let ?step = "pipe_step ?R (fst (pipe_limits (r_opts ?R))) (snd (pipe_limits (r_opts ?R))) None"
  let ?x = "hd two_items" and ?y = "hd (tl two_items)"
  have todo: "two_items = [?x, ?y]" by (simp add: two_items_def two_candidates_def)
  have fails: "consumeItem ?R rl fl ?x (s, empty_consumer) = Some (Inr (), (s, ?c))" for rl fl
    by (simp add: consumeItem_def two_items_def two_candidates_def refusing_def prog_defs outer_def call_def failWith_def empty_consumer_def gone_def)
  have ends: "consume ?R rl fl [] (s, ?c) = Some (Inr (), (s, ?c))" for rl fl
    by (simp add: consume_def flushRecords_def empty_consumer_def prog_defs)
  let ?p1 = "\<lparr> pp_producer = Sending [?y], pp_ch = [?x], pp_consumer = (s, empty_consumer), pp_done = False, pp_cancelled = False \<rparr>"
  let ?p2 = "\<lparr> pp_producer = Sending [?y], pp_ch = [], pp_consumer = (s, ?c), pp_done = False, pp_cancelled = False \<rparr>"
  let ?p3 = "\<lparr> pp_producer = Stopped (Some appendSideFailed), pp_ch = [], pp_consumer = (s, ?c), pp_done = False, pp_cancelled = False \<rparr>"
  have "?step (pipe_start two_items s) ?p1"
    using pipe_step.sent [of "pipe_start two_items s" ?x "[?y]"] todo by (simp add: pipe_start_def pipelineDepth_def)
  moreover have "?step ?p1 ?p2"
    using pipe_step.received [of ?p1 ?x "[]"] fails by simp
  moreover have "?step ?p2 ?p3"
    using pipe_step.aborted [of ?p2 ?y "[]"] by simp
  moreover have "?step ?p3 \<lparr> pp_producer = Stopped (Some appendSideFailed), pp_ch = [], pp_consumer = (s, ?c), pp_done = True, pp_cancelled = False \<rparr>"
    using pipe_step.closed [of ?p3] ends by simp
  ultimately show ?thesis unfolding pipeline_def by (meson converse_rtranclp_into_rtranclp rtranclp.rtrancl_refl)
qed

theorem copyPipeline_interleavings_witness:
  "\<forall>R s. \<exists>p. (pipeline (refusing R) None)\<^sup>*\<^sup>* (pipe_start two_items s) p \<and> pp_done p \<and>
     pipe_outcome (refusing R) p = Some (Inl gone, s) \<and> copyPipeline (refusing R) two_candidates s = Some (Inl gone, s)"
proof (intro allI exI conjI)
  fix R :: "nat Reconciler" and s :: "nat st"
  let ?p = "\<lparr> pp_producer = Stopped (Some appendSideFailed), pp_ch = [], pp_consumer = (s, empty_consumer\<lparr> consErr := Some gone \<rparr>), pp_done = True, pp_cancelled = False \<rparr>"
  show run: "(pipeline (refusing R) None)\<^sup>*\<^sup>* (pipe_start two_items s) ?p" by (rule refused_run)
  show "pp_done ?p" by simp
  show out: "pipe_outcome (refusing R) ?p = Some (Inl gone, s)" by (simp add: pipe_outcome_def pipe_result_def prog_defs)
  have f: "src_FetchFullStream (r_src (refusing R)) (map pc_uid two_candidates) (st_world s) = Some (Inr (map fst two_items, None), st_world s)"
    by (simp add: refusing_def returnM_def two_items_def comp_def)
  have s: "s\<lparr> st_world := st_world s \<rparr> = s" by simp
  from copyPipeline_interleavings [OF f, unfolded s two_items, OF run]
  show "copyPipeline (refusing R) two_candidates s = Some (Inl gone, s)"
    unfolding out by simp
qed

theorem pipeline_bounded_witness:
  "\<forall>R s. \<exists>p. (pipeline (refusing R) None)\<^sup>*\<^sup>* (pipe_start two_items s) p \<and> pp_done p \<and> length (pp_ch p) \<le> 8"
  using pipeline_bounded [OF refused_run] refused_run by (metis pipe.select_convs(4))

theorem pipeline_never_stuck_witness:
  "\<exists>p'. pipeline (ref_rec demo_site demo_mirror ''All'' []) None (pipe_start two_items demo_state) p' \<and> \<not> pp_cancelled p'"
proof -
  let ?R = "ref_rec demo_site demo_mirror ''All'' []"
  have ok: "chunks_ok (st_world demo_state)" by (simp add: chunks_ok_def demo_state_def demo_client_def)
  have "(pipeline ?R None ^^ 0) (pipe_start two_items demo_state) (pipe_start two_items demo_state)" by simp
  from pipeline_never_stuck [OF ref_ends.responsive_servers_axioms ok this]
  show ?thesis by (simp add: pipe_start_def)
qed

end
