(* ===== verification/Mailboxes.thy ===== *)
theory Mailboxes
  imports ServerFetch
begin

text \<open>
  What the client makes of the folders: the interfaces of the IMAP library that speak of the mailboxes by
  name, what the methods that select a folder do over them, and the reference servers as a provider.
\<close>

section \<open>Searching a folder\<close>

text \<open>
  \<open>selected_box\<close> is the mailbox that is selected on the connection and \<open>inside\<close> what the mailboxes hold.  A SELECT
  that succeeds opens the mailbox it names, the other commands of a search leave it open.
\<close>

locale mailbox_library = search_library L contents pending whole has
  for L :: "'w imapclient" and contents pending whole has +
  fixes inside :: "'w \<Rightarrow> string \<Rightarrow> FetchOptions \<Rightarrow> FetchMessageBuffer list" and selected_box :: "'w \<Rightarrow> string option"
  assumes selected_contents: "selected_box w = Some f \<Longrightarrow> contents w = inside w f"
    and select_opens: "ic_Select L f w = Some (Inr d, w') \<Longrightarrow> selected_box w' = Some f"
    and search_open: "ic_UIDSearch L c w = Some (y, w') \<Longrightarrow> selected_box w' = selected_box w"
    and fetch_open: "ic_Fetch L us opts w = Some (z, w') \<Longrightarrow> selected_box w' = selected_box w"
    and next_open: "ic_Next L i w = (x, w') \<Longrightarrow> selected_box w' = selected_box w"
    and close_open: "ic_CloseFetch L i w = Some (r, w') \<Longrightarrow> selected_box w' = selected_box w"
begin

lemma ensure_opens:
  "hoare (\<lambda>p. cl_selected (fst p) = f \<longrightarrow> selected_box (snd p) = Some f) (ensureSelected L f) (\<lambda>_ p. selected_box (snd p) = Some f) (\<lambda>_ _. True)"
proof (rule hoareI)
  fix p a p'
  assume pre: "cl_selected (fst p) = f \<longrightarrow> selected_box (snd p) = Some f" and run: "ensureSelected L f p = Some (Inr a, p')"
  show "selected_box (snd p') = Some f"
  proof (cases "cl_selected (fst p) = f")
    case True
    then show ?thesis using run pre by (simp add: ensureSelected_def field_def bindM_getM returnM_def)
  next
    case False
    then obtain d w' where "ic_Select L f (snd p) = Some (Inr d, w')" and "snd p' = w'"
      using run by (auto simp: ensureSelected_def SelectNamedFolder_def field_def bindM_getM bindM_def tryM_def lib_def zoomM_def
          assign_def modifyM_def returnM_def failAt_def throwM_def getM_def split: option.splits sum.splits)
    then show ?thesis using select_opens by simp
  qed
qed simp

lemma round_open: "steps (\<lambda>p p'. selected_box (snd p') = selected_box (snd p)) (searchRound L v)"
proof -
  let ?R = "\<lambda>p p' :: 'w conn. selected_box (snd p') = selected_box (snd p)"
  have rel: "step_relation ?R" by unfold_locales auto
  note compose = step_relation.steps_compose' [OF rel]
  have "steps ?R (lib (ic_Fetch L us opts))" and "steps ?R (lib (ic_CloseFetch L i))" and "steps ?R (nextMessage L i)"
    and "steps ?R (lib (ic_UIDSearch L c))" for us opts i c
    by (auto simp: steps_def lib_def zoomM_def nextMessage_def split: option.splits prod.splits
        dest: fetch_open close_open next_open search_open)
  moreover have "steps ?R (assign (\<lambda>cl. cl\<lparr> cl_guardChunk := n \<rparr>))" for n
    by (auto simp: steps_def assign_def modifyM_def)
  ultimately show ?thesis
    unfolding searchRound_def searchAnswer_def field_def failAt_def fetchMetas_def collectMetas_def abortFetch_def
    by (intro compose)
qed

lemma search_exact:
  "hoare (\<lambda>p. selected_box (snd p) = Some f) (untilM (searchRound L) (ids, {}))
    (\<lambda>found p. found \<subseteq> message_ids L (inside (snd p) f) \<and> set ids \<inter> message_ids L (inside (snd p) f) \<subseteq> found) (\<lambda>_ _. True)"
proof (rule hoareI)
  fix p found p'
  assume o: "selected_box (snd p) = Some f" and run: "untilM (searchRound L) (ids, {}) p = Some (Inr found, p')"
  have rel: "step_relation (\<lambda>p p' :: 'w conn. selected_box (snd p') = selected_box (snd p))" by unfold_locales auto
  have "selected_box (snd p') = Some f"
    using stepsD [OF step_relation.steps_untilM [OF rel round_open] run] o by simp
  then have "inside (snd p') f = contents (snd p')" by (simp add: selected_contents)
  then show "found \<subseteq> message_ids L (inside (snd p') f) \<and> set ids \<inter> message_ids L (inside (snd p') f) \<subseteq> found"
    using search_loop [OF run] by simp
qed simp

end

text \<open>The destination of the reference servers.\<close>

definition box_inside :: "site \<Rightarrow> party \<Rightarrow> net \<Rightarrow> string \<Rightarrow> FetchOptions \<Rightarrow> FetchMessageBuffer list" where
  "box_inside S p n f opts = (case pt_find p S n f of None \<Rightarrow> [] | Some (v, nx, ms) \<Rightarrow> map (mail_buffer S opts) ms)"

definition box_opened :: "party \<Rightarrow> net \<Rightarrow> string option" where
  "box_opened p n = lo_selected (pt_line p n)"

lemma observe_opened: "lo_selected (nt_dst (observe S n)) = lo_selected (nt_dst n)"
  using observe_waiting [of n S] by (simp add: waiting_def)

interpretation dst_boxes: mailbox_library "dst_library S" "box_contents S dst_party" "box_pending dst_party"
  "box_whole dst_party" "buffer_has S" "box_inside S dst_party" "box_opened dst_party" for S
proof (rule mailbox_library.intro [OF dst_search.search_library_axioms], rule mailbox_library_axioms.intro)
  let ?o = "\<lambda>n. lo_selected (nt_dst n)"
  have line: "pt_line dst_party = nt_dst" by (simp add: dst_party_def)
  show "box_contents S dst_party w = box_inside S dst_party w f" if "box_opened dst_party w = Some f" for w f
    using that by (auto simp: box_contents_def box_inside_def box_opened_def selected_mail_def fun_eq_iff split: option.split)
  show "box_opened dst_party w' = Some f" if "ic_Select (dst_library S) f w = Some (Inr d, w')" for f w d w'
  proof -
    have "do_select S dst_party f (observe S w) = (Inr d, w')"
      using that serve_Inr(1) unfolding dst_library_def library_fields by fast
    then show ?thesis by (auto simp: do_select_def box_opened_def dst_party_def split: option.splits if_splits)
  qed
  show "box_opened dst_party w' = box_opened dst_party w" if "ic_UIDSearch (dst_library S) c w = Some (y, w')" for c w y w'
  proof -
    have "steps (\<lambda>n n'. ?o n' = ?o n) (serve S dst_party (do_search S dst_party c))"
      by (rule steps_serve) (auto simp: observe_opened kill_def dst_party_def do_search_def split: option.split)
    then show ?thesis using that unfolding dst_library_def library_fields box_opened_def line by (auto dest: stepsD)
  qed
  show "box_opened dst_party w' = box_opened dst_party w" if "ic_Fetch (dst_library S) us opts w = Some (z, w')" for us opts w z w'
  proof -
    have "steps (\<lambda>n n'. ?o n' = ?o n) (do_fetch S dst_party us opts)"
      by (rule steps_do_fetch) (auto simp: observe_opened dst_party_def)
    then show ?thesis using that unfolding dst_library_def library_fields box_opened_def line by (auto dest: stepsD)
  qed
  show "box_opened dst_party w' = box_opened dst_party w" if "ic_Next (dst_library S) i w = (x, w')" for i w x w'
    using that by (auto simp: dst_library_def do_next_def box_opened_def dst_party_def split: list.splits)
  show "box_opened dst_party w' = box_opened dst_party w" if "ic_CloseFetch (dst_library S) i w = Some (r, w')" for i w r w'
    using that by (auto simp: dst_library_def do_close_def)
qed

end
