(* ===== verification/Edits.thy ===== *)
theory Edits
  imports Mailboxes
begin

text \<open>
  Moving and tagging messages by Message-ID: the interface of the IMAP library for searching by a header,
  moving and storing flags, what \<open>MoveMessageID\<close> and \<open>StoreKeywordByMessageID\<close> of the client make of the
  mailboxes over it, and the reference servers as a provider.
\<close>

section \<open>Editing a set of messages\<close>

text \<open>
  A message as the edits see it: the folder it is in, its Message-ID, its flags.  A search by Message-ID finds
  the messages of a folder whose Message-ID the text asked for \<open>hits\<close>; IMAP servers look for the text anywhere
  in the header field, so a Message-ID is also hit by its parts.
\<close>

type_synonym item = "string \<times> string \<times> flag set"

fun found_in :: "(string \<Rightarrow> string \<Rightarrow> bool) \<Rightarrow> string \<Rightarrow> string \<Rightarrow> item \<Rightarrow> bool" where
  "found_in hits f k (g, j, t) \<longleftrightarrow> g = f \<and> hits k j"

fun move_to :: "string \<Rightarrow> item \<Rightarrow> item" where
  "move_to g (f, j, t) = (g, j, t)"

definition retag :: "bool \<Rightarrow> flag \<Rightarrow> flag set \<Rightarrow> flag set" where
  "retag add kw t = (if add then insert kw t else t - {kw})"

fun tag_with :: "bool \<Rightarrow> flag \<Rightarrow> item \<Rightarrow> item" where
  "tag_with add kw (f, j, t) = (f, j, retag add kw t)"

definition edit :: "(item \<Rightarrow> bool) \<Rightarrow> (item \<Rightarrow> item) \<Rightarrow> item set \<Rightarrow> item set" where
  "edit p h X = (\<lambda>x. if p x then h x else x) ` X"

lemma edit_none: "(\<And>x. x \<in> X \<Longrightarrow> \<not> p x) \<Longrightarrow> edit p h X = X"
  by (force simp: edit_def)

text \<open>With its UID, a message can be told apart from the others in its folder.\<close>

type_synonym numbered = "string \<times> u32 \<times> string \<times> flag set"

fun unnumbered :: "numbered \<Rightarrow> item" where
  "unnumbered (f, u, j, t) = (f, j, t)"

definition edit_uids :: "string \<Rightarrow> u32 set \<Rightarrow> (item \<Rightarrow> item) \<Rightarrow> numbered set \<Rightarrow> item set" where
  "edit_uids f us h A = (\<lambda>(g, u, j, t). if g = f \<and> u \<in> us then h (g, j, t) else (g, j, t)) ` A"

section \<open>The library\<close>

text \<open>
  \<open>Ok\<close> is an invariant of the servers, in which a UID belongs to one message of a folder, and \<open>mails\<close> what the
  mailboxes hold.
\<close>

text \<open>The client is right about the mailbox that it takes for the selected one.\<close>

definition trusted :: "('w \<Rightarrow> bool) \<Rightarrow> ('w \<Rightarrow> string option) \<Rightarrow> 'w conn \<Rightarrow> bool" where
  "trusted Ok selected p \<longleftrightarrow> Ok (snd p) \<and> (cl_selected (fst p) \<noteq> [] \<longrightarrow> selected (snd p) = Some (cl_selected (fst p)))"

locale editing_library =
  fixes L :: "'w imapclient" and Ok :: "'w \<Rightarrow> bool" and selected :: "'w \<Rightarrow> string option"
    and mails :: "'w \<Rightarrow> numbered set" and hits :: "string \<Rightarrow> string \<Rightarrow> bool"
  assumes uid_law: "Ok w \<Longrightarrow> (f, u, j, t) \<in> mails w \<Longrightarrow> (f, u, j', t') \<in> mails w \<Longrightarrow> j' = j"
    and select_law: "Ok w \<Longrightarrow> ic_Select L f w = Some (Inr d, w') \<Longrightarrow> Ok w' \<and> selected w' = Some f \<and> mails w' = mails w"
    and search_law: "Ok w \<Longrightarrow> selected w = Some f \<Longrightarrow> ic_UIDSearch L (messageIDCriteria k) w = Some (Inr us, w') \<Longrightarrow>
      Ok w' \<and> selected w' = Some f \<and> mails w' = mails w \<and> set us = {u. \<exists>j t. (f, u, j, t) \<in> mails w \<and> hits k j}"
    and move_law: "Ok w \<Longrightarrow> selected w = Some f \<Longrightarrow> ic_Move L (UIDSetNum us) g w = Some (Inr (), w') \<Longrightarrow>
      Ok w' \<and> selected w' = Some f \<and> unnumbered ` mails w' = edit_uids f (set us) (move_to g) (mails w)"
    and store_law: "Ok w \<Longrightarrow> selected w = Some f \<Longrightarrow>
      ic_Store L (UIDSetNum us) (if add then StoreFlagsAdd else StoreFlagsDel) [kw] w = Some (Inr (), w') \<Longrightarrow>
      Ok w' \<and> selected w' = Some f \<and> unnumbered ` mails w' = edit_uids f (set us) (tag_with add kw) (mails w)"
begin

lemma ensured:
  assumes "trusted Ok selected p" and "f \<noteq> []" and "ensureSelected L f p = Some (Inr a, p')"
  shows "trusted Ok selected p'" and "selected (snd p') = Some f" and "mails (snd p') = mails (snd p)"
proof -
  have "trusted Ok selected p' \<and> selected (snd p') = Some f \<and> mails (snd p') = mails (snd p)"
  proof (cases "cl_selected (fst p) = f")
    case True
    then show ?thesis using assms by (simp add: ensureSelected_def field_def bindM_getM returnM_def trusted_def)
  next
    case False
    then obtain d w' where s: "ic_Select L f (snd p) = Some (Inr d, w')" and "snd p' = w'" "cl_selected (fst p') = f"
      using assms(3) by (auto simp: ensureSelected_def SelectNamedFolder_def field_def bindM_getM bindM_def tryM_def lib_def zoomM_def
          assign_def modifyM_def returnM_def failAt_def throwM_def getM_def split: option.splits sum.splits)
    then show ?thesis using select_law [OF _ s] assms(1) by (simp add: trusted_def)
  qed
  then show "trusted Ok selected p'" "selected (snd p') = Some f" "mails (snd p') = mails (snd p)" by simp_all
qed

lemma libAt_InrD: "libAt fmt args m p = Some (Inr a, p') \<Longrightarrow> m (snd p) = Some (Inr a, snd p') \<and> fst p' = fst p"
  by (auto simp: libAt_def bindM_def tryM_def lib_def zoomM_def failAt_def field_def bindM_getM returnM_def throwM_def getM_def
      split: option.splits sum.splits)

lemma searched:
  assumes "trusted Ok selected p" and "f \<noteq> []" and "searchMessageID L f k p = Some (Inr us, p')"
  shows "trusted Ok selected p'" and "selected (snd p') = Some f" and "mails (snd p') = mails (snd p)"
    and "set us = {u. \<exists>j t. (f, u, j, t) \<in> mails (snd p) \<and> hits k j}"
proof -
  obtain q where e: "ensureSelected L f p = Some (Inr (), q)"
    and s: "libAt ''search Message-ID on %s: %w'' [] (ic_UIDSearch L (messageIDCriteria k)) q = Some (Inr us, p')"
    using assms(3) by (auto simp: searchMessageID_def elim: bindM_InrE)
  note q = ensured [OF assms(1,2) e]
  have ok: "Ok (snd q)" using q(1) by (simp add: trusted_def)
  have call: "ic_UIDSearch L (messageIDCriteria k) (snd q) = Some (Inr us, snd p')" and cl: "fst p' = fst q"
    using libAt_InrD [OF s] by simp_all
  note law = search_law [OF ok q(2) call]
  show "selected (snd p') = Some f" "mails (snd p') = mails (snd p)" 
    "set us = {u. \<exists>j t. (f, u, j, t) \<in> mails (snd p) \<and> hits k j}" using law q(3) by simp_all
  show "trusted Ok selected p'" using law q(1,2) cl by (simp add: trusted_def)
qed

text \<open>The UIDs of what was found stand for what was found.\<close>

lemma edit_found:
  assumes "Ok w" and "set us = {u. \<exists>j t. (f, u, j, t) \<in> mails w \<and> hits k j}"
  shows "edit_uids f (set us) h (mails w) = edit (found_in hits f k) h (unnumbered ` mails w)"
proof -
  have "(case x of (g, u, j, t) \<Rightarrow> if g = f \<and> u \<in> set us then h (g, j, t) else (g, j, t)) =
      (if found_in hits f k (unnumbered x) then h (unnumbered x) else unnumbered x)" if x: "x \<in> mails w" for x
  proof -
    obtain g u j t where x': "x = (g, u, j, t)" by (cases x)
    have "u \<in> set us \<longleftrightarrow> hits k j" if "g = f"
      using x uid_law [OF assms(1)] that unfolding assms(2) x' by blast
    then show ?thesis by (auto simp: x')
  qed
  then show ?thesis unfolding edit_uids_def edit_def image_image by (rule image_cong [OF refl])
qed

lemma found_some: "{u. \<exists>j t. (f, u, j, t) \<in> mails w \<and> hits k j} \<noteq> {} \<longleftrightarrow> (\<exists>x \<in> unnumbered ` mails w. found_in hits f k x)"
  by (force simp: image_iff split: prod.splits)

lemma move_by_id:
  assumes "f \<noteq> []"
  shows "hoare (\<lambda>p. trusted Ok selected p \<and> unnumbered ` mails (snd p) = X) (MoveMessageID L f g k)
    (\<lambda>moved p. trusted Ok selected p \<and> unnumbered ` mails (snd p) = edit (found_in hits f k) (move_to g) X \<and>
       moved = (\<exists>x \<in> X. found_in hits f k x)) (\<lambda>_ _. True)"
proof (rule hoareI)
  fix p moved p'
  assume pre: "trusted Ok selected p \<and> unnumbered ` mails (snd p) = X" and run: "MoveMessageID L f g k p = Some (Inr moved, p')"
  obtain us q where s: "searchMessageID L f k p = Some (Inr us, q)"
    and rest: "(if us = [] then returnM False else bindM (libAt ''move %q -> %q on %s: %w'' [f, g] (ic_Move L (UIDSetNum us) g)) (\<lambda>_. returnM True)) q
      = Some (Inr moved, p')"
    using run unfolding MoveMessageID_def by (rule bindM_InrE)
  note q = searched [OF conjunct1 [OF pre] assms s]
  have any: "us \<noteq> [] \<longleftrightarrow> (\<exists>x \<in> X. found_in hits f k x)" using found_some [of f "snd p" k] q(4) pre by (simp flip: set_empty)
  show "trusted Ok selected p' \<and> unnumbered ` mails (snd p') = edit (found_in hits f k) (move_to g) X \<and> moved = (\<exists>x \<in> X. found_in hits f k x)"
  proof (cases "us = []")
    case True
    then have "\<not> found_in hits f k x" if "x \<in> X" for x using any that by blast
    then show ?thesis using True rest q(1,3) pre any edit_none [of X] by (simp add: returnM_def)
  next
    case False
    then obtain u where "libAt ''move %q -> %q on %s: %w'' [f, g] (ic_Move L (UIDSetNum us) g) q = Some (Inr u, p')" and moved: "moved = True"
      using rest by (auto elim: bindM_InrE simp: returnM_def)
    then have call: "ic_Move L (UIDSetNum us) g (snd q) = Some (Inr (), snd p')" and cl: "fst p' = fst q"
      using libAt_InrD by fastforce+
    have ok: "Ok (snd q)" using q(1) by (simp add: trusted_def)
    note law = move_law [OF ok q(2) call]
    have "edit_uids f (set us) (move_to g) (mails (snd q)) = edit (found_in hits f k) (move_to g) X"
      using edit_found [OF ok, of us f k] q(3,4) pre by simp
    then show ?thesis using law q(1,2) cl moved any False by (simp add: trusted_def)
  qed
qed simp

lemma tag_by_id:
  assumes "f \<noteq> []"
  shows "hoare (\<lambda>p. trusted Ok selected p \<and> unnumbered ` mails (snd p) = X) (StoreKeywordByMessageID L f k add kw)
    (\<lambda>found p. trusted Ok selected p \<and> unnumbered ` mails (snd p) = edit (found_in hits f k) (tag_with add kw) X \<and>
       found = (\<exists>x \<in> X. found_in hits f k x)) (\<lambda>_ _. True)"
proof (rule hoareI)
  fix p found p'
  let ?op = "if add then StoreFlagsAdd else StoreFlagsDel"
  assume pre: "trusted Ok selected p \<and> unnumbered ` mails (snd p) = X" and run: "StoreKeywordByMessageID L f k add kw p = Some (Inr found, p')"
  obtain us q where s: "searchMessageID L f k p = Some (Inr us, q)"
    and rest: "(if us = [] then returnM False else bindM (storeFlags L us ?op [kw]) (\<lambda>_. returnM True)) q = Some (Inr found, p')"
    using run unfolding StoreKeywordByMessageID_def by (rule bindM_InrE)
  note q = searched [OF conjunct1 [OF pre] assms s]
  have any: "us \<noteq> [] \<longleftrightarrow> (\<exists>x \<in> X. found_in hits f k x)" using found_some [of f "snd p" k] q(4) pre by (simp flip: set_empty)
  show "trusted Ok selected p' \<and> unnumbered ` mails (snd p') = edit (found_in hits f k) (tag_with add kw) X \<and> found = (\<exists>x \<in> X. found_in hits f k x)"
  proof (cases "us = []")
    case True
    then have "\<not> found_in hits f k x" if "x \<in> X" for x using any that by blast
    then show ?thesis using True rest q(1,3) pre any edit_none [of X] by (simp add: returnM_def)
  next
    case False
    then obtain u where "storeFlags L us ?op [kw] q = Some (Inr u, p')" and found: "found = True"
      using rest by (auto elim: bindM_InrE simp: returnM_def)
    then have call: "ic_Store L (UIDSetNum us) ?op [kw] (snd q) = Some (Inr (), snd p')" and cl: "fst p' = fst q"
      unfolding storeFlags_def using libAt_InrD by fastforce+
    have ok: "Ok (snd q)" using q(1) by (simp add: trusted_def)
    note law = store_law [OF ok q(2) call]
    have "edit_uids f (set us) (tag_with add kw) (mails (snd q)) = edit (found_in hits f k) (tag_with add kw) X"
      using edit_found [OF ok, of us f k] q(3,4) pre by simp
    then show ?thesis using law q(1,2) cl found any False by (simp add: trusted_def)
  qed
qed simp

end

section \<open>The reference servers\<close>

definition mail_id :: "site \<Rightarrow> mail \<Rightarrow> string" where
  "mail_id S m = fst (header_fields S (si_header S (ml_raw m)))"

definition mail_item :: "site \<Rightarrow> string \<Rightarrow> mail \<Rightarrow> item" where
  "mail_item S f m = (f, mail_id S m, set (ml_flags m))"

definition box_items :: "site \<Rightarrow> (string \<times> mail list) list \<Rightarrow> item set" where
  "box_items S bs = (\<Union>(f, ms) \<in> set bs. mail_item S f ` set ms)"

definition box_mails :: "site \<Rightarrow> net \<Rightarrow> numbered set" where
  "box_mails S n = (\<Union>(f, ms) \<in> set (nt_boxes n). (\<lambda>m. (f, ml_uid m, mail_id S m, set (ml_flags m))) ` set ms)"

definition boxes_ok :: "site \<Rightarrow> net \<Rightarrow> bool" where
  "boxes_ok S n \<longleftrightarrow> si_room S < 2 ^ 32 \<and> distinct (map fst (nt_boxes n)) \<and>
     (\<forall>(f, ms) \<in> set (nt_boxes n). distinct (map ml_uid ms) \<and> (\<forall>m \<in> set ms. ml_uid m < nt_uidnext n))"

lemma items_of_mails: "unnumbered ` box_mails S n = box_items S (nt_boxes n)"
  by (force simp: box_mails_def box_items_def mail_item_def image_UN image_image split: prod.splits)

lemma mails_edited:
  "edit_uids f us h (box_mails S n) =
    (\<Union>(g, ms) \<in> set (nt_boxes n). (\<lambda>m. if g = f \<and> ml_uid m \<in> us then h (mail_item S g m) else mail_item S g m) ` set ms)"
  unfolding edit_uids_def box_mails_def image_UN
proof (rule SUP_cong [OF refl])
  fix x assume "x \<in> set (nt_boxes n)"
  show "(\<lambda>(g, u, j, t). if g = f \<and> u \<in> us then h (g, j, t) else (g, j, t)) `
      (case x of (f, ms) \<Rightarrow> (\<lambda>m. (f, ml_uid m, mail_id S m, set (ml_flags m))) ` set ms) =
    (case x of (g, ms) \<Rightarrow> (\<lambda>m. if g = f \<and> ml_uid m \<in> us then h (mail_item S g m) else mail_item S g m) ` set ms)"
    unfolding split_beta image_image by (rule image_cong) (simp_all add: mail_item_def)
qed

lemma observe_boxes: "nt_boxes (observe S n) = nt_boxes n" "nt_uidnext (observe S n) = nt_uidnext n"
  using observe_waiting [of n S] by (simp_all add: waiting_def same_dest_def)

lemma observe_mails [simp]: "box_mails S (observe S n) = box_mails S n" "boxes_ok S (observe S n) = boxes_ok S n"
  by (simp_all add: box_mails_def boxes_ok_def observe_boxes)

lemma boxD: "boxes_ok S n \<Longrightarrow> (f, ms) \<in> set (nt_boxes n) \<Longrightarrow> in_box f (nt_boxes n) = ms"
  by (simp add: boxes_ok_def in_box_def map_of_is_SomeI)

lemma in_boxD: "m \<in> set (in_box f bs) \<Longrightarrow> \<exists>ms. (f, ms) \<in> set bs \<and> m \<in> set ms"
  by (cases "map_of bs f") (auto simp: in_box_def dest: map_of_SomeD)

lemma box_mails_iff:
  assumes "boxes_ok S n"
  shows "(f, u, j, t) \<in> box_mails S n \<longleftrightarrow> (\<exists>m \<in> set (in_box f (nt_boxes n)). ml_uid m = u \<and> mail_id S m = j \<and> set (ml_flags m) = t)"
  using boxD [OF assms] by (fastforce simp: box_mails_def dest: in_boxD)

lemma uid_box: "boxes_ok S n \<Longrightarrow> m \<in> set (in_box f (nt_boxes n)) \<Longrightarrow> m' \<in> set (in_box f (nt_boxes n)) \<Longrightarrow> ml_uid m = ml_uid m' \<Longrightarrow> m = m'"
proof -
  assume ok: "boxes_ok S n" and m: "m \<in> set (in_box f (nt_boxes n))" "m' \<in> set (in_box f (nt_boxes n))" and u: "ml_uid m = ml_uid m'"
  obtain ms where ms: "(f, ms) \<in> set (nt_boxes n)" using in_boxD [OF m(1)] by blast
  then have "inj_on ml_uid (set ms)" using ok by (auto simp: boxes_ok_def distinct_map)
  then show "m = m'" using m u boxD [OF ok ms] by (auto dest: inj_onD)
qed

text \<open>Moving: the messages get the next UIDs.\<close>

lemma renumber_uids: "map ml_uid (renumber u ms) = map (\<lambda>i. u + of_nat i) [0..<length ms]"
proof (induction ms arbitrary: u)
  case (Cons m ms)
  have "[0..<length (m # ms)] = 0 # map Suc [0..<length ms]" by (simp add: map_Suc_upt upt_conv_Cons del: upt_Suc)
  then show ?case by (simp add: Cons add.assoc [symmetric] comp_def del: upt_Suc)
qed simp

lemma unat_next: "unat u + i < 2 ^ 32 \<Longrightarrow> unat (u + of_nat i :: u32) = unat u + i"
  by (simp add: unat_word_ariths unat_of_nat mod_add_right_eq)

lemma renumbered:
  assumes "unat u + length ms < 2 ^ 32"
  shows "distinct (map ml_uid (renumber u ms))"
    and "m \<in> set (renumber u ms) \<Longrightarrow> u \<le> ml_uid m \<and> ml_uid m < u + of_nat (length ms)"
proof -
  have at: "unat (u + of_nat i :: u32) = unat u + i" if "i \<le> length ms" for i
    using that assms by (intro unat_next) simp
  show "distinct (map ml_uid (renumber u ms))"
    unfolding renumber_uids distinct_map
  proof (intro conjI distinct_upt inj_onI)
    fix i j assume "i \<in> set [0..<length ms]" "j \<in> set [0..<length ms]" "u + of_nat i = (u + of_nat j :: u32)"
    then have "unat u + i = unat u + j" using at [of i] at [of j] by (metis atLeast_upt less_or_eq_imp_le lessThan_iff)
    then show "i = j" by simp
  qed
  assume "m \<in> set (renumber u ms)"
  then have "ml_uid m \<in> set (map ml_uid (renumber u ms))" by simp
  then obtain i where i: "i < length ms" "ml_uid m = u + of_nat i" unfolding renumber_uids by auto
  then show "u \<le> ml_uid m \<and> ml_uid m < u + of_nat (length ms)"
    unfolding word_le_nat_alt word_less_nat_alt i(2) at [OF order.strict_implies_order [OF i(1)]] at [OF order.refl] by (simp add: i(1))
qed

lemma items_take_out: "box_items S (take_out f q bs) = (\<Union>(g, ms) \<in> set bs. mail_item S g ` {m \<in> set ms. \<not> (g = f \<and> q m)})"
  by (force simp: box_items_def take_out_def split: if_splits)

lemma items_add: "box_items S (add_mail g new bs) = box_items S bs \<union> (if g \<in> fst ` set bs then mail_item S g ` set new else {})"
  by (induction bs) (auto simp: box_items_def add_mail_def split: if_splits)

lemma items_renumber: "mail_item S g ` set (renumber u ms) = mail_item S g ` set ms"
  by (induction ms arbitrary: u) (auto simp: mail_item_def mail_id_def)

lemma moved_items:
  assumes ok: "boxes_ok S n" and g: "g \<in> fst ` set (nt_boxes n)"
  shows "box_items S (nt_boxes (move_boxes (UIDSetNum us) g f n)) = edit_uids f (set us) (move_to g) (box_mails S n)" (is "?A = ?B")
proof -
  let ?q = "\<lambda>m. ml_uid m \<in> set us" and ?bs = "nt_boxes n"
  have names: "fst ` set (take_out f ?q ?bs) = fst ` set ?bs"
    using take_out_names [of f ?q ?bs] by (metis list.set_map)
  have "?A = box_items S (take_out f ?q ?bs) \<union> mail_item S g ` {m \<in> set (in_box f ?bs). ?q m}"
    using g by (simp add: move_boxes_def Let_def items_add items_renumber names)
  also have "mail_item S g ` {m \<in> set (in_box f ?bs). ?q m} = (\<Union>(h, ms) \<in> set ?bs. mail_item S g ` {m \<in> set ms. h = f \<and> ?q m})"
    using boxD [OF ok] by (auto dest!: in_boxD)
  finally have "?A = (\<Union>(h, ms) \<in> set ?bs. mail_item S h ` {m \<in> set ms. \<not> (h = f \<and> ?q m)} \<union> mail_item S g ` {m \<in> set ms. h = f \<and> ?q m})"
    unfolding items_take_out by auto
  also have "\<dots> = ?B"
    unfolding mails_edited by (rule SUP_cong [OF refl]) (auto simp: mail_item_def image_iff split: if_splits)
  finally show ?thesis .
qed

lemma moved_ok:
  assumes ok: "boxes_ok S n" and room: "unat (nt_uidnext n) + length (filter (\<lambda>m. in_set us (ml_uid m)) (in_box f (nt_boxes n))) \<le> si_room S"
  shows "boxes_ok S (move_boxes us g f n)"
proof -
  let ?going = "filter (\<lambda>m. in_set us (ml_uid m)) (in_box f (nt_boxes n))" and ?u = "nt_uidnext n"
  let ?next = "?u + of_nat (length ?going)"
  have few: "unat ?u + length ?going < 2 ^ 32" using room ok by (simp add: boxes_ok_def)
  note new = renumbered [OF few]
  have later: "?u \<le> ?next" using unat_next [OF few] by (simp add: word_le_nat_alt)
  have box: "distinct (map ml_uid ms') \<and> (\<forall>m \<in> set ms'. ml_uid m < ?next)"
    if in_new: "(h, ms') \<in> set (nt_boxes (move_boxes us g f n))" for h ms'
  proof -
    obtain ms where ms: "(h, ms) \<in> set (nt_boxes n)"
      and ms': "ms' = (if h = f then filter (\<lambda>m. \<not> in_set us (ml_uid m)) ms else ms) @ (if h = g then renumber ?u ?going else [])"
      using in_new by (auto simp: move_boxes_def Let_def add_mail_def take_out_def split: if_splits)
    have old: "distinct (map ml_uid ms)" "\<And>m. m \<in> set ms \<Longrightarrow> ml_uid m < ?u" using ok ms by (auto simp: boxes_ok_def)
    let ?left = "if h = f then filter (\<lambda>m. \<not> in_set us (ml_uid m)) ms else ms"
    have left: "distinct (map ml_uid ?left)" "set ?left \<subseteq> set ms" using old(1) by (auto simp: distinct_map_filter)
    have "ml_uid m < ?next" if "m \<in> set ms'" for m
      using that left(2) old(2) new(2) later unfolding ms' by (auto split: if_splits dest: order.strict_trans2)
    moreover have "distinct (map ml_uid ms')"
    proof (cases "h = g")
      case True
      have "ml_uid ` set ?left \<inter> ml_uid ` set (renumber ?u ?going) = {}"
        using left(2) old(2) new(2) by (fastforce simp: image_iff dest: leD)
      then have "distinct (map ml_uid (?left @ renumber ?u ?going))"
        using left(1) new(1) by (simp only: map_append distinct_append set_map)
      then show ?thesis unfolding ms' if_P [OF True] .
    qed (use left(1) in \<open>simp add: ms'\<close>)
    ultimately show ?thesis by blast
  qed
  have "map fst (nt_boxes (move_boxes us g f n)) = map fst (nt_boxes n)" by (simp add: move_boxes_def Let_def)
  moreover have "nt_uidnext (move_boxes us g f n) = ?next" by (simp add: move_boxes_def Let_def)
  ultimately show ?thesis using ok box unfolding boxes_ok_def by auto
qed

lemma do_move_done:
  assumes "do_move S us g n = (Inr (), n')" and "lo_selected (nt_dst n) = Some f"
  shows "g \<in> fst ` set (nt_boxes n)" and "n' = move_boxes us g f n"
    and "unat (nt_uidnext n) + length (filter (\<lambda>m. in_set us (ml_uid m)) (in_box f (nt_boxes n))) \<le> si_room S"
proof -
  note simps = do_move_def Let_def move_boxes_def take_out_def assms(2) selected_dest [OF assms(2), of S]
  show "g \<in> fst ` set (nt_boxes n)" using assms(1) by (simp add: simps split: if_splits)
  show "n' = move_boxes us g f n" using assms(1) by (simp add: simps split: if_splits)
  show "unat (nt_uidnext n) + length (filter (\<lambda>m. in_set us (ml_uid m)) (in_box f (nt_boxes n))) \<le> si_room S"
    using assms(1) by (simp add: simps split: if_splits)
qed

text \<open>Storing flags.\<close>

definition flag_boxes :: "UIDSet \<Rightarrow> StoreFlagsOp \<Rightarrow> flag list \<Rightarrow> string \<Rightarrow> net \<Rightarrow> net" where
  "flag_boxes us op fl f n = n\<lparr> nt_boxes := map (\<lambda>(g, ms). (g, if g = f
     then map (\<lambda>m. if in_set us (ml_uid m) then m\<lparr> ml_flags := change_flags op fl (ml_flags m) \<rparr> else m) ms else ms)) (nt_boxes n) \<rparr>"

lemma flagged_items:
  assumes "add = (op = StoreFlagsAdd)"
  shows "box_items S (nt_boxes (flag_boxes (UIDSetNum us) op [kw] f n)) = edit_uids f (set us) (tag_with add kw) (box_mails S n)"
proof -
  have "mail_item S g ` set (if g = f then map (\<lambda>m. if ml_uid m \<in> set us then m\<lparr> ml_flags := change_flags op [kw] (ml_flags m) \<rparr> else m) ms else ms) =
    (\<lambda>m. if g = f \<and> ml_uid m \<in> set us then tag_with add kw (mail_item S g m) else mail_item S g m) ` set ms" for g ms
  proof -
    have "set (change_flags op [kw] fl) = retag add kw (set fl)" for fl
      using assms by (cases op) (auto simp: change_flags_def retag_def)
    then have item: "mail_item S g (m\<lparr> ml_flags := change_flags op [kw] (ml_flags m) \<rparr>) = tag_with add kw (mail_item S g m)" for m
      by (simp add: mail_item_def mail_id_def)
    have "set (if g = f then map (\<lambda>m. if ml_uid m \<in> set us then m\<lparr> ml_flags := change_flags op [kw] (ml_flags m) \<rparr> else m) ms else ms) =
      (\<lambda>m. if g = f \<and> ml_uid m \<in> set us then m\<lparr> ml_flags := change_flags op [kw] (ml_flags m) \<rparr> else m) ` set ms"
      by (cases "g = f") (simp_all only: set_map simp_thms if_True if_False image_ident)
    then show ?thesis by (simp only: image_image) (rule image_cong [OF refl], simp only: if_distrib [of "mail_item S g"] item)
  qed
  note flagged = this
  have "box_items S (nt_boxes (flag_boxes (UIDSetNum us) op [kw] f n)) = (\<Union>(g, ms) \<in> set (nt_boxes n). mail_item S g `
      set (if g = f then map (\<lambda>m. if ml_uid m \<in> set us then m\<lparr> ml_flags := change_flags op [kw] (ml_flags m) \<rparr> else m) ms else ms))"
    unfolding flag_boxes_def in_set.simps by (simp add: box_items_def split_beta)
  also have "\<dots> = edit_uids f (set us) (tag_with add kw) (box_mails S n)"
    unfolding mails_edited by (rule SUP_cong [OF refl]) (simp only: split_beta flagged)
  finally show ?thesis .
qed

lemma flagged_ok:
  assumes "boxes_ok S n"
  shows "boxes_ok S (flag_boxes us op fl f n)"
proof -
  have names: "map fst (nt_boxes (flag_boxes us op fl f n)) = map fst (nt_boxes n)" by (simp add: flag_boxes_def split_beta)
  have box: "distinct (map ml_uid ms') \<and> (\<forall>m \<in> set ms'. ml_uid m < nt_uidnext n)"
    if in_new: "(h, ms') \<in> set (nt_boxes (flag_boxes us op fl f n))" for h ms'
  proof -
    obtain ms where ms: "(h, ms) \<in> set (nt_boxes n)"
      and ms': "ms' = (if h = f then map (\<lambda>m. if in_set us (ml_uid m) then m\<lparr> ml_flags := change_flags op fl (ml_flags m) \<rparr> else m) ms else ms)"
      using in_new by (auto simp: flag_boxes_def)
    have same: "map ml_uid ms' = map ml_uid ms" unfolding ms' by simp
    have old: "distinct (map ml_uid ms)" "\<And>u. u \<in> set (map ml_uid ms) \<Longrightarrow> u < nt_uidnext n"
      using assms ms by (auto simp: boxes_ok_def)
    have "ml_uid m < nt_uidnext n" if "m \<in> set ms'" for m
    proof (rule old(2))
      have "ml_uid m \<in> set (map ml_uid ms')" using that by simp
      then show "ml_uid m \<in> set (map ml_uid ms)" unfolding same .
    qed
    moreover have "distinct (map ml_uid ms')" unfolding same by (rule old(1))
    ultimately show ?thesis by blast
  qed
  have "nt_uidnext (flag_boxes us op fl f n) = nt_uidnext n" by (simp add: flag_boxes_def)
  then show ?thesis unfolding boxes_ok_def names using assms box by (fastforce simp: boxes_ok_def)
qed

interpretation dst_edits: editing_library "dst_library S" "boxes_ok S" "box_opened dst_party" "box_mails S" contains for S
proof
  have line: "pt_line dst_party = nt_dst" by (simp add: dst_party_def)
  show "j' = j" if "boxes_ok S w" "(f, u, j, t) \<in> box_mails S w" "(f, u, j', t') \<in> box_mails S w" for w f u j t j' t'
    using that uid_box [OF that(1)] by (auto simp: box_mails_iff)
  show "boxes_ok S w' \<and> box_opened dst_party w' = Some f \<and> box_mails S w' = box_mails S w"
    if ok: "boxes_ok S w" and run: "ic_Select (dst_library S) f w = Some (Inr d, w')" for w f d w'
  proof -
    have "do_select S dst_party f (observe S w) = (Inr d, w')" using run serve_Inr(1) unfolding dst_library_def library_fields by fast
    then have "nt_boxes w' = nt_boxes w \<and> nt_uidnext w' = nt_uidnext w \<and> lo_selected (nt_dst w') = Some f"
      by (auto simp: do_select_def dst_party_def observe_boxes split: option.splits if_splits)
    then show ?thesis using ok by (simp add: boxes_ok_def box_mails_def box_opened_def dst_party_def)
  qed
  show "boxes_ok S w' \<and> box_opened dst_party w' = Some f \<and> box_mails S w' = box_mails S w \<and>
      set us = {u. \<exists>j t. (f, u, j, t) \<in> box_mails S w \<and> contains k j}"
    if ok: "boxes_ok S w" and sel: "box_opened dst_party w = Some f"
      and run: "ic_UIDSearch (dst_library S) (messageIDCriteria k) w = Some (Inr us, w')" for w f k us w'
  proof -
    have sel': "lo_selected (nt_dst (observe S w)) = Some f" using sel by (simp add: box_opened_def dst_party_def observe_opened)
    have "do_search S dst_party (messageIDCriteria k) (observe S w) = (Inr us, w')"
      using run serve_Inr(1) unfolding dst_library_def library_fields by fast
    then have w': "w' = observe S w"
      and us: "us = map ml_uid (filter (\<lambda>m. sat (buffer_has S (mail_buffer S metaOptions m)) (messageIDCriteria k)) (in_box f (nt_boxes w)))"
      using sel' selected_dest [OF sel', of S] by (simp_all add: do_search_def line observe_boxes)
    have "sat (buffer_has S (mail_buffer S metaOptions m)) (messageIDCriteria k) \<longleftrightarrow> contains k (mail_id S m)" for m
      by (simp add: messageIDCriteria_def buffer_has_def mail_id_def mail_buffer_def metaOptions_def)
    then have "set us = {u. \<exists>j t. (f, u, j, t) \<in> box_mails S w \<and> contains k j}"
      unfolding us box_mails_iff [OF ok] by auto
    then show ?thesis using ok sel' by (simp add: w' box_opened_def dst_party_def)
  qed
  show "boxes_ok S w' \<and> box_opened dst_party w' = Some f \<and> unnumbered ` box_mails S w' = edit_uids f (set us) (move_to g) (box_mails S w)"
    if ok: "boxes_ok S w" and sel: "box_opened dst_party w = Some f" and run: "ic_Move (dst_library S) (UIDSetNum us) g w = Some (Inr (), w')"
    for w f us g w'
  proof -
    let ?n = "observe S w"
    have ok': "boxes_ok S ?n" using ok by simp
    have sel': "lo_selected (nt_dst ?n) = Some f" using sel by (simp add: box_opened_def dst_party_def observe_opened)
    have "do_move S (UIDSetNum us) g ?n = (Inr (), w')" using run serve_Inr(1) unfolding dst_library_def library_fields by fast
    note moved = do_move_done [OF this sel']
    show ?thesis
      using moved_items [OF ok' moved(1)] moved_ok [OF ok' moved(3)] sel' unfolding moved(2) items_of_mails
      by simp (simp add: move_boxes_def Let_def box_opened_def dst_party_def)
  qed
  show "boxes_ok S w' \<and> box_opened dst_party w' = Some f \<and> unnumbered ` box_mails S w' = edit_uids f (set us) (tag_with add kw) (box_mails S w)"
    if ok: "boxes_ok S w" and sel: "box_opened dst_party w = Some f"
      and run: "ic_Store (dst_library S) (UIDSetNum us) (if add then StoreFlagsAdd else StoreFlagsDel) [kw] w = Some (Inr (), w')"
    for w f us add kw w'
  proof -
    let ?n = "observe S w" and ?op = "if add then StoreFlagsAdd else StoreFlagsDel"
    have ok': "boxes_ok S ?n" using ok by simp
    have sel': "lo_selected (nt_dst ?n) = Some f" using sel by (simp add: box_opened_def dst_party_def observe_opened)
    have "do_store (UIDSetNum us) ?op [kw] ?n = (Inr (), w')" using run serve_Inr(1) unfolding dst_library_def library_fields by fast
    then have w': "w' = flag_boxes (UIDSetNum us) ?op [kw] f ?n" using sel' by (simp add: do_store_def flag_boxes_def)
    have "add = (?op = StoreFlagsAdd)" by simp
    from flagged_items [OF this] show ?thesis
      using flagged_ok [OF ok'] sel' unfolding w' items_of_mails
      by (simp add: flag_boxes_def box_opened_def dst_party_def)
  qed
qed

end
