(* ===== verification/StoreSpec.thy ===== *)
theory StoreSpec
  imports StoreFacts
begin

text \<open>
  The state store as an abstract state, on which each method of \<open>internal/state/store.go\<close> is shown to implement
  an operation: \<open>store\<close>, with the UIDs of the members and the ids of the queue, and \<open>books\<close>, what the
  reconciler sees of it, a set of keys, a membership relation, a queue of contents, and two maps.
\<close>

section \<open>What the reconciler sees\<close>

record books =
  bk_keys :: "string set"
  bk_members :: "(string \<times> string) set"
  bk_queue :: "(string \<times> string \<times> string \<times> string) list"
  bk_meta :: "string \<Rightarrow> string option"
  bk_folders :: "string \<Rightarrow> (u32 \<times> u32) option"

definition op_content :: "PendingOp \<Rightarrow> string \<times> string \<times> string \<times> string" where
  "op_content op = (po_Kind op, po_MessageID op, po_Folder op, po_Op op)"

definition books_of :: "db \<Rightarrow> books" where
  "books_of d = \<lparr> bk_keys = kr_Key ` set (db_copied d),
     bk_members = {(mr_folder q, mr_message_id q) | q. q \<in> set (db_members d)},
     bk_queue = map op_content (db_pending d), bk_meta = map_of (db_meta d), bk_folders = map_of (db_folders d) \<rparr>"

lemma books_has_key: "has_key d k \<longleftrightarrow> k \<in> bk_keys (books_of d)"
  by (auto simp: has_key_def books_of_def)

lemma books_is_member: "is_member d f k \<longleftrightarrow> (f, k) \<in> bk_members (books_of d)"
  by (auto simp: is_member_def books_of_def)

section \<open>Operations\<close>

definition add_keys :: "string set \<Rightarrow> books \<Rightarrow> books" where
  "add_keys ks b = b\<lparr> bk_keys := bk_keys b \<union> ks \<rparr>"

definition change_member :: "string \<Rightarrow> MemberChangeItem \<Rightarrow> books \<Rightarrow> books" where
  "change_member folder it b =
     b\<lparr> bk_members := (if mi_Add it then insert (folder, mi_Key it) (bk_members b) else bk_members b - {(folder, mi_Key it)}),
        bk_queue := bk_queue b @ (if mi_PendingKind it = [] then []
                      else [(mi_PendingKind it, mi_Key it, folder, op_name (mi_Add it))]) \<rparr>"

lemma books_insertCopied: "books_of (sql_insertCopied r d) = add_keys {kr_Key r} (books_of d)"
  by (auto simp: sql_insertCopied_def books_of_def add_keys_def, metis imageI)

lemma books_insertCopied_fold: "books_of (fold (\<lambda>x. sql_insertCopied (f x)) xs d) = add_keys ((\<lambda>x. kr_Key (f x)) ` set xs) (books_of d)"
  by (induction xs arbitrary: d) (auto simp: books_insertCopied add_keys_def)

lemma books_members:
  "bk_members (books_of (sql_upsertMember f k u d)) = insert (f, k) (bk_members (books_of d))"
  "bk_members (books_of (sql_deleteMember f k d)) = bk_members (books_of d) - {(f, k)}"
  by (auto simp: books_is_member [symmetric] members.isin_ins members.isin_del)

lemma books_member_frame:
  "books_of (sql_upsertMember f k u d) = (books_of d)\<lparr> bk_members := insert (f, k) (bk_members (books_of d)) \<rparr>"
  "books_of (sql_deleteMember f k d) = (books_of d)\<lparr> bk_members := bk_members (books_of d) - {(f, k)} \<rparr>"
  using books_members(1) [of f k u d] books_members(2) [of f k d]
  by (simp_all add: books_of_def sql_upsertMember_def sql_deleteMember_def)

lemma books_insertPending:
  "books_of (sql_insertPending a b c e d) = (books_of d)\<lparr> bk_queue := bk_queue (books_of d) @ [(a, b, c, e)] \<rparr>"
  by (simp add: books_of_def sql_insertPending_def op_content_def)

lemma books_apply_change: "books_of (apply_change folder it d) = change_member folder it (books_of d)"
  by (simp add: apply_change_def Let_def change_member_def books_insertPending books_member_frame)

lemma books_apply_changes:
  "books_of (fold (apply_change folder) items d) = fold (change_member folder) items (books_of d)"
  by (induction items arbitrary: d) (simp_all add: books_apply_change)

section \<open>The queue is first in, first out\<close>

lemma deletePending_ids:
  "db_pending (fold sql_deletePending ids d) = filter (\<lambda>q. po_ID q \<notin> set ids) (db_pending d)"
  by (induction ids arbitrary: d) (auto simp: sql_deletePending_def conj_commute intro!: filter_cong)

lemma filter_rest: "f ` set xs \<inter> f ` set ys = {} \<Longrightarrow> filter (\<lambda>q. f q \<notin> f ` set xs) (xs @ ys) = ys"
  by (auto simp: filter_empty_conv filter_id_conv)

lemma page_of_queue:
  assumes "db_ok d"
  shows "pending_page d n = take n (db_pending d)"
    and "filter (\<lambda>q. po_ID q \<notin> set (map po_ID (pending_page d n))) (db_pending d) = drop n (db_pending d)"
proof -
  let ?q = "db_pending d"
  have ids: "sorted_wrt (<) (map po_ID ?q)" using assms by (simp add: db_ok_def)
  then have "sorted (map po_ID ?q)" by (rule strict_sorted_imp_sorted)
  then show p: "pending_page d n = take n ?q" by (simp add: pending_page_def sort_key_id_if_sorted)
  have "distinct (map po_ID (take n ?q @ drop n ?q))" using ids by (simp add: strict_sorted_iff)
  then have "po_ID ` set (take n ?q) \<inter> po_ID ` set (drop n ?q) = {}" by (simp only: map_append distinct_append set_map)
  from filter_rest [OF this] have "filter (\<lambda>q. po_ID q \<notin> po_ID ` set (take n ?q)) ?q = drop n ?q" by simp
  then show "filter (\<lambda>q. po_ID q \<notin> set (map po_ID (pending_page d n))) ?q = drop n ?q"
    by (simp add: p)
qed

section \<open>The whole state\<close>

text \<open>
  The abstract state in full, to which the methods are compared: the copied keys with the UID and the time
  of the copy, the members of the folders with their UIDs, the queue with its ids and the next id, and the
  two maps.
\<close>

record store =
  so_keys :: "string \<Rightarrow> (u32 \<times> int) option"
  so_members :: "string \<times> string \<Rightarrow> u32 option"
  so_queue :: "PendingOp list"
  so_next :: int
  so_meta :: "string \<Rightarrow> string option"
  so_folders :: "string \<Rightarrow> (u32 \<times> u32) option"

definition store_of :: "db \<Rightarrow> store" where
  "store_of d = \<lparr> so_keys = map_of (map (\<lambda>r. (kr_Key r, (kr_UID r, kr_CopiedAtUnix r))) (db_copied d)),
     so_members = map_of (map (\<lambda>q. ((mr_folder q, mr_message_id q), mr_uid q)) (db_members d)),
     so_queue = db_pending d, so_next = db_seq d + 1, so_meta = map_of (db_meta d), so_folders = map_of (db_folders d) \<rparr>"

text \<open>The operations: a known key keeps its record, a member that is added again gets the new UID.\<close>

definition record_key :: "KeyRecord \<Rightarrow> store \<Rightarrow> store" where
  "record_key r t = (if so_keys t (kr_Key r) = None then t\<lparr> so_keys := (so_keys t)(kr_Key r \<mapsto> (kr_UID r, kr_CopiedAtUnix r)) \<rparr> else t)"

definition enqueue :: "string \<Rightarrow> string \<Rightarrow> string \<Rightarrow> string \<Rightarrow> store \<Rightarrow> store" where
  "enqueue kind key folder op t = t\<lparr> so_queue := so_queue t @
       [\<lparr> po_ID = so_next t, po_Kind = kind, po_MessageID = key, po_Folder = folder, po_Op = op \<rparr>], so_next := so_next t + 1 \<rparr>"

definition alter_member :: "string \<Rightarrow> MemberChangeItem \<Rightarrow> store \<Rightarrow> store" where
  "alter_member folder it t =
     (let t' = t\<lparr> so_members := (so_members t)((folder, mi_Key it) := (if mi_Add it then Some (mi_UID it) else None)) \<rparr>
      in if mi_PendingKind it = [] then t' else enqueue (mi_PendingKind it) (mi_Key it) folder (op_name (mi_Add it)) t')"

definition dequeue :: "int set \<Rightarrow> store \<Rightarrow> store" where
  "dequeue ids t = t\<lparr> so_queue := filter (\<lambda>q. po_ID q \<notin> ids) (so_queue t) \<rparr>"

definition put_meta :: "string \<Rightarrow> string \<Rightarrow> store \<Rightarrow> store" where
  "put_meta name val t = t\<lparr> so_meta := (so_meta t)(name \<mapsto> val) \<rparr>"

definition put_folder :: "string \<Rightarrow> u32 \<times> u32 \<Rightarrow> store \<Rightarrow> store" where
  "put_folder folder p t = t\<lparr> so_folders := (so_folders t)(folder \<mapsto> p) \<rparr>"

lemma store_insertCopied: "store_of (sql_insertCopied r d) = record_key r (store_of d)"
proof (cases "\<exists>q \<in> set (db_copied d). kr_Key q = kr_Key r")
  case True
  then obtain q where "q \<in> set (db_copied d)" "kr_Key r = kr_Key q" by auto
  then have "kr_Key r \<in> kr_Key ` set (db_copied d)" by (rule image_eqI [rotated])
  then have "map_of (map (\<lambda>r. (kr_Key r, (kr_UID r, kr_CopiedAtUnix r))) (db_copied d)) (kr_Key r) \<noteq> None"
    by (simp add: map_of_eq_None_iff image_image)
  with True show ?thesis by (auto simp: sql_insertCopied_def record_key_def store_of_def)
next
  case False
  then have "map_of (map (\<lambda>r. (kr_Key r, (kr_UID r, kr_CopiedAtUnix r))) (db_copied d)) (kr_Key r) = None"
    by (auto simp: map_of_eq_None_iff)
  with False show ?thesis
    by (auto simp: sql_insertCopied_def record_key_def store_of_def map_add_def fun_eq_iff split: option.split)
qed

lemma map_of_overwrite:
  assumes "\<And>x. k x = a \<Longrightarrow> k (g x) = a" and "\<And>x. v (g x) = u"
  shows "map_of (map (\<lambda>x. (k x, v x)) (map (\<lambda>x. if k x = a then g x else x) xs)) b =
    (if b = a \<and> a \<in> k ` set xs then Some u else map_of (map (\<lambda>x. (k x, v x)) xs) b)"
  using assms by (induction xs) auto

lemma store_members_upsert:
  "so_members (store_of (sql_upsertMember f k u d)) = (so_members (store_of d))((f, k) \<mapsto> u)"
proof (cases "\<exists>q \<in> set (db_members d). mr_folder q = f \<and> mr_message_id q = k")
  case True
  then have "(f, k) \<in> (\<lambda>q. (mr_folder q, mr_message_id q)) ` set (db_members d)" by force
  then show ?thesis
    using True map_of_overwrite [of "\<lambda>q. (mr_folder q, mr_message_id q)" "(f, k)" "\<lambda>q. q\<lparr> mr_uid := u \<rparr>" mr_uid u "db_members d"]
    by (simp add: sql_upsertMember_def store_of_def fun_eq_iff)
next
  case False
  then have "map_of (map (\<lambda>q. ((mr_folder q, mr_message_id q), mr_uid q)) (db_members d)) (f, k) = None"
    by (auto simp: map_of_eq_None_iff)
  with False show ?thesis
    by (auto simp: sql_upsertMember_def store_of_def map_add_def fun_eq_iff split: option.split)
qed

lemma store_members_delete:
  "so_members (store_of (sql_deleteMember f k d)) = (so_members (store_of d))((f, k) := None)"
proof -
  have "map_of (map (\<lambda>q. ((mr_folder q, mr_message_id q), mr_uid q)) (filter (\<lambda>q. \<not> (mr_folder q = f \<and> mr_message_id q = k)) qs)) =
    (map_of (map (\<lambda>q. ((mr_folder q, mr_message_id q), mr_uid q)) qs))((f, k) := None)" for qs
    by (induction qs) (auto simp: fun_eq_iff)
  then show ?thesis by (simp add: sql_deleteMember_def store_of_def)
qed

lemma store_upsertMember: "store_of (sql_upsertMember f k u d) = (store_of d)\<lparr> so_members := (so_members (store_of d))((f, k) \<mapsto> u) \<rparr>"
  using store_members_upsert [of f k u d] by (simp add: store_of_def sql_upsertMember_def)

lemma store_deleteMember: "store_of (sql_deleteMember f k d) = (store_of d)\<lparr> so_members := (so_members (store_of d))((f, k) := None) \<rparr>"
  using store_members_delete [of f k d] by (simp add: store_of_def sql_deleteMember_def)

lemma store_insertPending: "store_of (sql_insertPending a b c e d) = enqueue a b c e (store_of d)"
  by (simp add: store_of_def sql_insertPending_def enqueue_def)

lemma store_apply_change: "store_of (apply_change folder it d) = alter_member folder it (store_of d)"
  by (simp add: apply_change_def Let_def alter_member_def store_insertPending store_upsertMember store_deleteMember)

lemma store_fold: "(\<And>x d. store_of (f x d) = g x (store_of d)) \<Longrightarrow> store_of (fold f xs d) = fold g xs (store_of d)"
  by (induction xs arbitrary: d) simp_all

lemma store_deletePending: "store_of (sql_deletePending i d) = dequeue {i} (store_of d)"
  by (simp add: store_of_def sql_deletePending_def dequeue_def)

lemma dequeue_dequeue: "dequeue A (dequeue B t) = dequeue (B \<union> A) t"
  by (simp add: dequeue_def)

lemma store_deletePending_ids: "store_of (fold sql_deletePending ids d) = dequeue (set ids) (store_of d)"
proof (induction ids arbitrary: d)
  case Nil
  show ?case by (simp add: dequeue_def)
next
  case (Cons i ids)
  have "store_of (fold sql_deletePending (i # ids) d) = dequeue ({i} \<union> set ids) (store_of d)"
    by (simp only: fold_simps Cons store_deletePending dequeue_dequeue)
  then show ?case by simp
qed

section \<open>Errors\<close>

text \<open>A method of the store fails only with an error of the database driver.\<close>

definition driver_errors :: "'w runtime \<Rightarrow> gerr set" where
  "driver_errors rt = {e. \<exists>w. fst (rt_sql rt w) = Some e}"

abbreviation driver_fails :: "'w runtime \<Rightarrow> ('w st, 'a) prog \<Rightarrow> bool" where
  "driver_fails rt m \<equiv> hoare (\<lambda>_. True) m (\<lambda>_ _. True) (\<lambda>e _. e \<in> driver_errors rt)"

lemma fails_call: "driver_fails rt (sql_call rt)"
proof (rule hoareI)
  fix s e s'
  assume "sql_call rt s = Some (Inl e, s')"
  then have "fst (rt_sql rt (st_world s)) = Some e" by (auto simp: sql_call_def split: prod.splits option.splits)
  then show "e \<in> driver_errors rt" by (auto simp: driver_errors_def)
qed simp

lemma fails_bindM: "driver_fails rt m \<Longrightarrow> (\<And>a. driver_fails rt (f a)) \<Longrightarrow> driver_fails rt (bindM m f)"
  by (rule hoare_bindM)

lemma fails_never: "driver_fails rt (returnM a)" "driver_fails rt (modifyM g)" "driver_fails rt (getM h)" "driver_fails rt (go_order rt xs)"
  by (auto simp: hoare_def prog_defs go_order_def split: prod.splits)

lemma fails_exec: "driver_fails rt (sql_exec rt f)"
  unfolding sql_exec_def by (intro fails_bindM fails_call fails_never)

lemma fails_query: "driver_fails rt (sql_query rt f)"
  unfolding sql_query_def by (intro fails_bindM fails_call fails_never)

lemma fails_forM: "(\<And>x. driver_fails rt (f x)) \<Longrightarrow> driver_fails rt (forM xs f)"
  by (rule hoare_forM)

lemma fails_inTx:
  assumes "driver_fails rt m"
  shows "driver_fails rt (inTx rt m)"
proof (rule hoareI)
  fix s e s'
  assume "inTx rt m s = Some (Inl e, s')"
  then obtain t where "bindM (sql_call rt) (\<lambda>_. bindM m (\<lambda>_. sql_call rt)) s = Some (Inl e, t)"
    by (auto simp: inTx_def rollback_to_def split: option.splits sum.splits)
  moreover have "driver_fails rt (bindM (sql_call rt) (\<lambda>_. bindM m (\<lambda>_. sql_call rt)))"
    by (intro fails_bindM fails_call assms)
  ultimately show "e \<in> driver_errors rt" by (rule hoare_InlD [rotated 2]) simp
qed simp

lemma fails_execBatch: "driver_fails rt (execBatch rt stmts)"
  unfolding execBatch_def by (intro hoare_if fails_never fails_inTx fails_bindM fails_call fails_forM fails_exec)

lemma fails_MemberChangeBatch: "driver_fails rt (MemberChangeBatch rt folder items)"
  unfolding MemberChangeBatch_def memberChangeItem_def
  by (intro hoare_if fails_never fails_inTx fails_bindM fails_call fails_forM fails_exec)

lemmas store_fails = fails_exec fails_query fails_execBatch fails_MemberChangeBatch

section \<open>Writing\<close>

text \<open>
  \<open>implements rt m g\<close>: the method returns; with an error, which is one of the driver, nothing has changed,
  without one \<open>g\<close> has happened.
\<close>

definition implements :: "'w runtime \<Rightarrow> ('w st, unit) prog \<Rightarrow> (store \<Rightarrow> store) \<Rightarrow> bool" where
  "implements rt m g \<longleftrightarrow> (\<forall>s. \<exists>r s'. m s = Some (r, s') \<and> st_sum s' = st_sum s \<and>
     (case r of Inl e \<Rightarrow> e \<in> driver_errors rt \<and> st_db s' = st_db s | Inr _ \<Rightarrow> store_of (st_db s') = g (store_of (st_db s))))"

lemma implementsI:
  assumes "writes m f" and "driver_fails rt m" and "\<And>d. store_of (f d) = g (store_of d)"
  shows "implements rt m g"
  unfolding implements_def
proof
  fix s
  obtain r w where m: "m s = Some (r, s\<lparr> st_world := w, st_db := (case r of Inl e \<Rightarrow> st_db s | Inr _ \<Rightarrow> f (st_db s)) \<rparr>)"
    using assms(1) unfolding writes_def by blast
  have "e \<in> driver_errors rt" if "r = Inl e" for e
    using hoare_InlD [OF assms(2) _ m [unfolded that]] by simp
  then show "\<exists>r s'. m s = Some (r, s') \<and> st_sum s' = st_sum s \<and>
     (case r of Inl e \<Rightarrow> e \<in> driver_errors rt \<and> st_db s' = st_db s | Inr _ \<Rightarrow> store_of (st_db s') = g (store_of (st_db s)))"
    using m assms(3) by (cases r) auto
qed

text \<open>
  C13. Every write method of the store returns, and implements its operation on the whole abstract state:
  recording and seeding add keys and keep the records of those that are there, a membership batch sets or
  removes members with their UIDs and gives each queued operation the next id, a deletion takes exactly the
  given ids out of the queue, and the two maps are updated at one key.  It fails only with an error of the
  driver, and then nothing has changed.
\<close>

theorem store_writes_refine:
  "implements rt (RecordKey rt key uid at_time) (record_key \<lparr> kr_Key = key, kr_UID = uid, kr_CopiedAtUnix = at_time \<rparr>) \<and>
   implements rt (RecordKeys rt records) (fold record_key records) \<and>
   implements rt (SeedBatch rt ks) (fold (\<lambda>k. record_key \<lparr> kr_Key = k, kr_UID = 0, kr_CopiedAtUnix = 0 \<rparr>) ks) \<and>
   implements rt (MemberChange rt folder k u adding kind) (alter_member folder \<lparr> mi_Key = k, mi_UID = u, mi_Add = adding, mi_PendingKind = kind \<rparr>) \<and>
   implements rt (MemberChangeBatch rt folder items) (fold (alter_member folder) items) \<and>
   implements rt (DeletePending rt i) (dequeue {i}) \<and>
   implements rt (DeletePendingBatch rt ids) (dequeue (set ids)) \<and>
   implements rt (MetaSet rt name val) (put_meta name val) \<and>
   implements rt (SetUIDValidity rt v) (put_meta ''uidvalidity'' (FormatUint (unat v))) \<and>
   implements rt (SetLastUID rt v) (put_meta ''last_uid'' (FormatUint (unat v))) \<and>
   implements rt (SetFolderState rt folder v lu) (put_folder folder (v, lu))"
proof (intro conjI)
  show "implements rt (RecordKey rt key uid at_time) (record_key \<lparr> kr_Key = key, kr_UID = uid, kr_CopiedAtUnix = at_time \<rparr>)"
    unfolding RecordKey_def by (rule implementsI [OF writes_sql_exec fails_exec]) (rule store_insertCopied)
  show "implements rt (RecordKeys rt records) (fold record_key records)"
    by (rule implementsI [OF writes_RecordKeys _ store_fold]) (simp_all add: RecordKeys_def store_fails store_insertCopied)
  show "implements rt (SeedBatch rt ks) (fold (\<lambda>k. record_key \<lparr> kr_Key = k, kr_UID = 0, kr_CopiedAtUnix = 0 \<rparr>) ks)"
    by (rule implementsI [OF writes_SeedBatch _ store_fold]) (simp_all add: SeedBatch_def store_fails store_insertCopied seed_record_def)
  show changes: "implements rt (MemberChangeBatch rt folder items) (fold (alter_member folder) items)" for items
    by (rule implementsI [OF writes_MemberChangeBatch fails_MemberChangeBatch store_fold]) (rule store_apply_change)
  from changes [of "[\<lparr> mi_Key = k, mi_UID = u, mi_Add = adding, mi_PendingKind = kind \<rparr>]"]
  show "implements rt (MemberChange rt folder k u adding kind) (alter_member folder \<lparr> mi_Key = k, mi_UID = u, mi_Add = adding, mi_PendingKind = kind \<rparr>)"
    by (simp add: MemberChange_def)
  show "implements rt (DeletePending rt i) (dequeue {i})"
    unfolding DeletePending_def by (rule implementsI [OF writes_sql_exec fails_exec]) (rule store_deletePending)
  show "implements rt (DeletePendingBatch rt ids) (dequeue (set ids))"
    by (rule implementsI [OF writes_DeletePendingBatch _ store_deletePending_ids]) (simp add: DeletePendingBatch_def store_fails)
  show set: "implements rt (MetaSet rt name val) (put_meta name val)" for name val
    by (rule implementsI [OF writes_MetaSet])
      (simp_all add: MetaSet_def store_fails put_meta_def store_of_def sql_setMeta_def update_conv')
  show "implements rt (SetUIDValidity rt v) (put_meta ''uidvalidity'' (FormatUint (unat v)))"
    "implements rt (SetLastUID rt v) (put_meta ''last_uid'' (FormatUint (unat v)))"
    unfolding SetUIDValidity_def SetLastUID_def metaSetUint_def by (rule set)+
  show "implements rt (SetFolderState rt folder v lu) (put_folder folder (v, lu))"
    by (rule implementsI [OF writes_SetFolderState])
      (simp_all add: SetFolderState_def store_fails put_folder_def store_of_def sql_setFolder_def update_conv')
qed

section \<open>Reading\<close>

text \<open>
  \<open>answers rt m q\<close>: on tables with their primary keys the method returns without a change, either with an
  error of the driver or with a result that \<open>q\<close> allows for the abstract state.
\<close>

definition answers :: "'w runtime \<Rightarrow> ('w st, 'a) prog \<Rightarrow> (store \<Rightarrow> (gerr + 'a) set) \<Rightarrow> bool" where
  "answers rt m q \<longleftrightarrow> (\<forall>s. db_ok (st_db s) \<longrightarrow> (\<exists>r s'. m s = Some (r, s') \<and> st_db s' = st_db s \<and> st_sum s' = st_sum s \<and>
     r \<in> Inl ` driver_errors rt \<union> q (store_of (st_db s))))"

lemma answersI:
  fixes rt :: "'w runtime"
  assumes "\<And>d. db_ok d \<Longrightarrow> Inr (f d) \<in> q (store_of d)"
  shows "answers rt (sql_query rt f) q"
  unfolding answers_def
proof (intro allI impI)
  fix s :: "'w st"
  assume ok: "db_ok (st_db s)"
  obtain r w where m: "sql_query rt f s = Some (r, s\<lparr> st_world := w \<rparr>)" and r: "\<forall>a. r = Inr a \<longrightarrow> a = f (st_db s)"
    using reads_sql_query [of rt f] unfolding reads_def by blast
  have "e \<in> driver_errors rt" if "r = Inl e" for e
    using hoare_InlD [OF fails_query _ m [unfolded that]] by simp
  then have "r \<in> Inl ` driver_errors rt \<union> q (store_of (st_db s))" using r assms [OF ok] by (cases r) auto
  with m show "\<exists>r s'. sql_query rt f s = Some (r, s') \<and> st_db s' = st_db s \<and> st_sum s' = st_sum s \<and>
     r \<in> Inl ` driver_errors rt \<union> q (store_of (st_db s))" by auto
qed

text \<open>A result is worked out, or put in some order, after the query.\<close>

lemma answers_bindM:
  fixes rt :: "'w runtime"
  assumes "answers rt m q" and "\<And>t a s. Inr a \<in> q t \<Longrightarrow> \<exists>r w. f a s = Some (r, s\<lparr> st_world := w \<rparr>) \<and> r \<in> q' t"
    and "\<And>t e. Inl e \<notin> q t"
  shows "answers rt (bindM m f) q'"
  unfolding answers_def
proof (intro allI impI)
  fix s :: "'w st"
  assume "db_ok (st_db s)"
  then obtain r s1 where m: "m s = Some (r, s1)" "st_db s1 = st_db s" "st_sum s1 = st_sum s" "r \<in> Inl ` driver_errors rt \<union> q (store_of (st_db s))"
    using assms(1) unfolding answers_def by blast
  show "\<exists>r s'. bindM m f s = Some (r, s') \<and> st_db s' = st_db s \<and> st_sum s' = st_sum s \<and>
     r \<in> Inl ` driver_errors rt \<union> q' (store_of (st_db s))"
  proof (cases r)
    case (Inl e)
    then show ?thesis using m assms(3) by (auto simp: bindM_def)
  next
    case (Inr a)
    then have "Inr a \<in> q (store_of (st_db s))" using m(4) by auto
    from assms(2) [OF this, of s1] obtain r' w where "f a s1 = Some (r', s1\<lparr> st_world := w \<rparr>)" "r' \<in> q' (store_of (st_db s))" by blast
    then show ?thesis using m Inr by (simp add: bindM_def)
  qed
qed

lemma store_key: "so_keys (store_of d) k \<noteq> None \<longleftrightarrow> has_key d k"
  by (force simp: store_of_def has_key_def map_of_eq_None_iff)

lemma store_member:
  assumes "db_ok d"
  shows "so_members (store_of d) (f, k) = Some u \<longleftrightarrow> \<lparr> mr_folder = f, mr_message_id = k, mr_uid = u \<rparr> \<in> set (db_members d)"
proof -
  let ?rows = "map (\<lambda>q. ((mr_folder q, mr_message_id q), mr_uid q)) (db_members d)"
  have "distinct (map fst ?rows)" using assms by (simp add: db_ok_def member_pairs_def comp_def)
  then have "so_members (store_of d) (f, k) = Some u \<longleftrightarrow> ((f, k), u) \<in> set ?rows"
    by (simp add: store_of_def map_of_eq_Some_iff)
  also have "\<dots> \<longleftrightarrow> \<lparr> mr_folder = f, mr_message_id = k, mr_uid = u \<rparr> \<in> set (db_members d)"
  proof
    assume "((f, k), u) \<in> set ?rows"
    then obtain q where "q \<in> set (db_members d)" "mr_folder q = f" "mr_message_id q = k" "mr_uid q = u" by auto
    moreover from this have "q = \<lparr> mr_folder = f, mr_message_id = k, mr_uid = u \<rparr>" by simp
    ultimately show "\<lparr> mr_folder = f, mr_message_id = k, mr_uid = u \<rparr> \<in> set (db_members d)" by simp
  qed (force simp: image_iff)
  finally show ?thesis .
qed

lemma store_has_member: "so_members (store_of d) (f, k) \<noteq> None \<longleftrightarrow> is_member d f k"
  by (force simp: store_of_def is_member_def map_of_eq_None_iff)

lemma distinct_member_folders: "db_ok d \<Longrightarrow> distinct (member_folders d k)"
  by (auto simp: member_folders_def db_ok_def member_pairs_def distinct_map inj_on_def intro: distinct_filter)

lemma uid_map_append: "uid_map (rs @ [q]) = AList.update (mr_uid q) (mr_message_id q) (uid_map rs)"
  by (simp add: uid_map_def)

lemma fst_update: "fst ` set (AList.update k v m) = insert k (fst ` set m)"
  by (induction m) auto

lemma uid_map_facts:
  "distinct (map fst (uid_map rs))" "fst ` set (uid_map rs) = mr_uid ` set rs"
  "(u, k) \<in> set (uid_map rs) \<Longrightarrow> \<exists>q \<in> set rs. mr_uid q = u \<and> mr_message_id q = k"
proof (induction rs arbitrary: u k rule: rev_induct)
  case Nil
  { case 1 show ?case by (simp add: uid_map_def) next case 2 show ?case by (simp add: uid_map_def) next case 3 then show ?case by (simp add: uid_map_def) }
next
  case (snoc q rs)
  { case 1 show ?case using snoc(1) by (simp add: uid_map_append distinct_update)
  next case 2 show ?case using snoc(2) by (simp add: uid_map_append fst_update)
  next case 3
    then have "map_of (AList.update (mr_uid q) (mr_message_id q) (uid_map rs)) u = Some k"
      using snoc(1) by (simp add: uid_map_append distinct_update map_of_eq_Some_iff)
    then show ?case using snoc(3) [of u k] by (auto simp: update_conv' split: if_splits dest: map_of_SomeD) }
qed

lemma uid_map_members:
  assumes "db_ok d" and "set rs = set (uid_rows d folder)"
  shows "fst ` set (uid_map rs) = {u. 0 < u \<and> (\<exists>k. so_members (store_of d) (folder, k) = Some u)}"
    and "(u, k) \<in> set (uid_map rs) \<Longrightarrow> so_members (store_of d) (folder, k) = Some u"
proof -
  have row: "q \<in> set rs \<longleftrightarrow> 0 < mr_uid q \<and> mr_folder q = folder \<and> so_members (store_of d) (folder, mr_message_id q) = Some (mr_uid q)" for q
  proof -
    have "q \<in> set (db_members d) \<longleftrightarrow> so_members (store_of d) (mr_folder q, mr_message_id q) = Some (mr_uid q)"
      using store_member [OF assms(1), of "mr_folder q" "mr_message_id q" "mr_uid q"] by (cases q) simp
    then show ?thesis by (auto simp: assms(2) uid_rows_def)
  qed
  show "fst ` set (uid_map rs) = {u. 0 < u \<and> (\<exists>k. so_members (store_of d) (folder, k) = Some u)}"
    unfolding uid_map_facts
  proof (intro equalityI subsetI)
    fix u assume "u \<in> mr_uid ` set rs"
    then show "u \<in> {u. 0 < u \<and> (\<exists>k. so_members (store_of d) (folder, k) = Some u)}" using row by auto
  next
    fix u assume "u \<in> {u. 0 < u \<and> (\<exists>k. so_members (store_of d) (folder, k) = Some u)}"
    then obtain k where "0 < u" "so_members (store_of d) (folder, k) = Some u" by blast
    then have "\<lparr> mr_folder = folder, mr_message_id = k, mr_uid = u \<rparr> \<in> set rs" by (simp add: row)
    then show "u \<in> mr_uid ` set rs" by force
  qed
  show "so_members (store_of d) (folder, k) = Some u" if "(u, k) \<in> set (uid_map rs)"
    using uid_map_facts(3) [OF that] row by auto
qed

text \<open>The value of a stored UIDVALIDITY or mark: none is zero, and a text that is not a number is reported.\<close>

definition stored_mark :: "string \<Rightarrow> store \<Rightarrow> gerr + u32" where
  "stored_mark name t = (case so_meta t name of
     None \<Rightarrow> Inr 0
   | Some v \<Rightarrow> if v = [] then Inr 0 else (case ParseUint v 32 of
       None \<Rightarrow> Inl (Wrap ''meta %s: corrupt value %q: %w'' [name, v] (Msg ''strconv.ParseUint'' [v]))
     | Some n \<Rightarrow> Inr (word_of_nat n)))"

lemma answers_mark: "answers rt (metaGetUint rt name) (\<lambda>t. {stored_mark name t})"
  unfolding metaGetUint_def MetaGet_def
proof (rule answers_bindM [OF answersI [where q = "\<lambda>t. {Inr (case so_meta t name of None \<Rightarrow> [] | Some v \<Rightarrow> v)}"]])
  fix t :: store and v and s :: "'a st"
  assume "Inr v \<in> {Inr (case so_meta t name of None \<Rightarrow> [] | Some v \<Rightarrow> v)}"
  then have v: "v = (case so_meta t name of None \<Rightarrow> [] | Some v \<Rightarrow> v)" by simp
  have "(if v = [] then returnM 0 else case ParseUint v 32 of
      None \<Rightarrow> throwM (Wrap ''meta %s: corrupt value %q: %w'' [name, v] (Msg ''strconv.ParseUint'' [v]))
    | Some n \<Rightarrow> returnM (word_of_nat n)) s = Some (stored_mark name t, s\<lparr> st_world := st_world s \<rparr>)"
    by (cases "so_meta t name"; cases "ParseUint v 32") (auto simp: v stored_mark_def returnM_def throwM_def)
  then show "\<exists>r w. (if v = [] then returnM 0 else case ParseUint v 32 of
      None \<Rightarrow> throwM (Wrap ''meta %s: corrupt value %q: %w'' [name, v] (Msg ''strconv.ParseUint'' [v]))
    | Some n \<Rightarrow> returnM (word_of_nat n)) s = Some (r, s\<lparr> st_world := w \<rparr>) \<and> r \<in> {stored_mark name t}" by blast
qed (simp_all add: store_of_def)

lemma answers_uids:
  "answers rt (MemberUIDKeys rt folder) (\<lambda>t. {Inr m |m. distinct (map fst m) \<and>
     fst ` set m = {u. 0 < u \<and> (\<exists>k. so_members t (folder, k) = Some u)} \<and> set m \<subseteq> {(u, k). so_members t (folder, k) = Some u}})"
  unfolding MemberUIDKeys_def
proof (rule answers_bindM [OF answersI [where q = "\<lambda>t. {Inr rs |rs. \<exists>d. db_ok d \<and> t = store_of d \<and> rs = uid_rows d folder}"]])
  fix t :: store and rs and s :: "'a st"
  assume "Inr rs \<in> {Inr rs |rs. \<exists>d. db_ok d \<and> t = store_of d \<and> rs = uid_rows d folder}"
  then obtain d where d: "db_ok d" "t = store_of d" "rs = uid_rows d folder" by blast
  obtain p w where p: "rt_perm rt (st_world s) = (p, w)" by force
  have "set (in_order p rs) = set (uid_rows d folder)" by (simp add: d)
  note members = uid_map_facts(1) uid_map_members [OF d(1) this]
  have "bindM (go_order rt rs) (\<lambda>rs. returnM (uid_map rs)) s = Some (Inr (uid_map (in_order p rs)), s\<lparr> st_world := w \<rparr>)"
    by (simp add: go_order_def p prog_defs)
  then show "\<exists>r w. bindM (go_order rt rs) (\<lambda>rs. returnM (uid_map rs)) s = Some (r, s\<lparr> st_world := w \<rparr>) \<and>
      r \<in> {Inr m |m. distinct (map fst m) \<and> fst ` set m = {u. 0 < u \<and> (\<exists>k. so_members t (folder, k) = Some u)} \<and>
        set m \<subseteq> {(u, k). so_members t (folder, k) = Some u}}"
    using members by (auto simp: d(2) intro!: exI)
qed blast+

text \<open>
  C14. Every read method of the store returns and changes nothing, and it answers from the abstract state:
  key and membership tests, the number of keys, the folders of a key in sorted order without the others, the
  keys of a folder once each, the known UIDs of a folder each with a member that has it, the oldest
  operations of the queue with their ids, the maps with their defaults, and the stored marks, where only a
  text that is not a number is an error.  Any other error is one of the driver.
\<close>

theorem store_reads_refine:
  "answers rt (HasKey rt key) (\<lambda>t. {Inr (so_keys t key \<noteq> None)}) \<and>
   answers rt (CopiedCount rt) (\<lambda>t. {Inr (card (dom (so_keys t)))}) \<and>
   answers rt (MemberHas rt folder key) (\<lambda>t. {Inr (so_members t (folder, key) \<noteq> None)}) \<and>
   answers rt (MemberFolders rt key) (\<lambda>t. {Inr fs |fs. sorted fs \<and> distinct fs \<and> set fs = {f. so_members t (f, key) \<noteq> None}}) \<and>
   answers rt (MemberKeys rt folder) (\<lambda>t. {Inr ks |ks. distinct ks \<and> set ks = {k. so_members t (folder, k) \<noteq> None}}) \<and>
   answers rt (MemberUIDKeys rt folder) (\<lambda>t. {Inr m |m. distinct (map fst m) \<and>
     fst ` set m = {u. 0 < u \<and> (\<exists>k. so_members t (folder, k) = Some u)} \<and> set m \<subseteq> {(u, k). so_members t (folder, k) = Some u}}) \<and>
   answers rt (PendingOps rt n) (\<lambda>t. {Inr (take n (so_queue t))}) \<and>
   answers rt (MetaGet rt name) (\<lambda>t. {Inr (case so_meta t name of None \<Rightarrow> [] | Some v \<Rightarrow> v)}) \<and>
   answers rt (FolderState rt folder) (\<lambda>t. {Inr (case so_folders t folder of None \<Rightarrow> (0, 0) | Some p \<Rightarrow> p)}) \<and>
   answers rt (UIDValidity rt) (\<lambda>t. {stored_mark ''uidvalidity'' t}) \<and>
   answers rt (LastUID rt) (\<lambda>t. {stored_mark ''last_uid'' t})"
proof (intro conjI)
  show "answers rt (HasKey rt key) (\<lambda>t. {Inr (so_keys t key \<noteq> None)})"
    unfolding HasKey_def by (rule answersI) (simp only: store_key singleton_iff)
  show "answers rt (CopiedCount rt) (\<lambda>t. {Inr (card (dom (so_keys t)))})"
    unfolding CopiedCount_def
  proof (rule answersI)
    fix d
    assume "db_ok d"
    then have "distinct (map kr_Key (db_copied d))" by (simp add: db_ok_def)
    then have "card (set (map kr_Key (db_copied d))) = length (db_copied d)" by (simp only: distinct_card length_map)
    then show "Inr (length (db_copied d)) \<in> {Inr (card (dom (so_keys (store_of d))))}"
      by (simp add: store_of_def dom_map_of_conv_image_fst image_image)
  qed
  show "answers rt (MemberHas rt folder key) (\<lambda>t. {Inr (so_members t (folder, key) \<noteq> None)})"
    unfolding MemberHas_def by (rule answersI) (simp only: store_has_member singleton_iff)
  show "answers rt (MemberFolders rt key) (\<lambda>t. {Inr fs |fs. sorted fs \<and> distinct fs \<and> set fs = {f. so_members t (f, key) \<noteq> None}})"
    unfolding MemberFolders_def
  proof (rule answersI)
    fix d
    assume "db_ok d"
    then have "distinct (member_folders d key)" by (rule distinct_member_folders)
    moreover have "set (member_folders d key) = {f. so_members (store_of d) (f, key) \<noteq> None}"
      by (simp only: store_has_member) (simp add: set_eq_iff member_folders_iff)
    moreover have "sorted (member_folders d key)" by (simp add: member_folders_def)
    ultimately show "Inr (member_folders d key) \<in> {Inr fs |fs. sorted fs \<and> distinct fs \<and> set fs = {f. so_members (store_of d) (f, key) \<noteq> None}}"
      by blast
  qed
  show "answers rt (MemberKeys rt folder) (\<lambda>t. {Inr ks |ks. distinct ks \<and> set ks = {k. so_members t (folder, k) \<noteq> None}})"
    unfolding MemberKeys_def
  proof (rule answersI)
    fix d
    have "set (member_keys d folder) = {k. so_members (store_of d) (folder, k) \<noteq> None}"
      by (simp only: store_has_member) (simp add: set_eq_iff member_keys_iff)
    moreover have "distinct (member_keys d folder)" by (simp add: member_keys_def)
    ultimately show "Inr (member_keys d folder) \<in> {Inr ks |ks. distinct ks \<and> set ks = {k. so_members (store_of d) (folder, k) \<noteq> None}}"
      by blast
  qed
  show "answers rt (PendingOps rt n) (\<lambda>t. {Inr (take n (so_queue t))})"
    unfolding PendingOps_def by (rule answersI) (simp add: page_of_queue store_of_def)
  show "answers rt (MetaGet rt name) (\<lambda>t. {Inr (case so_meta t name of None \<Rightarrow> [] | Some v \<Rightarrow> v)})"
    unfolding MetaGet_def by (rule answersI) (simp add: store_of_def)
  show "answers rt (FolderState rt folder) (\<lambda>t. {Inr (case so_folders t folder of None \<Rightarrow> (0, 0) | Some p \<Rightarrow> p)})"
    unfolding FolderState_def by (rule answersI) (simp add: store_of_def folder_state_def)
  show "answers rt (UIDValidity rt) (\<lambda>t. {stored_mark ''uidvalidity'' t})" "answers rt (LastUID rt) (\<lambda>t. {stored_mark ''last_uid'' t})"
    unfolding UIDValidity_def LastUID_def by (rule answers_mark)+
qed (rule answers_uids)

text \<open>
  C23. A page of the queue holds its first operations in the order in which they were queued, and
  deleting the operations of the page leaves exactly the others, in their order.
\<close>

theorem queue_pages:
  assumes "db_ok d"
  shows "hoare (\<lambda>s. st_db s = d) (PendingOps rt n) (\<lambda>ops s. st_db s = d \<and> map op_content ops = take n (bk_queue (books_of d)))
      (\<lambda>_ s. st_db s = d) \<and>
    hoare (\<lambda>s. st_db s = d) (bindM (PendingOps rt n) (\<lambda>ops. DeletePendingBatch rt (map po_ID ops)))
      (\<lambda>_ s. books_of (st_db s) = (books_of d)\<lparr> bk_queue := drop n (bk_queue (books_of d)) \<rparr>) (\<lambda>_ s. st_db s = d)"
proof
  have page: "hoare (\<lambda>s. st_db s = d) (PendingOps rt n) (\<lambda>ops s. st_db s = d \<and> ops = pending_page d n) (\<lambda>_ s. st_db s = d)"
    by (rule hoareI) (auto elim!: reads_cases [OF reads_PendingOps])
  then show "hoare (\<lambda>s. st_db s = d) (PendingOps rt n)
      (\<lambda>ops s. st_db s = d \<and> map op_content ops = take n (bk_queue (books_of d))) (\<lambda>_ s. st_db s = d)"
    by (rule hoare_post) (auto simp: page_of_queue(1) [OF assms] books_of_def take_map)
  have rest: "books_of (fold sql_deletePending (map po_ID (pending_page d n)) d) =
      (books_of d)\<lparr> bk_queue := drop n (bk_queue (books_of d)) \<rparr>"
  proof -
    have "db_copied (fold sql_deletePending ids d) = db_copied d \<and> db_members (fold sql_deletePending ids d) = db_members d \<and>
        db_meta (fold sql_deletePending ids d) = db_meta d \<and> db_folders (fold sql_deletePending ids d) = db_folders d" for ids d
      by (induction ids arbitrary: d) (simp_all add: sql_deletePending_def)
    then show ?thesis
      using page_of_queue(2) [OF assms, of n] by (simp add: books_of_def deletePending_ids drop_map)
  qed
  show "hoare (\<lambda>s. st_db s = d) (bindM (PendingOps rt n) (\<lambda>ops. DeletePendingBatch rt (map po_ID ops)))
      (\<lambda>_ s. books_of (st_db s) = (books_of d)\<lparr> bk_queue := drop n (bk_queue (books_of d)) \<rparr>) (\<lambda>_ s. st_db s = d)"
  proof (rule hoare_bindM [OF page])
    fix ops
    show "hoare (\<lambda>s. st_db s = d \<and> ops = pending_page d n) (DeletePendingBatch rt (map po_ID ops))
        (\<lambda>_ s. books_of (st_db s) = (books_of d)\<lparr> bk_queue := drop n (bk_queue (books_of d)) \<rparr>) (\<lambda>_ s. st_db s = d)"
      using rest by (intro hoareI) (auto elim!: writes_cases [OF writes_DeletePendingBatch])
  qed
qed

definition two_ops :: db where
  "two_ops = \<lparr> db_copied = [], db_meta = [], db_members = [],
     db_pending = [\<lparr> po_ID = 3, po_Kind = ''move'', po_MessageID = ''<a>'', po_Folder = ''INBOX'', po_Op = ''add'' \<rparr>,
                   \<lparr> po_ID = 7, po_Kind = ''keyword'', po_MessageID = ''<b>'', po_Folder = ''Work'', po_Op = ''remove'' \<rparr>],
     db_seq = 7, db_folders = [] \<rparr>"

theorem queue_pages_witness:
  "\<forall>rt :: nat runtime. hoare (\<lambda>s. st_db s = two_ops) (bindM (PendingOps rt 1) (\<lambda>ops. DeletePendingBatch rt (map po_ID ops)))
     (\<lambda>_ s. bk_queue (books_of (st_db s)) = [(''keyword'', ''<b>'', ''Work'', ''remove'')]) (\<lambda>_ s. st_db s = two_ops)"
proof
  fix rt :: "nat runtime"
  have "db_ok two_ops" by (simp add: db_ok_def two_ops_def member_pairs_def)
  moreover have "drop 1 (bk_queue (books_of two_ops)) = [(''keyword'', ''<b>'', ''Work'', ''remove'')]"
    by (simp add: two_ops_def books_of_def op_content_def)
  ultimately show "hoare (\<lambda>s. st_db s = two_ops) (bindM (PendingOps rt 1) (\<lambda>ops. DeletePendingBatch rt (map po_ID ops)))
     (\<lambda>_ s. bk_queue (books_of (st_db s)) = [(''keyword'', ''<b>'', ''Work'', ''remove'')]) (\<lambda>_ s. st_db s = two_ops)"
    using queue_pages [of two_ops rt 1] by (auto elim!: hoare_post)
qed

end
