(* ===== verification/RoutingFacts.thy ===== *)
theory RoutingFacts
  imports Phases StoreSpec
begin

text \<open>
  What the membership scan, the routing decision, the propagation and the backfill do to the stored
  state, in terms of the abstract store.
\<close>

section \<open>Routing\<close>

lemma hoare_query: "reads m f \<Longrightarrow> hoare (\<lambda>s. st_db s = d) m (\<lambda>a s. st_db s = d \<and> a = f d) (\<lambda>_ s. st_db s = d)"
  by (rule hoareI) (auto elim!: reads_cases)

text \<open>The bucket of a key, from its folders.\<close>

definition bucket :: "'w Options \<Rightarrow> string set \<Rightarrow> string" where
  "bucket o' folders =
     (if (ArchiveRouting o' \<or> SentRouting o') \<and> SourceInbox o' \<in> folders then DestFolder o'
      else if SentRouting o' \<and> SentSrcFolder o' \<in> folders then SentFolder o'
      else if ArchiveRouting o' then ArchiveFolder o' else DestFolder o')"

lemma hoare_destFolderFor:
  "hoare (\<lambda>s. st_db s = d) (destFolderFor R key)
     (\<lambda>f s. st_db s = d \<and> f = bucket (r_opts R) {g. (g, key) \<in> bk_members (books_of d)} \<and> f \<in> set (destBucketFolders R))
     (\<lambda>_ s. st_db s = d)"
proof -
  let ?o = "r_opts R"
  have ret: "hoare (\<lambda>s. st_db s = d) (returnM f) (\<lambda>g s. st_db s = d \<and> g = f) (\<lambda>_ s. st_db s = d)" for f
    by (simp add: hoare_def returnM_def)
  have has: "hoare (\<lambda>s. st_db s = d) (if b then MemberHas (r_rt R) g key else returnM False)
      (\<lambda>a s. st_db s = d \<and> a = (b \<and> (g, key) \<in> bk_members (books_of d))) (\<lambda>_ s. st_db s = d)" for b g
  proof (cases b)
    case True
    then show ?thesis by (simp add: hoare_post [OF hoare_query [OF reads_MemberHas]] books_is_member)
  next
    case False
    then show ?thesis by (simp add: hoare_post [OF ret])
  qed
  have route: "hoare (\<lambda>s. st_db s = d) (destFolderFor R key)
     (\<lambda>f s. st_db s = d \<and> f = bucket ?o {g. (g, key) \<in> bk_members (books_of d)}) (\<lambda>_ s. st_db s = d)"
    unfolding destFolderFor_def Let_def
  proof (rule hoare_bindM [OF has], rule hoare_pure, rule hoare_if)
    fix inInbox
    assume a: "inInbox = ((ArchiveRouting ?o \<or> SentRouting ?o) \<and> (SourceInbox ?o, key) \<in> bk_members (books_of d))"
    show "hoare (\<lambda>s. st_db s = d) (returnM (DestFolder ?o))
       (\<lambda>f s. st_db s = d \<and> f = bucket ?o {g. (g, key) \<in> bk_members (books_of d)}) (\<lambda>_ s. st_db s = d)" if inInbox
      using ret [of "DestFolder ?o"] that a by (simp add: bucket_def)
    assume "\<not> inInbox"
    then show "hoare (\<lambda>s. st_db s = d)
       (bindM (if SentRouting ?o then MemberHas (r_rt R) (SentSrcFolder ?o) key else returnM False) (\<lambda>inSent.
         if inSent then returnM (SentFolder ?o)
         else if ArchiveRouting ?o then returnM (ArchiveFolder ?o) else returnM (DestFolder ?o)))
       (\<lambda>f s. st_db s = d \<and> f = bucket ?o {g. (g, key) \<in> bk_members (books_of d)}) (\<lambda>_ s. st_db s = d)"
      using a by (intro hoare_bindM [OF has] hoare_pure hoare_if hoare_post [OF ret]) (auto simp: bucket_def)
  qed
  have "bucket ?o fs \<in> set (destBucketFolders R)" for fs
    by (simp add: bucket_def destBucketFolders_def Let_def)
  then show ?thesis by (intro hoare_post [OF route]) auto
qed

text \<open>
  C16. The routing decision depends only on the source folders the key is a member of: mail in the inbox
  goes to the main folder, else sent mail to the sent folder, else to the archive, as far as these are
  enabled; the folder is always one of the destination folders that the guard searches, and nothing changes.
\<close>

theorem destFolderFor_routes:
  "hoare (\<lambda>s. st_db s = d) (destFolderFor R key)
     (\<lambda>f s. st_db s = d \<and> f = bucket (r_opts R) {g. (g, key) \<in> bk_members (books_of d)} \<and> f \<in> set (destBucketFolders R))
     (\<lambda>_ s. st_db s = d)"
  by (rule hoare_destFolderFor)

section \<open>Recording differences of a folder\<close>

text \<open>The operation that is queued for a key: none unless the key is a Message-ID that has been mirrored.\<close>

definition queued_kind :: "db \<Rightarrow> string \<Rightarrow> string \<Rightarrow> string" where
  "queued_kind d key kind = (if IsRealMessageID key \<and> key \<in> bk_keys (books_of d) then kind else [])"

lemma hoare_gatePending:
  "hoare (\<lambda>s. st_db s = d) (gatePending R key kind) (\<lambda>k s. st_db s = d \<and> k = queued_kind d key kind) (\<lambda>_ s. st_db s = d)"
proof (cases "kind = [] \<or> \<not> IsRealMessageID key")
  case True
  then show ?thesis by (auto simp: gatePending_def hoare_def returnM_def queued_kind_def)
next
  case False
  have ret: "hoare (\<lambda>s. st_db s = d) (returnM f) (\<lambda>g s. st_db s = d \<and> g = f) (\<lambda>_ s. st_db s = d)" for f :: string
    by (simp add: hoare_def returnM_def)
  have "hoare (\<lambda>s. st_db s = d) (bindM (HasKey (r_rt R) key) (\<lambda>copied. if \<not> copied then returnM [] else returnM kind))
      (\<lambda>k s. st_db s = d \<and> k = queued_kind d key kind) (\<lambda>_ s. st_db s = d)"
    by (rule hoare_bindM [OF hoare_query [OF reads_HasKey]], rule hoare_pure, rule hoare_if; rule hoare_post [OF ret])
      (use False in \<open>auto simp: queued_kind_def books_has_key\<close>)
  then show ?thesis using False by (simp add: gatePending_def)
qed

lemma hoare_collect:
  assumes "\<And>x. hoare (\<lambda>s. st_db s = d) (f x) (\<lambda>a s. st_db s = d \<and> a = g x) (\<lambda>_ s. st_db s = d)"
  shows "hoare (\<lambda>s. st_db s = d) (foldM (\<lambda>items x. bindM (f x) (\<lambda>a. returnM (items @ [h x a]))) items xs)
    (\<lambda>r s. st_db s = d \<and> r = items @ map (\<lambda>x. h x (g x)) xs) (\<lambda>_ s. st_db s = d)"
proof (induction xs arbitrary: items)
  case Nil
  show ?case by (simp add: hoare_def returnM_def)
next
  case (Cons x xs)
  have "hoare (\<lambda>s. st_db s = d) (bindM (f x) (\<lambda>a. returnM (items @ [h x a])))
      (\<lambda>r s. st_db s = d \<and> r = items @ [h x (g x)]) (\<lambda>_ s. st_db s = d)"
    by (rule hoare_bindM [OF assms], rule hoare_pure) (simp add: hoare_def returnM_def)
  then show ?case
    unfolding foldM.simps by (rule hoare_bindM) (rule hoare_pure, use Cons [of "items @ [h x (g x)]"] in simp)
qed

lemma hoare_MemberChangeBatch:
  "hoare (\<lambda>s. st_db s = d) (MemberChangeBatch rt folder items)
     (\<lambda>_ s. books_of (st_db s) = fold (change_member folder) items (books_of d)) (\<lambda>_ s. st_db s = d)"
  by (rule hoareI) (auto simp: books_apply_changes elim!: writes_cases [OF writes_MemberChangeBatch])

lemma change_members_add:
  "fold (change_member folder) (map (\<lambda>x. add_item (k x) (u x) (p x)) xs) b =
     b\<lparr> bk_members := bk_members b \<union> {folder} \<times> k ` set xs,
        bk_queue := bk_queue b @ map (\<lambda>x. (p x, k x, folder, ''add'')) (filter (\<lambda>x. p x \<noteq> []) xs) \<rparr>"
  by (induction xs arbitrary: b) (auto simp: change_member_def add_item_def op_name_def)

lemma change_members_remove:
  "fold (change_member folder) (map (\<lambda>x. remove_item x (p x)) xs) b =
     b\<lparr> bk_members := bk_members b - {folder} \<times> set xs,
        bk_queue := bk_queue b @ map (\<lambda>x. (p x, x, folder, ''remove'')) (filter (\<lambda>x. p x \<noteq> []) xs) \<rparr>"
  by (induction xs arbitrary: b) (auto simp: change_member_def remove_item_def op_name_def Diff_insert2 [symmetric])

lemma ctxErr_keeps: "hoare (\<lambda>s. st_db s = d) (ctxErr R) (\<lambda>_ s. st_db s = d) (\<lambda>_ s. st_db s = d)"
  by (rule hoareI) (auto dest: stepsD [OF untouched.ctxErr_steps])

lemma queued_ops:
  "map (\<lambda>x. (queued_kind d (k x) (p x), k x, folder, op)) (filter (\<lambda>x. queued_kind d (k x) (p x) \<noteq> []) xs) =
   map (\<lambda>x. (p x, k x, folder, op)) (filter (\<lambda>x. p x \<noteq> [] \<and> IsRealMessageID (k x) \<and> k x \<in> bk_keys (books_of d)) xs)"
  by (induction xs) (auto simp: queued_kind_def)

definition after_additions :: "string \<Rightarrow> (MsgMeta \<Rightarrow> string) \<Rightarrow> (string \<Rightarrow> string) \<Rightarrow> MsgMeta list \<Rightarrow> books \<Rightarrow> books" where
  "after_additions folder key kindFor metas b =
     b\<lparr> bk_members := bk_members b \<union> {folder} \<times> key ` set metas,
        bk_queue := bk_queue b @ map (\<lambda>m. (kindFor (key m), key m, folder, ''add''))
          (filter (\<lambda>m. kindFor (key m) \<noteq> [] \<and> IsRealMessageID (key m) \<and> key m \<in> bk_keys b) metas) \<rparr>"

definition after_removals :: "string \<Rightarrow> string \<Rightarrow> string list \<Rightarrow> books \<Rightarrow> books" where
  "after_removals folder kind ks b =
     b\<lparr> bk_members := bk_members b - {folder} \<times> set ks,
        bk_queue := bk_queue b @ map (\<lambda>k. (kind, k, folder, ''remove''))
          (filter (\<lambda>k. kind \<noteq> [] \<and> IsRealMessageID k \<and> k \<in> bk_keys b) ks) \<rparr>"

lemma hoare_recordAdditions:
  "hoare (\<lambda>s. st_db s = d) (recordAdditions R folder metas kindFor)
     (\<lambda>_ s. books_of (st_db s) = after_additions folder (DedupKey (rt_sha256 (r_rt R))) kindFor metas (books_of d))
     (\<lambda>_ s. st_db s = d)"
  unfolding recordAdditions_def Let_def
  by (rule hoare_bindM [OF hoare_collect [OF hoare_gatePending]], rule hoare_pure)
    (simp add: hoare_post [OF hoare_MemberChangeBatch] change_members_add queued_ops after_additions_def)

lemma hoare_recordRemovals:
  "hoare (\<lambda>s. st_db s = d) (recordRemovals R folder kind ks)
     (\<lambda>_ s. books_of (st_db s) = after_removals folder kind ks (books_of d)) (\<lambda>_ s. st_db s = d)"
proof -
  have "hoare (\<lambda>s. st_db s = d) (bindM (ctxErr R) (\<lambda>_. gatePending R k kind))
      (\<lambda>a s. st_db s = d \<and> a = queued_kind d k kind) (\<lambda>_ s. st_db s = d)" for k
    by (rule hoare_bindM [OF ctxErr_keeps hoare_gatePending])
  from hoare_collect [OF this, where h = remove_item and items = "[]" and xs = ks]
  show ?thesis
    unfolding recordRemovals_def Let_def bindM_assoc
    by (rule hoare_bindM, intro hoare_pure)
      (simp add: hoare_post [OF hoare_MemberChangeBatch] change_members_remove queued_ops after_removals_def)
qed

text \<open>
  C15. Recording additions makes the folder's new messages members of it and queues, in order, one operation
  for each of them that has a Message-ID and has been mirrored; recording removals takes the keys out and
  queues likewise.  Other folders, the keys and the maps stay as they are, and an error changes nothing.
\<close>

theorem record_changes_exact:
  "hoare (\<lambda>s. st_db s = d) (recordAdditions R folder metas kindFor)
     (\<lambda>_ s. books_of (st_db s) = after_additions folder (DedupKey (rt_sha256 (r_rt R))) kindFor metas (books_of d))
     (\<lambda>_ s. st_db s = d) \<and>
   hoare (\<lambda>s. st_db s = d) (recordRemovals R folder kind ks)
     (\<lambda>_ s. books_of (st_db s) = after_removals folder kind ks (books_of d)) (\<lambda>_ s. st_db s = d)"
  by (rule conjI [OF hoare_recordAdditions hoare_recordRemovals])

section \<open>Draining the queue\<close>

text \<open>A step that at most takes operations out of the queue.\<close>

definition drains :: "'w st \<Rightarrow> 'w st \<Rightarrow> bool" where
  "drains s s' \<longleftrightarrow> (books_of (st_db s'))\<lparr> bk_queue := [] \<rparr> = (books_of (st_db s))\<lparr> bk_queue := [] \<rparr> \<and>
     set (bk_queue (books_of (st_db s'))) \<subseteq> set (bk_queue (books_of (st_db s)))"

lemma books_deletePending:
  "books_of (fold sql_deletePending ids d) = (books_of d)\<lparr> bk_queue := map op_content (filter (\<lambda>q. po_ID q \<notin> set ids) (db_pending d)) \<rparr>"
proof -
  have "db_copied (fold sql_deletePending ids d) = db_copied d \<and> db_members (fold sql_deletePending ids d) = db_members d \<and>
      db_meta (fold sql_deletePending ids d) = db_meta d \<and> db_folders (fold sql_deletePending ids d) = db_folders d"
    by (induction ids arbitrary: d) (simp_all add: sql_deletePending_def)
  then show ?thesis by (simp add: books_of_def deletePending_ids)
qed

lemma drains_relation: "step_relation drains"
  by unfold_locales (auto simp: drains_def)

lemma drains_steps:
  "steps drains (DeletePendingBatch (r_rt R) ids)" "steps drains (ctxErr R)" "steps drains (applyPending R op)"
  "steps drains (PendingOps (r_rt R) i)"
proof -
  show "steps drains (DeletePendingBatch (r_rt R) ids)"
    by (rule stepsI) (auto simp: drains_def books_deletePending elim!: writes_cases [OF writes_DeletePendingBatch],
      auto simp: books_of_def)
  show "steps drains (ctxErr R)" "steps drains (applyPending R op)" "steps drains (PendingOps (r_rt R) i)"
    by (rule steps_weaken [OF untouched.ctxErr_steps] steps_weaken [OF untouched.applyPending_steps]
        steps_weaken [OF untouched.query_steps(5)], simp add: drains_def)+
qed

lemma empty_page:
  assumes "[] = pending_page d 200"
  shows "bk_queue (books_of d) = []"
proof -
  have "sort_key po_ID (db_pending d) = []" using assms by (simp add: pending_page_def)
  then have "set (db_pending d) = {}" by (metis empty_set set_sort)
  then show ?thesis by (simp add: books_of_def)
qed

text \<open>
  Propagation only takes operations out of the queue: it changes nothing else in the database and
  queues nothing, whatever fails; when it succeeds the queue is empty.
\<close>

lemma propagate_drains:
  "steps drains (propagate R) \<and> hoare (\<lambda>_. True) (propagate R) (\<lambda>_ s. bk_queue (books_of (st_db s)) = []) (\<lambda>_ _. True)"
proof
  note compose = step_relation.steps_compose' [OF drains_relation]
  have "steps drains (applyPage R ops ids)" for ops ids
    by (induction ops arbitrary: ids) (auto intro!: compose drains_steps)
  then show "steps drains (propagate R)"
    unfolding propagate_def by (intro compose drains_steps)
  show "hoare (\<lambda>_. True) (propagate R) (\<lambda>_ s. bk_queue (books_of (st_db s)) = []) (\<lambda>_ _. True)"
  proof (rule hoare_propagate [where J = "\<lambda>ops s. ops = pending_page (st_db s) 200"])
    show "hoare (\<lambda>_. True) (PendingOps (r_rt R) 200) (\<lambda>ops s. ops = pending_page (st_db s) 200) (\<lambda>_ _. True)"
      by (rule hoareI) (auto elim!: reads_cases [OF reads_PendingOps])
    show "bk_queue (books_of (st_db s)) = []" if "[] = pending_page (st_db s) 200" for s :: "'a st"
      by (rule empty_page [OF that])
  qed (simp add: hoare_def split: option.splits sum.splits)
qed

section \<open>The backfill\<close>

text \<open>The fingerprint that is stored.\<close>

abbreviation fingerprint_stored :: "'w Reconciler \<Rightarrow> 'w st \<Rightarrow> bool" where
  "fingerprint_stored R s \<equiv> bk_meta (books_of (st_db s)) ''backfill_fingerprint'' = Some (backfillFingerprint R)"

lemma maybeBackfill_stores: "hoare (\<lambda>_. True) (maybeBackfill R) (\<lambda>_ s. fingerprint_stored R s) (\<lambda>_ _. True)"
proof -
  have get: "hoare (\<lambda>_. True) (MetaGet (r_rt R) ''backfill_fingerprint'')
      (\<lambda>v s. v = (case bk_meta (books_of (st_db s)) ''backfill_fingerprint'' of None \<Rightarrow> [] | Some v \<Rightarrow> v)) (\<lambda>_ _. True)"
    by (rule hoareI) (auto simp: books_of_def elim!: reads_cases [OF reads_MetaGet])
  have store: "hoare (\<lambda>_. True) (MetaSet (r_rt R) ''backfill_fingerprint'' (backfillFingerprint R))
      (\<lambda>_ s. fingerprint_stored R s) (\<lambda>_ _. True)"
    by (rule hoareI) (auto simp: books_of_def sql_setMeta_def update_conv' elim!: writes_cases [OF writes_MetaSet])
  have any: "hoare P m (\<lambda>_ _. True) (\<lambda>_ _. True)" for P and m :: "('a st, unit) prog"
    by (simp add: hoare_def split: option.splits sum.splits)
  have unchanged: "hoare (\<lambda>s. a = (case bk_meta (books_of (st_db s)) ''backfill_fingerprint'' of None \<Rightarrow> [] | Some v \<Rightarrow> v))
      (returnM ()) (\<lambda>_ s. fingerprint_stored R s) (\<lambda>_ _. True)" if "a = backfillFingerprint R" for a
    using that by (auto simp: hoare_def returnM_def backfillFingerprint_def Let_def split: option.splits)
  show ?thesis
    unfolding maybeBackfill_def Let_def
    by (rule hoare_bindM [OF get], rule hoare_if, erule unchanged, rule hoare_bindM [OF any store])
qed

lemma maybeBackfill_stored:
  assumes "fingerprint_stored R s"
  shows "maybeBackfill R s = bindM (MetaGet (r_rt R) ''backfill_fingerprint'') (\<lambda>_. returnM ()) s"
proof -
  obtain r w where r: "MetaGet (r_rt R) ''backfill_fingerprint'' s = Some (r, s\<lparr> st_world := w \<rparr>)"
    and v: "\<forall>a. r = Inr a \<longrightarrow> a = (case map_of (db_meta (st_db s)) ''backfill_fingerprint'' of None \<Rightarrow> [] | Some v \<Rightarrow> v)"
    using reads_MetaGet [of "r_rt R" "''backfill_fingerprint''"] unfolding reads_def by blast
  have "a = backfillFingerprint R" if "r = Inr a" for a
    using v assms that by (simp add: books_of_def)
  then show ?thesis
    using r by (cases r) (simp_all add: maybeBackfill_def Let_def)
qed

text \<open>
  C37. The backfill runs once for a configuration: after one that succeeded, another is only the reading of
  the stored fingerprint, with no call to the destination.
\<close>

theorem maybeBackfill_once:
  "hoare (\<lambda>_. True) (maybeBackfill R) (\<lambda>_ s. bk_meta (books_of (st_db s)) ''backfill_fingerprint'' = Some (backfillFingerprint R)) (\<lambda>_ _. True) \<and>
   bindM (maybeBackfill R) (\<lambda>_. maybeBackfill R) =
     bindM (maybeBackfill R) (\<lambda>_. bindM (MetaGet (r_rt R) ''backfill_fingerprint'') (\<lambda>_. returnM ()))"
proof -
  have "bindM (maybeBackfill R) (\<lambda>_. maybeBackfill R) s =
      bindM (maybeBackfill R) (\<lambda>_. bindM (MetaGet (r_rt R) ''backfill_fingerprint'') (\<lambda>_. returnM ())) s" for s
    by (rule bindM_cong_on, rule maybeBackfill_stored, rule hoare_InrD [OF maybeBackfill_stores TrueI])
  then show ?thesis using maybeBackfill_stores by (simp add: fun_eq_iff)
qed

end
