(* ===== verification/Rebuild.thy ===== *)
theory Rebuild
  imports RoutingFacts
begin

text \<open>
  The rebuild of a watched folder: afterwards the stored members of the folder are exactly the messages
  that the source lists.
\<close>

section \<open>Windows of a scan\<close>

lemma window_split:
  fixes start n b :: u32
  assumes "start < n" and "0 < b" and "unat n + unat b \<le> 2 ^ 32"
  shows "start < start + b" and "u < start + b \<and> u < n \<longleftrightarrow> u < start \<or> start \<le> u \<and> u \<le> window_stop start b n"
proof -
  have lt: "unat start < unat n" using assms(1) by (simp add: word_less_nat_alt)
  have b: "0 < unat b" using assms(2) by (simp add: unat_gt_0)
  have sum: "unat (start + b) = unat start + unat b"
    using lt assms(3) by (intro unat_add_lem [THEN iffD1]) simp
  have pos: "0 < start + b" using sum b by (simp add: word_less_nat_alt)
  have "0 < n" using lt by (simp add: word_less_nat_alt)
  let ?stop = "min (unat (start + b) - 1) (unat n - 1)"
  have "unat n < 2 ^ LENGTH(32)" by (rule unsigned_less)
  then have "?stop < 2 ^ LENGTH(32)" by (simp only: min_less_iff_disj) linarith
  then have stop: "unat (window_stop start b n) = ?stop"
    unfolding window_stop_eq [OF pos \<open>0 < n\<close>] by (simp add: unat_of_nat take_bit_eq_mod)
  show "start < start + b" using sum b by (simp add: word_less_nat_alt)
  show "u < start + b \<and> u < n \<longleftrightarrow> u < start \<or> start \<le> u \<and> u \<le> window_stop start b n"
    unfolding word_less_nat_alt word_le_nat_alt stop using sum lt b by (auto simp: min_def)
qed

lemma hoare_scanWindows:
  assumes batch: "0 < (word_of_int (UIDBatch opts) :: u32)" "unat n + unat (word_of_int (UIDBatch opts) :: u32) \<le> 2 ^ 32"
    and ctx: "\<And>p. hoare (I p) ctx (\<lambda>_. I p) (\<lambda>_ _. True)"
    and window: "\<And>p q stop. p < n \<Longrightarrow> p < q \<Longrightarrow> (\<And>u. u < q \<and> u < n \<longleftrightarrow> u < p \<or> p \<le> u \<and> u \<le> stop) \<Longrightarrow>
      hoare (I p) (bindM (fetch p stop) (fn stop)) (\<lambda>_. I q) (\<lambda>_ _. True)"
    and exit: "\<And>p s. n \<le> p \<Longrightarrow> I p s \<Longrightarrow> Q () s"
  shows "hoare (I first) (scanWindows opts ctx first n fetch fn) Q (\<lambda>_ _. True)"
  unfolding scanWindows_def
proof (rule hoare_scanLoop [where Inv = I])
  fix start :: u32
  assume lt: "start < n"
  from window [OF lt window_split [OF lt batch]]
  show "hoare (I start) (bindM ctx (\<lambda>_. window_body fetch fn start (window_stop start (word_of_int (UIDBatch opts)) n)))
      (\<lambda>_. I (start + word_of_int (UIDBatch opts))) (\<lambda>_ _. True)"
    unfolding window_body_def by (intro hoare_bindM [OF ctx] hoare_wrapM)
qed (use exit in \<open>simp add: not_less\<close>)

section \<open>The members during a rebuild\<close>

abbreviation members_of :: "'w st \<Rightarrow> (string \<times> string) set" where
  "members_of s \<equiv> bk_members (books_of (st_db s))"

lemma members_additions:
  "hoare (\<lambda>s. members_of s = X) (recordAdditions R folder ms kindFor)
     (\<lambda>_ s. members_of s = X \<union> {folder} \<times> DedupKey (rt_sha256 (r_rt R)) ` set ms) (\<lambda>_ _. True)"
proof (rule hoareI)
  fix s a s'
  assume "members_of s = X" and r: "recordAdditions R folder ms kindFor s = Some (Inr a, s')"
  then show "members_of s' = X \<union> {folder} \<times> DedupKey (rt_sha256 (r_rt R)) ` set ms"
    using hoare_InrD [OF hoare_recordAdditions refl r] by (simp add: after_additions_def)
qed simp

lemma members_removals:
  "hoare (\<lambda>s. members_of s = X) (recordRemovals R folder kind ks) (\<lambda>_ s. members_of s = X - {folder} \<times> set ks) (\<lambda>_ _. True)"
proof (rule hoareI)
  fix s a s'
  assume "members_of s = X" and r: "recordRemovals R folder kind ks s = Some (Inr a, s')"
  then show "members_of s' = X - {folder} \<times> set ks"
    using hoare_InrD [OF hoare_recordRemovals refl r] by (simp add: after_removals_def)
qed simp

lemma members_order:
  "hoare (\<lambda>s. members_of s = X) (go_order rt xs) (\<lambda>ys s. members_of s = X \<and> set ys = set xs) (\<lambda>_ _. True)"
  by (rule hoareI) (auto simp: go_order_def split: prod.splits)

lemma members_keys:
  "hoare (\<lambda>s. members_of s = X) (MemberKeys rt folder) (\<lambda>ks s. members_of s = X \<and> set ks = {k. (folder, k) \<in> X}) (\<lambda>_ _. True)"
  by (rule hoareI) (auto simp: member_keys_iff books_is_member elim!: reads_cases [OF reads_MemberKeys])

lemma members_marked:
  "hoare (\<lambda>s. members_of s = X) (SetFolderState rt folder v u)
     (\<lambda>_ s. members_of s = X \<and> folder_state (st_db s) folder = (v, u)) (\<lambda>_ _. True)"
  by (rule hoareI)
    (auto simp: sql_setFolder_def folder_state_def books_of_def update_conv' elim!: writes_cases [OF writes_SetFolderState])

text \<open>The keys of the messages below \<open>p\<close>, and the state when the windows up to \<open>p\<close> have been recorded.\<close>

definition keys_below :: "(MsgMeta \<Rightarrow> string) \<Rightarrow> MsgMeta set \<Rightarrow> u32 \<Rightarrow> u32 \<Rightarrow> string set" where
  "keys_below key mailbox n p = key ` {m \<in> mailbox. 1 \<le> m_UID m \<and> m_UID m < p \<and> m_UID m < n}"

definition rebuilding :: "string \<Rightarrow> (string \<times> string) set \<Rightarrow> (u32 \<Rightarrow> string set) \<Rightarrow> u32 \<Rightarrow> 'w st \<times> string set \<Rightarrow> bool" where
  "rebuilding folder before below p x \<longleftrightarrow>
     1 \<le> p \<and> snd x = below p \<and> members_of (fst x) = before \<union> {folder} \<times> snd x"

lemma rebuilding_frame:
  assumes "steps (\<lambda>s s'. st_db s' = st_db s) m"
  shows "hoare (rebuilding folder before below p) (outer m) (\<lambda>_. rebuilding folder before below p) (\<lambda>_ _. True)"
proof (rule hoare_outer, rule hoareI)
  fix l s a s'
  assume "rebuilding folder before below p (s, l)" and "m s = Some (Inr a, s')"
  then show "rebuilding folder before below p (s', l)"
    using stepsD [OF assms, of s "Inr a" s'] by (simp add: rebuilding_def)
qed simp

lemma rebuilding_fetch:
  assumes "hoare (\<lambda>_. True) (src_FetchMetaRange (r_src R) a b) (\<lambda>ms _. P ms) (\<lambda>_ _. True)"
  shows "hoare (rebuilding folder before below p) (outer (call (src_FetchMetaRange (r_src R) a b)))
     (\<lambda>ms x. rebuilding folder before below p x \<and> P ms) (\<lambda>_ _. True)"
proof (rule hoare_outer, rule hoare_call)
  fix l s ms w
  assume "rebuilding folder before below p (s, l)" and f: "src_FetchMetaRange (r_src R) a b (st_world s) = Some (Inr ms, w)"
  then show "rebuilding folder before below p (s\<lparr> st_world := w \<rparr>, l) \<and> P ms"
    using hoare_InrD [OF assms _ f] by (simp add: rebuilding_def)
qed simp

lemma keys_below_next:
  assumes "p < n" and "1 \<le> p" and "\<And>u. u < q \<and> u < n \<longleftrightarrow> u < p \<or> p \<le> u \<and> u \<le> stop"
    and "set ms = {m \<in> mailbox. p \<le> m_UID m \<and> m_UID m \<le> stop}"
  shows "keys_below key mailbox n q = keys_below key mailbox n p \<union> key ` set ms"
proof -
  have "{m \<in> mailbox. 1 \<le> m_UID m \<and> m_UID m < q \<and> m_UID m < n} =
      {m \<in> mailbox. 1 \<le> m_UID m \<and> m_UID m < p \<and> m_UID m < n} \<union> set ms"
    unfolding assms(3,4) using assms(1,2) by auto
  then show ?thesis by (auto simp: keys_below_def)
qed

text \<open>One window is recorded.\<close>

lemma rebuilding_window:
  assumes "1 \<le> p \<Longrightarrow> 1 \<le> q" and "1 \<le> p \<Longrightarrow> below q = below p \<union> DedupKey (rt_sha256 (r_rt R)) ` set ms"
  shows "hoare (rebuilding folder before below p)
     (bindM (outer (recordAdditions R folder ms kindFor)) (\<lambda>_.
      bindM (modifyM (\<lambda>(s, seen). (s, seen \<union> DedupKey (rt_sha256 (r_rt R)) ` set ms))) (\<lambda>_.
      outer (progress R phase item k)))) (\<lambda>_. rebuilding folder before below q) (\<lambda>_ _. True)"
    (is "hoare ?P (bindM (outer ?add) (\<lambda>_. bindM (modifyM ?see) _)) _ _")
proof -
  have add: "hoare ?P (outer ?add) (\<lambda>_ x. rebuilding folder before below q (?see x)) (\<lambda>_ _. True)"
  proof (rule hoare_outer, rule hoareI)
    fix l s a s'
    assume P: "?P (s, l)" and r: "?add s = Some (Inr a, s')"
    then have "members_of s' = members_of s \<union> {folder} \<times> DedupKey (rt_sha256 (r_rt R)) ` set ms"
      using hoare_InrD [OF members_additions refl r] by simp
    then show "rebuilding folder before below q (?see (s', l))"
      using P assms by (auto simp: rebuilding_def)
  qed simp
  show ?thesis
    by (rule hoare_bindM [OF add], rule hoare_bindM [OF hoare_modifyM rebuilding_frame [OF untouched.progress_steps]])
qed

text \<open>All windows are recorded.\<close>

lemma rebuild_scan:
  fixes R :: "'w Reconciler"
  defines "key \<equiv> DedupKey (rt_sha256 (r_rt R))"
  assumes batch: "0 < (word_of_int (UIDBatch (r_opts R)) :: u32)"
      "unat n + unat (word_of_int (UIDBatch (r_opts R)) :: u32) \<le> 2 ^ 32"
    and listing: "\<And>a b. hoare (\<lambda>_. True) (src_FetchMetaRange (r_src R) a b)
      (\<lambda>ms _. set ms = {m \<in> mailbox. a \<le> m_UID m \<and> m_UID m \<le> b}) (\<lambda>_ _. True)"
  shows "hoare (\<lambda>s. members_of s = before)
    (withVars {} (scanWindows (r_opts R) (outer (ctxErr R)) 1 n
      (\<lambda>start stop. outer (call (src_FetchMetaRange (r_src R) start stop)))
      (\<lambda>stop metas.
        bindM (outer (recordAdditions R folder metas kindFor)) (\<lambda>_.
        bindM (modifyM (\<lambda>(s, seen). (s, seen \<union> key ` set metas))) (\<lambda>_.
        outer (progress R ''membership-rebuild'' item (uint stop)))))))
    (\<lambda>seen s. seen = keys_below key mailbox n n \<and> members_of s = before \<union> {folder} \<times> seen) (\<lambda>_ _. True)"
    (is "hoare _ (withVars {} ?scan) ?Q _")
proof (rule hoare_withVars)
  let ?I = "rebuilding folder before (keys_below key mailbox n)"
  have "hoare (?I 1) ?scan (\<lambda>_ (s, seen). ?Q seen s) (\<lambda>_ _. True)"
  proof (rule hoare_scanWindows [OF batch rebuilding_frame [OF untouched.ctxErr_steps]])
    fix p q stop
    assume u: "p < n" "p < q" "\<And>u. u < q \<and> u < n \<longleftrightarrow> u < p \<or> p \<le> u \<and> u \<le> stop"
    show "hoare (?I p) (bindM (outer (call (src_FetchMetaRange (r_src R) p stop))) (\<lambda>metas.
        bindM (outer (recordAdditions R folder metas kindFor)) (\<lambda>_.
        bindM (modifyM (\<lambda>(s, seen). (s, seen \<union> key ` set metas))) (\<lambda>_.
        outer (progress R ''membership-rebuild'' item (uint stop)))))) (\<lambda>_. ?I q) (\<lambda>_ _. True)"
      unfolding key_def
    proof (rule hoare_bindM [OF rebuilding_fetch [OF listing]], rule hoare_pure, rule rebuilding_window)
      fix ms assume ms: "set ms = {m \<in> mailbox. p \<le> m_UID m \<and> m_UID m \<le> stop}" and p: "1 \<le> p"
      show "1 \<le> q" using p u(2) by simp
      show "keys_below (DedupKey (rt_sha256 (r_rt R))) mailbox n q =
          keys_below (DedupKey (rt_sha256 (r_rt R))) mailbox n p \<union> DedupKey (rt_sha256 (r_rt R)) ` set ms"
        by (rule keys_below_next [OF u(1) p u(3) ms])
    qed
  next
    fix p and x :: "'w st \<times> string set"
    assume "n \<le> p" and "?I p x"
    moreover have "keys_below key mailbox n p = keys_below key mailbox n n" using \<open>n \<le> p\<close> by (auto simp: keys_below_def)
    ultimately show "case x of (s, seen) \<Rightarrow> ?Q seen s" by (auto simp: rebuilding_def)
  qed
  then show "hoare (?I 1) ?scan (\<lambda>_ (s, seen). ?Q seen s) (\<lambda>_ (s, _). True)" by (rule hoare_conseq) auto
  show "?I 1 (s, {})" if "members_of s = before" for s using that by (auto simp: rebuilding_def keys_below_def)
qed

section \<open>The rebuild\<close>

text \<open>
  C17. When the rebuild of a watched folder succeeds, the stored members of the folder are exactly the
  keys of the messages that the source lists below UIDNEXT, however the two differed before; the members of the
  other folders are untouched, and the folder is marked as scanned up to UIDNEXT.
\<close>

theorem rebuild_mirrors_folder:
  assumes batch: "0 < (word_of_int (UIDBatch (r_opts R)) :: u32)"
      "unat n + unat (word_of_int (UIDBatch (r_opts R)) :: u32) \<le> 2 ^ 32"
    and listing: "\<And>a b. hoare (\<lambda>_. True) (src_FetchMetaRange (r_src R) a b)
      (\<lambda>ms _. set ms = {m \<in> mailbox. a \<le> m_UID m \<and> m_UID m \<le> b}) (\<lambda>_ _. True)"
  shows "hoare (\<lambda>s. bk_members (books_of (st_db s)) = before) (rebuildWatchedFolder R folder kind item v n)
    (\<lambda>_ s. bk_members (books_of (st_db s)) = {p \<in> before. fst p \<noteq> folder} \<union>
        {folder} \<times> DedupKey (rt_sha256 (r_rt R)) ` {m \<in> mailbox. 1 \<le> m_UID m \<and> m_UID m < n} \<and>
      folder_state (st_db s) folder = (v, max n 1 - 1)) (\<lambda>_ _. True)"
proof -
  let ?all = "keys_below (DedupKey (rt_sha256 (r_rt R))) mailbox n n"
  have all: "DedupKey (rt_sha256 (r_rt R)) ` {m \<in> mailbox. 1 \<le> m_UID m \<and> m_UID m < n} = ?all"
    by (auto simp: keys_below_def)
  have final: "before \<union> {folder} \<times> ?all - {folder} \<times> set (filter (\<lambda>k. k \<notin> ?all) ks) =
      {p \<in> before. fst p \<noteq> folder} \<union> {folder} \<times> ?all" if "set ks = {k. (folder, k) \<in> before}" for ks
    using that by auto
  show ?thesis
    unfolding rebuildWatchedFolder_def Let_def all
    by (rule hoare_bindM [OF members_keys], rule hoare_pure, rule hoare_bindM [OF rebuild_scan [OF batch listing]], rule hoare_pure',
      rule hoare_bindM [OF members_order], rule hoare_pure, rule hoare_bindM [OF members_removals], rule hoare_post [OF members_marked])
      (use final in simp)
qed

text \<open>A mailbox of two messages, whatever the rest of the reconciler is.\<close>

definition listed :: "MsgMeta list" where
  "listed = map (\<lambda>(u, mid). \<lparr> m_UID = u, m_MessageID = mid, m_From = [], m_Subject = [], m_InternalDate = 0, m_Size = 1,
     m_Flags = [] \<rparr>) [(1, ''<a>''), (5, ''<b>'')]"

definition listing :: "nat Reconciler \<Rightarrow> nat Reconciler" where
  "listing R = R\<lparr> r_opts := (r_opts R)\<lparr> UIDBatch := 100 \<rparr>,
     r_src := (r_src R)\<lparr> src_FetchMetaRange := (\<lambda>a b. returnM (filter (\<lambda>m. a \<le> m_UID m \<and> m_UID m \<le> b) listed)) \<rparr> \<rparr>"

theorem rebuild_mirrors_folder_witness:
  "\<forall>R. hoare (\<lambda>s. bk_members (books_of (st_db s)) = {(''Work'', ''<old>''), (''INBOX'', ''<a>'')})
     (rebuildWatchedFolder (listing R) ''Work'' [] ''Work 1/1'' 7 10)
     (\<lambda>_ s. bk_members (books_of (st_db s)) = {(''INBOX'', ''<a>''), (''Work'', ''<a>''), (''Work'', ''<b>'')}) (\<lambda>_ _. True)"
proof
  fix R :: "nat Reconciler"
  let ?mailbox = "set listed" and ?before = "{(''Work'', ''<old>''), (''INBOX'', ''<a>'')}"
  have fetch: "hoare (\<lambda>_. True) (src_FetchMetaRange (r_src (listing R)) a b)
      (\<lambda>ms _. set ms = {m \<in> ?mailbox. a \<le> m_UID m \<and> m_UID m \<le> b}) (\<lambda>_ _. True)" for a b
    by (simp add: listing_def hoare_def returnM_def)
  have trim: "TrimSpace ''<a>'' = ''<a>''" "TrimSpace ''<b>'' = ''<b>''"
    by (simp_all add: TrimSpace_def TrimFunc_def trim_segs_def byte_def IsSpace_def decode_ascii)
  have ks: "DedupKey f ` {m \<in> ?mailbox. 1 \<le> m_UID m \<and> m_UID m < 10} = {''<a>'', ''<b>''}" for f
  proof -
    have "{m \<in> ?mailbox. 1 \<le> m_UID m \<and> m_UID m < 10} = set listed" by (auto simp: listed_def)
    then show ?thesis by (simp add: listed_def DedupKey_real trim)
  qed
  have "{p \<in> ?before. fst p \<noteq> ''Work''} = {(''INBOX'', ''<a>'')}" by auto
  moreover have "{''Work''} \<times> {''<a>'', ''<b>''} = {(''Work'', ''<a>''), (''Work'', ''<b>'')}" by simp
  ultimately have result: "{p \<in> ?before. fst p \<noteq> ''Work''} \<union> {''Work''} \<times> {''<a>'', ''<b>''} =
      {(''INBOX'', ''<a>''), (''Work'', ''<a>''), (''Work'', ''<b>'')}"
    by (simp only: Un_insert_left Un_empty_left)
  have batch: "word_of_int (UIDBatch (r_opts (listing R))) = (100 :: u32)" by (simp add: listing_def)
  have "0 < (word_of_int (UIDBatch (r_opts (listing R))) :: u32)"
    and "unat (10 :: u32) + unat (word_of_int (UIDBatch (r_opts (listing R))) :: u32) \<le> 2 ^ 32"
    unfolding batch by simp_all
  note rebuild_mirrors_folder [OF this fetch, where before = "?before" and folder = "''Work''" and kind = "[]"
      and item = "''Work 1/1''" and v = 7, unfolded ks]
  then show "hoare (\<lambda>s. bk_members (books_of (st_db s)) = ?before) (rebuildWatchedFolder (listing R) ''Work'' [] ''Work 1/1'' 7 10)
     (\<lambda>_ s. bk_members (books_of (st_db s)) = {(''INBOX'', ''<a>''), (''Work'', ''<a>''), (''Work'', ''<b>'')}) (\<lambda>_ _. True)"
    by (rule hoare_post) (elim conjE, simp only: result)
qed

end
