(* ===== verification/Watch.thy ===== *)
theory Watch
  imports Rebuild
begin

text \<open>
  The membership scan of a folder as a refinement of the folder: the stored rows are its messages with
  their UIDs, and each scan brings them up to date, by the differences or by a rebuild.
\<close>

section \<open>The rows of a folder\<close>

definition rows :: "db \<Rightarrow> string \<Rightarrow> (u32 \<times> string) set" where
  "rows d folder = (\<lambda>q. (mr_uid q, mr_message_id q)) ` {q \<in> set (db_members d). mr_folder q = folder}"

lemma rows_upsert: "rows (sql_upsertMember f k u d) f = insert (u, k) {p \<in> rows d f. snd p \<noteq> k}"
proof (cases "\<exists>q \<in> set (db_members d). mr_folder q = f \<and> mr_message_id q = k")
  case True
  then obtain q where q: "q \<in> set (db_members d)" "mr_folder q = f" "mr_message_id q = k" by blast
  let ?g = "\<lambda>q. if mr_folder q = f \<and> mr_message_id q = k then q\<lparr> mr_uid := u \<rparr> else q"
  have "rows (sql_upsertMember f k u d) f = (\<lambda>q. (mr_uid (?g q), mr_message_id (?g q))) ` {q \<in> set (db_members d). mr_folder q = f}"
    using True by (auto simp: rows_def sql_upsertMember_def image_iff split: if_splits)
  also have "\<dots> = insert (u, k) {p \<in> rows d f. snd p \<noteq> k}" using q by (auto simp: rows_def image_iff split: if_splits)
  finally show ?thesis .
next
  case False
  then have "{p \<in> rows d f. snd p \<noteq> k} = rows d f" by (auto simp: rows_def)
  moreover have "rows (sql_upsertMember f k u d) f = insert (u, k) (rows d f)"
  proof -
    have "{q \<in> insert \<lparr> mr_folder = f, mr_message_id = k, mr_uid = u \<rparr> (set (db_members d)). mr_folder q = f} =
        insert \<lparr> mr_folder = f, mr_message_id = k, mr_uid = u \<rparr> {q \<in> set (db_members d). mr_folder q = f}" by auto
    moreover have "sql_upsertMember f k u d = d\<lparr> db_members := db_members d @ [\<lparr> mr_folder = f, mr_message_id = k, mr_uid = u \<rparr>] \<rparr>"
      unfolding sql_upsertMember_def using False by (rule if_not_P)
    ultimately show ?thesis by (simp add: rows_def)
  qed
  ultimately show ?thesis by simp
qed

lemma rows_delete: "rows (sql_deleteMember f k d) f = {p \<in> rows d f. snd p \<noteq> k}"
  by (auto simp: rows_def sql_deleteMember_def)

lemma rows_pending: "rows (sql_insertPending kind k g op d) f = rows d f"
  by (simp add: rows_def sql_insertPending_def)

lemma rows_change:
  "rows (apply_change f it d) f =
     (if mi_Add it then {(mi_UID it, mi_Key it)} else {}) \<union> {p \<in> rows d f. snd p \<noteq> mi_Key it}"
  by (auto simp: apply_change_def Let_def rows_upsert rows_delete rows_pending)

lemma folder_change: "folder_state (apply_change f it d) g = folder_state d g"
  by (simp add: apply_change_def Let_def folder_state_def sql_upsertMember_def sql_deleteMember_def sql_insertPending_def)

lemma folder_changes: "folder_state (fold (apply_change f) its d) g = folder_state d g"
  by (induction its arbitrary: d) (simp_all add: folder_change)

abbreviation entry :: "(MsgMeta \<Rightarrow> string) \<Rightarrow> MsgMeta \<Rightarrow> u32 \<times> string" where
  "entry key \<equiv> \<lambda>m. (m_UID m, key m)"

lemma rows_additions:
  assumes "inj_on key (set ms)"
  shows "rows (fold (apply_change f) (map (\<lambda>m. add_item (key m) (m_UID m) (kind m)) ms) d) f =
    {p \<in> rows d f. snd p \<notin> key ` set ms} \<union> entry key ` set ms"
  using assms
proof (induction ms arbitrary: d)
  case (Cons m ms)
  then show ?case by (auto simp: rows_change add_item_def inj_on_def)
qed simp

text \<open>Of two messages with one key only the later has a row.\<close>

lemma duplicates_collapse:
  assumes "key a = key b" and "m_UID a \<noteq> m_UID b"
  shows "rows (fold (apply_change f) (map (\<lambda>m. add_item (key m) (m_UID m) (kind m)) [a, b]) d) f =
    insert (m_UID b, key b) {p \<in> rows d f. snd p \<noteq> key b}"
  using assms by (auto simp: rows_change add_item_def)

lemma rows_removals:
  "rows (fold (apply_change f) (map (\<lambda>k. remove_item k (kind k)) ks) d) f = {p \<in> rows d f. snd p \<notin> set ks}"
  by (induction ks arbitrary: d) (auto simp: rows_change remove_item_def)

section \<open>Programs on the rows\<close>

lemma writes_db: "writes m g \<Longrightarrow> hoare (\<lambda>s. st_db s = d) m (\<lambda>_ s. st_db s = g d) (\<lambda>_ s. st_db s = d)"
  by (rule hoareI) (auto elim!: writes_cases)

lemma additions_db:
  "hoare (\<lambda>s. st_db s = d) (recordAdditions R folder metas kindFor)
     (\<lambda>_ s. st_db s = fold (apply_change folder) (map (\<lambda>m. add_item (DedupKey (rt_sha256 (r_rt R)) m) (m_UID m)
        (queued_kind d (DedupKey (rt_sha256 (r_rt R)) m) (kindFor (DedupKey (rt_sha256 (r_rt R)) m)))) metas) d) (\<lambda>_ s. st_db s = d)"
  unfolding recordAdditions_def Let_def
  by (rule hoare_bindM [OF hoare_collect [OF hoare_gatePending]], rule hoare_pure)
    (simp add: hoare_post [OF writes_db [OF writes_MemberChangeBatch]])

lemma removals_db:
  "hoare (\<lambda>s. st_db s = d) (recordRemovals R folder kind ks)
     (\<lambda>_ s. st_db s = fold (apply_change folder) (map (\<lambda>k. remove_item k (queued_kind d k kind)) ks) d) (\<lambda>_ s. st_db s = d)"
proof -
  have "hoare (\<lambda>s. st_db s = d) (bindM (ctxErr R) (\<lambda>_. gatePending R k kind))
      (\<lambda>a s. st_db s = d \<and> a = queued_kind d k kind) (\<lambda>_ s. st_db s = d)" for k
    by (rule hoare_bindM [OF ctxErr_keeps hoare_gatePending])
  from hoare_collect [OF this, where h = remove_item and items = "[]" and xs = ks]
  show ?thesis
    unfolding recordRemovals_def Let_def bindM_assoc
    by (rule hoare_bindM, intro hoare_pure) (simp add: hoare_post [OF writes_db [OF writes_MemberChangeBatch]])
qed

text \<open>The rows and the mark of the folder, while the world stays in \<open>Sel\<close>.\<close>

definition tracked :: "('w \<Rightarrow> bool) \<Rightarrow> string \<Rightarrow> (u32 \<times> string) set \<Rightarrow> u32 \<times> u32 \<Rightarrow> 'w st \<Rightarrow> bool" where
  "tracked Sel folder X Y s \<longleftrightarrow> Sel (st_world s) \<and> rows (st_db s) folder = X \<and> folder_state (st_db s) folder = Y"

abbreviation keeping :: "'w Reconciler \<Rightarrow> ('w \<Rightarrow> bool) \<Rightarrow> bool" where
  "keeping R Sel \<equiv> local_relation R (\<lambda>w w'. Sel w \<longrightarrow> Sel w') (\<lambda>s s'. Sel (st_world s) \<longrightarrow> Sel (st_world s'))"

lemma tracked_writes:
  assumes "steps (\<lambda>s s'. Sel (st_world s) \<longrightarrow> Sel (st_world s')) m"
    and "\<And>d. hoare (\<lambda>s. st_db s = d) m (\<lambda>_ s. st_db s = g d) (\<lambda>_ s. st_db s = d)"
    and "\<And>d. rows d folder = X \<Longrightarrow> folder_state d folder = Y \<Longrightarrow> rows (g d) folder = X' \<and> folder_state (g d) folder = Y'"
  shows "hoare (tracked Sel folder X Y) m (\<lambda>_. tracked Sel folder X' Y') (\<lambda>_ _. True)"
proof (rule hoareI)
  fix s a s'
  assume t: "tracked Sel folder X Y s" and m: "m s = Some (Inr a, s')"
  have "st_db s' = g (st_db s)" by (rule hoare_InrD [OF assms(2) refl m])
  moreover have "Sel (st_world s')" using stepsD [OF assms(1) m] t by (simp add: tracked_def)
  ultimately show "tracked Sel folder X' Y' s'" using t assms(3) by (simp add: tracked_def)
qed simp

lemma tracked_reads:
  assumes "steps (\<lambda>s s'. Sel (st_world s) \<longrightarrow> Sel (st_world s')) m" and "reads m f"
    and "\<And>d. rows d folder = X \<Longrightarrow> folder_state d folder = Y \<Longrightarrow> P (f d)"
  shows "hoare (tracked Sel folder X Y) m (\<lambda>a s. P a \<and> tracked Sel folder X Y s) (\<lambda>_ _. True)"
proof (rule hoareI)
  fix s a s'
  assume t: "tracked Sel folder X Y s" and m: "m s = Some (Inr a, s')"
  then have "a = f (st_db s)" and "st_db s' = st_db s" using assms(2) by (auto elim: reads_cases)
  moreover have "Sel (st_world s')" using stepsD [OF assms(1) m] t by (simp add: tracked_def)
  ultimately show "P a \<and> tracked Sel folder X Y s'" using t assms(3) by (simp add: tracked_def)
qed simp

lemma tracked_calm:
  assumes "steps (\<lambda>s s'. Sel (st_world s) \<longrightarrow> Sel (st_world s')) m" and "steps (\<lambda>s s'. st_db s' = st_db s) m"
  shows "hoare (tracked Sel folder X Y) m (\<lambda>_. tracked Sel folder X Y) (\<lambda>_ _. True)"
proof (rule hoareI)
  fix s a s'
  assume "tracked Sel folder X Y s" and m: "m s = Some (Inr a, s')"
  then show "tracked Sel folder X Y s'" using stepsD [OF assms(1) m] stepsD [OF assms(2) m] by (simp add: tracked_def)
qed simp

lemma tracked_additions:
  assumes "keeping R Sel" and "inj_on (DedupKey (rt_sha256 (r_rt R))) (set ms)"
  shows "hoare (tracked Sel folder X Y) (recordAdditions R folder ms kindFor)
    (\<lambda>_. tracked Sel folder ({p \<in> X. snd p \<notin> DedupKey (rt_sha256 (r_rt R)) ` set ms} \<union> entry (DedupKey (rt_sha256 (r_rt R))) ` set ms) Y)
    (\<lambda>_ _. True)"
  by (rule tracked_writes [OF local_relation.recordAdditions_steps [OF assms(1)] additions_db])
    (simp add: rows_additions [OF assms(2)] folder_changes)

lemma tracked_removals:
  assumes "keeping R Sel"
  shows "hoare (tracked Sel folder X Y) (recordRemovals R folder kind ks) (\<lambda>_. tracked Sel folder {p \<in> X. snd p \<notin> set ks} Y) (\<lambda>_ _. True)"
  by (rule tracked_writes [OF local_relation.recordRemovals_steps [OF assms(1)] removals_db]) (auto simp: rows_removals folder_changes)

lemma tracked_setFolder:
  assumes "keeping R Sel"
  shows "hoare (tracked Sel folder X Y) (SetFolderState (r_rt R) folder v u) (\<lambda>_. tracked Sel folder X (v, u)) (\<lambda>_ _. True)"
  by (rule tracked_writes [OF local_relation.store_steps(3) [OF assms] writes_db [OF writes_SetFolderState]])
    (auto simp: sql_setFolder_def folder_state_def rows_def update_conv')

lemma tracked_call:
  assumes "hoare P m Q (\<lambda>_ _. True)" and "\<And>w. Sel w \<Longrightarrow> P w" and "\<And>a w. Q a w \<Longrightarrow> Sel' w \<and> T a"
  shows "hoare (tracked Sel folder X Y) (call m) (\<lambda>a s. T a \<and> tracked Sel' folder X Y s) (\<lambda>_ _. True)"
  by (rule hoare_call) (use assms in \<open>fastforce simp: tracked_def dest: hoare_InrD\<close>)+

lemma tracked_FolderState:
  assumes "keeping R Sel"
  shows "hoare (tracked Sel folder X Y) (FolderState (r_rt R) folder) (\<lambda>a s. a = Y \<and> tracked Sel folder X Y s) (\<lambda>_ _. True)"
  by (rule tracked_reads [OF reading_relation.query_steps(6) [OF local_relation.axioms(1) [OF assms]] reads_FolderState]) simp

lemma map_of_uids:
  assumes "\<And>q q'. q \<in> set rs \<Longrightarrow> q' \<in> set rs \<Longrightarrow> mr_uid q = mr_uid q' \<Longrightarrow> mr_message_id q = mr_message_id q'"
  shows "map_of (fold (\<lambda>q m. AList.update (mr_uid q) (mr_message_id q) m) rs m) u = Some k \<longleftrightarrow>
    (\<exists>q \<in> set rs. mr_uid q = u \<and> mr_message_id q = k) \<or> (\<forall>q \<in> set rs. mr_uid q \<noteq> u) \<and> map_of m u = Some k"
  using assms
proof (induction rs arbitrary: m)
  case (Cons q rs)
  have IH: "map_of (fold (\<lambda>q m. AList.update (mr_uid q) (mr_message_id q) m) rs m') u = Some k \<longleftrightarrow>
    (\<exists>q \<in> set rs. mr_uid q = u \<and> mr_message_id q = k) \<or> (\<forall>q \<in> set rs. mr_uid q \<noteq> u) \<and> map_of m' u = Some k" for m'
    by (rule Cons.IH, rule Cons.prems) simp_all
  have same: "mr_message_id q' = mr_message_id q" if "q' \<in> set rs" "mr_uid q' = mr_uid q" for q'
    using that by (intro Cons.prems) simp_all
  have "map_of (fold (\<lambda>q m. AList.update (mr_uid q) (mr_message_id q) m) (q # rs) m) u = Some k \<longleftrightarrow>
      (\<exists>q \<in> set rs. mr_uid q = u \<and> mr_message_id q = k) \<or> (\<forall>q \<in> set rs. mr_uid q \<noteq> u) \<and>
        (if u = mr_uid q then mr_message_id q = k else map_of m u = Some k)"
    by (simp add: IH update_conv')
  also have "\<dots> \<longleftrightarrow> (\<exists>q \<in> set (q # rs). mr_uid q = u \<and> mr_message_id q = k) \<or>
      (\<forall>q \<in> set (q # rs). mr_uid q \<noteq> u) \<and> map_of m u = Some k"
  proof (cases "u = mr_uid q")
    case True
    have id: "mr_message_id x = mr_message_id q" if "x \<in> set rs" "mr_uid x = u" for x
      using same that True by blast
    have "(\<exists>x \<in> set rs. mr_uid x = u \<and> mr_message_id x = k) \<or> (\<forall>x \<in> set rs. mr_uid x \<noteq> u) \<and> mr_message_id q = k \<longleftrightarrow>
        mr_message_id q = k" using id by metis
    moreover have "(\<exists>x \<in> set (q # rs). mr_uid x = u \<and> mr_message_id x = k) \<longleftrightarrow> mr_message_id q = k"
      using id True by (metis list.set_intros(1) set_ConsD)
    moreover have "\<not> (\<forall>x \<in> set (q # rs). mr_uid x \<noteq> u)" using True by simp
    ultimately show ?thesis unfolding if_P [OF True] by blast
  next
    case False
    then have "mr_uid q \<noteq> u" by simp
    then have "(\<exists>x \<in> set (q # rs). mr_uid x = u \<and> mr_message_id x = k) \<longleftrightarrow> (\<exists>x \<in> set rs. mr_uid x = u \<and> mr_message_id x = k)"
      and "(\<forall>x \<in> set (q # rs). mr_uid x \<noteq> u) \<longleftrightarrow> (\<forall>x \<in> set rs. mr_uid x \<noteq> u)"
      unfolding list.simps(15) by blast+
    then show ?thesis unfolding if_not_P [OF False] by blast
  qed
  finally show ?case .
qed simp

lemma set_uid_map:
  assumes "\<And>q q'. q \<in> set rs \<Longrightarrow> q' \<in> set rs \<Longrightarrow> mr_uid q = mr_uid q' \<Longrightarrow> mr_message_id q = mr_message_id q'"
  shows "set (uid_map rs) = (\<lambda>q. (mr_uid q, mr_message_id q)) ` set rs"
proof -
  have "distinct (map fst (fold (\<lambda>q m. AList.update (mr_uid q) (mr_message_id q) m) rs m))" if "distinct (map fst m)" for m
    using that by (induction rs arbitrary: m) (simp_all add: distinct_update)
  then have "distinct (map fst (uid_map rs))" by (simp add: uid_map_def)
  then have "(u, k) \<in> set (uid_map rs) \<longleftrightarrow> (u, k) \<in> (\<lambda>q. (mr_uid q, mr_message_id q)) ` set rs" for u k
  proof -
    have "(u, k) \<in> set (uid_map rs) \<longleftrightarrow> map_of (uid_map rs) u = Some k"
      using \<open>distinct (map fst (uid_map rs))\<close> by (simp add: map_of_eq_Some_iff)
    also have "\<dots> \<longleftrightarrow> (\<exists>q \<in> set rs. mr_uid q = u \<and> mr_message_id q = k)"
      unfolding uid_map_def by (subst map_of_uids, rule assms) auto
    finally show ?thesis by (auto simp: image_iff)
  qed
  then show ?thesis by auto
qed

lemma tracked_MemberUIDKeys:
  assumes "keeping R Sel" and "inj_on fst X"
  shows "hoare (tracked Sel folder X Y) (MemberUIDKeys (r_rt R) folder)
    (\<lambda>m s. set m = {p \<in> X. 0 < fst p} \<and> tracked Sel folder X Y s) (\<lambda>_ _. True)"
proof (rule hoareI)
  fix s m s'
  assume t: "tracked Sel folder X Y s" and run: "MemberUIDKeys (r_rt R) folder s = Some (Inr m, s')"
  obtain rs where rs: "set rs = set (uid_rows (st_db s) folder)" "m = uid_map rs"
  proof -
    obtain r s1 where q: "sql_query (r_rt R) (\<lambda>d. uid_rows d folder) s = Some (r, s1)"
      using run by (cases "sql_query (r_rt R) (\<lambda>d. uid_rows d folder) s") (auto simp: MemberUIDKeys_def bindM_def)
    from reads_sql_query q show ?thesis
    proof (cases rule: reads_cases)
      case (failed e w)
      then show ?thesis using run q by (simp add: MemberUIDKeys_def bindM_def)
    next
      case (ok w)
      then show ?thesis
        using run q by (auto simp: MemberUIDKeys_def bindM_def go_order_def returnM_def split: prod.splits intro: that [OF set_in_order])
    qed
  qed
  have X: "rows (st_db s) folder = X" using t by (simp add: tracked_def)
  have "mr_message_id q = mr_message_id q'" if "q \<in> set rs" "q' \<in> set rs" "mr_uid q = mr_uid q'" for q q'
  proof -
    have "(mr_uid x, mr_message_id x) \<in> X" if "x \<in> set rs" for x
      unfolding X [symmetric] rows_def using that rs(1) by (intro image_eqI [of _ _ x]) (simp_all add: uid_rows_def)
    then have "(mr_uid q, mr_message_id q) \<in> X" "(mr_uid q', mr_message_id q') \<in> X" using that by blast+
    then show ?thesis using inj_onD [OF assms(2)] that(3) by fastforce
  qed
  from set_uid_map [of rs, OF this] have "set m = {p \<in> X. 0 < fst p}"
    using rs X by (auto simp: uid_rows_def rows_def image_iff)
  moreover have "tracked Sel folder X Y s'"
    using stepsD [OF reading_relation.MemberUIDKeys_steps [OF local_relation.axioms(1) [OF assms(1)]] run]
      stepsD [OF untouched.MemberUIDKeys_steps run] t by (simp add: tracked_def)
  ultimately show "set m = {p \<in> X. 0 < fst p} \<and> tracked Sel folder X Y s'" ..
qed simp

section \<open>A watched folder\<close>

text \<open>
  While the world is in \<open>Sel\<close>, the folder is selected and has the messages \<open>mailbox\<close>, all of them
  with UIDs below UIDNEXT and different keys.
\<close>

definition folder_served :: "'w Reconciler \<Rightarrow> ('w \<Rightarrow> bool) \<Rightarrow> string \<Rightarrow> MsgMeta set \<Rightarrow> u32 \<Rightarrow> u32 \<Rightarrow> bool" where
  "folder_served R Sel folder mailbox v n \<longleftrightarrow>
     hoare (\<lambda>_. True) (src_SelectNamedFolder (r_src R) folder) (\<lambda>r w. Sel w \<and> fst r = v \<and> fst (snd r) = n) (\<lambda>_ _. True) \<and>
     hoare Sel (src_SearchAllUIDs (r_src R)) (\<lambda>us w. Sel w \<and> set us = m_UID ` mailbox) (\<lambda>_ _. True) \<and>
     (\<forall>a b. hoare Sel (src_FetchMetaRange (r_src R) a b)
        (\<lambda>ms w. Sel w \<and> set ms = {m \<in> mailbox. a \<le> m_UID m \<and> m_UID m \<le> b}) (\<lambda>_ _. True))"

definition mailbox_ok :: "(MsgMeta \<Rightarrow> string) \<Rightarrow> MsgMeta set \<Rightarrow> u32 \<Rightarrow> bool" where
  "mailbox_ok key mailbox n \<longleftrightarrow> inj_on key mailbox \<and> inj_on m_UID mailbox \<and> 0 < n \<and> (\<forall>m \<in> mailbox. 0 < m_UID m \<and> m_UID m < n)"

text \<open>What a mailbox can become under the same UIDVALIDITY: new messages only get UIDs from UIDNEXT on.\<close>

definition later_mailbox :: "(MsgMeta \<Rightarrow> string) \<Rightarrow> MsgMeta set \<Rightarrow> u32 \<Rightarrow> MsgMeta set \<Rightarrow> u32 \<Rightarrow> bool" where
  "later_mailbox key old k mailbox n \<longleftrightarrow> k \<le> n \<and> (\<forall>m \<in> mailbox. m_UID m < k \<longrightarrow> entry key m \<in> entry key ` old)"

text \<open>The stored rows are the messages of the folder, and the stored mark has passed all of them.\<close>

definition mirrors_folder :: "'w Reconciler \<Rightarrow> string \<Rightarrow> MsgMeta set \<Rightarrow> u32 \<Rightarrow> u32 \<Rightarrow> db \<Rightarrow> bool" where
  "mirrors_folder R folder mailbox v n d \<longleftrightarrow> rows d folder = entry (DedupKey (rt_sha256 (r_rt R))) ` mailbox \<and>
     (\<exists>l < n. folder_state d folder = (v, l) \<and> (\<forall>m \<in> mailbox. m_UID m \<le> l))"

lemma add_window:
  assumes "inj_on key M" and "A \<subseteq> M" and "B \<subseteq> M" and "X = entry key ` A"
  shows "{p \<in> X. snd p \<notin> key ` B} \<union> entry key ` B = entry key ` (A \<union> B)"
proof -
  have keep: "entry key m \<in> entry key ` B" if "m \<in> A" "key m \<in> key ` B" for m
  proof -
    obtain m' where "m' \<in> B" "key m = key m'" using \<open>key m \<in> key ` B\<close> by blast
    then have "m = m'" using inj_onD [OF assms(1)] assms(2,3) \<open>m \<in> A\<close> by blast
    then show ?thesis using \<open>m' \<in> B\<close> by simp
  qed
  show ?thesis
    unfolding assms(4)
  proof (intro subset_antisym subsetI)
    fix x
    assume x: "x \<in> entry key ` (A \<union> B)"
    then consider m where "x = entry key m" "m \<in> A" | "x \<in> entry key ` B" by blast
    then show "x \<in> {p \<in> entry key ` A. snd p \<notin> key ` B} \<union> entry key ` B"
    proof cases
      case 1
      then show ?thesis using keep [of m] by (cases "key m \<in> key ` B") simp_all
    qed blast
  qed blast
qed

section \<open>The rebuild\<close>

lemma tracked_MemberKeys:
  assumes "keeping R Sel"
  shows "hoare (tracked Sel folder X Y) (MemberKeys (r_rt R) folder) (\<lambda>a s. set a = snd ` X \<and> tracked Sel folder X Y s) (\<lambda>_ _. True)"
  by (rule tracked_reads [OF reading_relation.query_steps(4) [OF local_relation.axioms(1) [OF assms]] reads_MemberKeys])
    (auto simp: member_keys_def rows_def image_iff)

lemma tracked_go_order:
  assumes "keeping R Sel"
  shows "hoare (tracked Sel folder X Y) (go_order (r_rt R) xs) (\<lambda>a s. set a = set xs \<and> tracked Sel folder X Y s) (\<lambda>_ _. True)"
proof -
  have "hoare (\<lambda>_. True) (go_order (r_rt R) xs) (\<lambda>a _. set a = set xs) (\<lambda>_ _. True)"
    by (rule hoareI) (auto simp: go_order_def split: prod.splits)
  from hoare_conj [OF this tracked_calm [OF reading_relation.go_order_steps [OF local_relation.axioms(1) [OF assms]] untouched.go_order_steps]]
  show ?thesis by (rule hoare_conseq) auto
qed

lemma tracked_progress:
  assumes "keeping R Sel"
  shows "hoare (tracked Sel folder X Y) (progress R ph item i) (\<lambda>_. tracked Sel folder X Y) (\<lambda>_ _. True)"
  by (rule tracked_calm [OF reading_relation.progress_steps [OF local_relation.axioms(1) [OF assms]] untouched.progress_steps])

lemma tracked_ctxErr:
  assumes "keeping R Sel"
  shows "hoare (tracked Sel folder X Y) (ctxErr R) (\<lambda>_. tracked Sel folder X Y) (\<lambda>_ _. True)"
  by (rule tracked_calm [OF reading_relation.ctxErr_steps [OF local_relation.axioms(1) [OF assms]] untouched.ctxErr_steps])

text \<open>The messages of a window join those before it.\<close>

definition below :: "MsgMeta set \<Rightarrow> u32 \<Rightarrow> MsgMeta set" where
  "below M p = {m \<in> M. m_UID m < p}"

lemma below_window:
  assumes "mailbox_ok key M n" and "p < n" and "\<And>u. u < q \<and> u < n \<longleftrightarrow> u < p \<or> p \<le> u \<and> u \<le> stop"
  shows "below M q = below M p \<union> {m \<in> M. p \<le> m_UID m \<and> m_UID m \<le> stop}"
  using assms unfolding below_def mailbox_ok_def by blast

lemma below_all: "mailbox_ok key M n \<Longrightarrow> n \<le> p \<Longrightarrow> below M p = M"
  by (auto simp: below_def mailbox_ok_def dest: order.strict_trans2)

lemma rebuilt_window:
  assumes "mailbox_ok key M n" and "below M q = below M p \<union> B"
  shows "{x \<in> {x \<in> X. snd x \<notin> key ` below M p} \<union> entry key ` below M p. snd x \<notin> key ` B} \<union> entry key ` B =
    {x \<in> X. snd x \<notin> key ` below M q} \<union> entry key ` below M q"
proof -
  have sub: "below M p \<subseteq> M" "B \<subseteq> M" using assms(2) by (auto simp: below_def)
  have "{x \<in> entry key ` below M p. snd x \<notin> key ` B} \<union> entry key ` B = entry key ` below M q"
    unfolding assms(2) using assms(1) by (intro add_window [OF _ sub]) (simp_all add: mailbox_ok_def)
  moreover have "{x \<in> X. snd x \<notin> key ` below M q} = {x \<in> {x \<in> X. snd x \<notin> key ` below M p}. snd x \<notin> key ` B}"
    unfolding assms(2) by blast
  ultimately show ?thesis by blast
qed

lemma outer_tracked:
  assumes "hoare (tracked Sel folder X Y) m (\<lambda>a s. T a \<and> tracked Sel' folder X' Y' s) (\<lambda>_ _. True)"
  shows "hoare (\<lambda>(s, l). P l \<and> tracked Sel folder X Y s) (outer m) (\<lambda>a (s, l). T a \<and> P l \<and> tracked Sel' folder X' Y' s) (\<lambda>_ _. True)"
  by (rule hoare_outer, rule hoareI) (use hoare_InrD [OF assms] in auto)

lemma tracked_fetch:
  assumes "hoare Sel (src_FetchMetaRange (r_src R) a b) (\<lambda>ms w. Sel w \<and> set ms = B) (\<lambda>_ _. True)"
  shows "hoare (tracked Sel folder X Y) (call (src_FetchMetaRange (r_src R) a b)) (\<lambda>ms s. set ms = B \<and> tracked Sel folder X Y s) (\<lambda>_ _. True)"
  by (rule tracked_call [OF assms]) auto

lemma last_uid:
  fixes n u :: u32
  assumes "0 < n"
  shows "n - 1 < n" and "u < n \<Longrightarrow> u \<le> n - 1"
proof -
  have one: "unat (n - 1) = unat n - 1" using assms by (intro unat_minus_one) auto
  have "0 < unat n" using assms by (simp add: word_less_nat_alt)
  then show "n - 1 < n" and "u < n \<Longrightarrow> u \<le> n - 1" unfolding word_less_nat_alt word_le_nat_alt one by simp_all
qed

text \<open>
  The rows and the keys seen when the windows up to \<open>p\<close> have been recorded, and what is done with the
  messages of a window.
\<close>

definition rebuilding :: "('w \<Rightarrow> bool) \<Rightarrow> string \<Rightarrow> (u32 \<times> string) set \<Rightarrow> u32 \<times> u32 \<Rightarrow> (MsgMeta \<Rightarrow> string) \<Rightarrow> MsgMeta set \<Rightarrow> u32 \<Rightarrow>
    'w st \<times> string set \<Rightarrow> bool" where
  "rebuilding Sel folder X Y key mailbox p = (\<lambda>(s, seen). (1 \<le> p \<and> seen = key ` below mailbox p) \<and>
     tracked Sel folder ({x \<in> X. snd x \<notin> key ` below mailbox p} \<union> entry key ` below mailbox p) Y s)"

abbreviation rebuild_body :: "'w Reconciler \<Rightarrow> string \<Rightarrow> string \<Rightarrow> (string \<Rightarrow> string) \<Rightarrow> u32 \<Rightarrow> MsgMeta list \<Rightarrow> ('w st \<times> string set, unit) prog" where
  "rebuild_body R folder item kindFor stop metas \<equiv>
     bindM (outer (recordAdditions R folder metas kindFor)) (\<lambda>_.
     bindM (modifyM (\<lambda>(s, seen). (s, seen \<union> DedupKey (rt_sha256 (r_rt R)) ` set metas))) (\<lambda>_.
     outer (progress R ''membership-rebuild'' item (uint stop))))"

lemma rebuilding_calm:
  assumes "\<And>X. hoare (tracked Sel folder X Y) m (\<lambda>_. tracked Sel folder X Y) (\<lambda>_ _. True)"
  shows "hoare (rebuilding Sel folder X Y key mailbox p) (outer m) (\<lambda>_. rebuilding Sel folder X Y key mailbox p) (\<lambda>_ _. True)"
  unfolding rebuilding_def by (rule hoare_post [OF outer_tracked [where T = "\<lambda>_. True"]]) (use assms in auto)

lemma rebuild_window:
  fixes R :: "'w Reconciler"
  assumes keep: "keeping R Sel"
    and listing: "\<And>a b. hoare Sel (src_FetchMetaRange (r_src R) a b) (\<lambda>ms w. Sel w \<and> set ms = {m \<in> mailbox. a \<le> m_UID m \<and> m_UID m \<le> b}) (\<lambda>_ _. True)"
    and ok: "mailbox_ok (DedupKey (rt_sha256 (r_rt R))) mailbox n"
    and p: "p < n" "p < q" and u: "\<And>u. u < q \<and> u < n \<longleftrightarrow> u < p \<or> p \<le> u \<and> u \<le> stop"
  shows "hoare (rebuilding Sel folder X Y (DedupKey (rt_sha256 (r_rt R))) mailbox p)
    (bindM (outer (call (src_FetchMetaRange (r_src R) p stop))) (rebuild_body R folder item kindFor stop))
    (\<lambda>_. rebuilding Sel folder X Y (DedupKey (rt_sha256 (r_rt R))) mailbox q) (\<lambda>_ _. True)"
proof (rule hoare_bindM)
  let ?key = "DedupKey (rt_sha256 (r_rt R))"
  let ?I = "rebuilding Sel folder X Y ?key mailbox"
  have inj: "inj_on ?key mailbox" using ok by (simp add: mailbox_ok_def)
  let ?B = "{m \<in> mailbox. p \<le> m_UID m \<and> m_UID m \<le> stop}"
  show "hoare (?I p) (outer (call (src_FetchMetaRange (r_src R) p stop))) (\<lambda>ms x. set ms = ?B \<and> ?I p x) (\<lambda>_ _. True)"
    unfolding rebuilding_def by (rule hoare_post [OF outer_tracked [OF tracked_fetch [OF listing]]]) auto
  fix ms
  show "hoare (\<lambda>x. set ms = ?B \<and> ?I p x) (rebuild_body R folder item kindFor stop ms) (\<lambda>_. ?I q) (\<lambda>_ _. True)"
  proof (rule hoare_pure')
    assume B: "set ms = ?B"
    have q: "below mailbox q = below mailbox p \<union> set ms" unfolding B by (rule below_window [OF ok p(1) u])
    have "inj_on ?key (set ms)" using inj by (rule inj_on_subset) (auto simp: B)
    note add = tracked_additions [OF keep this, where folder = folder and Y = Y and kindFor = kindFor
        and X = "{x \<in> X. snd x \<notin> ?key ` below mailbox p} \<union> entry ?key ` below mailbox p", unfolded rebuilt_window [OF ok q]]
    have "hoare (?I p) (outer (recordAdditions R folder ms kindFor))
      (\<lambda>_ (s, seen). seen = ?key ` below mailbox p \<and>
        tracked Sel folder ({x \<in> X. snd x \<notin> ?key ` below mailbox q} \<union> entry ?key ` below mailbox q) Y s) (\<lambda>_ _. True)"
      unfolding rebuilding_def by (rule hoare_post [OF outer_tracked [OF hoare_post [OF add], where T = "\<lambda>_. True"]]) auto
    moreover have "hoare (\<lambda>(s, seen). seen = ?key ` below mailbox p \<and>
        tracked Sel folder ({x \<in> X. snd x \<notin> ?key ` below mailbox q} \<union> entry ?key ` below mailbox q) Y s)
      (modifyM (\<lambda>(s, seen). (s, seen \<union> ?key ` set ms))) (\<lambda>_. ?I q) (\<lambda>_ _. True)"
    proof (rule hoareI)
      fix x :: "'w st \<times> string set" and a x'
      assume "case x of (s, seen) \<Rightarrow> seen = ?key ` below mailbox p \<and>
        tracked Sel folder ({x \<in> X. snd x \<notin> ?key ` below mailbox q} \<union> entry ?key ` below mailbox q) Y s"
        and "modifyM (\<lambda>(s, seen). (s, seen \<union> ?key ` set ms)) x = Some (Inr a, x')"
      moreover have "1 \<le> q" using p(2) by unat_arith
      moreover have "?key ` below mailbox q = ?key ` below mailbox p \<union> ?key ` set ms" unfolding q by (rule image_Un)
      ultimately show "?I q x'" by (cases x, cases x') (simp add: modifyM_def rebuilding_def del: Un_iff mem_Collect_eq)
    qed simp
    ultimately show "hoare (?I p) (rebuild_body R folder item kindFor stop ms) (\<lambda>_. ?I q) (\<lambda>_ _. True)"
      by (rule hoare_bindM [OF _ hoare_bindM [OF _ rebuilding_calm [OF tracked_progress [OF keep]]]])
  qed
qed

lemma rebuild_collects:
  fixes R :: "'w Reconciler"
  assumes keep: "keeping R Sel"
    and batch: "0 < (word_of_int (UIDBatch (r_opts R)) :: u32)" "unat n + unat (word_of_int (UIDBatch (r_opts R)) :: u32) \<le> 2 ^ 32"
    and listing: "\<And>a b. hoare Sel (src_FetchMetaRange (r_src R) a b) (\<lambda>ms w. Sel w \<and> set ms = {m \<in> mailbox. a \<le> m_UID m \<and> m_UID m \<le> b}) (\<lambda>_ _. True)"
    and ok: "mailbox_ok (DedupKey (rt_sha256 (r_rt R))) mailbox n"
  shows "hoare (tracked Sel folder X Y) (withVars {} (scanWindows (r_opts R) (outer (ctxErr R)) 1 n
      (\<lambda>start stop. outer (call (src_FetchMetaRange (r_src R) start stop))) (rebuild_body R folder item kindFor)))
    (\<lambda>seen s. seen = (DedupKey (rt_sha256 (r_rt R))) ` mailbox \<and>
      tracked Sel folder ({x \<in> X. snd x \<notin> (DedupKey (rt_sha256 (r_rt R))) ` mailbox} \<union> entry (DedupKey (rt_sha256 (r_rt R))) ` mailbox) Y s) (\<lambda>_ _. True)"
proof (rule hoare_withVars)
  let ?key = "DedupKey (rt_sha256 (r_rt R))"
  let ?I = "rebuilding Sel folder X Y ?key mailbox"
  have "hoare (?I 1) (scanWindows (r_opts R) (outer (ctxErr R)) 1 n
      (\<lambda>start stop. outer (call (src_FetchMetaRange (r_src R) start stop))) (rebuild_body R folder item kindFor))
    (\<lambda>_ (s, seen). seen = ?key ` mailbox \<and> tracked Sel folder ({x \<in> X. snd x \<notin> ?key ` mailbox} \<union> entry ?key ` mailbox) Y s) (\<lambda>_ _. True)"
  proof (rule hoare_scanWindows [OF batch rebuilding_calm [OF tracked_ctxErr [OF keep]] rebuild_window [OF keep listing ok]], assumption+)
    fix p and x :: "'w st \<times> string set"
    assume "n \<le> p" and "?I p x"
    then show "case x of (s, seen) \<Rightarrow> seen = ?key ` mailbox \<and> tracked Sel folder ({x \<in> X. snd x \<notin> ?key ` mailbox} \<union> entry ?key ` mailbox) Y s"
      using below_all [OF ok] by (cases x) (simp add: rebuilding_def)
  qed
  then show "hoare (?I 1) (scanWindows (r_opts R) (outer (ctxErr R)) 1 n
      (\<lambda>start stop. outer (call (src_FetchMetaRange (r_src R) start stop))) (rebuild_body R folder item kindFor))
    (\<lambda>_ (s, seen). seen = ?key ` mailbox \<and> tracked Sel folder ({x \<in> X. snd x \<notin> ?key ` mailbox} \<union> entry ?key ` mailbox) Y s) (\<lambda>_ (s, _). True)"
    by (rule hoare_conseq) auto
  have "below mailbox 1 = {}" using ok by (auto simp: below_def mailbox_ok_def word_less_nat_alt)
  then show "?I 1 (s, {})" if "tracked Sel folder X Y s" for s using that by (simp add: rebuilding_def)
qed

lemma rebuild_rows:
  assumes keep: "keeping R Sel"
    and batch: "0 < (word_of_int (UIDBatch (r_opts R)) :: u32)" "unat n + unat (word_of_int (UIDBatch (r_opts R)) :: u32) \<le> 2 ^ 32"
    and listing: "\<And>a b. hoare Sel (src_FetchMetaRange (r_src R) a b) (\<lambda>ms w. Sel w \<and> set ms = {m \<in> mailbox. a \<le> m_UID m \<and> m_UID m \<le> b}) (\<lambda>_ _. True)"
    and ok: "mailbox_ok (DedupKey (rt_sha256 (r_rt R))) mailbox n"
  shows "hoare (tracked Sel folder X Y) (rebuildWatchedFolder R folder kind item v n)
    (\<lambda>_ s. mirrors_folder R folder mailbox v n (st_db s)) (\<lambda>_ _. True)"
proof -
  let ?key = "DedupKey (rt_sha256 (r_rt R))"
  have final: "{p \<in> {x \<in> X. snd x \<notin> ?key ` mailbox} \<union> entry ?key ` mailbox. snd p \<notin> set (filter (\<lambda>k. k \<notin> ?key ` mailbox) ks)} = entry ?key ` mailbox"
    if "set ks = snd ` X" for ks
    using that by auto
  have mark: "n - 1 < n" "m \<in> mailbox \<Longrightarrow> m_UID m \<le> n - 1" for m
    using ok last_uid [of n] by (auto simp: mailbox_ok_def)
  have "1 \<le> n" using ok by (simp add: mailbox_ok_def word_le_nat_alt word_less_nat_alt)
  then have max: "max n 1 = n" by (rule max_absorb1)
  have marked: "hoare (tracked Sel folder (entry ?key ` mailbox) Y) (SetFolderState (r_rt R) folder v (n - 1))
      (\<lambda>_ s. mirrors_folder R folder mailbox v n (st_db s)) (\<lambda>_ _. True)"
    by (rule hoare_post [OF tracked_setFolder [OF keep]]) (use mark in \<open>auto simp: tracked_def mirrors_folder_def\<close>)
  show ?thesis
    unfolding rebuildWatchedFolder_def Let_def max
  proof (rule hoare_bindM [OF tracked_MemberKeys [OF keep]], rule hoare_pure', rule hoare_bindM [OF rebuild_collects [OF keep batch listing ok]], rule hoare_pure',
      rule hoare_bindM [OF tracked_go_order [OF keep]], rule hoare_pure')
    fix storedKeys seen ks
    assume a: "set storedKeys = snd ` X" "seen = ?key ` mailbox" "set ks = set storedKeys"
    note remove = tracked_removals [OF keep, where ks = "filter (\<lambda>key. key \<notin> seen) ks" and kind = kind
          and X = "{x \<in> X. snd x \<notin> ?key ` mailbox} \<union> entry ?key ` mailbox" and Y = Y and folder = folder]
    show "hoare (tracked Sel folder ({x \<in> X. snd x \<notin> ?key ` mailbox} \<union> entry ?key ` mailbox) Y)
      (bindM (recordRemovals R folder kind (filter (\<lambda>key. key \<notin> seen) ks)) (\<lambda>_. SetFolderState (r_rt R) folder v (n - 1)))
      (\<lambda>_ s. mirrors_folder R folder mailbox v n (st_db s)) (\<lambda>_ _. True)"
      by (rule hoare_bindM [OF remove]) (use marked final [of ks] a in simp)
  qed
qed

section \<open>The differences\<close>

text \<open>The rows that stay after the removals are those of the messages up to the mark.\<close>

lemma remaining_rows:
  assumes ok: "mailbox_ok key old k" "mailbox_ok key M n" and later: "later_mailbox key old k M n"
    and ks: "set ks = snd ` {p \<in> entry key ` old. fst p \<notin> m_UID ` M}"
    and l: "\<And>m. m \<in> old \<Longrightarrow> m_UID m \<le> l" "l < k"
  shows "{p \<in> entry key ` old. snd p \<notin> set ks} = entry key ` {m \<in> M. m_UID m \<le> l}"
proof (intro subset_antisym subsetI)
  fix x
  assume x: "x \<in> {p \<in> entry key ` old. snd p \<notin> set ks}"
  then obtain m where m: "m \<in> old" "x = entry key m" by blast
  then obtain m' where m': "m' \<in> M" "m_UID m' = m_UID m" using x by (auto simp: ks image_iff)
  have "m_UID m' < k" using l m m' by (auto dest: order.strict_trans1)
  then obtain m'' where "m'' \<in> old" "entry key m' = entry key m''" using later m'(1) by (auto simp: later_mailbox_def)
  then have "m'' = m" using ok(1) m m' inj_onD [of m_UID old m'' m] by (simp add: mailbox_ok_def)
  then show "x \<in> entry key ` {m \<in> M. m_UID m \<le> l}"
    using m m' l(1) [OF m(1)] \<open>entry key m' = entry key m''\<close> by (intro image_eqI [of _ _ m']) simp_all
next
  fix x
  assume "x \<in> entry key ` {m \<in> M. m_UID m \<le> l}"
  then obtain m where m: "m \<in> M" "m_UID m \<le> l" "x = entry key m" by blast
  then have "m_UID m < k" using l(2) by simp
  then have "x \<in> entry key ` old" using later m by (auto simp: later_mailbox_def)
  moreover have "snd x \<notin> set ks"
  proof
    assume "snd x \<in> set ks"
    then obtain m' where m': "m' \<in> old" "key m' = key m" "m_UID m' \<notin> m_UID ` M" by (auto simp: ks m(3))
    obtain m'' where m'': "m'' \<in> old" "key m'' = key m" "m_UID m'' = m_UID m" using \<open>x \<in> entry key ` old\<close> m(3) by auto
    have "inj_on key old" using ok(1) by (simp add: mailbox_ok_def)
    then have "m'' = m'" using m''(1,2) m'(1,2) by (simp add: inj_on_def)
    then show False using m'(3) m(1) m''(3) by simp
  qed
  ultimately show "x \<in> {p \<in> entry key ` old. snd p \<notin> set ks}" by simp
qed

text \<open>The two phases of \<open>syncWatchedFolder\<close> when the UIDVALIDITY is the stored one.\<close>

abbreviation scan_from :: "'w Reconciler \<Rightarrow> string \<Rightarrow> string \<Rightarrow> string \<Rightarrow> u32 \<Rightarrow> u32 \<Rightarrow> u32 \<Rightarrow> ('w st, unit) prog" where
  "scan_from R folder kind item v n l \<equiv>
     scanWindows (r_opts R) (ctxErr R) (l + 1) n (\<lambda>start stop. call (src_FetchMetaRange (r_src R) start stop))
       (\<lambda>stop metas. bindM (recordAdditions R folder metas (\<lambda>_. kind)) (\<lambda>_.
          bindM (SetFolderState (r_rt R) folder v stop) (\<lambda>_. progress R ''membership'' item (uint stop))))"

abbreviation scan_differences :: "'w Reconciler \<Rightarrow> string \<Rightarrow> string \<Rightarrow> string \<Rightarrow> u32 \<Rightarrow> u32 \<Rightarrow> u32 \<Rightarrow> ('w st, unit) prog" where
  "scan_differences R folder kind item v n l \<equiv>
     bindM (call (src_SearchAllUIDs (r_src R))) (\<lambda>currentUIDs.
     bindM (MemberUIDKeys (r_rt R) folder) (\<lambda>stored.
     bindM (go_order (r_rt R) stored) (\<lambda>entries.
     bindM (recordRemovals R folder kind (map snd (filter (\<lambda>p. fst p \<notin> set currentUIDs) entries))) (\<lambda>_.
     scan_from R folder kind item v n l))))"

text \<open>The windows above the mark, while it is known that nothing lies between the mark and the first of them.\<close>

text \<open>The rows when the windows up to \<open>p\<close> have been recorded, with a mark that is not past them.\<close>

definition adding :: "('w \<Rightarrow> bool) \<Rightarrow> string \<Rightarrow> (MsgMeta \<Rightarrow> string) \<Rightarrow> MsgMeta set \<Rightarrow> u32 \<Rightarrow> u32 \<Rightarrow> u32 \<Rightarrow> 'w st \<Rightarrow> bool" where
  "adding Sel folder key M n v p s \<longleftrightarrow>
     (\<exists>u < n. (\<forall>m \<in> below M p. m_UID m \<le> u) \<and> tracked Sel folder (entry key ` below M p) (v, u) s)"

lemma scan_window:
  fixes R :: "'w Reconciler"
  assumes keep: "keeping R Sel"
    and listing: "\<And>a b. hoare Sel (src_FetchMetaRange (r_src R) a b) (\<lambda>ms w. Sel w \<and> set ms = {m \<in> M. a \<le> m_UID m \<and> m_UID m \<le> b}) (\<lambda>_ _. True)"
    and ok: "mailbox_ok (DedupKey (rt_sha256 (r_rt R))) M n"
    and p: "p < n" "p < q" and u: "\<And>u. u < q \<and> u < n \<longleftrightarrow> u < p \<or> p \<le> u \<and> u \<le> stop"
  shows "hoare (adding Sel folder (DedupKey (rt_sha256 (r_rt R))) M n v p) (bindM (call (src_FetchMetaRange (r_src R) p stop))
      (\<lambda>metas. bindM (recordAdditions R folder metas (\<lambda>_. kind)) (\<lambda>_.
          bindM (SetFolderState (r_rt R) folder v stop) (\<lambda>_. progress R ''membership'' item (uint stop)))))
    (\<lambda>_. adding Sel folder (DedupKey (rt_sha256 (r_rt R))) M n v q) (\<lambda>_ _. True)"
proof -
  let ?key = "DedupKey (rt_sha256 (r_rt R))"
  let ?I = "adding Sel folder ?key M n v"
  have inj: "inj_on ?key M" using ok by (simp add: mailbox_ok_def)
  let ?B = "{m \<in> M. p \<le> m_UID m \<and> m_UID m \<le> stop}"
  have q: "below M q = below M p \<union> ?B" by (rule below_window [OF ok p(1) u])
  have "p \<le> stop" and stop: "stop < n" using u [of p] u [of stop] p by auto
  have up: "m_UID m \<le> stop" if "m \<in> below M q" for m
  proof -
    have "m_UID m < p \<or> m_UID m \<le> stop" using that unfolding q by (auto simp: below_def)
    then show ?thesis using \<open>p \<le> stop\<close> by (meson less_le_trans less_imp_le)
  qed
  have fetch: "hoare (tracked Sel folder (entry ?key ` below M p) (v, w)) (call (src_FetchMetaRange (r_src R) p stop))
      (\<lambda>ms s. set ms = ?B \<and> tracked Sel folder (entry ?key ` below M p) (v, w) s) (\<lambda>_ _. True)" for w
    by (rule tracked_fetch [OF listing])
  have add: "hoare (tracked Sel folder (entry ?key ` below M p) (v, w)) (recordAdditions R folder ms (\<lambda>_. kind))
      (\<lambda>_. tracked Sel folder (entry ?key ` below M q) (v, w)) (\<lambda>_ _. True)" if "set ms = ?B" for ms w
  proof -
    have i: "inj_on ?key (set ms)" using inj by (rule inj_on_subset) (auto simp: that)
    have e: "{x \<in> entry ?key ` below M p. snd x \<notin> ?key ` set ms} \<union> entry ?key ` set ms = entry ?key ` below M q"
      unfolding q that by (rule add_window [OF inj]) (auto simp: below_def)
    show ?thesis by (rule tracked_additions [OF keep i, where X = "entry ?key ` below M p", unfolded e])
  qed
  have marked: "hoare (tracked Sel folder (entry ?key ` below M q) (v, w))
      (bindM (SetFolderState (r_rt R) folder v stop) (\<lambda>_. progress R ''membership'' item (uint stop)))
      (\<lambda>_. tracked Sel folder (entry ?key ` below M q) (v, stop)) (\<lambda>_ _. True)" for w
    by (rule hoare_bindM [OF tracked_setFolder [OF keep] tracked_progress [OF keep]])
  have body: "hoare (tracked Sel folder (entry ?key ` below M p) (v, w)) (bindM (call (src_FetchMetaRange (r_src R) p stop))
    (\<lambda>metas. bindM (recordAdditions R folder metas (\<lambda>_. kind)) (\<lambda>_.
        bindM (SetFolderState (r_rt R) folder v stop) (\<lambda>_. progress R ''membership'' item (uint stop)))))
    (\<lambda>_. ?I q) (\<lambda>_ _. True)" for w
  proof (rule hoare_bindM [OF fetch], rule hoare_pure', rule hoare_bindM [OF add], assumption, rule hoare_post [OF marked])
    show "?I q s" if "tracked Sel folder (entry ?key ` below M q) (v, stop) s" for s
      unfolding adding_def using that stop up by blast
  qed
  show ?thesis
  proof (rule hoareI)
    fix s a s'
    assume "?I p s" and run: "bindM (call (src_FetchMetaRange (r_src R) p stop)) (\<lambda>metas. bindM (recordAdditions R folder metas (\<lambda>_. kind)) (\<lambda>_.
        bindM (SetFolderState (r_rt R) folder v stop) (\<lambda>_. progress R ''membership'' item (uint stop)))) s = Some (Inr a, s')"
    then obtain w where "tracked Sel folder (entry ?key ` below M p) (v, w) s" by (auto simp: adding_def)
    from hoare_InrD [OF body this run] show "?I q s'" .
  qed simp
qed

lemma scan_additions:
  fixes R :: "'w Reconciler"
  assumes keep: "keeping R Sel"
    and batch: "0 < (word_of_int (UIDBatch (r_opts R)) :: u32)" "unat n + unat (word_of_int (UIDBatch (r_opts R)) :: u32) \<le> 2 ^ 32"
    and listing: "\<And>a b. hoare Sel (src_FetchMetaRange (r_src R) a b) (\<lambda>ms w. Sel w \<and> set ms = {m \<in> M. a \<le> m_UID m \<and> m_UID m \<le> b}) (\<lambda>_ _. True)"
    and ok: "mailbox_ok (DedupKey (rt_sha256 (r_rt R))) M n" and l: "l < n"
  shows "hoare (tracked Sel folder (entry (DedupKey (rt_sha256 (r_rt R))) ` {m \<in> M. m_UID m \<le> l}) (v, l))
    (scan_from R folder kind item v n l)
    (\<lambda>_ s. mirrors_folder R folder M v n (st_db s)) (\<lambda>_ _. True)"
proof -
  let ?key = "DedupKey (rt_sha256 (r_rt R))"
  let ?I = "adding Sel folder ?key M n v"
  have succ: "x < l + 1 \<longleftrightarrow> x \<le> l" for x :: u32
  proof -
    have "unat l < unat n" "unat n < 2 ^ 32" using l unsigned_less [of n] by (simp_all add: word_less_nat_alt)
    then have "unat l + unat (1 :: u32) < 2 ^ LENGTH(32)" by simp
    then have "unat (l + 1) = unat l + unat (1 :: u32)" by (rule unat_add_lem [THEN iffD1])
    then show ?thesis by (simp add: word_less_nat_alt word_le_nat_alt less_Suc_eq_le)
  qed
  have calm: "hoare (?I p) m (\<lambda>_. ?I p) (\<lambda>_ _. True)"
    if "\<And>X Y. hoare (tracked Sel folder X Y) m (\<lambda>_. tracked Sel folder X Y) (\<lambda>_ _. True)" for p and m :: "('w st, unit) prog"
    by (rule hoareI) (auto simp: adding_def dest: hoare_InrD [OF that])
  have "hoare (?I (l + 1)) (scan_from R folder kind item v n l)
    (\<lambda>_ s. mirrors_folder R folder M v n (st_db s)) (\<lambda>_ _. True)"
  proof (rule hoare_scanWindows [OF batch calm [OF tracked_ctxErr [OF keep]] scan_window [OF keep listing ok]], assumption+)
    fix p and s :: "'w st"
    assume "n \<le> p" and "?I p s"
    then show "mirrors_folder R folder M v n (st_db s)"
      using below_all [OF ok] by (auto simp: adding_def mirrors_folder_def tracked_def)
  qed
  moreover have "below M (l + 1) = {m \<in> M. m_UID m \<le> l}" by (simp add: below_def succ)
  ultimately show ?thesis
    by (elim hoare_pre) (use l in \<open>auto simp: adding_def\<close>)
qed

section \<open>The scan of a folder\<close>

lemma differences_rows:
  assumes keep: "keeping R Sel"
    and batch: "0 < (word_of_int (UIDBatch (r_opts R)) :: u32)" "unat n + unat (word_of_int (UIDBatch (r_opts R)) :: u32) \<le> 2 ^ 32"
    and served: "folder_served R Sel folder M v n"
    and ok: "mailbox_ok (DedupKey (rt_sha256 (r_rt R))) old k" "mailbox_ok (DedupKey (rt_sha256 (r_rt R))) M n"
    and later: "later_mailbox (DedupKey (rt_sha256 (r_rt R))) old k M n"
    and l: "l < k" "\<And>m. m \<in> old \<Longrightarrow> m_UID m \<le> l"
  shows "hoare (tracked Sel folder (entry (DedupKey (rt_sha256 (r_rt R))) ` old) (v, l)) (scan_differences R folder kind item v n l)
    (\<lambda>_ s. mirrors_folder R folder M v n (st_db s)) (\<lambda>_ _. True)"
proof -
  let ?rows = "entry (DedupKey (rt_sha256 (r_rt R))) ` old"
  have search: "hoare Sel (src_SearchAllUIDs (r_src R)) (\<lambda>us w. Sel w \<and> set us = m_UID ` M) (\<lambda>_ _. True)"
    and listing: "\<And>a b. hoare Sel (src_FetchMetaRange (r_src R) a b) (\<lambda>ms w. Sel w \<and> set ms = {m \<in> M. a \<le> m_UID m \<and> m_UID m \<le> b}) (\<lambda>_ _. True)"
    using served by (simp_all add: folder_served_def)
  have current: "hoare (tracked Sel folder X Y) (call (src_SearchAllUIDs (r_src R))) (\<lambda>us s. set us = m_UID ` M \<and> tracked Sel folder X Y s) (\<lambda>_ _. True)"
    for X Y by (rule tracked_call [OF search]) auto
  have inj: "inj_on fst ?rows" using ok(1) by (auto simp: mailbox_ok_def inj_on_def)
  have "l < n" using l(1) later by (auto simp: later_mailbox_def)
  note scan = scan_additions [OF keep batch listing ok(2) this, where folder = folder and v = v and kind = kind and item = item]
  show ?thesis
  proof (rule hoare_bindM [OF current], rule hoare_pure', rule hoare_bindM [OF tracked_MemberUIDKeys [OF keep inj]], rule hoare_pure',
      rule hoare_bindM [OF tracked_go_order [OF keep]], rule hoare_pure')
    fix us and st es :: "(u32 \<times> string) list"
    assume us: "set us = m_UID ` M" and st: "set st = {p \<in> ?rows. 0 < fst p}" "set es = set st"
    let ?ks = "map snd (filter (\<lambda>p. fst p \<notin> set us) es)"
    have "{p \<in> ?rows. 0 < fst p} = ?rows" using ok(1) by (auto simp: mailbox_ok_def)
    then have "set ?ks = snd ` {p \<in> ?rows. fst p \<notin> m_UID ` M}" using us st by auto
    from remaining_rows [OF ok later this l(2,1)]
    show "hoare (tracked Sel folder ?rows (v, l)) (bindM (recordRemovals R folder kind ?ks) (\<lambda>_. scan_from R folder kind item v n l))
      (\<lambda>_ s. mirrors_folder R folder M v n (st_db s)) (\<lambda>_ _. True)"
      by (intro hoare_bindM [OF tracked_removals [OF keep]]) (use scan in simp)
  qed
qed

lemma sync_rows:
  assumes keep: "keeping R Sel"
    and batch: "0 < (word_of_int (UIDBatch (r_opts R)) :: u32)" "unat n + unat (word_of_int (UIDBatch (r_opts R)) :: u32) \<le> 2 ^ 32"
    and served: "folder_served R Sel folder M v n"
    and ok: "mailbox_ok (DedupKey (rt_sha256 (r_rt R))) old k" "mailbox_ok (DedupKey (rt_sha256 (r_rt R))) M n"
    and later: "later_mailbox (DedupKey (rt_sha256 (r_rt R))) old k M n"
    and before: "fst Y \<noteq> v \<or> X = entry (DedupKey (rt_sha256 (r_rt R))) ` old \<and> fst Y = v \<and> snd Y < k \<and> (\<forall>m \<in> old. m_UID m \<le> snd Y)"
  shows "hoare (tracked (\<lambda>_. True) folder X Y) (syncWatchedFolder R folder kind item)
    (\<lambda>_ s. mirrors_folder R folder M v n (st_db s)) (\<lambda>_ _. True)"
proof -
  have select: "hoare (\<lambda>_. True) (src_SelectNamedFolder (r_src R) folder) (\<lambda>r w. Sel w \<and> fst r = v \<and> fst (snd r) = n) (\<lambda>_ _. True)"
    and listing: "\<And>a b. hoare Sel (src_FetchMetaRange (r_src R) a b) (\<lambda>ms w. Sel w \<and> set ms = {m \<in> M. a \<le> m_UID m \<and> m_UID m \<le> b}) (\<lambda>_ _. True)"
    using served by (simp_all add: folder_served_def)
  have opened: "hoare (tracked (\<lambda>_. True) folder X Y) (call (src_SelectNamedFolder (r_src R) folder))
      (\<lambda>r s. (fst r = v \<and> fst (snd r) = n) \<and> tracked Sel folder X Y s) (\<lambda>_ _. True)"
    by (rule tracked_call [OF select]) auto
  have stored: "hoare (tracked Sel folder X Y) (if fst Y \<noteq> v then rebuildWatchedFolder R folder kind item v n
      else scan_differences R folder kind item v n (snd Y)) (\<lambda>_ s. mirrors_folder R folder M v n (st_db s)) (\<lambda>_ _. True)"
  proof (rule hoare_if)
    show "hoare (tracked Sel folder X Y) (rebuildWatchedFolder R folder kind item v n) (\<lambda>_ s. mirrors_folder R folder M v n (st_db s)) (\<lambda>_ _. True)"
      by (rule rebuild_rows [OF keep batch listing ok(2)])
    assume "\<not> fst Y \<noteq> v"
    then have "X = entry (DedupKey (rt_sha256 (r_rt R))) ` old" "Y = (v, snd Y)" "snd Y < k" "\<And>m. m \<in> old \<Longrightarrow> m_UID m \<le> snd Y"
      using before by (auto simp: prod_eq_iff)
    note differences_rows [OF keep batch served ok later this(3,4), where kind = kind and item = item, folded this(1)]
    moreover have "tracked Sel folder X (v, snd Y) = tracked Sel folder X Y" using \<open>Y = (v, snd Y)\<close> by simp
    ultimately show "hoare (tracked Sel folder X Y) (scan_differences R folder kind item v n (snd Y)) (\<lambda>_ s. mirrors_folder R folder M v n (st_db s)) (\<lambda>_ _. True)"
      by (simp only:)
  qed
  show ?thesis
    unfolding syncWatchedFolder_def
  proof (rule hoare_bindM [OF opened], rule hoare_pure', unfold case_prod_beta, rule hoare_bindM [OF tracked_FolderState [OF keep]], rule hoare_pure')
    fix r :: "u32 \<times> u32 \<times> u32" and y
    assume "fst r = v \<and> fst (snd r) = n" and "y = Y"
    then have "fst r = v" "fst (snd r) = n" "y = Y" by simp_all
    then show "hoare (tracked Sel folder X Y) (if fst y \<noteq> fst r then rebuildWatchedFolder R folder kind item (fst r) (fst (snd r))
      else scan_differences R folder kind item (fst r) (fst (snd r)) (snd y)) (\<lambda>_ s. mirrors_folder R folder M v n (st_db s)) (\<lambda>_ _. True)"
      using stored by (simp only:)
  qed
qed

text \<open>
  C4. A scan of a watched folder that succeeds brings the stored rows up to date, whether it records the
  differences or, after a change of the UIDVALIDITY, rebuilds: from the rows of an earlier state of the
  folder, or from any rows, to exactly the messages the source has now, with their UIDs, and a mark that
  has passed all of them.  So scan after scan, the database follows the folder.  The conditions: the
  messages of the folder have different dedup keys, as had those of the earlier state (\<open>mailbox_ok\<close>; messages
  that share a Message-ID are one row in the database, whose UID is that of the last one recorded), new
  messages only got UIDs from UIDNEXT on, the source answers for this folder, and no window passes 2^32.
\<close>

theorem syncWatchedFolder_follows:
  assumes "keeping R Sel"
    and "0 < (word_of_int (UIDBatch (r_opts R)) :: u32)" and "unat n + unat (word_of_int (UIDBatch (r_opts R)) :: u32) \<le> 2 ^ 32"
    and "folder_served R Sel folder M v n"
    and "mailbox_ok (DedupKey (rt_sha256 (r_rt R))) old k" and "mailbox_ok (DedupKey (rt_sha256 (r_rt R))) M n"
    and "later_mailbox (DedupKey (rt_sha256 (r_rt R))) old k M n"
  shows "hoare (\<lambda>s. fst (folder_state (st_db s) folder) \<noteq> v \<or> mirrors_folder R folder old v k (st_db s))
    (syncWatchedFolder R folder kind item) (\<lambda>_ s. mirrors_folder R folder M v n (st_db s)) (\<lambda>_ _. True)"
proof (rule hoareI)
  fix s s' :: "'a st" and a
  let ?X = "rows (st_db s) folder" and ?Y = "folder_state (st_db s) folder"
  assume "fst ?Y \<noteq> v \<or> mirrors_folder R folder old v k (st_db s)"
    and run: "syncWatchedFolder R folder kind item s = Some (Inr a, s')"
  then have "fst ?Y \<noteq> v \<or> ?X = entry (DedupKey (rt_sha256 (r_rt R))) ` old \<and> fst ?Y = v \<and> snd ?Y < k \<and> (\<forall>m \<in> old. m_UID m \<le> snd ?Y)"
    by (cases ?Y) (auto simp: mirrors_folder_def)
  from hoare_InrD [OF sync_rows [OF assms this] _ run] show "mirrors_folder R folder M v n (st_db s')" by (simp add: tracked_def)
qed simp

text \<open>A folder from which the message with UID 3 has gone and in which one with UID 5 has arrived.\<close>

definition earlier :: "MsgMeta list" where
  "earlier = map (\<lambda>(u, mid). \<lparr> m_UID = u, m_MessageID = mid, m_From = [], m_Subject = [], m_InternalDate = 0, m_Size = 1,
     m_Flags = [] \<rparr>) [(1, ''<a>''), (3, ''<c>'')]"

definition watching :: "nat Reconciler \<Rightarrow> nat Reconciler" where
  "watching R = (listing R)\<lparr> r_src := (r_src (listing R))\<lparr> src_SelectNamedFolder := (\<lambda>_. returnM (7, 10, 2)),
     src_SearchAllUIDs := returnM [1, 5] \<rparr> \<rparr>"

theorem syncWatchedFolder_follows_witness:
  "\<forall>R. hoare (\<lambda>s. mirrors_folder (watching R) ''Work'' (set earlier) 7 4 (st_db s))
     (syncWatchedFolder (watching R) ''Work'' [] ''Work 1/1'') (\<lambda>_ s. mirrors_folder (watching R) ''Work'' (set listed) 7 10 (st_db s)) (\<lambda>_ _. True)"
proof
  fix R :: "nat Reconciler"
  let ?R = "watching R" and ?key = "DedupKey (rt_sha256 (r_rt (watching R)))"
  have keep: "keeping ?R (\<lambda>_. True)" by unfold_locales auto
  have batch: "word_of_int (UIDBatch (r_opts ?R)) = (100 :: u32)" by (simp add: watching_def listing_def)
  have trim: "TrimSpace ''<a>'' = ''<a>''" "TrimSpace ''<b>'' = ''<b>''" "TrimSpace ''<c>'' = ''<c>''"
    by (simp_all add: TrimSpace_def TrimFunc_def trim_segs_def byte_def IsSpace_def decode_ascii)
  have old: "mailbox_ok ?key (set earlier) 4" and new: "mailbox_ok ?key (set listed) 10"
    by (simp_all add: mailbox_ok_def earlier_def listed_def DedupKey_real trim)
  have later: "later_mailbox ?key (set earlier) 4 (set listed) 10"
    by (simp add: later_mailbox_def earlier_def listed_def DedupKey_real trim)
  have served: "folder_served ?R (\<lambda>_. True) ''Work'' (set listed) 7 10"
  proof -
    have "set [1, 5] = m_UID ` set listed" by (simp add: listed_def)
    then show ?thesis by (simp add: folder_served_def hoare_def returnM_def watching_def listing_def)
  qed
  have "0 < (word_of_int (UIDBatch (r_opts ?R)) :: u32)" "unat (10 :: u32) + unat (word_of_int (UIDBatch (r_opts ?R)) :: u32) \<le> 2 ^ 32"
    unfolding batch by simp_all
  from syncWatchedFolder_follows [OF keep this served old new later]
  show "hoare (\<lambda>s. mirrors_folder ?R ''Work'' (set earlier) 7 4 (st_db s))
     (syncWatchedFolder ?R ''Work'' [] ''Work 1/1'') (\<lambda>_ s. mirrors_folder ?R ''Work'' (set listed) 7 10 (st_db s)) (\<lambda>_ _. True)"
    by (rule hoare_pre) simp
qed

end
