(* ===== verification/Placement.thy ===== *)
theory Placement
  imports Edits ReferenceRun Watch
begin

text \<open>
  What propagation makes of the destination: it puts every message whose membership has changed into its
  destination folder, and gives and takes keywords in the order in which the labels came and went.
\<close>

section \<open>The view of the destination\<close>

text \<open>
  \<open>look\<close> is what the statements observe of the world.  The calls that are not calls of the destination,
  of the database, the clock, the context and the progress callback, do not change it.
\<close>

abbreviation ignoring :: "'w Reconciler \<Rightarrow> ('w \<Rightarrow> 'v) \<Rightarrow> bool" where
  "ignoring R look \<equiv> local_relation R (\<lambda>w w'. look w' = look w) (\<lambda>s s'. look (st_world s') = look (st_world s))"

lemma ignored:
  assumes "steps (\<lambda>s s'. look (st_world s') = look (st_world s)) m" and "\<And>d. hoare (\<lambda>s. st_db s = d) m (\<lambda>a s. Q d a \<and> st_db s = g d) (\<lambda>_ _. True)"
    and "\<And>d v a. P d v \<Longrightarrow> Q d a \<Longrightarrow> P' a (g d) v"
  shows "hoare (\<lambda>s. P (st_db s) (look (st_world s))) m (\<lambda>a s. P' a (st_db s) (look (st_world s))) (\<lambda>_ _. True)"
proof (rule hoareI)
  fix s a s'
  assume "P (st_db s) (look (st_world s))" and m: "m s = Some (Inr a, s')"
  then show "P' a (st_db s') (look (st_world s'))"
    using hoare_InrD [OF assms(2) refl m] stepsD [OF assms(1) m] assms(3) by simp
qed simp

lemma ignored_calm:
  assumes "steps (\<lambda>s s'. look (st_world s') = look (st_world s)) m" and "steps (\<lambda>s s'. st_db s' = st_db s) m"
  shows "hoare (\<lambda>s. P (st_db s) (look (st_world s))) m (\<lambda>_ s. P (st_db s) (look (st_world s))) (\<lambda>_ _. True)"
proof (rule hoareI)
  fix s a s'
  assume "P (st_db s) (look (st_world s))" and m: "m s = Some (Inr a, s')"
  then show "P (st_db s') (look (st_world s'))" using stepsD [OF assms(1) m] stepsD [OF assms(2) m] by simp
qed simp

text \<open>A state with database \<open>d\<close> and view \<open>v\<close>.\<close>

abbreviation at :: "('w \<Rightarrow> 'v) \<Rightarrow> db \<Rightarrow> 'v \<Rightarrow> 'w st \<Rightarrow> bool" where
  "at look d v s \<equiv> st_db s = d \<and> look (st_world s) = v"

lemma at_call:
  assumes "hoare (\<lambda>w. look w = v) m (\<lambda>_ w. look w = v') (\<lambda>_ _. True)"
  shows "hoare (at look d v) (call m) (\<lambda>_. at look d v') (\<lambda>_ _. True)"
  by (rule hoare_call) (use hoare_InrD [OF assms] in auto)

lemma at_answer:
  assumes "hoare (\<lambda>w. look w = v) m (\<lambda>a w. look w = v' \<and> a = b) (\<lambda>_ _. True)"
  shows "hoare (at look d v) (call m) (\<lambda>a s. at look d v' s \<and> a = b) (\<lambda>_ _. True)"
  by (rule hoare_call) (use hoare_InrD [OF assms] in auto)

lemma at_calm:
  assumes "steps (\<lambda>s s'. look (st_world s') = look (st_world s)) m" and "steps (\<lambda>s s'. st_db s' = st_db s) m"
  shows "hoare (at look d v) m (\<lambda>_. at look d v) (\<lambda>_ _. True)"
proof (rule hoareI)
  fix s a s'
  assume "at look d v s" and m: "m s = Some (Inr a, s')"
  then show "at look d v s'" using stepsD [OF assms(1) m] stepsD [OF assms(2) m] by simp
qed simp

lemma at_update_sum: "hoare (at look d v) (update_sum f) (\<lambda>_. at look d v) E"
  by (simp add: update_sum_def hoare_def modifyM_def)

section \<open>Moving and tagging one message\<close>

text \<open>
  The view is a flag, that the invariants of the servers and of the client hold, and the messages of the
  destination.  \<open>edits_by_id\<close> is what the two methods of the interface \<open>Dest\<close> do to it: each edits exactly the
  messages of the folder that a search for the Message-ID finds, and reports whether there are any.  It is shown
  below for the client of the program.
\<close>

type_synonym scene = "bool \<times> item set"

definition edits_by_id :: "'w Reconciler \<Rightarrow> ('w \<Rightarrow> scene) \<Rightarrow> (string \<Rightarrow> string \<Rightarrow> bool) \<Rightarrow> bool" where
  "edits_by_id R look hits \<longleftrightarrow>
     (\<forall>from to k X. from \<in> set (destBucketFolders R) \<longrightarrow> hoare (\<lambda>w. look w = (True, X)) (dst_MoveMessageID (r_dst R) from to k)
        (\<lambda>moved w. look w = (True, edit (found_in hits from k) (move_to to) X) \<and> moved = (\<exists>x \<in> X. found_in hits from k x)) (\<lambda>_ _. True)) \<and>
     (\<forall>folder k add kw X. folder \<in> set (destBucketFolders R) \<longrightarrow> hoare (\<lambda>w. look w = (True, X)) (dst_StoreKeywordByMessageID (r_dst R) folder k add kw)
        (\<lambda>found w. look w = (True, edit (found_in hits folder k) (tag_with add kw) X) \<and> found = (\<exists>x \<in> X. found_in hits folder k x)) (\<lambda>_ _. True))"

text \<open>
  What a search for \<open>k\<close> finds in the destination folders is the message with this Message-ID, in one of them.
\<close>

definition findable :: "'w Reconciler \<Rightarrow> (string \<Rightarrow> string \<Rightarrow> bool) \<Rightarrow> item set \<Rightarrow> string \<Rightarrow> bool" where
  "findable R hits X k \<longleftrightarrow> (\<exists>g. \<forall>(f, j, t) \<in> X. f \<in> set (destBucketFolders R) \<longrightarrow> (hits k j \<longleftrightarrow> j = k) \<and> (j = k \<longrightarrow> f = g))"

text \<open>The destination folder in which \<open>k\<close> belongs.\<close>

definition target :: "'w Reconciler \<Rightarrow> db \<Rightarrow> string \<Rightarrow> string" where
  "target R d k = bucket (r_opts R) {g. (g, k) \<in> bk_members (books_of d)}"

abbreviation routing :: "'w Reconciler \<Rightarrow> bool" where
  "routing R \<equiv> ArchiveRouting (r_opts R) \<or> SentRouting (r_opts R)"

lemma target_bucket: "target R d k \<in> set (destBucketFolders R)"
  by (simp add: target_def bucket_def destBucketFolders_def Let_def)

lemma books_pairs: "bk_members (books_of d) = set (member_pairs d)"
  by (auto simp: books_of_def member_pairs_def)

lemma hoare_target:
  "hoare (\<lambda>s. st_db s = d) (destFolderFor R k) (\<lambda>f s. f = target R d k \<and> st_db s = d) (\<lambda>_ _. True)"
  unfolding target_def by (rule hoare_conseq [OF hoare_destFolderFor]) auto

lemma edit_cong:
  "(\<And>x. x \<in> X \<Longrightarrow> (if p x then h x else x) = (if q x then h' x else x)) \<Longrightarrow> edit p h X = edit q h' X"
  by (simp add: edit_def cong: image_cong)

text \<open>The messages with Message-ID \<open>k\<close> in some folders.\<close>

fun among :: "string list \<Rightarrow> string \<Rightarrow> item \<Rightarrow> bool" where
  "among fs k (f, j, t) \<longleftrightarrow> f \<in> set fs \<and> j = k"

lemma findable_folder:
  assumes "findable R hits X k" and "f \<in> set (destBucketFolders R)" and "x \<in> X"
  shows "found_in hits f k x \<longleftrightarrow> among [f] k x"
  using assms by (cases x) (fastforce simp: findable_def)

lemma findable_one:
  assumes "findable R hits X k" and "set fs \<subseteq> set (destBucketFolders R)" and "f \<in> set fs"
    and "y \<in> X" "among [f] k y" and "x \<in> X"
  shows "among fs k x \<longleftrightarrow> among [f] k x"
proof -
  obtain g where g: "\<And>f j t. (f, j, t) \<in> X \<Longrightarrow> f \<in> set (destBucketFolders R) \<Longrightarrow> j = k \<Longrightarrow> f = g"
    using assms(1) unfolding findable_def by blast
  show ?thesis using g assms(2-6) by (cases x; cases y) (auto; blast)
qed

lemma moveFrom_moves:
  assumes edits: "edits_by_id R look hits" and find: "findable R hits X k" and "set fs \<subseteq> set (destBucketFolders R)"
  shows "hoare (at look d (True, X)) (moveFrom R want k fs) (\<lambda>_. at look d (True, edit (among fs k) (move_to want) X)) (\<lambda>_ _. True)"
  using assms(3)
proof (induction fs)
  case Nil
  have "edit (among [] k) (move_to want) X = X" by (rule edit_none) auto
  then show ?case by (simp add: hoare_def returnM_def)
next
  case (Cons f fs)
  then have IH: "hoare (at look d (True, X)) (moveFrom R want k fs) (\<lambda>_. at look d (True, edit (among fs k) (move_to want) X)) (\<lambda>_ _. True)"
    and f: "f \<in> set (destBucketFolders R)" by simp_all
  show ?case
  proof (cases "f = want")
    case True
    have "edit (among (f # fs) k) (move_to want) X = edit (among fs k) (move_to want) X"
      by (rule edit_cong) (use True in auto)
    then show ?thesis using IH True by simp
  next
    case False
    have here: "edit (found_in hits f k) (move_to want) X = edit (among [f] k) (move_to want) X"
      by (rule edit_cong) (simp add: findable_folder [OF find f])
    have any: "(\<exists>x \<in> X. found_in hits f k x) \<longleftrightarrow> (\<exists>x \<in> X. among [f] k x)" using findable_folder [OF find f] by blast
    have "hoare (\<lambda>w. look w = (True, X)) (dst_MoveMessageID (r_dst R) f want k)
      (\<lambda>moved w. look w = (True, edit (among [f] k) (move_to want) X) \<and> moved = (\<exists>x \<in> X. among [f] k x)) (\<lambda>_ _. True)"
      using edits f unfolding edits_by_id_def here [symmetric] any [symmetric] by blast
    note move = at_answer [OF this, of d]
    have count: "hoare (at look d v) (countMove R want 1) (\<lambda>_. at look d v) (\<lambda>_ _. True)" for v
      unfolding countMove_def by (rule at_update_sum)
    show ?thesis
    proof (cases "\<exists>x \<in> X. among [f] k x")
      case True
      then obtain y where y: "y \<in> X" "among [f] k y" by blast
      have "among (f # fs) k x \<longleftrightarrow> among [f] k x" if "x \<in> X" for x
        by (rule findable_one [OF find Cons.prems _ y that]) simp
      then have "edit (among (f # fs) k) (move_to want) X = edit (among [f] k) (move_to want) X" by (intro edit_cong) simp
      then show ?thesis unfolding moveFrom.simps if_not_P [OF False]
        using True count by (intro hoare_bindM [OF move] hoare_pure) simp
    next
      case outside: False
      then have "edit (among [f] k) (move_to want) X = X" by (intro edit_none) blast
      moreover have "edit (among (f # fs) k) (move_to want) X = edit (among fs k) (move_to want) X"
        by (rule edit_cong) (use outside in fastforce)
      ultimately show ?thesis unfolding moveFrom.simps if_not_P [OF False]
        using outside IH by (intro hoare_bindM [OF move] hoare_pure) simp
    qed
  qed
qed

lemma storeKeywordIn_tags:
  assumes edits: "edits_by_id R look hits" and find: "findable R hits X k" and "set fs \<subseteq> set (destBucketFolders R)"
  shows "hoare (at look d (True, X)) (storeKeywordIn R k add kw fs) (\<lambda>_. at look d (True, edit (among fs k) (tag_with add kw) X)) (\<lambda>_ _. True)"
  using assms(3)
proof (induction fs)
  case Nil
  have "edit (among [] k) (tag_with add kw) X = X" by (rule edit_none) auto
  then show ?case by (simp add: hoare_def returnM_def)
next
  case (Cons f fs)
  then have IH: "hoare (at look d (True, X)) (storeKeywordIn R k add kw fs) (\<lambda>_. at look d (True, edit (among fs k) (tag_with add kw) X)) (\<lambda>_ _. True)"
    and f: "f \<in> set (destBucketFolders R)" by simp_all
  have here: "edit (found_in hits f k) (tag_with add kw) X = edit (among [f] k) (tag_with add kw) X"
    by (rule edit_cong) (simp add: findable_folder [OF find f])
  have any: "(\<exists>x \<in> X. found_in hits f k x) \<longleftrightarrow> (\<exists>x \<in> X. among [f] k x)" using findable_folder [OF find f] by blast
  have "hoare (\<lambda>w. look w = (True, X)) (dst_StoreKeywordByMessageID (r_dst R) f k add kw)
      (\<lambda>found w. look w = (True, edit (among [f] k) (tag_with add kw) X) \<and> found = (\<exists>x \<in> X. among [f] k x)) (\<lambda>_ _. True)"
    using edits f unfolding edits_by_id_def here [symmetric] any [symmetric] by blast
  note store = at_answer [OF this, of d]
  show ?case
  proof (cases "\<exists>x \<in> X. among [f] k x")
    case True
    then obtain y where y: "y \<in> X" "among [f] k y" by blast
    have "among (f # fs) k x \<longleftrightarrow> among [f] k x" if "x \<in> X" for x
      by (rule findable_one [OF find Cons.prems _ y that]) simp
    then have "edit (among (f # fs) k) (tag_with add kw) X = edit (among [f] k) (tag_with add kw) X" by (intro edit_cong) simp
    then show ?thesis
      unfolding storeKeywordIn.simps using True by (intro hoare_bindM [OF store] hoare_pure) (simp add: at_update_sum)
  next
    case False
    then have "edit (among [f] k) (tag_with add kw) X = X" by (intro edit_none) blast
    moreover have "edit (among (f # fs) k) (tag_with add kw) X = edit (among fs k) (tag_with add kw) X"
      by (rule edit_cong) (use False in fastforce)
    ultimately show ?thesis unfolding storeKeywordIn.simps using False IH by (intro hoare_bindM [OF store] hoare_pure) simp
  qed
qed

section \<open>Draining the queue\<close>

text \<open>
  What a queue makes of a message at the destination.  In a destination folder, a queued move puts it where
  its memberships call for, and each queued keyword operation gives or takes its keyword, in their order.
\<close>

type_synonym content = "string \<times> string \<times> string \<times> string"

definition moved_keys :: "content list \<Rightarrow> string set" where
  "moved_keys ops = {k. \<exists>f op. (pendingMove, k, f, op) \<in> set ops}"

fun tag_op :: "'w Reconciler \<Rightarrow> string \<Rightarrow> content \<Rightarrow> flag set \<Rightarrow> flag set" where
  "tag_op R j (kind, k, folder, op) t =
     (let kw = labelKeyword (rt_lower (r_rt R)) (r_opts R) folder in
      if kind = pendingKeyword \<and> k = j \<and> LabelPropagate (r_opts R) \<and> kw \<noteq> [] then retag (op = ''add'') kw t else t)"

fun carried_out :: "'w Reconciler \<Rightarrow> db \<Rightarrow> content list \<Rightarrow> item \<Rightarrow> item" where
  "carried_out R d ops (f, j, t) =
     (if f \<in> set (destBucketFolders R)
      then (if routing R \<and> j \<in> moved_keys ops then target R d j else f, j, fold (tag_op R j) ops t)
      else (f, j, t))"

lemma carried_out_Nil: "carried_out R d [] ` X = X"
  by (force simp: moved_keys_def)

lemma carried_bucket: "fst (carried_out R d ops x) \<in> set (destBucketFolders R) \<longleftrightarrow> fst x \<in> set (destBucketFolders R)"
  by (cases x) (simp add: target_bucket)

lemma findable_carried:
  assumes "findable R hits X k"
  shows "findable R hits (carried_out R d ops ` X) k"
proof -
  obtain g where g: "\<And>f j t. (f, j, t) \<in> X \<Longrightarrow> f \<in> set (destBucketFolders R) \<Longrightarrow> (hits k j \<longleftrightarrow> j = k) \<and> (j = k \<longrightarrow> f = g)"
    using assms unfolding findable_def by blast
  have "(hits k j \<longleftrightarrow> j = k) \<and> (j = k \<longrightarrow> f = (if routing R \<and> k \<in> moved_keys ops then target R d k else g))"
    if y: "(f, j, t) \<in> carried_out R d ops ` X" and f: "f \<in> set (destBucketFolders R)" for f j t
  proof -
    obtain f0 j0 t0 where x: "(f0, j0, t0) \<in> X" and eq: "(f, j, t) = carried_out R d ops (f0, j0, t0)" using y by auto
    have f0: "f0 \<in> set (destBucketFolders R)" using carried_bucket [of R d ops "(f0, j0, t0)"] f eq by (metis fst_conv)
    show ?thesis using g [OF x f0] eq f0 by auto
  qed
  then show ?thesis unfolding findable_def by blast
qed

lemma hoare_try_or:
  assumes "hoare P m Q (\<lambda>_ _. True)" and "\<And>a. hoare (Q a) (f a) T (\<lambda>_ _. True)"
  shows "hoare P (bindM (tryM m) (\<lambda>r. case r of Inl e \<Rightarrow> bindM (tryM x) (\<lambda>_. throwM (h e)) | Inr a \<Rightarrow> f a)) T (\<lambda>_ _. True)"
proof (rule hoareI)
  fix s b s'
  assume P: "P s" and run: "bindM (tryM m) (\<lambda>r. case r of Inl e \<Rightarrow> bindM (tryM x) (\<lambda>_. throwM (h e)) | Inr a \<Rightarrow> f a) s = Some (Inr b, s')"
  then obtain a t where m: "m s = Some (Inr a, t)" and "f a t = Some (Inr b, s')"
    by (auto simp: bindM_def tryM_def throwM_def split: option.splits sum.splits)
  then show "T b s'" using hoare_InrD [OF assms(2) hoare_InrD [OF assms(1) P m]] by simp
qed simp

lemma moved_keys_snoc: "moved_keys (A @ [(kind, k, f, op)]) = (if kind = pendingMove then insert k (moved_keys A) else moved_keys A)"
  by (auto simp: moved_keys_def)

lemma kinds_differ: "pendingKeyword \<noteq> pendingMove" "pendingMove \<noteq> pendingKeyword"
  by (simp_all add: pendingKeyword_def pendingMove_def)

text \<open>One more operation.\<close>

lemma carry_move:
  assumes "po_Kind op = pendingMove" and "routing R"
  shows "carried_out R d (A @ [op_content op]) ` X =
    edit (among (destBucketFolders R) (po_MessageID op)) (move_to (target R d (po_MessageID op))) (carried_out R d A ` X)"
proof -
  have "carried_out R d (A @ [op_content op]) x = (if among (destBucketFolders R) (po_MessageID op) (carried_out R d A x)
      then move_to (target R d (po_MessageID op)) (carried_out R d A x) else carried_out R d A x)" for x
    using assms by (cases x) (auto simp: moved_keys_snoc op_content_def kinds_differ target_bucket Let_def)
  then show ?thesis unfolding edit_def image_image by (rule image_cong [OF refl])
qed

lemma carry_tag:
  assumes "po_Kind op = pendingKeyword" and "LabelPropagate (r_opts R)" and "labelKeyword (rt_lower (r_rt R)) (r_opts R) (po_Folder op) \<noteq> []"
  shows "carried_out R d (A @ [op_content op]) ` X =
    edit (among (destBucketFolders R) (po_MessageID op))
      (tag_with (po_Op op = ''add'') (labelKeyword (rt_lower (r_rt R)) (r_opts R) (po_Folder op))) (carried_out R d A ` X)"
proof -
  have "carried_out R d (A @ [op_content op]) x = (if among (destBucketFolders R) (po_MessageID op) (carried_out R d A x)
      then tag_with (po_Op op = ''add'') (labelKeyword (rt_lower (r_rt R)) (r_opts R) (po_Folder op)) (carried_out R d A x)
      else carried_out R d A x)" for x
    using assms by (cases x) (auto simp: moved_keys_snoc op_content_def kinds_differ target_bucket)
  then show ?thesis unfolding edit_def image_image by (rule image_cong [OF refl])
qed

lemma carry_nothing:
  assumes "\<not> (po_Kind op = pendingMove \<and> routing R)"
    and "\<not> (po_Kind op = pendingKeyword \<and> LabelPropagate (r_opts R) \<and> labelKeyword (rt_lower (r_rt R)) (r_opts R) (po_Folder op) \<noteq> [])"
  shows "carried_out R d (A @ [op_content op]) = carried_out R d A"
proof
  fix x show "carried_out R d (A @ [op_content op]) x = carried_out R d A x"
    using assms by (cases x) (auto simp: moved_keys_snoc op_content_def Let_def)
qed

lemma applyPending_carries:
  fixes look :: "'w \<Rightarrow> scene"
  assumes keep: "ignoring R look" and edits: "edits_by_id R look hits" and find: "findable R hits X (po_MessageID op)"
    and same: "bk_members (books_of d') = bk_members (books_of d)"
  shows "hoare (at look d' (True, carried_out R d A ` X)) (applyPending R op)
    (\<lambda>_. at look d' (True, carried_out R d (A @ [op_content op]) ` X)) (\<lambda>_ _. True)"
    (is "hoare ?P _ ?Q _")
proof -
  let ?k = "po_MessageID op" and ?kw = "labelKeyword (rt_lower (r_rt R)) (r_opts R) (po_Folder op)"
  note found = findable_carried [OF find, of d A]
  have target: "target R d' = target R d" using same by (simp add: target_def fun_eq_iff)
  have skip: "hoare ?P (returnM ()) ?Q (\<lambda>_ _. True)"
    if "\<not> (po_Kind op = pendingMove \<and> routing R)" "\<not> (po_Kind op = pendingKeyword \<and> LabelPropagate (r_opts R) \<and> ?kw \<noteq> [])"
    unfolding carry_nothing [OF that] by (simp add: hoare_def returnM_def)
  consider (move) "po_Kind op = pendingMove" "routing R" | (tag) "po_Kind op = pendingKeyword" "LabelPropagate (r_opts R)" "?kw \<noteq> []"
    | (none) "\<not> (po_Kind op = pendingMove \<and> routing R)" "\<not> (po_Kind op = pendingKeyword \<and> LabelPropagate (r_opts R) \<and> ?kw \<noteq> [])"
    by blast
  then show ?thesis
  proof cases
    case move
    have want: "hoare ?P (destFolderFor R ?k) (\<lambda>f s. ?P s \<and> f = target R d ?k) (\<lambda>_ _. True)"
    proof (rule hoareI)
      fix s f s'
      assume "?P s" and m: "destFolderFor R ?k s = Some (Inr f, s')"
      then show "?P s' \<and> f = target R d ?k"
        using hoare_InrD [OF hoare_target refl m] target
          stepsD [OF reading_relation.destFolderFor_steps [OF local_relation.axioms(1) [OF keep]] m] by simp
    qed simp
    have "hoare ?P (bindM (destFolderFor R ?k) (\<lambda>f. moveFrom R f ?k (destBucketFolders R))) ?Q (\<lambda>_ _. True)"
      unfolding carry_move [OF move] by (intro hoare_bindM [OF want] hoare_pure) (simp add: moveFrom_moves [OF edits found subset_refl])
    then show ?thesis using move by (auto simp: applyPending_def Let_def)
  next
    case tag
    show ?thesis
      using storeKeywordIn_tags [OF edits found subset_refl] tag kinds_differ
      unfolding carry_tag [OF tag] by (simp add: applyPending_def Let_def)
  next
    case none
    then show ?thesis using skip by (auto simp: applyPending_def Let_def)
  qed
qed

text \<open>
  The database and the destination between two pages: a part of the queue has been carried out and is
  gone.
\<close>

definition draining :: "'w Reconciler \<Rightarrow> db \<Rightarrow> item set \<Rightarrow> db \<Rightarrow> scene \<Rightarrow> bool" where
  "draining R d X d' v \<longleftrightarrow> db_ok d' \<and> bk_members (books_of d') = bk_members (books_of d) \<and>
     (\<exists>A. bk_queue (books_of d) = A @ bk_queue (books_of d') \<and> v = (True, carried_out R d A ` X))"

definition queued_ids :: "db \<Rightarrow> string set" where
  "queued_ids d = {k. \<exists>kind f op. (kind, k, f, op) \<in> set (bk_queue (books_of d))}"

lemma page_ids: "op \<in> set (pending_page d n) \<Longrightarrow> db_ok d \<Longrightarrow> po_MessageID op \<in> queued_ids d"
  by (force simp: page_of_queue queued_ids_def books_of_def op_content_def dest: in_set_takeD)

text \<open>Only the operations of the page are carried out by it.\<close>

lemma hoare_page_of:
  assumes "\<And>A. hoare (I A) (ctxErr R) (\<lambda>_. I A) (\<lambda>_ _. True)"
    and "\<And>A op. op \<in> set ops \<Longrightarrow> hoare (I A) (applyPending R op) (\<lambda>_. I (A @ [op])) (\<lambda>_ _. True)"
  shows "hoare (I A) (applyPage R ops ids) (\<lambda>ids' s. I (A @ ops) s \<and> ids' = ids @ map po_ID ops) (\<lambda>_ _. True)"
  using assms(2)
proof (induction ops arbitrary: A ids)
  case Nil
  show ?case by (simp add: hoare_def returnM_def)
next
  case (Cons op ops)
  have "hoare (I (A @ [op])) (applyPage R ops (ids @ [po_ID op])) (\<lambda>ids' s. I (A @ op # ops) s \<and> ids' = ids @ map po_ID (op # ops)) (\<lambda>_ _. True)"
    using Cons.IH [of "A @ [op]" "ids @ [po_ID op]"] Cons.prems by simp
  then show ?case
    unfolding applyPage.simps by (intro hoare_try_or [OF assms(1)] hoare_try_or [OF Cons.prems]) simp_all
qed

lemma draining_page:
  fixes look :: "'w \<Rightarrow> scene"
  assumes keep: "ignoring R look" and edits: "edits_by_id R look hits" and find: "queued_ids d \<subseteq> {k. findable R hits X k}"
  shows "hoare (\<lambda>s. draining R d X (st_db s) (look (st_world s)) \<and> ops = pending_page (st_db s) n)
    (bindM (applyPage R ops []) (DeletePendingBatch (r_rt R))) (\<lambda>_ s. draining R d X (st_db s) (look (st_world s))) (\<lambda>_ _. True)"
proof (rule hoareI)
  fix s s' :: "'w st" and a
  let ?d = "st_db s" and ?ids = "map po_ID ops"
  assume P: "draining R d X ?d (look (st_world s)) \<and> ops = pending_page ?d n"
    and run: "bindM (applyPage R ops []) (DeletePendingBatch (r_rt R)) s = Some (Inr a, s')"
  then obtain A where ok: "db_ok ?d" and mem: "bk_members (books_of ?d) = bk_members (books_of d)"
    and A: "bk_queue (books_of d) = A @ bk_queue (books_of ?d)" and c: "look (st_world s) = (True, carried_out R d A ` X)"
    by (auto simp: draining_def)
  obtain ids t where page: "applyPage R ops [] s = Some (Inr ids, t)" and del: "DeletePendingBatch (r_rt R) ids t = Some (Inr a, s')"
    using run by (auto elim: bindM_InrE)
  have ids_ok: "findable R hits X (po_MessageID op)" if "op \<in> set ops" for op
  proof -
    have "po_MessageID op \<in> queued_ids ?d" using that P page_ids [OF _ ok] by blast
    then have "po_MessageID op \<in> queued_ids d" unfolding queued_ids_def A by auto
    then show ?thesis using find by blast
  qed
  let ?I = "\<lambda>ops. at look ?d (True, carried_out R d (A @ map op_content ops) ` X)"
  have ctx: "hoare (?I ops) (ctxErr R) (\<lambda>_. ?I ops) (\<lambda>_ _. True)" for ops
    by (rule at_calm [OF reading_relation.ctxErr_steps [OF local_relation.axioms(1) [OF keep]] untouched.ctxErr_steps])
  have step: "hoare (?I done) (applyPending R op) (\<lambda>_. ?I (done @ [op])) (\<lambda>_ _. True)" if "op \<in> set ops" for "done" op
    using applyPending_carries [OF keep edits ids_ok [OF that] mem, of "A @ map op_content done"] by simp
  have t: "st_db t = ?d" "look (st_world t) = (True, carried_out R d (A @ map op_content ops) ` X)" and ids: "ids = ?ids"
    using hoare_InrD [OF hoare_page_of [where I = ?I and A = "[]", OF ctx step] _ page] c by auto
  have d': "st_db s' = fold sql_deletePending ?ids ?d"
    using del t(1) ids by (auto elim: writes_cases [OF writes_DeletePendingBatch])
  have look: "look (st_world s') = look (st_world t)"
    by (rule stepsD [OF local_relation.store_steps(1) [OF keep] del])
  have "bk_queue (books_of ?d) = map op_content ops @ bk_queue (books_of (st_db s'))"
  proof -
    have ops: "ops = pending_page ?d n" using P by simp
    have "filter (\<lambda>q. po_ID q \<notin> set ?ids) (db_pending ?d) = drop n (db_pending ?d)"
      using page_of_queue(2) [OF ok, of n] by (simp add: ops)
    then show ?thesis
      using page_of_queue(1) [OF ok, of n] by (simp add: d' books_deletePending ops) (simp add: books_of_def flip: map_append)
  qed
  moreover have "db_ok (st_db s')" unfolding d' by (rule db_ok_fold [OF db_ok_deletePending ok])
  moreover have "bk_members (books_of (st_db s')) = bk_members (books_of d)" by (simp add: d' books_deletePending mem)
  ultimately show "draining R d X (st_db s') (look (st_world s'))"
    unfolding draining_def look using t(2) A by (intro conjI exI [of _ "A @ map op_content ops"]) simp_all
qed simp

lemma propagate_carries:
  fixes look :: "'w \<Rightarrow> scene"
  assumes keep: "ignoring R look" and edits: "edits_by_id R look hits" and ok: "db_ok d"
    and find: "queued_ids d \<subseteq> {k. findable R hits X k}"
  shows "hoare (at look d (True, X)) (propagate R)
    (\<lambda>_ s. bk_queue (books_of (st_db s)) = [] \<and> look (st_world s) = (True, carried_out R d (bk_queue (books_of d)) ` X)) (\<lambda>_ _. True)"
    (is "hoare _ _ (\<lambda>_. ?Q) _")
proof -
  let ?I = "\<lambda>s. draining R d X (st_db s) (look (st_world s))"
  have "hoare ?I (propagate R) (\<lambda>_. ?Q) (\<lambda>_ _. True)"
  proof (rule hoare_propagate [where J = "\<lambda>ops s. ?I s \<and> ops = pending_page (st_db s) 200"])
    have "hoare (\<lambda>s. st_db s = d') (PendingOps (r_rt R) 200) (\<lambda>ops s. ops = pending_page d' 200 \<and> st_db s = d') (\<lambda>_ _. True)" for d'
      by (rule hoareI) (auto elim: reads_cases [OF reads_PendingOps])
    then show "hoare ?I (PendingOps (r_rt R) 200) (\<lambda>ops s. ?I s \<and> ops = pending_page (st_db s) 200) (\<lambda>_ _. True)"
      by (rule ignored [OF reading_relation.query_steps(5) [OF local_relation.axioms(1) [OF keep]],
          where P = "draining R d X" and P' = "\<lambda>ops d' v. draining R d X d' v \<and> ops = pending_page d' 200"]) simp
    show "?Q s" if "?I s \<and> [] = pending_page (st_db s) 200" for s
      using that empty_page [of "st_db s"] by (auto simp: draining_def)
  qed (rule draining_page [OF keep edits find])
  then show ?thesis
    by (rule hoare_pre) (use ok in \<open>auto simp: draining_def carried_out_Nil intro!: exI [of _ "[]"]\<close>)
qed

section \<open>The reconciler of a session\<close>

text \<open>
  The platform: a library at the destination that edits as it says, and a database, a context and a clock that
  have nothing to do with the mailboxes.
\<close>

definition aside :: "('w \<Rightarrow> bool) \<Rightarrow> ('w \<Rightarrow> string option) \<Rightarrow> ('w \<Rightarrow> numbered set) \<Rightarrow> ('w \<Rightarrow> 'r \<times> 'w) \<Rightarrow> bool" where
  "aside Ok selected mails f \<longleftrightarrow> (\<forall>w. Ok (snd (f w)) = Ok w \<and> selected (snd (f w)) = selected w \<and> mails (snd (f w)) = mails w)"

locale editing_platform = editing_library "pl_dst P" Ok selected mails hits
  for P :: "'w platform" and Ok selected mails hits +
  assumes local_aside: "aside Ok selected mails (rt_sql (pl_rt P))" "aside Ok selected mails (rt_ctx (pl_rt P))"
    "aside Ok selected mails (rt_now (pl_rt P))" "aside Ok selected mails (rt_perm (pl_rt P))"

definition session_scene :: "('w \<Rightarrow> bool) \<Rightarrow> ('w \<Rightarrow> string option) \<Rightarrow> ('w \<Rightarrow> numbered set) \<Rightarrow> 'w links \<Rightarrow> scene" where
  "session_scene Ok selected mails l = (trusted Ok selected (ln_dst l, ln_net l), unnumbered ` mails (ln_net l))"

lemma scene_aside:
  assumes "aside Ok selected mails f" and "on_net f l = (r, l')"
  shows "session_scene Ok selected mails l' = session_scene Ok selected mails l"
proof -
  have "l' = l\<lparr> ln_net := snd (f (ln_net l)) \<rparr>" using assms(2) by (simp add: on_net_def split_beta)
  then show ?thesis using assms(1) by (simp add: aside_def session_scene_def trusted_def)
qed

lemma session_buckets: "set (destBucketFolders (sessionReconciler P m a b)) = set (destFolders m)"
  by (auto simp: destBucketFolders_def destFolders_def sessionReconciler_def New_def sessionOptions_def Let_def)

context editing_platform
begin

lemma session_ignores: "ignoring (sessionReconciler P m a b) (session_scene Ok selected mails)"
proof -
  let ?R = "sessionReconciler P m a b"
  have rt: "rt_sql (r_rt ?R) = on_net (rt_sql (pl_rt P))" "rt_ctx (r_rt ?R) = on_net (rt_ctx (pl_rt P))"
    "rt_now (r_rt ?R) = on_net (rt_now (pl_rt P))" "rt_perm (r_rt ?R) = on_net (rt_perm (pl_rt P))"
    "OnProgress (r_opts ?R) = Some (onProgress (pl_rt P))"
    by (simp_all add: sessionReconciler_def New_def wire_runtime_def sessionOptions_def)
  have beat: "session_scene Ok selected mails (onProgress (pl_rt P) phase item n l) = session_scene Ok selected mails l" for phase item n l
  proof -
    have "ln_dst (onProgress (pl_rt P) phase item n l) = ln_dst l" "ln_net (onProgress (pl_rt P) phase item n l) = snd (rt_now (pl_rt P) (ln_net l))"
      by (simp_all add: onProgress_def split_beta)
    then show ?thesis using local_aside(3) by (simp add: aside_def session_scene_def trusted_def)
  qed
  show ?thesis
    by unfold_locales (auto simp: rt beat dest: scene_aside [OF local_aside(1)] scene_aside [OF local_aside(2)]
      scene_aside [OF local_aside(3)] scene_aside [OF local_aside(4)])
qed

lemma on_dst_scene:
  assumes "hoare (\<lambda>p. trusted Ok selected p \<and> unnumbered ` mails (snd p) = X) m
    (\<lambda>r p. trusted Ok selected p \<and> unnumbered ` mails (snd p) = Y \<and> r = b) (\<lambda>_ _. True)"
  shows "hoare (\<lambda>l. session_scene Ok selected mails l = (True, X)) (on_dst m)
    (\<lambda>r l. session_scene Ok selected mails l = (True, Y) \<and> r = b) (\<lambda>_ _. True)"
proof (rule hoareI)
  fix l r l'
  assume pre: "session_scene Ok selected mails l = (True, X)" and run: "on_dst m l = Some (Inr r, l')"
  obtain p where m: "m (ln_dst l, ln_net l) = Some (Inr r, p)" and l': "ln_dst l' = fst p" "ln_net l' = snd p"
    using run by (auto simp: on_dst_def zoomM_def split: option.splits)
  have "trusted Ok selected (ln_dst l, ln_net l) \<and> unnumbered ` mails (snd (ln_dst l, ln_net l)) = X"
    using pre by (simp add: session_scene_def)
  from hoare_InrD [OF assms this m] show "session_scene Ok selected mails l' = (True, Y) \<and> r = b"
    by (simp add: session_scene_def l')
qed simp

lemma session_edits:
  assumes "[] \<notin> set (destFolders m)"
  shows "edits_by_id (sessionReconciler P m a b) (session_scene Ok selected mails) hits"
proof -
  have dst: "dst_MoveMessageID (r_dst (sessionReconciler P m a b)) f g k = on_dst (MoveMessageID (pl_dst P) f g k)"
    "dst_StoreKeywordByMessageID (r_dst (sessionReconciler P m a b)) f k add kw = on_dst (StoreKeywordByMessageID (pl_dst P) f k add kw)" for f g k add kw
    by (simp_all add: sessionReconciler_def New_def wire_dest_def Let_def)
  have named: "f \<noteq> []" if "f \<in> set (destFolders m)" for f using assms that by auto
  show ?thesis
    unfolding edits_by_id_def dst session_buckets
    by (intro conjI allI impI on_dst_scene move_by_id tag_by_id named)
qed

end

interpretation ref_edits: editing_platform "site_platform S" "boxes_ok S" "box_opened dst_party" "box_mails S" contains for S
proof (rule editing_platform.intro)
  show "editing_library (pl_dst (site_platform S)) (boxes_ok S) (box_opened dst_party) (box_mails S) contains"
    using dst_edits.editing_library_axioms by simp
  have "box_opened dst_party (observe S n) = box_opened dst_party n" for n by (simp add: box_opened_def dst_party_def observe_opened)
  then show "editing_platform_axioms (site_platform S) (boxes_ok S) (box_opened dst_party) (box_mails S)"
    by (intro editing_platform_axioms.intro) (simp_all add: aside_def site_runtime_def)
qed

text \<open>
  C18. In a session, propagation carries the queue out with the client of the program.  It only takes operations
  out of the queue and changes nothing else in the database, whatever fails.  Let every search for a queued
  Message-ID find, in the destination folders, the messages with this Message-ID and no others, in at most one
  folder.  When propagation succeeds the queue is empty, and a message in a destination folder for which a move
  was queued, however often and in whatever order, is in the destination folder that its present memberships
  call for; all others are where they were.  The flags of a message in a destination folder are what the queued
  keyword operations make of them in their order.  Messages outside the destination folders are left alone.
\<close>

theorem propagate_carries_out:
  assumes "editing_platform P Ok selected mails hits" and "[] \<notin> set (destFolders m)"
    and "db_ok d" and "queued_ids d \<subseteq> {k. findable (sessionReconciler P m a b) hits X k}"
  shows "steps drains (propagate (sessionReconciler P m a b)) \<and>
    hoare (at (session_scene Ok selected mails) d (True, X)) (propagate (sessionReconciler P m a b))
      (\<lambda>_ s. bk_queue (books_of (st_db s)) = [] \<and> session_scene Ok selected mails (st_world s) =
         (True, carried_out (sessionReconciler P m a b) d (bk_queue (books_of d)) ` X)) (\<lambda>_ _. True)"
  using propagate_carries [OF editing_platform.session_ignores [OF assms(1)] editing_platform.session_edits [OF assms(1,2)] assms(3,4)]
    propagate_drains by blast

text \<open>
  The reference servers, a destination with two folders, and a queue with two moves of one message that has left
  the inbox and come back, and with the two operations of a message that has got the label \<open>A/B\<close> and lost the
  label \<open>A B\<close>.  The two labels have one keyword, so the message has no keyword in the end, although it still
  has a label.
\<close>

definition still_runtime :: "'w runtime" where
  "still_runtime = \<lparr> rt_sql = (\<lambda>w. (None, w)), rt_ctx = (\<lambda>w. (None, w)), rt_now = (\<lambda>w. (0, w)),
     rt_perm = (\<lambda>w. ([], w)), rt_sha256 = id, rt_lower = id \<rparr>"

definition filed_site :: site where
  "filed_site = \<lparr> si_source = [], si_attrs = (\<lambda>_. []), si_boxes = [''All'', ''Archive''], si_header = id,
     si_read = (\<lambda>hdr. Some (\<lambda>k. if k = ''Message-Id'' then (if take 1 hdr = ''a'' then ''<a>'' else ''<b>'') else [])),
     si_sha = id, si_plan = (\<lambda>t. Fine), si_clock = int, si_room = 4000000000 \<rparr>"

definition filed_net :: net where
  "filed_net = \<lparr> nt_time = 0, nt_next = (\<lambda>_. 1), nt_gone = {}, nt_src = new_line, nt_dst = new_line,
     nt_boxes = [(''All'', [\<lparr> ml_uid = 2, ml_raw = ''b'', ml_flags = [''a_b'', ''seen''], ml_date = 0 \<rparr>]),
                 (''Archive'', [\<lparr> ml_uid = 1, ml_raw = ''a'', ml_flags = [''seen''], ml_date = 0 \<rparr>])],
     nt_uidnext = 3, nt_appends = [], nt_log = {} \<rparr>"

definition filing_endpoint :: "string \<Rightarrow> Endpoint" where
  "filing_endpoint folder = \<lparr> ep_Host = ''host'', ep_Port = 993, ep_User = ''u'', ep_Password = ''p'',
     ep_Folder = folder, ep_Inbox = ''INBOX'', ep_TLS = True \<rparr>"

definition filing_mirror :: Mirror where
  "filing_mirror = \<lparr> mi_Name = ''demo'', mi_StatePath = ''/state'', mi_PollInterval = Minute, mi_IdleReset = Minute,
     mi_UIDBatch = 500, mi_Seed = SeedAlways, mi_DestGuard = True, mi_CarrySeen = True,
     mi_Source = filing_endpoint ''All Mail'', mi_Dest = filing_endpoint ''All'',
     mi_Archive = \<lparr> ar_Enabled = True, ar_Folder = ''Archive'' \<rparr>,
     mi_Sent = \<lparr> se_Enabled = False, se_Folder = [], se_SourceFolder = [] \<rparr>,
     mi_Labels = \<lparr> la_Enabled = True, la_Propagate = True, la_Exclude = [], la_KeywordPrefix = [], la_KeywordReplacement = [] \<rparr> \<rparr>"

definition filing_links :: "net links" where
  "filing_links = (let cl = (\<lambda>f. \<lparr> cl_ep = filing_endpoint f, cl_selected = [], cl_guardChunk = 100, cl_arbitraryKeywords = False \<rparr>)
     in \<lparr> ln_src = cl ''All Mail'', ln_dst = cl ''All'', ln_heartbeat = 0, ln_lastLog = 0, ln_net = filed_net \<rparr>)"

definition queued :: db where
  "queued = \<lparr> db_copied = [], db_meta = [], db_members =
       [\<lparr> mr_folder = ''INBOX'', mr_message_id = ''<a>'', mr_uid = 4 \<rparr>, \<lparr> mr_folder = ''A/B'', mr_message_id = ''<b>'', mr_uid = 1 \<rparr>],
     db_pending = [\<lparr> po_ID = 3, po_Kind = ''move'', po_MessageID = ''<a>'', po_Folder = ''INBOX'', po_Op = ''remove'' \<rparr>,
                   \<lparr> po_ID = 4, po_Kind = ''keyword'', po_MessageID = ''<b>'', po_Folder = ''A/B'', po_Op = ''add'' \<rparr>,
                   \<lparr> po_ID = 7, po_Kind = ''move'', po_MessageID = ''<a>'', po_Folder = ''INBOX'', po_Op = ''add'' \<rparr>,
                   \<lparr> po_ID = 9, po_Kind = ''keyword'', po_MessageID = ''<b>'', po_Folder = ''A B'', po_Op = ''remove'' \<rparr>],
     db_seq = 9, db_folders = [] \<rparr>"

definition filed :: "item set" where
  "filed = {(''Archive'', ''<a>'', {''seen''}), (''All'', ''<b>'', {''a_b'', ''seen''})}"

theorem propagate_carries_out_witness:
  "session_scene (boxes_ok filed_site) (box_opened dst_party) (box_mails filed_site) filing_links = (True, filed) \<and>
   hoare (at (session_scene (boxes_ok filed_site) (box_opened dst_party) (box_mails filed_site)) queued (True, filed))
     (propagate (sessionReconciler (site_platform filed_site) filing_mirror ''All Mail'' []))
     (\<lambda>_ s. session_scene (boxes_ok filed_site) (box_opened dst_party) (box_mails filed_site) (st_world s) =
        (True, {(''All'', ''<a>'', {''seen''}), (''All'', ''<b>'', {''seen''})})) (\<lambda>_ _. True)"
proof
  let ?R = "sessionReconciler (site_platform filed_site) filing_mirror ''All Mail'' []"
  have trim: "TrimSpace ''<a>'' = ''<a>''" "TrimSpace ''<b>'' = ''<b>''"
    by (simp_all add: TrimSpace_def TrimFunc_def trim_segs_def byte_def IsSpace_def decode_ascii)
  have ids: "mail_id filed_site \<lparr> ml_uid = u, ml_raw = ''a'', ml_flags = fl, ml_date = 0 \<rparr> = ''<a>''"
    "mail_id filed_site \<lparr> ml_uid = u, ml_raw = ''b'', ml_flags = fl, ml_date = 0 \<rparr> = ''<b>''" for u fl
    by (simp_all add: mail_id_def filed_site_def header_fields_def trim)
  show "session_scene (boxes_ok filed_site) (box_opened dst_party) (box_mails filed_site) filing_links = (True, filed)"
    by (simp add: session_scene_def trusted_def filing_links_def Let_def filed_net_def box_mails_def ids filed_def boxes_ok_def)
      (simp add: filed_site_def)
  have folders: "set (destFolders filing_mirror) = {''All'', ''Archive''}"
    by (auto simp: destFolders_def filing_mirror_def filing_endpoint_def)
  have ok: "db_ok queued" by (simp add: db_ok_def queued_def member_pairs_def)
  have queue: "bk_queue (books_of queued) = [(pendingMove, ''<a>'', ''INBOX'', ''remove''), (pendingKeyword, ''<b>'', ''A/B'', ''add''),
      (pendingMove, ''<a>'', ''INBOX'', ''add''), (pendingKeyword, ''<b>'', ''A B'', ''remove'')]"
    by (simp add: queued_def books_of_def op_content_def pendingMove_def pendingKeyword_def)
  have moved: "moved_keys (bk_queue (books_of queued)) = {''<a>''}"
    by (auto simp: moved_keys_def queue pendingMove_def pendingKeyword_def)
  have "(''INBOX'', ''<a>'') \<in> bk_members (books_of queued)" by (simp add: books_pairs member_pairs_def queued_def)
  then have want: "target ?R queued ''<a>'' = ''All''"
    by (simp add: target_def bucket_def sessionReconciler_def New_def sessionOptions_def filing_mirror_def filing_endpoint_def)
  have "keywordFor id ''A/B'' [] = ''a_b''" "keywordFor id ''A B'' [] = ''a_b''" by code_simp+
  then have kw: "labelKeyword (rt_lower (r_rt ?R)) (r_opts ?R) ''A/B'' = ''a_b''" "labelKeyword (rt_lower (r_rt ?R)) (r_opts ?R) ''A B'' = ''a_b''"
    by (simp_all add: labelKeyword_def sessionReconciler_def New_def sessionOptions_def wire_runtime_def filing_mirror_def site_runtime_def)
  have opts: "LabelPropagate (r_opts ?R)" "routing ?R"
    by (simp_all add: sessionReconciler_def New_def sessionOptions_def filing_mirror_def)
  have b: "carried_out ?R queued (bk_queue (books_of queued)) (''All'', ''<b>'', {''a_b'', ''seen''}) = (''All'', ''<b>'', {''seen''})"
    using kw opts unfolding carried_out.simps moved session_buckets folders by (auto simp: queue retag_def Let_def pendingMove_def pendingKeyword_def)
  have a: "carried_out ?R queued (bk_queue (books_of queued)) (''Archive'', ''<a>'', {''seen''}) = (''All'', ''<a>'', {''seen''})"
    using want opts unfolding carried_out.simps moved session_buckets folders by (simp add: queue Let_def kinds_differ)
  have "findable ?R contains filed k" if "k \<in> {''<a>'', ''<b>''}" for k
    unfolding findable_def session_buckets folders by (rule exI [of _ "if k = ''<a>'' then ''Archive'' else ''All''"]) (use that in \<open>auto simp: filed_def\<close>)
  moreover have "queued_ids queued \<subseteq> {''<a>'', ''<b>''}" by (auto simp: queued_ids_def queue)
  ultimately have find: "queued_ids queued \<subseteq> {k. findable ?R contains filed k}" by blast
  have named: "[] \<notin> set (destFolders filing_mirror)" by (simp add: folders)
  have "carried_out ?R queued (bk_queue (books_of queued)) ` filed = {(''All'', ''<a>'', {''seen''}), (''All'', ''<b>'', {''seen''})}"
    unfolding filed_def image_insert image_empty a b ..
  with propagate_carries_out [OF ref_edits.editing_platform_axioms named ok find]
  show "hoare (at (session_scene (boxes_ok filed_site) (box_opened dst_party) (box_mails filed_site)) queued (True, filed)) (propagate ?R)
     (\<lambda>_ s. session_scene (boxes_ok filed_site) (box_opened dst_party) (box_mails filed_site) (st_world s) =
        (True, {(''All'', ''<a>'', {''seen''}), (''All'', ''<b>'', {''seen''})})) (\<lambda>_ _. True)"
    by (auto elim: hoare_post)
qed

end
