(* ===== verification/Backfill.thy ===== *)
theory Backfill
  imports Placement
begin

text \<open>
  The placement and keyword backfill of one destination folder: afterwards every message of the folder is
  in the destination folder that its memberships call for and has the keywords of its labels, and no
  other message has been touched.
\<close>

section \<open>The view of a folder\<close>

text \<open>
  A message of the folder is known by the UID it has there at the start.  The view of the world is
  whether the folder is selected, the folder in which each message is, and its flags.
\<close>

type_synonym spread = "bool \<times> (u32 \<Rightarrow> string) \<times> (u32 \<Rightarrow> flag set)"

definition tag_uids :: "string \<Rightarrow> u32 set \<Rightarrow> flag set \<Rightarrow> spread \<Rightarrow> spread" where
  "tag_uids folder us kws v = (case v of (b, home, tags) \<Rightarrow>
     (b, home, \<lambda>u. if u \<in> us \<and> home u = folder then tags u \<union> kws else tags u))"

definition move_uids :: "string \<Rightarrow> u32 set \<Rightarrow> string \<Rightarrow> spread \<Rightarrow> spread" where
  "move_uids folder us to v = (case v of (b, home, tags) \<Rightarrow>
     (b, \<lambda>u. if u \<in> us \<and> home u = folder then to else home u, tags))"

text \<open>
  The calls of the backfill as the interface \<open>Dest\<close> speaks of them.  A STORE and a MOVE by UID reach
  only the messages that are still in the selected folder.  The folder starts with the messages \<open>M\<close>, which
  have UIDs below UIDNEXT \<open>n\<close> and the flags of \<open>tags\<close>; a folder that counts no messages has none.
\<close>

definition edits_by_uid :: "'w Reconciler \<Rightarrow> ('w \<Rightarrow> spread) \<Rightarrow> string \<Rightarrow> MsgMeta set \<Rightarrow> u32 \<Rightarrow> (u32 \<Rightarrow> flag set) \<Rightarrow> bool" where
  "edits_by_uid R look folder M n tags \<longleftrightarrow>
     (\<forall>v. hoare (\<lambda>w. snd (look w) = v) (dst_SelectNamedFolder (r_dst R) folder)
        (\<lambda>r w. look w = (True, v) \<and> fst (snd r) = n \<and> (snd (snd r) = 0 \<longrightarrow> M = {})) (\<lambda>_ _. True)) \<and>
     (\<forall>a b. hoare (\<lambda>w. look w = (True, \<lambda>_. folder, tags)) (dst_FetchMetaRange (r_dst R) a b)
        (\<lambda>ms w. look w = (True, \<lambda>_. folder, tags) \<and> set ms = {m \<in> M. a \<le> m_UID m \<and> m_UID m \<le> b}) (\<lambda>_ _. True)) \<and>
     (\<forall>us kws v. hoare (\<lambda>w. look w = (True, v)) (dst_StoreKeywordsUIDs (r_dst R) us kws)
        (\<lambda>_ w. look w = tag_uids folder (set us) (set kws) (True, v)) (\<lambda>_ _. True)) \<and>
     (\<forall>us to v. hoare (\<lambda>w. look w = (True, v)) (dst_MoveUIDs (r_dst R) folder us to)
        (\<lambda>_ w. look w = move_uids folder (set us) to (True, v)) (\<lambda>_ _. True)) \<and>
     inj_on m_UID M \<and> (\<forall>m \<in> M. 0 < m_UID m \<and> m_UID m < n \<and> tags (m_UID m) = set (m_Flags m))"

text \<open>What the backfill wants of a message.\<close>

definition labels_of :: "'w Reconciler \<Rightarrow> db \<Rightarrow> string \<Rightarrow> string list" where
  "labels_of R d k = filter (\<lambda>f. \<not> isRoutingFolder R f) (member_folders d k)"

definition wanted_folder :: "'w Reconciler \<Rightarrow> db \<Rightarrow> string \<Rightarrow> MsgMeta \<Rightarrow> string" where
  "wanted_folder R d folder m = (if routing R then target R d (DedupKey (rt_sha256 (r_rt R)) m) else folder)"

definition wanted_keywords :: "'w Reconciler \<Rightarrow> db \<Rightarrow> MsgMeta \<Rightarrow> flag list" where
  "wanted_keywords R d m = (if SyncLabels (r_opts R)
     then missingKeywords (rt_lower (r_rt R)) (r_opts R) (labels_of R d (DedupKey (rt_sha256 (r_rt R)) m)) (m_Flags m) else [])"

lemma hoare_labelsFor:
  "hoare (\<lambda>s. st_db s = d) (labelsFor R k) (\<lambda>ls s. ls = labels_of R d k \<and> st_db s = d) (\<lambda>_ _. True)"
  unfolding labelsFor_def labels_of_def
  by (rule hoare_bindM [where Q = "\<lambda>fs s. st_db s = d \<and> fs = member_folders d k"],
      rule hoare_conseq [OF hoare_query [OF reads_MemberFolders]]) (auto simp: hoare_def returnM_def)

section \<open>Signatures\<close>

text \<open>Two lists of keywords with one signature have the same keywords, as no keyword contains a NUL.\<close>

definition clean_keywords :: "'w Options \<Rightarrow> bool" where
  "clean_keywords o' \<longleftrightarrow> CHR 0x00 \<notin> set (KeywordPrefix o') \<and> isKeywordChar (keyword_rc (KeywordReplacement o'))"

lemma clean_labelKeyword:
  assumes "clean_keywords o'"
  shows "CHR 0x00 \<notin> set (labelKeyword ul o' l)"
proof -
  have "\<forall>c \<in> set (keywordFor ul l (KeywordReplacement o')). c \<noteq> CHR 0x00"
    using keywordFor_chars [of "KeywordReplacement o'" ul l] assms by (auto simp: clean_keywords_def byte_def)
  then show ?thesis using assms by (auto simp: labelKeyword_def Let_def clean_keywords_def)
qed

lemma flagSig_inj:
  assumes "\<forall>kw \<in> set xs \<union> set ys. CHR 0x00 \<notin> set kw \<and> kw \<noteq> []" and "flagSig xs = flagSig ys"
  shows "set xs = set ys"
proof -
  have "sort xs = sort ys" by (rule Join_inj [of _ _ "CHR 0x00"]) (use assms in \<open>auto simp: flagSig_def\<close>)
  then show ?thesis by (metis set_sort)
qed

lemma wanted_keywords_clean:
  assumes "clean_keywords (r_opts R)" and "kw \<in> set (wanted_keywords R d m)"
  shows "CHR 0x00 \<notin> set kw \<and> kw \<noteq> []"
  using assms(2) clean_labelKeyword [OF assms(1)]
  by (auto simp: wanted_keywords_def missingKeywords_def set_labelKeywords Let_def split: if_splits)

section \<open>Loops\<close>

text \<open>A loop whose invariant names the elements that it has seen.\<close>

lemma hoare_forM_seen:
  assumes "\<And>x A. x \<in> set xs \<Longrightarrow> hoare (I A) (f x) (\<lambda>_. I (insert x A)) E"
  shows "hoare (I A) (forM xs f) (\<lambda>_. I (A \<union> set xs)) E"
  using assms
proof (induction xs arbitrary: A)
  case Nil
  show ?case by (simp add: hoare_def returnM_def)
next
  case (Cons x xs)
  have "hoare (I (insert x A)) (forM xs f) (\<lambda>_. I (insert x A \<union> set xs)) E" by (rule Cons.IH) (use Cons.prems in simp)
  then show ?case using hoare_bindM [OF Cons.prems, of x A] by simp
qed

lemma set_chunks: "0 < n \<Longrightarrow> \<Union> (set ` set (chunks n xs)) = set xs"
proof (induction n xs rule: chunks.induct)
  case (1 n xs)
  have "set (take n xs) \<union> set (drop n xs) = set xs" by (metis append_take_drop_id set_append)
  then show ?case using 1 by (simp add: chunks.simps [of n xs])
qed

section \<open>Storing and moving\<close>

lemma tag_again: "tag_uids folder us' kws (tag_uids folder us kws v) = tag_uids folder (us \<union> us') kws v"
  by (auto simp: tag_uids_def fun_eq_iff split: prod.split)

lemma move_again: "to \<noteq> folder \<Longrightarrow> move_uids folder us' to (move_uids folder us to v) = move_uids folder (us \<union> us') to v"
  by (auto simp: move_uids_def fun_eq_iff split: prod.split)

lemma store_chunks:
  assumes "edits_by_uid R look folder M n tags"
  shows "hoare (at look d (True, v)) (forM (chunks moveChunk us) (\<lambda>chunk. call (dst_StoreKeywordsUIDs (r_dst R) chunk kws)))
    (\<lambda>_. at look d (tag_uids folder (set us) (set kws) (True, v))) (\<lambda>_ _. True)"
proof -
  have select: "\<exists>v'. tag_uids folder us kws (True, v) = (True, v')" for us kws by (cases v) (simp add: tag_uids_def)
  have "hoare (\<lambda>s. at look d (tag_uids folder (\<Union> (set ` A)) (set kws) (True, v)) s) (call (dst_StoreKeywordsUIDs (r_dst R) chunk kws))
      (\<lambda>_. at look d (tag_uids folder (\<Union> (set ` insert chunk A)) (set kws) (True, v))) (\<lambda>_ _. True)" for A chunk
  proof -
    obtain v' where v': "tag_uids folder (\<Union> (set ` A)) (set kws) (True, v) = (True, v')" using select by blast
    have "hoare (\<lambda>w. look w = (True, v')) (dst_StoreKeywordsUIDs (r_dst R) chunk kws)
        (\<lambda>_ w. look w = tag_uids folder (set chunk) (set kws) (True, v')) (\<lambda>_ _. True)"
      using assms unfolding edits_by_uid_def by blast
    from at_call [OF this, of d] show ?thesis by (simp add: v' [symmetric] tag_again Un_commute)
  qed
  from hoare_forM_seen [where I = "\<lambda>A. at look d (tag_uids folder (\<Union> (set ` A)) (set kws) (True, v))" and A = "{}" and xs = "chunks moveChunk us", OF this]
  show ?thesis
    by (simp add: set_chunks moveChunk_def) (simp add: tag_uids_def split: prod.splits)
qed

lemma move_chunks:
  assumes "ignoring R look" and "edits_by_uid R look folder M n tags" and "to \<noteq> folder"
  shows "hoare (at look d (True, v)) (forM (chunks moveChunk us) (\<lambda>chunk. bindM (ctxErr R) (\<lambda>_. call (dst_MoveUIDs (r_dst R) folder chunk to))))
    (\<lambda>_. at look d (move_uids folder (set us) to (True, v))) (\<lambda>_ _. True)"
proof -
  have select: "\<exists>v'. move_uids folder us to (True, v) = (True, v')" for us by (cases v) (simp add: move_uids_def)
  have "hoare (\<lambda>s. at look d (move_uids folder (\<Union> (set ` A)) to (True, v)) s) (bindM (ctxErr R) (\<lambda>_. call (dst_MoveUIDs (r_dst R) folder chunk to)))
      (\<lambda>_. at look d (move_uids folder (\<Union> (set ` insert chunk A)) to (True, v))) (\<lambda>_ _. True)" for A chunk
  proof -
    obtain v' where v': "move_uids folder (\<Union> (set ` A)) to (True, v) = (True, v')" using select by blast
    have "hoare (\<lambda>w. look w = (True, v')) (dst_MoveUIDs (r_dst R) folder chunk to)
        (\<lambda>_ w. look w = move_uids folder (set chunk) to (True, v')) (\<lambda>_ _. True)"
      using assms unfolding edits_by_uid_def by blast
    note hoare_bindM [OF at_calm [OF reading_relation.ctxErr_steps [OF local_relation.axioms(1) [OF assms(1)]] untouched.ctxErr_steps] at_call [OF this, of d]]
    then show ?thesis by (simp add: v' [symmetric] move_again [OF assms(3)] Un_commute)
  qed
  from hoare_forM_seen [where I = "\<lambda>A. at look d (move_uids folder (\<Union> (set ` A)) to (True, v))" and A = "{}" and xs = "chunks moveChunk us", OF this]
  show ?thesis
    by (simp add: set_chunks moveChunk_def) (simp add: move_uids_def split: prod.splits)
qed

text \<open>All groups of UIDs are tagged: each UID gets the keywords of its group.\<close>

lemma store_groups:
  assumes edits: "edits_by_uid R look folder M n tags"
    and kws: "\<And>sig us u. (sig, us) \<in> set gs \<Longrightarrow> u \<in> set us \<Longrightarrow>
      set (case map_of (kwFlags v) sig of None \<Rightarrow> [] | Some kws \<Rightarrow> kws) = K u"
  shows "hoare (at look d (True, \<lambda>_. folder, tags)) (storeGroups R v gs)
    (\<lambda>_. at look d (True, \<lambda>_. folder, \<lambda>u. if \<exists>g \<in> set gs. u \<in> set (snd g) then tags u \<union> K u else tags u)) (\<lambda>_ _. True)"
proof -
  let ?T = "\<lambda>A u. if \<exists>g \<in> A. u \<in> set (snd g) then tags u \<union> K u else tags u"
  let ?I = "\<lambda>A. at look d (True, \<lambda>_. folder, ?T A)"
  let ?f = "\<lambda>(sig, uids). bindM (forM (chunks moveChunk uids) (\<lambda>chunk.
         call (dst_StoreKeywordsUIDs (r_dst R) chunk
           (case map_of (kwFlags v) sig of None \<Rightarrow> [] | Some kws \<Rightarrow> kws)))) (\<lambda>_.
       update_sum (\<lambda>sum. sum\<lparr> KeywordsUpdated := KeywordsUpdated sum + int (length uids) \<rparr>))"
  have "hoare (?I A) (?f g) (\<lambda>_. ?I (insert g A)) (\<lambda>_ _. True)" if "g \<in> set gs" for A g
  proof -
    obtain sig us where g: "g = (sig, us)" by (cases g)
    have "tag_uids folder (set us) (set (case map_of (kwFlags v) sig of None \<Rightarrow> [] | Some kws \<Rightarrow> kws)) (True, \<lambda>_. folder, ?T A) =
        (True, \<lambda>_. folder, ?T (insert g A))"
      using kws [of sig us] that by (auto simp: g tag_uids_def fun_eq_iff)
    then show ?thesis
      unfolding g prod.case by (elim subst) (rule hoare_bindM [OF store_chunks [OF edits] at_update_sum])
  qed
  from hoare_forM_seen [where I = ?I and A = "{}", OF this] show ?thesis by (simp add: storeGroups_def)
qed

text \<open>All groups of UIDs are moved: each UID goes where its group goes.\<close>

lemma move_groups:
  assumes keep: "ignoring R look" and edits: "edits_by_uid R look folder M n tags"
    and gs: "\<And>w us u. (w, us) \<in> set gs \<Longrightarrow> u \<in> set us \<Longrightarrow> D u = w" "\<And>w us. (w, us) \<in> set gs \<Longrightarrow> w \<noteq> folder"
  shows "hoare (at look d (True, \<lambda>_. folder, T)) (moveGroups R folder gs)
    (\<lambda>_. at look d (True, \<lambda>u. if \<exists>g \<in> set gs. u \<in> set (snd g) then D u else folder, T)) (\<lambda>_ _. True)"
proof -
  let ?H = "\<lambda>A u. if \<exists>g \<in> A. u \<in> set (snd g) then D u else folder"
  let ?I = "\<lambda>A. at look d (True, ?H A, T)"
  let ?f = "\<lambda>(want, uids). bindM (forM (chunks moveChunk uids) (\<lambda>chunk.
         bindM (ctxErr R) (\<lambda>_. call (dst_MoveUIDs (r_dst R) folder chunk want)))) (\<lambda>_.
       countMove R want (int (length uids)))"
  have "hoare (?I A) (?f g) (\<lambda>_. ?I (insert g A)) (\<lambda>_ _. True)" if "g \<in> set gs" for A g
  proof -
    obtain w us where g: "g = (w, us)" by (cases g)
    have w: "w \<noteq> folder" "\<And>u. u \<in> set us \<Longrightarrow> D u = w" using gs that by (simp_all add: g)
    have "move_uids folder (set us) w (True, ?H A, T) = (True, ?H (insert g A), T)"
      using w by (auto simp: g move_uids_def fun_eq_iff)
    then show ?thesis
      unfolding g prod.case countMove_def by (elim subst) (rule hoare_bindM [OF move_chunks [OF keep edits w(1)] at_update_sum])
  qed
  from hoare_forM_seen [where I = ?I and A = "{}", OF this] show ?thesis by (simp add: moveGroups_def)
qed

section \<open>Collecting the groups\<close>

text \<open>
  The three maps after the messages with the UIDs of \<open>U\<close>: the UIDs of each wanted folder, the UIDs of each
  signature, and keywords for each signature.
\<close>

definition in_group :: "('k \<times> u32 list) list \<Rightarrow> 'k \<Rightarrow> u32 \<Rightarrow> bool" where
  "in_group m k u \<longleftrightarrow> (\<exists>us. map_of m k = Some us \<and> u \<in> set us)"

definition wrong_ok :: "string \<Rightarrow> (u32 \<Rightarrow> string) \<Rightarrow> u32 set \<Rightarrow> (string \<times> u32 list) list \<Rightarrow> bool" where
  "wrong_ok folder D U m \<longleftrightarrow> distinct (map fst m) \<and> (\<forall>w us. map_of m w = Some us \<longrightarrow> us \<noteq> []) \<and>
     (\<forall>w u. in_group m w u \<longleftrightarrow> u \<in> U \<and> D u = w \<and> w \<noteq> folder)"

definition kw_ok :: "(u32 \<Rightarrow> flag list) \<Rightarrow> u32 set \<Rightarrow> backfill_vars \<Rightarrow> bool" where
  "kw_ok G U v \<longleftrightarrow> distinct (map fst (kwGroups v)) \<and>
     (\<forall>sig u. in_group (kwGroups v) sig u \<longleftrightarrow> u \<in> U \<and> G u \<noteq> [] \<and> flagSig (G u) = sig) \<and>
     (\<forall>u \<in> U. G u \<noteq> [] \<longrightarrow> (\<exists>kws. map_of (kwFlags v) (flagSig (G u)) = Some kws \<and> set kws = set (G u)))"

lemma in_group_append_at: "in_group (append_at k u m) k' u' \<longleftrightarrow> in_group m k' u' \<or> k' = k \<and> u' = u"
  by (cases "map_of m k") (auto simp: in_group_def append_at_def update_conv')

lemma distinct_append_at: "distinct (map fst m) \<Longrightarrow> distinct (map fst (append_at k u m))"
  by (simp add: append_at_def distinct_update)

lemma append_at_nonempty: "(\<And>us. map_of m w = Some us \<Longrightarrow> us \<noteq> []) \<Longrightarrow> map_of (append_at k u m) w = Some us \<Longrightarrow> us \<noteq> []"
  by (auto simp: append_at_def update_conv' split: if_splits)

lemma wrong_ok_start: "wrong_ok folder D {} []"
  by (simp add: wrong_ok_def in_group_def)

lemma wrong_ok_skip: "wrong_ok folder D U m \<Longrightarrow> D u = folder \<Longrightarrow> wrong_ok folder D (insert u U) m"
  by (auto simp: wrong_ok_def)

lemma wrong_ok_add: "wrong_ok folder D U m \<Longrightarrow> D u \<noteq> folder \<Longrightarrow> wrong_ok folder D (insert u U) (append_at (D u) u m)"
  using append_at_nonempty [of m _ "D u" u]
  unfolding wrong_ok_def in_group_append_at by (auto intro: distinct_append_at)

lemma kw_ok_start: "kw_ok G {} empty_vars"
  by (simp add: kw_ok_def empty_vars_def in_group_def)

lemma kw_ok_skip: "kw_ok G U v \<Longrightarrow> G u = [] \<Longrightarrow> kw_ok G (insert u U) v"
  by (auto simp: kw_ok_def)

lemma kw_ok_add:
  assumes "kw_ok G U v" and "G u \<noteq> []" and "\<And>u'. u' \<in> U \<Longrightarrow> flagSig (G u') = flagSig (G u) \<Longrightarrow> set (G u') = set (G u)"
  shows "kw_ok G (insert u U) (v\<lparr> kwGroups := append_at (flagSig (G u)) u (kwGroups v), kwFlags := AList.update (flagSig (G u)) (G u) (kwFlags v) \<rparr>)"
  using assms unfolding kw_ok_def
  by (auto simp: in_group_append_at distinct_append_at update_conv')

section \<open>One message\<close>

text \<open>The maps while the view is \<open>v\<close>, after the UIDs of \<open>W\<close> have been sorted by folder and those of \<open>U\<close> by keywords.\<close>

definition sorting :: "('w \<Rightarrow> spread) \<Rightarrow> db \<Rightarrow> spread \<Rightarrow> string \<Rightarrow> (u32 \<Rightarrow> string) \<Rightarrow> (u32 \<Rightarrow> flag list) \<Rightarrow> u32 set \<Rightarrow> u32 set \<Rightarrow>
    'w st \<times> backfill_vars \<Rightarrow> bool" where
  "sorting look d v folder D G W U x \<longleftrightarrow> at look d v (fst x) \<and> wrong_ok folder D W (wrongByDest (snd x)) \<and> kw_ok G U (snd x)"

lemma sorting_outer:
  assumes "steps (\<lambda>s s'. look (st_world s') = look (st_world s)) m" and "hoare (\<lambda>s. st_db s = d) m (\<lambda>a s. a = b \<and> st_db s = d) (\<lambda>_ _. True)"
  shows "hoare (sorting look d v folder D G W U) (outer m) (\<lambda>a x. sorting look d v folder D G W U x \<and> a = b) (\<lambda>_ _. True)"
proof (rule hoare_outer, rule hoareI)
  fix l s a s'
  assume "sorting look d v folder D G W U (s, l)" and m: "m s = Some (Inr a, s')"
  then show "sorting look d v folder D G W U (s', l) \<and> a = b"
    using stepsD [OF assms(1) m] hoare_InrD [OF assms(2) _ m] by (simp add: sorting_def)
qed simp

text \<open>Where a message belongs: it is noted if that is another folder.\<close>

lemma sort_by_folder:
  assumes reading: "reading_relation R (\<lambda>w w'. look w' = look w) (\<lambda>s s'. look (st_world s') = look (st_world s))"
    and D: "D (m_UID m) = wanted_folder R d folder m"
  shows "hoare (sorting look d v folder D G U U) (if routing R
      then bindM (outer (destFolderFor R (DedupKey (rt_sha256 (r_rt R)) m))) (\<lambda>want.
        if want \<noteq> folder then modifyM (\<lambda>(s, v). (s, v\<lparr> wrongByDest := append_at want (m_UID m) (wrongByDest v) \<rparr>)) else returnM ())
      else returnM ()) (\<lambda>_. sorting look d v folder D G (insert (m_UID m) U) U) (\<lambda>_ _. True)"
proof (rule hoare_if)
  let ?key = "DedupKey (rt_sha256 (r_rt R)) m" and ?u = "m_UID m" and ?S = "sorting look d v folder D G"
  have skip: "hoare (?S U U) (returnM ()) (\<lambda>_. ?S (insert ?u U) U) (\<lambda>_ _. True)" if "D ?u = folder"
    using wrong_ok_skip [of folder D U _ ?u] that by (auto simp: hoare_def returnM_def sorting_def)
  show "hoare (?S U U) (returnM ()) (\<lambda>_. ?S (insert ?u U) U) (\<lambda>_ _. True)" if "\<not> routing R"
    using that D by (intro skip) (simp add: wanted_folder_def)
  assume r: "routing R"
  show "hoare (?S U U) (bindM (outer (destFolderFor R ?key)) (\<lambda>want.
      if want \<noteq> folder then modifyM (\<lambda>(s, v). (s, v\<lparr> wrongByDest := append_at want ?u (wrongByDest v) \<rparr>)) else returnM ()))
    (\<lambda>_. ?S (insert ?u U) U) (\<lambda>_ _. True)"
  proof (rule hoare_bindM [OF sorting_outer [OF reading_relation.destFolderFor_steps [OF reading] hoare_target]], rule hoare_pure, rule hoare_if)
    fix want
    assume want: "want = target R d ?key"
    then have Du: "D ?u = want" using r D by (simp add: wanted_folder_def)
    show "hoare (?S U U) (modifyM (\<lambda>(s, v). (s, v\<lparr> wrongByDest := append_at want ?u (wrongByDest v) \<rparr>))) (\<lambda>_. ?S (insert ?u U) U) (\<lambda>_ _. True)"
      if "want \<noteq> folder"
      using wrong_ok_add [of folder D U _ ?u] that Du by (auto simp: hoare_def modifyM_def sorting_def kw_ok_def)
    show "hoare (?S U U) (returnM ()) (\<lambda>_. ?S (insert ?u U) U) (\<lambda>_ _. True)" if "\<not> want \<noteq> folder"
      using that Du by (intro skip) simp
  qed
qed

text \<open>The keywords that a message lacks: it is noted if there are any.\<close>

lemma sort_by_keywords:
  assumes reading: "reading_relation R (\<lambda>w w'. look w' = look w) (\<lambda>s s'. look (st_world s') = look (st_world s))"
    and G: "G (m_UID m) = wanted_keywords R d m"
    and sig: "\<And>u. u \<in> U \<Longrightarrow> flagSig (G u) = flagSig (G (m_UID m)) \<Longrightarrow> set (G u) = set (G (m_UID m))"
  shows "hoare (sorting look d v folder D G W U) (if SyncLabels (r_opts R)
      then bindM (outer (labelsFor R (DedupKey (rt_sha256 (r_rt R)) m))) (\<lambda>labels.
        let missing = missingKeywords (rt_lower (r_rt R)) (r_opts R) labels (m_Flags m) in
        if missing \<noteq> []
        then let sig = flagSig missing in
          modifyM (\<lambda>(s, v). (s, v\<lparr> kwGroups := append_at sig (m_UID m) (kwGroups v), kwFlags := AList.update sig missing (kwFlags v) \<rparr>))
        else returnM ())
      else returnM ()) (\<lambda>_. sorting look d v folder D G W (insert (m_UID m) U)) (\<lambda>_ _. True)"
proof (rule hoare_if)
  let ?key = "DedupKey (rt_sha256 (r_rt R)) m" and ?u = "m_UID m" and ?S = "sorting look d v folder D G"
  have skip: "hoare (?S W U) (returnM ()) (\<lambda>_. ?S W (insert ?u U)) (\<lambda>_ _. True)" if "G ?u = []"
    using kw_ok_skip [of G U _ ?u] that by (auto simp: hoare_def returnM_def sorting_def)
  show "hoare (?S W U) (returnM ()) (\<lambda>_. ?S W (insert ?u U)) (\<lambda>_ _. True)" if "\<not> SyncLabels (r_opts R)"
    using that G by (intro skip) (simp add: wanted_keywords_def)
  assume l: "SyncLabels (r_opts R)"
  show "hoare (?S W U) (bindM (outer (labelsFor R ?key)) (\<lambda>labels.
      let missing = missingKeywords (rt_lower (r_rt R)) (r_opts R) labels (m_Flags m) in
      if missing \<noteq> []
      then let sig = flagSig missing in
        modifyM (\<lambda>(s, v). (s, v\<lparr> kwGroups := append_at sig ?u (kwGroups v), kwFlags := AList.update sig missing (kwFlags v) \<rparr>))
      else returnM ())) (\<lambda>_. ?S W (insert ?u U)) (\<lambda>_ _. True)"
    unfolding Let_def
  proof (rule hoare_bindM [OF sorting_outer [OF reading_relation.labelsFor_steps [OF reading] hoare_labelsFor]], rule hoare_pure, rule hoare_if)
    fix labels
    let ?missing = "missingKeywords (rt_lower (r_rt R)) (r_opts R) labels (m_Flags m)"
    assume "labels = labels_of R d ?key"
    then have Gu: "G ?u = ?missing" using l G by (simp add: wanted_keywords_def)
    show "hoare (?S W U) (modifyM (\<lambda>(s, v). (s, v\<lparr> kwGroups := append_at (flagSig ?missing) ?u (kwGroups v),
        kwFlags := AList.update (flagSig ?missing) ?missing (kwFlags v) \<rparr>))) (\<lambda>_. ?S W (insert ?u U)) (\<lambda>_ _. True)"
      if "?missing \<noteq> []"
      using kw_ok_add [of G U _ ?u, OF _ _ sig] that by (auto simp: hoare_def modifyM_def sorting_def Gu)
    show "hoare (?S W U) (returnM ()) (\<lambda>_. ?S W (insert ?u U)) (\<lambda>_ _. True)" if "\<not> ?missing \<noteq> []"
      using that Gu by (intro skip) simp
  qed
qed

lemma sort_message:
  assumes keep: "ignoring R look" and D: "D (m_UID m) = wanted_folder R d folder m" and G: "G (m_UID m) = wanted_keywords R d m"
    and sig: "\<And>u. u \<in> U \<Longrightarrow> flagSig (G u) = flagSig (G (m_UID m)) \<Longrightarrow> set (G u) = set (G (m_UID m))"
  shows "hoare (sorting look d v folder D G U U) (backfillMessage R folder m)
    (\<lambda>_. sorting look d v folder D G (insert (m_UID m) U) (insert (m_UID m) U)) (\<lambda>_ _. True)"
  unfolding backfillMessage_def Let_def [of "r_opts R"] Let_def [of "DedupKey (rt_sha256 (r_rt R)) m"]
  by (rule hoare_bindM [where Q = "\<lambda>_. sorting look d v folder D G (insert (m_UID m) U) U"],
    rule sort_by_folder [where D = D, OF local_relation.axioms(1) [OF keep] D],
    rule sort_by_keywords [where G = G, OF local_relation.axioms(1) [OF keep] G sig])

section \<open>One folder\<close>

lemma group_iff:
  assumes "distinct (map fst m)" and "set gs = set m"
  shows "(\<exists>g \<in> set gs. u \<in> set (snd g)) \<longleftrightarrow> (\<exists>k. in_group m k u)"
proof -
  have "in_group m k u \<longleftrightarrow> (\<exists>us. (k, us) \<in> set m \<and> u \<in> set us)" for k
    by (simp add: in_group_def map_of_eq_Some_iff [OF assms(1)])
  then show ?thesis by (simp add: assms(2) Bex_def)
qed

lemma at_order:
  assumes "ignoring R look"
  shows "hoare (at look d v) (go_order (r_rt R) xs) (\<lambda>ys s. at look d v s \<and> set ys = set xs) (\<lambda>_ _. True)"
proof (rule hoareI)
  fix s ys s'
  assume "at look d v s" and m: "go_order (r_rt R) xs s = Some (Inr ys, s')"
  then show "at look d v s' \<and> set ys = set xs"
    using stepsD [OF reading_relation.go_order_steps [OF local_relation.axioms(1) [OF assms]] m]
    by (auto simp: go_order_def split: prod.splits)
qed simp

text \<open>What the scan collects.\<close>

lemma backfill_scan:
  fixes R :: "'w Reconciler" and look :: "'w \<Rightarrow> spread"
  assumes keep: "ignoring R look" and edits: "edits_by_uid R look folder M n tags"
    and batch: "0 < (word_of_int (UIDBatch (r_opts R)) :: u32)" "unat n + unat (word_of_int (UIDBatch (r_opts R)) :: u32) \<le> 2 ^ 32"
    and D: "\<And>m. m \<in> M \<Longrightarrow> D (m_UID m) = wanted_folder R d folder m" and G: "\<And>m. m \<in> M \<Longrightarrow> G (m_UID m) = wanted_keywords R d m"
    and clean: "\<And>u kw. kw \<in> set (G u) \<Longrightarrow> CHR 0x00 \<notin> set kw \<and> kw \<noteq> []"
  shows "hoare (at look d (True, \<lambda>_. folder, tags)) (withVars empty_vars
      (scanWindows (r_opts R) (outer (ctxErr R)) 1 n (\<lambda>start stop. outer (call (dst_FetchMetaRange (r_dst R) start stop)))
        (\<lambda>stop metas. bindM (outer (progress R ''backfill'' folder (uint stop))) (\<lambda>_. forM metas (backfillMessage R folder)))))
    (\<lambda>v s. at look d (True, \<lambda>_. folder, tags) s \<and> wrong_ok folder D (m_UID ` M) (wrongByDest v) \<and> kw_ok G (m_UID ` M) v) (\<lambda>_ _. True)"
    (is "hoare (at look d ?v) (withVars empty_vars ?scan) ?Q _")
proof (rule hoare_withVars)
  let ?S = "\<lambda>U. sorting look d ?v folder D G U U" and ?I = "\<lambda>p. sorting look d ?v folder D G (m_UID ` below M p) (m_UID ` below M p)"
  note reading = local_relation.axioms(1) [OF keep]
  have uids: "0 < m_UID m \<and> m_UID m < n" if "m \<in> M" for m using edits that by (simp add: edits_by_uid_def)
  have calm: "hoare (?S U) (outer m) (\<lambda>_. ?S U) (\<lambda>_ _. True)"
    if "steps (\<lambda>s s'. look (st_world s') = look (st_world s)) m" "steps (\<lambda>s s'. st_db s' = st_db s) m" for U and m :: "('w st, unit) prog"
    using at_calm [OF that, of d ?v] by (intro hoare_outer hoareI) (auto simp: sorting_def dest: hoare_InrD)
  have fetch: "hoare (?S U) (outer (call (dst_FetchMetaRange (r_dst R) a b))) (\<lambda>ms x. ?S U x \<and> set ms = {m \<in> M. a \<le> m_UID m \<and> m_UID m \<le> b}) (\<lambda>_ _. True)" for U a b
  proof (rule hoare_outer, rule hoare_call)
    fix l s ms w
    assume S: "?S U (s, l)" and m: "dst_FetchMetaRange (r_dst R) a b (st_world s) = Some (Inr ms, w)"
    have "hoare (\<lambda>w. look w = ?v) (dst_FetchMetaRange (r_dst R) a b) (\<lambda>ms w. look w = ?v \<and> set ms = {m \<in> M. a \<le> m_UID m \<and> m_UID m \<le> b}) (\<lambda>_ _. True)"
      using edits unfolding edits_by_uid_def by blast
    from hoare_InrD [OF this _ m] S
    show "?S U (s\<lparr> st_world := w \<rparr>, l) \<and> set ms = {m \<in> M. a \<le> m_UID m \<and> m_UID m \<le> b}" by (simp add: sorting_def)
  qed simp
  have messages: "hoare (?S U) (forM ms (backfillMessage R folder)) (\<lambda>_. ?S (U \<union> m_UID ` set ms)) (\<lambda>_ _. True)" if "set ms \<subseteq> M" for U ms
  proof -
    have "hoare (?S (U \<union> m_UID ` A)) (backfillMessage R folder m) (\<lambda>_. ?S (U \<union> m_UID ` insert m A)) (\<lambda>_ _. True)" if "m \<in> set ms" for m A
    proof -
      have m: "m \<in> M" using that \<open>set ms \<subseteq> M\<close> by blast
      have sig: "set (G u) = set (G (m_UID m))" if "flagSig (G u) = flagSig (G (m_UID m))" for u
        by (rule flagSig_inj [OF _ that]) (use clean in blast)
      show ?thesis
        unfolding image_insert Un_insert_right by (rule sort_message [OF keep]) (simp_all add: D [OF m] G [OF m] sig)
    qed
    from hoare_forM_seen [where I = "\<lambda>A. ?S (U \<union> m_UID ` A)" and A = "{}" and xs = ms, OF this] show ?thesis by simp
  qed
  have "hoare (?I 1) ?scan (\<lambda>_ (s, v). ?Q v s) (\<lambda>_ _. True)"
  proof (rule hoare_scanWindows [OF batch calm [OF reading_relation.ctxErr_steps [OF reading] untouched.ctxErr_steps]])
    fix p q stop
    assume u: "p < n" "\<And>u. u < q \<and> u < n \<longleftrightarrow> u < p \<or> p \<le> u \<and> u \<le> stop"
    have q: "below M q = below M p \<union> {m \<in> M. p \<le> m_UID m \<and> m_UID m \<le> stop}" using u(2) uids unfolding below_def by blast
    show "hoare (?I p) (bindM (outer (call (dst_FetchMetaRange (r_dst R) p stop))) (\<lambda>metas.
        bindM (outer (progress R ''backfill'' folder (uint stop))) (\<lambda>_. forM metas (backfillMessage R folder)))) (\<lambda>_. ?I q) (\<lambda>_ _. True)"
      unfolding q image_Un
    proof (rule hoare_bindM [OF fetch], rule hoare_pure)
      fix ms
      assume ms: "set ms = {m \<in> M. p \<le> m_UID m \<and> m_UID m \<le> stop}"
      then have "set ms \<subseteq> M" by blast
      from hoare_bindM [OF calm [OF reading_relation.progress_steps [OF reading] untouched.progress_steps] messages [OF this]]
      show "hoare (?I p) (bindM (outer (progress R ''backfill'' folder (uint stop))) (\<lambda>_. forM ms (backfillMessage R folder)))
        (\<lambda>_. sorting look d ?v folder D G (m_UID ` below M p \<union> m_UID ` {m \<in> M. p \<le> m_UID m \<and> m_UID m \<le> stop})
          (m_UID ` below M p \<union> m_UID ` {m \<in> M. p \<le> m_UID m \<and> m_UID m \<le> stop})) (\<lambda>_ _. True)"
        unfolding ms .
    qed
  next
    fix p and x :: "'w st \<times> backfill_vars"
    assume "n \<le> p" and "?I p x"
    moreover have "below M p = M" using uids \<open>n \<le> p\<close> by (auto simp: below_def intro: order.strict_trans2)
    ultimately show "case x of (s, v) \<Rightarrow> ?Q v s" by (cases x) (simp add: sorting_def)
  qed
  then show "hoare (?I 1) ?scan (\<lambda>_ (s, v). ?Q v s) (\<lambda>_ (s, _). True)" by (rule hoare_conseq) auto
  have "below M 1 = {}" using uids by (auto simp: below_def word_less_nat_alt)
  then show "?I 1 (s, empty_vars)" if "at look d ?v s" for s
    using that wrong_ok_start kw_ok_start by (simp add: sorting_def empty_vars_def)
qed

text \<open>What is done with the groups.\<close>

lemma store_and_move:
  fixes R :: "'w Reconciler" and look :: "'w \<Rightarrow> spread"
  assumes keep: "ignoring R look" and edits: "edits_by_uid R look folder M n tags"
    and wrong: "wrong_ok folder D U (wrongByDest v)" and kws: "kw_ok G U v"
    and rest: "\<And>u. u \<notin> U \<Longrightarrow> D u = folder \<and> G u = []"
  shows "hoare (at look d (True, \<lambda>_. folder, tags)) (bindM (go_order (r_rt R) (kwGroups v)) (\<lambda>kws.
      bindM (storeGroups R v kws) (\<lambda>_.
      bindM (go_order (r_rt R) (wrongByDest v)) (\<lambda>moves.
      moveGroups R folder moves))))
    (\<lambda>_. at look d (True, D, \<lambda>u. tags u \<union> set (G u))) (\<lambda>_ _. True)"
proof -
  let ?T = "\<lambda>u. tags u \<union> set (G u)"
  have store: "hoare (at look d (True, \<lambda>_. folder, tags)) (storeGroups R v gs) (\<lambda>_. at look d (True, \<lambda>_. folder, ?T)) (\<lambda>_ _. True)"
    if gs: "set gs = set (kwGroups v)" for gs
  proof -
    have dist: "distinct (map fst (kwGroups v))" using kws by (simp add: kw_ok_def)
    have group: "set (case map_of (kwFlags v) sig of None \<Rightarrow> [] | Some kws \<Rightarrow> kws) = set (G u)" if "(sig, us) \<in> set gs" "u \<in> set us" for sig us u
    proof -
      have "in_group (kwGroups v) sig u" using that by (auto simp: in_group_def map_of_eq_Some_iff [OF dist] gs)
      then show ?thesis using kws by (auto simp: kw_ok_def)
    qed
    have "(\<exists>g \<in> set gs. u \<in> set (snd g)) \<longleftrightarrow> u \<in> U \<and> G u \<noteq> []" for u
      using kws by (auto simp: group_iff [OF dist gs] kw_ok_def)
    then have "(\<lambda>u. if \<exists>g \<in> set gs. u \<in> set (snd g) then tags u \<union> set (G u) else tags u) = ?T"
      using rest by (auto simp: fun_eq_iff)
    then have T: "?T = (\<lambda>u. if \<exists>g \<in> set gs. u \<in> set (snd g) then tags u \<union> set (G u) else tags u)" by (rule sym)
    show ?thesis unfolding T by (rule store_groups [OF edits]) (rule group)
  qed
  have move: "hoare (at look d (True, \<lambda>_. folder, ?T)) (moveGroups R folder gs) (\<lambda>_. at look d (True, D, ?T)) (\<lambda>_ _. True)"
    if gs: "set gs = set (wrongByDest v)" for gs
  proof -
    have dist: "distinct (map fst (wrongByDest v))" using wrong by (simp add: wrong_ok_def)
    have group: "D u = w \<and> w \<noteq> folder" if "(w, us) \<in> set gs" "u \<in> set us" for w us u
    proof -
      have "in_group (wrongByDest v) w u" using that by (auto simp: in_group_def map_of_eq_Some_iff [OF dist] gs)
      then show ?thesis using wrong by (auto simp: wrong_ok_def)
    qed
    have other: "w \<noteq> folder" if "(w, us) \<in> set gs" for w us
    proof -
      have "us \<noteq> []" using that wrong by (auto simp: wrong_ok_def gs map_of_eq_Some_iff [OF dist])
      then show ?thesis using group that by (metis list.set_sel(1))
    qed
    have "(\<exists>g \<in> set gs. u \<in> set (snd g)) \<longleftrightarrow> u \<in> U \<and> D u \<noteq> folder" for u
      using wrong by (auto simp: group_iff [OF dist gs] wrong_ok_def)
    then have "(\<lambda>u. if \<exists>g \<in> set gs. u \<in> set (snd g) then D u else folder) = D"
      using rest by (auto simp: fun_eq_iff)
    then have H: "(True, D, ?T) = (True, \<lambda>u. if \<exists>g \<in> set gs. u \<in> set (snd g) then D u else folder, ?T)" by simp
    show ?thesis unfolding H by (rule move_groups [OF keep edits]) (use group other in blast)+
  qed
  show ?thesis
  proof (rule hoare_bindM [OF at_order [OF keep]], rule hoare_pure, rule hoare_bindM [OF store],
      assumption, rule hoare_bindM [OF at_order [OF keep]], rule hoare_pure, rule move, assumption)
  qed
qed

lemma hoare_triple:
  "(\<And>a b c. r = (a, b, c) \<Longrightarrow> hoare P (f a b c) Q E) \<Longrightarrow> hoare P (case r of (a, b, c) \<Rightarrow> f a b c) Q E"
  by (cases r) simp

text \<open>
  C19. The backfill puts a folder in order.  When it succeeds, every message that the folder held is in the
  destination folder that its memberships call for, whatever the order in which the groups are stored and
  moved, and it has the keywords of its labels besides the flags that it had; no other message has moved or
  changed.  The windows cover the folder, chunks cover their group, and two messages share a group only if
  they lack the same keywords.
\<close>

theorem backfillDestFolder_places:
  assumes keep: "ignoring R look" and edits: "edits_by_uid R look folder M n tags" and clean: "clean_keywords (r_opts R)"
    and batch: "0 < (word_of_int (UIDBatch (r_opts R)) :: u32)" "unat n + unat (word_of_int (UIDBatch (r_opts R)) :: u32) \<le> 2 ^ 32"
  shows "hoare (\<lambda>s. st_db s = d \<and> snd (look (st_world s)) = (\<lambda>_. folder, tags)) (backfillDestFolder R folder)
    (\<lambda>_ s. st_db s = d \<and> (case look (st_world s) of (_, home, tags') \<Rightarrow>
       (\<forall>m \<in> M. home (m_UID m) = wanted_folder R d folder m \<and> tags' (m_UID m) = set (m_Flags m) \<union> set (wanted_keywords R d m)) \<and>
       (\<forall>u. u \<notin> m_UID ` M \<longrightarrow> home u = folder \<and> tags' u = tags u))) (\<lambda>_ _. True)"
    (is "hoare ?P _ (\<lambda>_. ?Q) _")
proof -
  let ?v = "(True, \<lambda>_. folder, tags) :: spread"
  have inj: "inj_on m_UID M" and flags: "\<And>m. m \<in> M \<Longrightarrow> tags (m_UID m) = set (m_Flags m)"
    using edits by (simp_all add: edits_by_uid_def)
  define D where "D u = (if u \<in> m_UID ` M then wanted_folder R d folder (the_inv_into M m_UID u) else folder)" for u
  define G where "G u = (if u \<in> m_UID ` M then wanted_keywords R d (the_inv_into M m_UID u) else [])" for u
  have D: "D (m_UID m) = wanted_folder R d folder m" and G: "G (m_UID m) = wanted_keywords R d m" if "m \<in> M" for m
    using that by (simp_all add: D_def G_def the_inv_into_f_f [OF inj])
  have G_clean: "CHR 0x00 \<notin> set kw \<and> kw \<noteq> []" if "kw \<in> set (G u)" for u kw
    by (rule wanted_keywords_clean [OF clean, of _ d "the_inv_into M m_UID u"]) (use that in \<open>simp add: G_def split: if_splits\<close>)
  have rest: "D u = folder \<and> G u = []" if "u \<notin> m_UID ` M" for u using that by (simp add: D_def G_def)
  have final: "?Q s" if "at look d (True, D, \<lambda>u. tags u \<union> set (G u)) s" for s
    by (simp add: that D G flags rest)
  have select: "hoare ?P (call (dst_SelectNamedFolder (r_dst R) folder))
      (\<lambda>r s. at look d ?v s \<and> fst (snd r) = n \<and> (snd (snd r) = 0 \<longrightarrow> M = {})) (\<lambda>_ _. True)"
  proof (rule hoare_call)
    fix s r w
    assume P: "?P s" and r: "dst_SelectNamedFolder (r_dst R) folder (st_world s) = Some (Inr r, w)"
    have "hoare (\<lambda>w. snd (look w) = (\<lambda>_. folder, tags)) (dst_SelectNamedFolder (r_dst R) folder)
        (\<lambda>r w. look w = ?v \<and> fst (snd r) = n \<and> (snd (snd r) = 0 \<longrightarrow> M = {})) (\<lambda>_ _. True)"
      using edits unfolding edits_by_uid_def by blast
    from hoare_InrD [OF this _ r] P
    show "at look d ?v (s\<lparr> st_world := w \<rparr>) \<and> fst (snd r) = n \<and> (snd (snd r) = 0 \<longrightarrow> M = {})" by simp
  qed simp
  have none: "hoare (\<lambda>s. at look d ?v s \<and> M = {}) (returnM ()) (\<lambda>_. ?Q) (\<lambda>_ _. True)"
    by (auto simp: hoare_def returnM_def)
  have body: "hoare (\<lambda>s. at look d ?v s \<and> n' = n) (bindM (withVars empty_vars (scanWindows (r_opts R) (outer (ctxErr R)) 1 n'
          (\<lambda>start stop. outer (call (dst_FetchMetaRange (r_dst R) start stop)))
          (\<lambda>stop metas. bindM (outer (progress R ''backfill'' folder (uint stop))) (\<lambda>_. forM metas (backfillMessage R folder)))))
        (\<lambda>v. bindM (go_order (r_rt R) (kwGroups v)) (\<lambda>kws.
          bindM (storeGroups R v kws) (\<lambda>_.
          bindM (go_order (r_rt R) (wrongByDest v)) (\<lambda>moves.
          moveGroups R folder moves))))) (\<lambda>_. ?Q) (\<lambda>_ _. True)" for n'
    by (rule hoare_pure, hypsubst, rule hoare_bindM [OF backfill_scan [OF keep edits batch D G G_clean]], assumption, assumption,
      assumption, rule hoare_pure, rule hoare_post [OF store_and_move [OF keep edits conjunct1 conjunct2 rest] final])
  show ?thesis
    unfolding backfillDestFolder_def
    by (rule hoare_bindM [OF select], rule hoare_triple, rule hoare_if;
      rule hoare_pre [OF none] hoare_pre [OF body]; simp)
qed

text \<open>
  A folder with two messages: one that is in the inbox and has its flags, and one that is archived and has
  a label, so that it is tagged and moved.
\<close>

definition kept_meta :: MsgMeta where
  "kept_meta = \<lparr> m_UID = 1, m_MessageID = ''<a>'', m_From = [], m_Subject = [], m_InternalDate = 0, m_Size = 0, m_Flags = [''seen''] \<rparr>"

definition archived_meta :: MsgMeta where
  "archived_meta = kept_meta\<lparr> m_UID := 2, m_MessageID := ''<b>'', m_Flags := [] \<rparr>"

definition desk :: "spread Reconciler \<Rightarrow> spread Reconciler" where
  "desk R = R\<lparr> r_rt := still_runtime,
     r_opts := (r_opts R)\<lparr> OnProgress := None, DestFolder := ''All'', ArchiveRouting := True, SentRouting := False,
       SourceInbox := ''INBOX'', ArchiveFolder := ''Archive'', SyncLabels := True, KeywordPrefix := ''l_'', KeywordReplacement := [],
       UIDBatch := 500 \<rparr>,
     r_dst := (r_dst R)\<lparr> dst_SelectNamedFolder := (\<lambda>_ w. Some (Inr (7, 3, 2), (True, snd w))),
       dst_FetchMetaRange := (\<lambda>a b. returnM (filter (\<lambda>m. a \<le> m_UID m \<and> m_UID m \<le> b) [kept_meta, archived_meta])),
       dst_StoreKeywordsUIDs := (\<lambda>us kws w. Some (Inr (), tag_uids ''All'' (set us) (set kws) w)),
       dst_MoveUIDs := (\<lambda>from us to w. Some (Inr (), move_uids from (set us) to w)) \<rparr> \<rparr>"

definition labelled :: db where
  "labelled = \<lparr> db_copied = [], db_meta = [], db_members =
       [\<lparr> mr_folder = ''INBOX'', mr_message_id = ''<a>'', mr_uid = 4 \<rparr>, \<lparr> mr_folder = ''Work'', mr_message_id = ''<b>'', mr_uid = 9 \<rparr>],
     db_pending = [], db_seq = 0, db_folders = [] \<rparr>"

definition at_first :: "u32 \<Rightarrow> flag set" where
  "at_first u = (if u = 1 then {''seen''} else {})"

lemma keys_of_metas:
  "DedupKey sha kept_meta = ''<a>''" "DedupKey sha archived_meta = ''<b>''"
  by (simp_all add: DedupKey_def kept_meta_def archived_meta_def TrimSpace_def TrimFunc_def trim_segs_def byte_def IsSpace_def decode_ascii)

lemma labelled_members: "bk_members (books_of labelled) = {(''INBOX'', ''<a>''), (''Work'', ''<b>'')}"
  by (simp add: books_pairs member_pairs_def labelled_def)

lemma desk_opts:
  "routing (desk R)" "SyncLabels (r_opts (desk R))" "KeywordPrefix (r_opts (desk R)) = ''l_''" "KeywordReplacement (r_opts (desk R)) = []"
  "SourceInbox (r_opts (desk R)) = ''INBOX''" "\<not> SentRouting (r_opts (desk R))" "rt_lower (r_rt (desk R)) = id" "rt_sha256 (r_rt (desk R)) = id"
  by (simp_all add: desk_def still_runtime_def)

lemma desk_keyword: "labelKeyword id (r_opts (desk R)) ''Work'' = ''l_work''"
proof -
  have "keywordFor id ''Work'' [] = ''work''" by code_simp
  then show ?thesis by (simp add: labelKeyword_def desk_opts)
qed

lemma desk_labels:
  "labels_of (desk R) labelled ''<a>'' = []" "labels_of (desk R) labelled ''<b>'' = [''Work'']"
  by (simp_all add: labels_of_def member_folders_def labelled_def isRoutingFolder_def desk_opts)

lemma desk_wants:
  "wanted_folder (desk R) labelled ''All'' kept_meta = ''All''" "wanted_folder (desk R) labelled ''All'' archived_meta = ''Archive''"
  "wanted_keywords (desk R) labelled kept_meta = []" "wanted_keywords (desk R) labelled archived_meta = [''l_work'']"
proof -
  show "wanted_folder (desk R) labelled ''All'' kept_meta = ''All''" "wanted_folder (desk R) labelled ''All'' archived_meta = ''Archive''"
    using desk_opts by (simp_all add: wanted_folder_def target_def bucket_def keys_of_metas labelled_members) (simp_all add: desk_def)
  show "wanted_keywords (desk R) labelled kept_meta = []"
    by (simp add: wanted_keywords_def keys_of_metas desk_labels missingKeywords_def labelKeywords_def)
  have "m_Flags archived_meta = []" by (simp add: archived_meta_def)
  then show "wanted_keywords (desk R) labelled archived_meta = [''l_work'']"
    by (simp add: wanted_keywords_def keys_of_metas desk_labels desk_opts missingKeywords_def labelKeywords_def desk_keyword)
qed

theorem backfillDestFolder_places_witness:
  "\<forall>R. hoare (\<lambda>s. st_db s = labelled \<and> snd (st_world s) = (\<lambda>_. ''All'', at_first)) (backfillDestFolder (desk R) ''All'')
     (\<lambda>_ s. case st_world s of (_, home, tags) \<Rightarrow>
        home 1 = ''All'' \<and> tags 1 = {''seen''} \<and> home 2 = ''Archive'' \<and> tags 2 = {''l_work''}) (\<lambda>_ _. True)"
proof
  fix R
  let ?R = "desk R" and ?M = "{kept_meta, archived_meta}"
  have keep: "ignoring ?R (\<lambda>w. w)"
    by unfold_locales (auto simp: desk_def still_runtime_def)
  have edits: "edits_by_uid ?R (\<lambda>w. w) ''All'' ?M 3 at_first"
    by (auto simp: edits_by_uid_def desk_def hoare_def returnM_def kept_meta_def archived_meta_def at_first_def)
  have clean: "clean_keywords (r_opts ?R)"
    by (simp add: clean_keywords_def desk_def keyword_rc_def isKeywordChar_def keepRune_def byte_def)
  have batch: "0 < (word_of_int (UIDBatch (r_opts ?R)) :: u32)" "unat (3 :: u32) + unat (word_of_int (UIDBatch (r_opts ?R)) :: u32) \<le> 2 ^ 32"
    by (simp_all add: desk_def)
  show "hoare (\<lambda>s. st_db s = labelled \<and> snd (st_world s) = (\<lambda>_. ''All'', at_first)) (backfillDestFolder ?R ''All'')
     (\<lambda>_ s. case st_world s of (_, home, tags) \<Rightarrow>
        home 1 = ''All'' \<and> tags 1 = {''seen''} \<and> home 2 = ''Archive'' \<and> tags 2 = {''l_work''}) (\<lambda>_ _. True)"
    by (rule hoare_post [OF backfillDestFolder_places [OF keep edits clean batch, of labelled]])
      (auto simp: desk_wants, auto simp: kept_meta_def archived_meta_def)
qed

end
