(* ===== verification/Scans.thy ===== *)
theory Scans
  imports Rules
begin

text \<open>
  The windowed scan: which windows it visits, and when it ends, wrap-around included.
\<close>

section \<open>Coverage\<close>

text \<open>
  C20. As long as no window reaches past \<open>2 ^ 32\<close>, the scan is the loop over a fixed list of windows, in
  order; every UID from the first to UIDNEXT - 1 is in exactly one of them, and no other UID is in any.
\<close>

theorem scanWindows_partition:
  assumes "0 < (word_of_int (UIDBatch opts) :: u32)"
    and "unat uidNext + unat (word_of_int (UIDBatch opts) :: u32) \<le> 2 ^ 32"
  shows "\<exists>ws. scanWindows opts ctx first uidNext fetch fn =
      forM ws (\<lambda>w. bindM ctx (\<lambda>_. window_body fetch fn (word_of_nat (fst w)) (word_of_nat (snd w)))) \<and>
    (\<forall>u. (\<exists>!w. w \<in> set ws \<and> fst w \<le> u \<and> u \<le> snd w) \<longleftrightarrow> unat first \<le> u \<and> u < unat uidNext)"
proof -
  let ?ws = "windows (unat (word_of_int (UIDBatch opts) :: u32)) (unat first) (unat uidNext)"
  have b: "0 < unat (word_of_int (UIDBatch opts) :: u32)" using assms(1) by (simp add: unat_gt_0)
  show ?thesis
    unfolding scanWindows_def scanLoop_windows [OF assms]
    by (rule exI [of _ ?ws], rule conjI, rule refl, rule allI, rule windows_cover [OF b])
qed

section \<open>When the scan ends\<close>

text \<open>Programs that never fail.\<close>

definition smooth :: "('s, 'a) prog \<Rightarrow> bool" where
  "smooth m \<longleftrightarrow> (\<forall>s. \<exists>a s'. m s = Some (Inr a, s'))"

lemma smoothD: "smooth m \<Longrightarrow> \<exists>a s'. m s = Some (Inr a, s')"
  by (simp add: smooth_def)

lemma smooth_bindM:
  assumes "smooth m" and "\<And>a. smooth (f a)"
  shows "smooth (bindM m f)"
  unfolding smooth_def
proof
  fix s
  obtain a s1 where "m s = Some (Inr a, s1)" using smoothD [OF assms(1)] by blast
  moreover obtain b s2 where "f a s1 = Some (Inr b, s2)" using smoothD [OF assms(2)] by blast
  ultimately show "\<exists>a s'. bindM m f s = Some (Inr a, s')" by (simp add: bindM_def)
qed

lemma smooth_wrapM: "smooth m \<Longrightarrow> smooth (wrapM fmt args m)"
  unfolding smooth_def
proof (intro allI)
  fix s
  assume "\<forall>s. \<exists>a s'. m s = Some (Inr a, s')"
  then obtain a s' where "m s = Some (Inr a, s')" by blast
  then show "\<exists>a s'. wrapM fmt args m s = Some (Inr a, s')" by (simp add: wrapM_def)
qed

lemmas smooth_compose = smooth_bindM smooth_wrapM

lemma smooth_hoare: "smooth m \<Longrightarrow> hoare (\<lambda>_. P) m (\<lambda>_ _. P) (\<lambda>_ _. False)"
  by (rule hoareI) (auto simp: smooth_def, metis Inl_Inr_False option.inject prod.inject)

lemma scanLoop_reaches:
  assumes "smooth ctx" and "\<And>a b. smooth (fetch a b)" and "\<And>a ms. smooth (fn a ms)"
  shows "uidNext \<le> start + of_nat k * batch \<Longrightarrow> scanLoop ctx batch uidNext fetch fn start s \<noteq> None"
proof (induction k arbitrary: start s)
  case 0
  then show ?case by (subst scanLoop.simps) (auto dest: leD)
next
  case (Suc k)
  have body: "smooth (bindM ctx (\<lambda>_. window_body fetch fn a b))" for a b
    unfolding window_body_def by (intro smooth_compose assms)
  have "uidNext \<le> (start + batch) + of_nat k * batch" using Suc.prems by (simp add: algebra_simps)
  then have rest: "scanLoop ctx batch uidNext fetch fn (start + batch) s' \<noteq> None" for s' by (rule Suc.IH)
  obtain s' where "bindM ctx (\<lambda>_. window_body fetch fn start (window_stop start batch uidNext)) s = Some (Inr (), s')"
    using smoothD [OF body [of start "window_stop start batch uidNext"], where s = s] by auto
  then show ?case
    using rest [of s'] by (subst scanLoop.simps) (simp add: bindM_assoc [symmetric])
qed

text \<open>
  C21. When nothing fails, the scan of the folder ends exactly if one of the starts \<open>first + k * batch\<close>,
  computed modulo \<open>2 ^ 32\<close>, is at least UIDNEXT.
\<close>

theorem scanWindows_returns_iff:
  assumes "smooth ctx" and "\<And>a b. smooth (fetch a b)" and "\<And>a ms. smooth (fn a ms)"
  shows "scanWindows opts ctx first uidNext fetch fn s \<noteq> None \<longleftrightarrow>
    (\<exists>k. uidNext \<le> first + of_nat k * word_of_int (UIDBatch opts))"
proof
  let ?b = "word_of_int (UIDBatch opts) :: u32"
  assume ret: "scanWindows opts ctx first uidNext fetch fn s \<noteq> None"
  show "\<exists>k. uidNext \<le> first + of_nat k * ?b"
  proof (rule ccontr)
    assume never: "\<not> ?thesis"
    let ?I = "\<lambda>start _. \<exists>k. start = first + of_nat k * ?b"
    have "hoare (?I first) (scanLoop ctx ?b uidNext fetch fn first) (\<lambda>_ _. False) (\<lambda>_ _. False)"
    proof (rule hoare_scanLoop [where Inv = ?I])
      fix start
      have "smooth (bindM ctx (\<lambda>_. window_body fetch fn start (window_stop start ?b uidNext)))"
        unfolding window_body_def by (intro smooth_compose assms)
      from smooth_hoare [OF this, of "\<exists>k. start = first + of_nat k * ?b"]
      show "hoare (?I start) (bindM ctx (\<lambda>_. window_body fetch fn start (window_stop start ?b uidNext)))
          (\<lambda>_. ?I (start + ?b)) (\<lambda>_ _. False)"
      proof (rule hoare_post)
        fix s
        assume "\<exists>k. start = first + of_nat k * ?b"
        then obtain k where "start + ?b = first + of_nat (Suc k) * ?b" by (auto simp: algebra_simps)
        then show "\<exists>k. start + ?b = first + of_nat k * ?b" by blast
      qed
    next
      fix start s
      assume "\<not> start < uidNext" and "\<exists>k. start = first + of_nat k * ?b"
      then show False using never by (auto simp: not_less)
    qed
    moreover have "?I first s" by (rule exI [of _ 0]) simp
    ultimately show False using ret unfolding scanWindows_def hoare_def by (auto split: option.splits sum.splits)
  qed
next
  assume "\<exists>k. uidNext \<le> first + of_nat k * word_of_int (UIDBatch opts)"
  then obtain k where k: "uidNext \<le> first + of_nat k * word_of_int (UIDBatch opts)" by blast
  show "scanWindows opts ctx first uidNext fetch fn s \<noteq> None"
    unfolding scanWindows_def by (rule scanLoop_reaches [OF _ _ _ k]) (rule assms)+
qed

text \<open>A batch of 2000 from UID 1 jumps over the highest UID: the starts stay 1 modulo 16.\<close>

definition batch_2000 :: "nat Options" where
  "batch_2000 = \<lparr> UIDBatch = 2000, DestGuard = True, CarrySeen = True, SyncLabels = False, SourceFolder = ''All'',
     LabelExclude = [], DestFolder = ''INBOX'', ArchiveRouting = False, SourceInbox = ''INBOX'', ArchiveFolder = [],
     SentRouting = False, SentSrcFolder = [], SentFolder = [], LabelPropagate = False, KeywordPrefix = [],
     KeywordReplacement = ''_'', OnProgress = None \<rparr>"

lemma starts_mod_16: "(1 :: u32) + of_nat k * 2000 < - 1"
proof -
  have "1 + of_nat k * 2000 \<noteq> (- 1 :: u32)"
  proof
    assume "1 + of_nat k * 2000 = (- 1 :: u32)"
    then have "of_nat (2 + k * 2000) = (0 :: u32)" by (simp add: eq_neg_iff_add_eq_0 algebra_simps)
    then have "2 ^ LENGTH(32) dvd 2 + k * 2000" by (simp only: word_of_nat_eq_0_iff)
    then have "2 ^ 4 dvd 2 + k * 2000"
      by (rule dvd_trans [rotated]) (rule le_imp_power_dvd, simp)
    then have "(2 + k * 2000) mod 16 = 0" by simp
    moreover have "(2 + k * 2000) mod 16 = 2" by presburger
    ultimately show False by simp
  qed
  then show ?thesis by (metis word_order.not_eq_extremum)
qed

theorem scanWindows_returns_iff_witness:
  "scanWindows batch_2000 (returnM ()) 1 (- 1) (\<lambda>_ _. returnM []) (\<lambda>_ _. returnM ()) (0 :: nat) = None \<and>
   scanWindows batch_2000 (returnM ()) 1 5000 (\<lambda>_ _. returnM []) (\<lambda>_ _. returnM ()) (0 :: nat) \<noteq> None"
proof -
  have smooth: "smooth (returnM a :: (nat, 'b) prog)" for a :: 'b by (simp add: smooth_def returnM_def)
  have iff: "scanWindows batch_2000 (returnM ()) 1 n (\<lambda>_ _. returnM []) (\<lambda>_ _. returnM ()) (0 :: nat) \<noteq> None \<longleftrightarrow>
      (\<exists>k. n \<le> 1 + of_nat k * word_of_int (UIDBatch batch_2000))" for n :: u32
    by (rule scanWindows_returns_iff) (rule smooth)+
  have "\<not> (- 1 :: u32) \<le> 1 + of_nat k * word_of_int (UIDBatch batch_2000)" for k
    using starts_mod_16 [of k] by (simp add: batch_2000_def not_le)
  moreover have "(5000 :: u32) \<le> 1 + of_nat 3 * word_of_int (UIDBatch batch_2000)" by (simp add: batch_2000_def)
  ultimately show ?thesis using iff [of "- 1"] iff [of 5000] by blast
qed

theorem scanWindows_partition_witness:
  "\<exists>ws. scanWindows batch_2000 (returnM ()) 1 5000 (\<lambda>_ _. returnM []) (\<lambda>_ _. returnM ()) =
      forM ws (\<lambda>w. bindM (returnM ()) (\<lambda>_. window_body (\<lambda>_ _. returnM []) (\<lambda>_ _. returnM ())
        (word_of_nat (fst w)) (word_of_nat (snd w)) :: (nat, unit) prog)) \<and>
    (\<forall>u. (\<exists>!w. w \<in> set ws \<and> fst w \<le> u \<and> u \<le> snd w) \<longleftrightarrow> unat (1 :: u32) \<le> u \<and> u < unat (5000 :: u32))"
  by (rule scanWindows_partition) (simp_all add: batch_2000_def)

end
