(* ===== verification/Marks.thy ===== *)
theory Marks
  imports Completeness StoreSpec
begin

text \<open>The stored UIDVALIDITY and the stored mark: reading back, adopting a new UIDVALIDITY, corrupt values.\<close>

lemma hoare_meta_get:
  "hoare (\<lambda>s. meta_reads (st_db s) k n \<and> P (st_db s)) (metaGetUint rt k) (\<lambda>a s. a = n \<and> P (st_db s)) (\<lambda>_ s. P (st_db s))"
proof (rule hoareI)
  have frame: "steps (\<lambda>s s'. st_db s' = st_db s) (metaGetUint rt k)"
    unfolding metaGetUint_def Let_def
    by (intro frame_rel.steps_compose) (auto simp: steps_def elim: reads_cases [OF reads_MetaGet])
  show "a = n \<and> P (st_db s')" if "meta_reads (st_db s) k n \<and> P (st_db s)" "metaGetUint rt k s = Some (Inr a, s')" for s a s'
    using that metaGetUint_reads [OF that(2)] meta_reads_unique stepsD [OF frame that(2)] by metis
  show "P (st_db s')" if "meta_reads (st_db s) k n \<and> P (st_db s)" "metaGetUint rt k s = Some (Inl e, s')" for s e s'
    using that stepsD [OF frame that(2)] by simp
qed

text \<open>A readable value is read, unless the driver fails.\<close>

lemma get_errors: "hoare (\<lambda>s. meta_reads (st_db s) k n) (metaGetUint rt k) (\<lambda>a _. a = n) (\<lambda>e _. e \<in> driver_errors rt)"
proof (rule hoareI)
  fix s e s'
  assume m: "meta_reads (st_db s) k n" "metaGetUint rt k s = Some (Inl e, s')"
  obtain r w where q: "MetaGet rt k s = Some (r, s\<lparr> st_world := w \<rparr>)" "\<forall>v. r = Inr v \<longrightarrow> v = (case map_of (db_meta (st_db s)) k of None \<Rightarrow> [] | Some v \<Rightarrow> v)"
    using reads_MetaGet [of rt k] unfolding reads_def by blast
  show "e \<in> driver_errors rt"
  proof (cases r)
    case (Inl e')
    then have "e = e'" using m(2) q(1) by (simp add: metaGetUint_def bindM_def)
    moreover have "e' \<in> driver_errors rt"
      by (rule hoare_InlD [OF fails_query _ q(1) [unfolded Inl MetaGet_def]]) simp
    ultimately show ?thesis by simp
  next
    case (Inr v)
    then show ?thesis
      using m q by (auto simp: metaGetUint_def bindM_def meta_reads_def Let_def returnM_def throwM_def split: if_splits option.splits)
  qed
next
  fix s a s'
  assume "meta_reads (st_db s) k n" "metaGetUint rt k s = Some (Inr a, s')"
  then show "a = n" using hoare_InrD [OF hoare_meta_get [of k n "\<lambda>_. True"]] by auto
qed

definition returning :: "('s, 'a) prog \<Rightarrow> bool" where
  "returning m \<longleftrightarrow> (\<forall>s. m s \<noteq> None)"

lemma returning_bindM: "returning m \<Longrightarrow> (\<And>a. returning (f a)) \<Longrightarrow> returning (bindM m f)"
  by (auto simp: returning_def bindM_def split: option.splits sum.splits prod.splits)

lemma returning_marks: "returning (metaSetUint rt k n)" "returning (metaGetUint rt k)"
proof -
  show "returning (metaSetUint rt k n)"
    using writes_MetaSet [of rt k "FormatUint (unat n)"] unfolding returning_def metaSetUint_def writes_def by fastforce
  have "returning (MetaGet rt k)"
    using reads_MetaGet [of rt k] unfolding returning_def reads_def by fastforce
  then show "returning (metaGetUint rt k)"
    unfolding metaGetUint_def by (rule returning_bindM) (auto simp: returning_def returnM_def throwM_def split: option.splits)
qed

text \<open>\<open>reads_back rt m n\<close>: the program returns, and what it returns is \<open>n\<close> or an error of the driver.\<close>

definition reads_back :: "'w runtime \<Rightarrow> ('w st, u32) prog \<Rightarrow> u32 \<Rightarrow> bool" where
  "reads_back rt m n \<longleftrightarrow> (\<forall>s. \<exists>r s'. m s = Some (r, s') \<and> r \<in> insert (Inr n) (Inl ` driver_errors rt))"

lemma reads_backI:
  assumes "hoare (\<lambda>_. True) m (\<lambda>a _. a = n) (\<lambda>e _. e \<in> driver_errors rt)" and "returning m"
  shows "reads_back rt m n"
  unfolding reads_back_def
proof
  fix s
  obtain r s' where m: "m s = Some (r, s')" using assms(2) unfolding returning_def by fastforce
  have "r \<in> insert (Inr n) (Inl ` driver_errors rt)"
  proof (cases r)
    case (Inl e)
    then show ?thesis using hoare_InlD [OF assms(1) _ m [unfolded Inl]] by simp
  next
    case (Inr a)
    then show ?thesis using hoare_InrD [OF assms(1) _ m [unfolded Inr]] by simp
  qed
  with m show "\<exists>r s'. m s = Some (r, s') \<and> r \<in> insert (Inr n) (Inl ` driver_errors rt)" by blast
qed

text \<open>
  C36. What is stored is read back: a UIDVALIDITY or a mark that has been set is the value of the next
  reading, for every 32-bit value, and setting either of the two does not change the other.  The calls
  return, and the only other outcome is an error of the database driver.
\<close>

theorem marks_roundtrip:
  "reads_back rt (bindM (SetLastUID rt u) (\<lambda>_. LastUID rt)) u \<and>
   reads_back rt (bindM (SetUIDValidity rt v) (\<lambda>_. UIDValidity rt)) v \<and>
   reads_back rt (bindM (SetLastUID rt u) (\<lambda>_. bindM (SetUIDValidity rt v) (\<lambda>_. LastUID rt))) u \<and>
   reads_back rt (bindM (SetUIDValidity rt v) (\<lambda>_. bindM (SetLastUID rt u) (\<lambda>_. UIDValidity rt))) v"
proof -
  let ?E = "\<lambda>e _. e \<in> driver_errors rt"
  have fails: "?E e s" if "metaSetUint rt k n s0 = Some (Inl e, s)" for k n s0 e s
    using hoare_InlD [OF fails_exec _ that [unfolded metaSetUint_def MetaSet_def]] by simp
  have set: "hoare (\<lambda>_. True) (metaSetUint rt k n) (\<lambda>_ s. meta_reads (st_db s) k n) ?E" for k n
    by (rule hoareI) (auto simp: fails, auto simp: metaSetUint_def meta_reads_set elim!: writes_cases [OF writes_MetaSet])
  have keep: "hoare (\<lambda>s. meta_reads (st_db s) k n) (metaSetUint rt k' n') (\<lambda>_ s. meta_reads (st_db s) k n) ?E"
    if "k \<noteq> k'" for k k' n n'
    by (rule hoareI) (use that in \<open>auto simp: fails, auto simp: metaSetUint_def meta_reads_set elim!: writes_cases [OF writes_MetaSet]\<close>)
  show ?thesis
    unfolding SetLastUID_def LastUID_def SetUIDValidity_def UIDValidity_def
    by (intro conjI reads_backI hoare_bindM [OF set] hoare_bindM [OF keep] get_errors returning_bindM returning_marks) simp_all
qed

text \<open>
  C11. Adopting the UIDVALIDITY of the source never leaves a new UIDVALIDITY with an old mark, wherever
  it fails: the mark is reset first.  When it succeeds the stored UIDVALIDITY is that of the source and
  the stored mark is the one returned, zero if the UIDVALIDITY has changed.
\<close>

theorem adoptUIDValidity_never_stale:
  "hoare (\<lambda>s. meta_reads (st_db s) ''uidvalidity'' v0 \<and> meta_reads (st_db s) ''last_uid'' l0)
     (adoptUIDValidity R v)
     (\<lambda>l s. meta_reads (st_db s) ''uidvalidity'' v \<and> meta_reads (st_db s) ''last_uid'' l \<and> l = (if v0 = v then l0 else 0))
     (\<lambda>_ s. meta_reads (st_db s) ''uidvalidity'' v0 \<and> (meta_reads (st_db s) ''last_uid'' l0 \<or> meta_reads (st_db s) ''last_uid'' 0))"
  (is "hoare ?P _ ?Q ?E")
proof -
  let ?rest = "\<lambda>a b. if a \<noteq> v
     then bindM (if a \<noteq> 0 then update_sum (\<lambda>sum. sum\<lparr> UIDValidityChanged := True \<rparr>) else returnM ()) (\<lambda>_.
       bindM (SetLastUID (r_rt R) 0) (\<lambda>_. bindM (SetUIDValidity (r_rt R) v) (\<lambda>_. returnM 0)))
     else returnM b"
  have validity: "hoare ?P (UIDValidity (r_rt R)) (\<lambda>a s. a = v0 \<and> ?P s) ?E"
    unfolding UIDValidity_def
    using hoare_meta_get [of "''uidvalidity''" v0 "\<lambda>d. meta_reads d ''uidvalidity'' v0 \<and> meta_reads d ''last_uid'' l0" "r_rt R"]
    by (rule hoare_conseq) auto
  have mark: "hoare ?P (LastUID (r_rt R)) (\<lambda>b s. b = l0 \<and> ?P s) ?E"
    unfolding LastUID_def
    using hoare_meta_get [of "''last_uid''" l0 "\<lambda>d. meta_reads d ''uidvalidity'' v0 \<and> meta_reads d ''last_uid'' l0" "r_rt R"]
    by (rule hoare_conseq) auto
  have one: "hoare (\<lambda>s. meta_reads (st_db s) k1 n1 \<and> meta_reads (st_db s) k2 n2) (metaSetUint (r_rt R) k2 n)
      (\<lambda>_ s. meta_reads (st_db s) k1 n1 \<and> meta_reads (st_db s) k2 n)
      (\<lambda>_ s. meta_reads (st_db s) k1 n1 \<and> meta_reads (st_db s) k2 n2)" if "k1 \<noteq> k2" for k1 k2 n1 n2 n
    by (rule hoareI) (use that in \<open>auto simp: metaSetUint_def meta_reads_set elim!: writes_cases [OF writes_MetaSet]\<close>)
  have reset: "hoare ?P (SetLastUID (r_rt R) 0) (\<lambda>_ s. meta_reads (st_db s) ''uidvalidity'' v0 \<and> meta_reads (st_db s) ''last_uid'' 0) ?E"
    unfolding SetLastUID_def by (rule hoare_conseq [OF one [of "''uidvalidity''" "''last_uid''" v0 l0]]) auto
  have store: "hoare (\<lambda>s. meta_reads (st_db s) ''uidvalidity'' v0 \<and> meta_reads (st_db s) ''last_uid'' 0)
      (SetUIDValidity (r_rt R) v) (\<lambda>_ s. meta_reads (st_db s) ''uidvalidity'' v \<and> meta_reads (st_db s) ''last_uid'' 0) ?E"
    unfolding SetUIDValidity_def by (rule hoare_conseq [OF one [of "''last_uid''" "''uidvalidity''" 0 v0]]) auto
  have sum: "hoare ?P (if a \<noteq> 0 then update_sum g else returnM ()) (\<lambda>_. ?P) ?E" for a :: u32 and g
    by (rule hoareI) (auto simp: update_sum_def modifyM_def returnM_def split: if_splits)
  have rest: "hoare ?P (?rest v0 l0) ?Q ?E"
  proof (cases "v0 = v")
    case False
    then show ?thesis
      by (simp only: if_True not_False_eq_True simp_thms)
        (rule hoare_bindM [OF sum], rule hoare_bindM [OF reset], rule hoare_bindM [OF store], simp add: hoare_def returnM_def False)
  qed (simp add: hoare_def returnM_def)
  have pure: "hoare (\<lambda>s. a = b \<and> ?P s) (f a) ?Q ?E" if "hoare ?P (f b) ?Q ?E" for a b and f :: "u32 \<Rightarrow> ('a st, u32) prog"
    using that by (cases "a = b") (simp_all add: hoare_def)
  show ?thesis
    unfolding adoptUIDValidity_def
    by (rule hoare_bindM [OF validity], rule pure, rule hoare_bindM [OF mark], rule pure, rule rest)
qed

end
