(* ===== verification/Seeding.thy ===== *)
theory Seeding
  imports Watch
begin

text \<open>
  Seeding from a destination that already has mail: afterwards no message of its folders is unknown to
  the dedup set.
\<close>

section \<open>One folder\<close>

text \<open>
  While the world is in \<open>Sel\<close>, the destination folder is selected and has the messages \<open>mailbox\<close>, with
  UIDs below UIDNEXT; a folder that counts no messages has none.
\<close>

definition box_served :: "'w Reconciler \<Rightarrow> ('w \<Rightarrow> bool) \<Rightarrow> string \<Rightarrow> MsgMeta set \<Rightarrow> u32 \<Rightarrow> bool" where
  "box_served R Sel folder mailbox n \<longleftrightarrow>
     hoare (\<lambda>_. True) (dst_SelectNamedFolder (r_dst R) folder)
       (\<lambda>r w. Sel w \<and> fst (snd r) = n \<and> (snd (snd r) = 0 \<longrightarrow> mailbox = {})) (\<lambda>_ _. True) \<and>
     (\<forall>a b. hoare Sel (dst_FetchMetaRange (r_dst R) a b)
        (\<lambda>ms w. Sel w \<and> set ms = {m \<in> mailbox. a \<le> m_UID m \<and> m_UID m \<le> b}) (\<lambda>_ _. True)) \<and>
     (\<forall>m \<in> mailbox. 0 < m_UID m \<and> m_UID m < n)"

definition seeded :: "('w \<Rightarrow> bool) \<Rightarrow> string set \<Rightarrow> 'w st \<Rightarrow> bool" where
  "seeded Sel K s \<longleftrightarrow> Sel (st_world s) \<and> K \<subseteq> bk_keys (books_of (st_db s))"

lemma seeded_calm:
  assumes "steps (\<lambda>s s'. Sel (st_world s) \<longrightarrow> Sel (st_world s')) m" and "steps (\<lambda>s s'. st_db s' = st_db s) m"
  shows "hoare (seeded Sel K) m (\<lambda>_. seeded Sel K) (\<lambda>_ _. True)"
proof (rule hoareI)
  fix s a s'
  assume "seeded Sel K s" and m: "m s = Some (Inr a, s')"
  then show "seeded Sel K s'" using stepsD [OF assms(1) m] stepsD [OF assms(2) m] by (simp add: seeded_def)
qed simp

lemma seeded_call:
  assumes "hoare P m Q (\<lambda>_ _. True)" and "\<And>w. Sel w \<Longrightarrow> P w" and "\<And>a w. Q a w \<Longrightarrow> Sel' w \<and> T a"
  shows "hoare (seeded Sel K) (call m) (\<lambda>a s. T a \<and> seeded Sel' K s) (\<lambda>_ _. True)"
  by (rule hoare_call) (use assms in \<open>fastforce simp: seeded_def dest: hoare_InrD\<close>)+

lemma seeded_SeedBatch:
  assumes "keeping R Sel"
  shows "hoare (seeded Sel K) (SeedBatch (r_rt R) ks) (\<lambda>_. seeded Sel (K \<union> set ks)) (\<lambda>_ _. True)"
proof (rule hoareI)
  fix s a s'
  assume k: "seeded Sel K s" and m: "SeedBatch (r_rt R) ks s = Some (Inr a, s')"
  have "runtime_relation (r_rt R) (\<lambda>w w'. Sel w \<longrightarrow> Sel w')"
    using assms by (simp add: local_relation_def reading_relation_def)
  from stepsD [OF runtime_relation.wsteps_methods(2) [OF this] m] have "Sel (st_world s')" using k by (simp add: seeded_def)
  moreover have "books_of (st_db s') = add_keys (set ks) (books_of (st_db s))"
    using m by (auto simp: books_insertCopied_fold seed_record_def elim!: writes_cases [OF writes_SeedBatch])
  ultimately show "seeded Sel (K \<union> set ks) s'" using k by (auto simp: seeded_def add_keys_def)
qed simp

lemma outer_seeded:
  assumes "hoare (seeded Sel K) m (\<lambda>a s. T a \<and> seeded Sel' K' s) (\<lambda>_ _. True)"
  shows "hoare (\<lambda>(s, l). b \<and> seeded Sel K s) (outer m) (\<lambda>a (s, l). T a \<and> b \<and> seeded Sel' K' s) (\<lambda>_ _. True)"
  by (rule hoare_outer, rule hoareI) (use hoare_InrD [OF assms] in auto)

text \<open>The dedup set when the windows up to \<open>p\<close> have been seeded, and what is done with a window.\<close>

definition seeding :: "('w \<Rightarrow> bool) \<Rightarrow> string set \<Rightarrow> (MsgMeta \<Rightarrow> string) \<Rightarrow> MsgMeta set \<Rightarrow> u32 \<Rightarrow> 'w st \<times> int \<Rightarrow> bool" where
  "seeding Sel K key M p = (\<lambda>(s, l). True \<and> seeded Sel (K \<union> key ` below M p) s)"

abbreviation seed_body :: "'w Reconciler \<Rightarrow> string \<Rightarrow> u32 \<Rightarrow> MsgMeta list \<Rightarrow> ('w st \<times> int, unit) prog" where
  "seed_body R item stop metas \<equiv> let ks = map (DedupKey (rt_sha256 (r_rt R))) metas in
     bindM (outer (SeedBatch (r_rt R) ks)) (\<lambda>_.
     bindM (modifyM (\<lambda>(s, seeded). (s, seeded + int (length ks)))) (\<lambda>_.
     bindM (getM snd) (\<lambda>seeded. outer (progress R ''seed'' item seeded))))"

lemma seeding_calm:
  assumes "steps (\<lambda>s s'. Sel (st_world s) \<longrightarrow> Sel (st_world s')) m" and "steps (\<lambda>s s'. st_db s' = st_db s) m"
  shows "hoare (seeding Sel K key M p) (outer m) (\<lambda>_. seeding Sel K key M p) (\<lambda>_ _. True)"
  unfolding seeding_def by (rule hoare_post [OF outer_seeded [where T = "\<lambda>_. True"]]) (use seeded_calm [OF assms] in auto)

lemma seed_window:
  fixes R :: "'w Reconciler"
  assumes keep: "keeping R Sel" and served: "box_served R Sel folder M n"
    and u: "\<And>u. u < q \<and> u < n \<longleftrightarrow> u < p \<or> p \<le> u \<and> u \<le> stop"
  shows "hoare (seeding Sel K (DedupKey (rt_sha256 (r_rt R))) M p)
    (bindM (outer (call (dst_FetchMetaRange (r_dst R) p stop))) (seed_body R item stop)) (\<lambda>_. seeding Sel K (DedupKey (rt_sha256 (r_rt R))) M q) (\<lambda>_ _. True)"
proof (rule hoare_bindM)
  let ?key = "DedupKey (rt_sha256 (r_rt R))"
  let ?I = "seeding Sel K ?key M"
  note reading = local_relation.axioms(1) [OF keep]
  have listing: "\<And>a b. hoare Sel (dst_FetchMetaRange (r_dst R) a b) (\<lambda>ms w. Sel w \<and> set ms = {m \<in> M. a \<le> m_UID m \<and> m_UID m \<le> b}) (\<lambda>_ _. True)"
    and uids: "\<And>m. m \<in> M \<Longrightarrow> 0 < m_UID m" "\<And>m. m \<in> M \<Longrightarrow> m_UID m < n"
    using served by (simp_all add: box_served_def)
  let ?B = "{m \<in> M. p \<le> m_UID m \<and> m_UID m \<le> stop}"
  have q: "below M q = below M p \<union> ?B" using u uids(2) unfolding below_def by blast
  show "hoare (?I p) (outer (call (dst_FetchMetaRange (r_dst R) p stop))) (\<lambda>ms x. set ms = ?B \<and> ?I p x) (\<lambda>_ _. True)"
    unfolding seeding_def
    by (rule hoare_post [OF outer_seeded [OF seeded_call [OF listing, where Sel' = Sel and T = "\<lambda>ms. set ms = ?B"]]]) auto
  fix ms
  have add: "hoare (?I p) (outer (SeedBatch (r_rt R) (map ?key ms))) (\<lambda>_. ?I q) (\<lambda>_ _. True)" if "set ms = ?B"
  proof -
    have "K \<union> ?key ` below M p \<union> set (map ?key ms) = K \<union> ?key ` below M q" unfolding q by (simp add: that image_Un Un_assoc)
    then have "hoare (seeded Sel (K \<union> ?key ` below M p)) (SeedBatch (r_rt R) (map ?key ms)) (\<lambda>_ s. True \<and> seeded Sel (K \<union> ?key ` below M q) s) (\<lambda>_ _. True)"
      using seeded_SeedBatch [OF keep, where K = "K \<union> ?key ` below M p" and ks = "map ?key ms"] by simp
    from outer_seeded [OF this, where b = True] show ?thesis unfolding seeding_def by (rule hoare_post) auto
  qed
  have count: "hoare (?I q) (modifyM (\<lambda>(s, seeded). (s, seeded + i))) (\<lambda>_. ?I q) (\<lambda>_ _. True)" "hoare (?I q) (getM snd) (\<lambda>_. ?I q) (\<lambda>_ _. True)" for i
    by (auto simp: hoare_def modifyM_def getM_def seeding_def)
  show "hoare (\<lambda>x. set ms = ?B \<and> ?I p x) ((seed_body R item) stop ms) (\<lambda>_. ?I q) (\<lambda>_ _. True)"
    unfolding Let_def
    by (rule hoare_pure', rule hoare_bindM [OF add], assumption, rule hoare_bindM [OF count(1)], rule hoare_bindM [OF count(2)],
      rule seeding_calm [OF reading_relation.progress_steps [OF reading] untouched.progress_steps])
qed

lemma seed_scan:
  fixes R :: "'w Reconciler"
  assumes keep: "keeping R Sel"
    and batch: "0 < (word_of_int (UIDBatch (r_opts R)) :: u32)" "unat n + unat (word_of_int (UIDBatch (r_opts R)) :: u32) \<le> 2 ^ 32"
    and served: "box_served R Sel folder M n"
  shows "hoare (seeded Sel K) (withVars 0 (scanWindows (r_opts R) (outer (ctxErr R)) 1 n
      (\<lambda>start stop. outer (call (dst_FetchMetaRange (r_dst R) start stop))) (seed_body R item)))
    (\<lambda>_. seeded (\<lambda>_. True) (K \<union> (DedupKey (rt_sha256 (r_rt R))) ` M)) (\<lambda>_ _. True)"
proof -
  let ?key = "DedupKey (rt_sha256 (r_rt R))"
  let ?I = "seeding Sel K ?key M"
  note reading = local_relation.axioms(1) [OF keep]
  have uids: "\<And>m. m \<in> M \<Longrightarrow> 0 < m_UID m" "\<And>m. m \<in> M \<Longrightarrow> m_UID m < n"
    using served by (simp_all add: box_served_def)
  have all: "below M p = M" if "n \<le> p" for p using uids(2) that by (auto simp: below_def intro: order.strict_trans2)
  have none: "below M 1 = {}" using uids(1) by (auto simp: below_def word_less_nat_alt)
  show ?thesis
  proof (rule hoare_withVars)
    have "hoare (?I 1) (scanWindows (r_opts R) (outer (ctxErr R)) 1 n
      (\<lambda>start stop. outer (call (dst_FetchMetaRange (r_dst R) start stop))) (seed_body R item))
      (\<lambda>_ (s, l). seeded (\<lambda>_. True) (K \<union> ?key ` M) s) (\<lambda>_ _. True)"
    proof (rule hoare_scanWindows [OF batch seeding_calm [OF reading_relation.ctxErr_steps [OF reading] untouched.ctxErr_steps] seed_window [OF keep served]], assumption)
      show "case x of (s, l) \<Rightarrow> seeded (\<lambda>_. True) (K \<union> ?key ` M) s" if "n \<le> p" "?I p x" for p and x :: "'w st \<times> int"
        using that all [OF that(1)] by (cases x) (simp add: seeding_def seeded_def)
    qed
    then show "hoare (?I 1) (scanWindows (r_opts R) (outer (ctxErr R)) 1 n
      (\<lambda>start stop. outer (call (dst_FetchMetaRange (r_dst R) start stop))) (seed_body R item))
      (\<lambda>_ (s, l). seeded (\<lambda>_. True) (K \<union> ?key ` M) s) (\<lambda>_ (s, _). True)"
      by (rule hoare_conseq) auto
    show "?I 1 (s, 0)" if "seeded Sel K s" for s using that none by (simp add: seeding_def)
  qed
qed

lemma seedFromDestFolder_seeds:
  fixes R :: "'w Reconciler"
  assumes keep: "keeping R Sel"
    and batch: "0 < (word_of_int (UIDBatch (r_opts R)) :: u32)" "unat n + unat (word_of_int (UIDBatch (r_opts R)) :: u32) \<le> 2 ^ 32"
    and served: "box_served R Sel folder M n"
  shows "hoare (seeded (\<lambda>_. True) K) (seedFromDestFolder R folder item)
    (\<lambda>_. seeded (\<lambda>_. True) (K \<union> DedupKey (rt_sha256 (r_rt R)) ` M)) (\<lambda>_ _. True)"
proof -
  let ?key = "DedupKey (rt_sha256 (r_rt R))"
  have select: "hoare (\<lambda>_. True) (dst_SelectNamedFolder (r_dst R) folder) (\<lambda>r w. Sel w \<and> fst (snd r) = n \<and> (snd (snd r) = 0 \<longrightarrow> M = {})) (\<lambda>_ _. True)"
    using served by (simp add: box_served_def)
  have opened: "hoare (seeded (\<lambda>_. True) K) (call (dst_SelectNamedFolder (r_dst R) folder))
      (\<lambda>r s. (fst (snd r) = n \<and> (snd (snd r) = 0 \<longrightarrow> M = {})) \<and> seeded Sel K s) (\<lambda>_ _. True)"
    by (rule seeded_call [OF select]) auto
  show ?thesis
    unfolding seedFromDestFolder_def
  proof (rule hoare_bindM [OF opened], rule hoare_pure')
    fix r :: "u32 \<times> u32 \<times> u32"
    obtain v k c where r: "r = (v, k, c)" by (cases r)
    assume "fst (snd r) = n \<and> (snd (snd r) = 0 \<longrightarrow> M = {})"
    then have k: "k = n" and empty: "c = 0 \<Longrightarrow> M = {}" by (simp_all add: r)
    show "hoare (seeded Sel K) (case r of (_, uidNext, numMessages) \<Rightarrow> if numMessages = 0 then returnM 0
       else withVars 0 (scanWindows (r_opts R) (outer (ctxErr R)) 1 uidNext
         (\<lambda>start stop. outer (call (dst_FetchMetaRange (r_dst R) start stop))) (seed_body R item)))
      (\<lambda>_. seeded (\<lambda>_. True) (K \<union> ?key ` M)) (\<lambda>_ _. True)"
      unfolding r prod.case k
    proof (rule hoare_if [OF _ seed_scan [OF keep batch served]])
      show "hoare (seeded Sel K) (returnM 0) (\<lambda>_. seeded (\<lambda>_. True) (K \<union> ?key ` M)) (\<lambda>_ _. True)" if "c = 0"
        using empty [OF that] by (simp add: hoare_def returnM_def seeded_def)
    qed
  qed
qed

section \<open>All folders\<close>

text \<open>
  C12. Seeding that succeeds leaves no message of the destination out: the key of every message of every
  destination folder is in the dedup set, and no key has been taken out.
\<close>

theorem SeedFromDest_covers:
  assumes "\<And>f. f \<in> set (destBucketFolders R) \<Longrightarrow> keeping R (Sel f)"
    and "0 < (word_of_int (UIDBatch (r_opts R)) :: u32)"
    and "\<And>f. f \<in> set (destBucketFolders R) \<Longrightarrow> box_served R (Sel f) f (mailbox f) (n f)"
    and "\<And>f. f \<in> set (destBucketFolders R) \<Longrightarrow> unat (n f) + unat (word_of_int (UIDBatch (r_opts R)) :: u32) \<le> 2 ^ 32"
  shows "hoare (\<lambda>s. K \<subseteq> bk_keys (books_of (st_db s))) (SeedFromDest R)
    (\<lambda>_ s. K \<union> (\<Union>f \<in> set (destBucketFolders R). DedupKey (rt_sha256 (r_rt R)) ` mailbox f) \<subseteq> bk_keys (books_of (st_db s))) (\<lambda>_ _. True)"
proof -
  let ?key = "DedupKey (rt_sha256 (r_rt R))" and ?any = "seeded (\<lambda>_. True)"
  let ?step = "\<lambda>count (i, folder). bindM (wrapM ''seed %q: %w'' [folder] (seedFromDestFolder R folder
      (folder @ '' '' @ FormatUint (i + 1) @ ''/'' @ FormatUint (length (destBucketFolders R))))) (\<lambda>n. returnM (count + n))"
  have fold: "hoare (?any K) (foldM ?step c its) (\<lambda>_. ?any (K \<union> (\<Union>f \<in> snd ` set its. ?key ` mailbox f))) (\<lambda>_ _. True)"
    if "snd ` set its \<subseteq> set (destBucketFolders R)" for its :: "(nat \<times> string) list" and c K
    using that
  proof (induction its arbitrary: c K)
    case Nil
    show ?case by (simp add: hoare_def returnM_def)
  next
    case (Cons x its)
    obtain i f where x: "x = (i, f)" by (cases x)
    then have f: "f \<in> set (destBucketFolders R)" using Cons.prems by simp
    have one: "hoare (?any K) (?step c (i, f)) (\<lambda>_. ?any (K \<union> ?key ` mailbox f)) (\<lambda>_ _. True)"
      unfolding prod.case
      by (rule hoare_bindM [OF hoare_wrapM [OF seedFromDestFolder_seeds [OF assms(1) [OF f] assms(2) assms(4) [OF f] assms(3) [OF f]]]])
        (simp add: hoare_def returnM_def)
    have "K \<union> (\<Union>f \<in> snd ` set (x # its). ?key ` mailbox f) = K \<union> ?key ` mailbox f \<union> (\<Union>f \<in> snd ` set its. ?key ` mailbox f)"
      by (auto simp: x)
    then show ?case
      using hoare_bindM [OF one Cons.IH, of "\<lambda>b. b"] Cons.prems by (simp add: x)
  qed
  have names: "snd ` set (zip [0..<length fs] fs) = set fs" for fs :: "string list"
    by (metis map_snd_zip length_upt minus_nat.diff_0 set_map)
  show ?thesis
    unfolding SeedFromDest_def Let_def
    by (rule hoare_conseq [OF fold [OF equalityD1 [OF names]]]) (simp_all only: names seeded_def subset_refl simp_thms)
qed

text \<open>One destination folder with the two messages of \<open>listed\<close>.\<close>

definition filled :: "nat Reconciler \<Rightarrow> nat Reconciler" where
  "filled R = R\<lparr> r_opts := (r_opts R)\<lparr> UIDBatch := 100, DestFolder := ''All'', ArchiveRouting := False, SentRouting := False \<rparr>,
     r_dst := (r_dst R)\<lparr> dst_SelectNamedFolder := (\<lambda>_. returnM (7, 10, 2)),
       dst_FetchMetaRange := (\<lambda>a b. returnM (filter (\<lambda>m. a \<le> m_UID m \<and> m_UID m \<le> b) listed)) \<rparr> \<rparr>"

theorem SeedFromDest_covers_witness:
  "\<forall>R. hoare (\<lambda>_. True) (SeedFromDest (filled R)) (\<lambda>_ s. {''<a>'', ''<b>''} \<subseteq> bk_keys (books_of (st_db s))) (\<lambda>_ _. True)"
proof
  fix R :: "nat Reconciler"
  let ?R = "filled R"
  have folders: "set (destBucketFolders ?R) = {''All''}" by (simp add: destBucketFolders_def filled_def)
  have batch: "word_of_int (UIDBatch (r_opts ?R)) = (100 :: u32)" by (simp add: filled_def)
  have keep: "keeping ?R (\<lambda>_. True)" by unfold_locales auto
  have uids: "m_UID m = 1 \<or> m_UID m = 5" if "m \<in> set listed" for m using that by (auto simp: listed_def)
  have "m_UID m < 10" "0 < m_UID m" if "m \<in> set listed" for m using uids [OF that] by auto
  then have served: "box_served ?R (\<lambda>_. True) f (set listed) 10" for f
    by (simp add: box_served_def hoare_def returnM_def filled_def)
  have trim: "TrimSpace ''<a>'' = ''<a>''" "TrimSpace ''<b>'' = ''<b>''"
    by (simp_all add: TrimSpace_def TrimFunc_def trim_segs_def byte_def IsSpace_def decode_ascii)
  have ks: "DedupKey h ` set listed = {''<a>'', ''<b>''}" for h by (simp add: listed_def DedupKey_real trim)
  have "0 < (word_of_int (UIDBatch (r_opts ?R)) :: u32)" "unat (10 :: u32) + unat (word_of_int (UIDBatch (r_opts ?R)) :: u32) \<le> 2 ^ 32"
    unfolding batch by simp_all
  from SeedFromDest_covers [where Sel = "\<lambda>_ _. True" and mailbox = "\<lambda>_. set listed" and n = "\<lambda>_. 10" and K = "{}", OF keep this(1) served this(2)]
  show "hoare (\<lambda>_. True) (SeedFromDest ?R) (\<lambda>_ s. {''<a>'', ''<b>''} \<subseteq> bk_keys (books_of (st_db s))) (\<lambda>_ _. True)"
    unfolding folders ks by (rule hoare_conseq) simp_all
qed

end
