(* ===== verification/ClientFacts.thy ===== *)
theory ClientFacts
  imports ReferenceEnd Mailboxes "HOL-Library.Multiset"
begin

text \<open>
  What the methods of the IMAP client promise, stated over any library that keeps the contracts of
  fetching, searching and answering, with the reference servers as witnesses.
\<close>

section \<open>Returning\<close>

text \<open>
  C29. The methods of the client that loop over answers of the server return, if the library answers
  every call and a fetch has finitely many messages; the guard chunk stays at least 1, so the search
  that halves it on BAD answers ends too.
\<close>

theorem client_loops_return:
  assumes "ending_client L left"
  shows "settles (\<lambda>p. 1 \<le> cl_guardChunk (fst p)) (SearchMessageIDsIn L folder ids) \<and>
    settles (\<lambda>p. 1 \<le> cl_guardChunk (fst p)) (FetchMetaRange L a b) \<and>
    settles (\<lambda>p. 1 \<le> cl_guardChunk (fst p)) (streamAll L us)"
  by (intro conjI ending_client.SearchMessageIDsIn_settles [OF assms] ending_client.FetchMetaRange_settles [OF assms]
      ending_client.streamAll_settles [OF assms])

theorem client_loops_return_witness:
  "\<forall>S folder ids. settles (\<lambda>p. 1 \<le> cl_guardChunk (fst p)) (SearchMessageIDsIn (dst_library S) folder ids)"
  using client_loops_return [OF dst_ends.ending_client_axioms] by blast

section \<open>Searching\<close>

text \<open>
  The OR tree of a guard search exists exactly for a list with an element, matches a message
  exactly when it has one of the Message-IDs, and is at most one level deeper than it has to be.
\<close>

lemma orMessageIDCriteria_balanced:
  "(\<exists>c. orMessageIDCriteria ids = Some c \<and> (\<forall>has. sat has c \<longleftrightarrow> (\<exists>i \<in> set ids. has ''Message-Id'' i)) \<and>
      2 ^ or_depth c < 2 * length ids) \<longleftrightarrow> ids \<noteq> []"
  using orMessageIDCriteria_tree [of ids] orMessageIDCriteria_nonempty [of ids] by blast

text \<open>
  C26. The batch search finds exactly: every Message-ID it was asked for that the folder it was given has, and
  only Message-IDs that this folder has, however the list was cut into chunks and retried.  If the client takes
  the folder for the selected one before the search, it has to be; otherwise the folder is selected first.
\<close>

theorem SearchMessageIDsIn_exact:
  assumes "mailbox_library L contents pending whole has inside selected_box"
  shows "hoare (\<lambda>p. cl_selected (fst p) = folder \<longrightarrow> selected_box (snd p) = Some folder) (SearchMessageIDsIn L folder ids)
    (\<lambda>found p. found \<subseteq> message_ids L (inside (snd p) folder) \<and> set ids \<inter> message_ids L (inside (snd p) folder) \<subseteq> found) (\<lambda>_ _. True)"
proof (cases "ids = []")
  case True
  then show ?thesis by (simp add: SearchMessageIDsIn_def hoare_def returnM_def)
next
  case False
  then show ?thesis
    using hoare_bindM [OF mailbox_library.ensure_opens [OF assms] mailbox_library.search_exact [OF assms]]
    by (simp add: SearchMessageIDsIn_def)
qed

theorem SearchMessageIDsIn_exact_witness:
  "\<forall>S ids. hoare (\<lambda>p. cl_selected (fst p) = ''INBOX'') (SearchMessageIDsIn (dst_library S) ''Archive'' ids)
    (\<lambda>found p. found \<subseteq> message_ids (dst_library S) (box_inside S dst_party (snd p) ''Archive'')) (\<lambda>_ _. True)"
proof (intro allI)
  fix S ids
  show "hoare (\<lambda>p. cl_selected (fst p) = ''INBOX'') (SearchMessageIDsIn (dst_library S) ''Archive'' ids)
    (\<lambda>found p. found \<subseteq> message_ids (dst_library S) (box_inside S dst_party (snd p) ''Archive'')) (\<lambda>_ _. True)"
    by (rule hoare_conseq [OF SearchMessageIDsIn_exact [OF dst_boxes.mailbox_library_axioms]]) auto
qed

section \<open>Fetching\<close>

text \<open>
  C27. A fetch of metadata that succeeds lists every message of the folder in the UID range, in the order
  of the UIDs, and nothing else: a window is never silently short.
\<close>

theorem FetchMetaRange_complete:
  assumes "fetch_library L contents pending whole" and "a \<le> b" and "b \<noteq> 0"
  shows "hoare (\<lambda>_. True) (FetchMetaRange L a b)
    (\<lambda>ms p. sorted (map m_UID ms) \<and>
      mset ms = mset (map (bufferMeta L) (filter (\<lambda>m. a \<le> fb_UID m \<and> fb_UID m \<le> b) (contents (snd p) metaOptions)))) (\<lambda>_ _. True)"
proof (rule hoareI)
  fix p ms p'
  assume "FetchMetaRange L a b p = Some (Inr ms, p')"
  then have "ms = sort_key m_UID (map (bufferMeta L) (items (contents (snd p')) (UIDRange a b) metaOptions))"
    using fetch_library.fetchMetas_complete [OF assms(1), of "UIDRange a b" "fst p" "snd p" ms "fst p'" "snd p'"]
    by (simp add: FetchMetaRange_def)
  moreover have "in_set (UIDRange a b) u \<longleftrightarrow> a \<le> u \<and> u \<le> b" for u
    using assms(2,3) by auto
  ultimately show "sorted (map m_UID ms) \<and>
      mset ms = mset (map (bufferMeta L) (filter (\<lambda>m. a \<le> fb_UID m \<and> fb_UID m \<le> b) (contents (snd p') metaOptions)))"
    by (simp add: items_def)
qed simp

theorem FetchMetaRange_complete_witness:
  "\<forall>S. hoare (\<lambda>_. True) (FetchMetaRange (src_library S) 1 2000)
    (\<lambda>ms p. sorted (map m_UID ms) \<and>
      mset ms = mset (map (bufferMeta (src_library S)) (filter (\<lambda>m. 1 \<le> fb_UID m \<and> fb_UID m \<le> 2000)
        (box_contents S src_party (snd p) metaOptions)))) (\<lambda>_ _. True)"
proof
  fix S
  show "hoare (\<lambda>_. True) (FetchMetaRange (src_library S) 1 2000)
    (\<lambda>ms p. sorted (map m_UID ms) \<and>
      mset ms = mset (map (bufferMeta (src_library S)) (filter (\<lambda>m. 1 \<le> fb_UID m \<and> fb_UID m \<le> 2000)
        (box_contents S src_party (snd p) metaOptions)))) (\<lambda>_ _. True)"
    by (rule FetchMetaRange_complete [OF src_fetch.fetch_library_axioms]) simp_all
qed

text \<open>
  C28. A stream of full messages calls back on the messages asked for that are in the folder and have a
  body, in order: on all of them when it ends without an error, on the first few otherwise.
\<close>

theorem FetchFullStream_delivers:
  assumes "fetch_library L contents pending whole"
  shows "hoare (\<lambda>q. snd q = []) (FetchFullStream L us (\<lambda>m ms. (None, ms @ [m])))
    (\<lambda>_ q. us \<noteq> [] \<longrightarrow> snd q = bodies (items (contents (snd (fst q))) (UIDSetNum us) fullOptions))
    (\<lambda>_ q. \<exists>n. snd q = take n (bodies (items (contents (snd (fst q))) (UIDSetNum us) fullOptions)))"
proof (cases "us = []")
  case False
  then show ?thesis using fetch_library.hoare_FetchFullStream [OF assms] by simp
qed (simp add: FetchFullStream_def hoare_def returnM_def)

theorem FetchFullStream_delivers_witness:
  "\<forall>S us. hoare (\<lambda>q. snd q = []) (FetchFullStream (src_library S) us (\<lambda>m ms. (None, ms @ [m])))
    (\<lambda>_ _. True)
    (\<lambda>_ q. \<exists>n. snd q = take n (bodies (items (box_contents S src_party (snd (fst q))) (UIDSetNum us) fullOptions)))"
proof (intro allI)
  fix S us
  show "hoare (\<lambda>q. snd q = []) (FetchFullStream (src_library S) us (\<lambda>m ms. (None, ms @ [m])))
    (\<lambda>_ _. True)
    (\<lambda>_ q. \<exists>n. snd q = take n (bodies (items (box_contents S src_party (snd (fst q))) (UIDSetNum us) fullOptions)))"
    using FetchFullStream_delivers [OF src_fetch.fetch_library_axioms] by (rule hoare_post) simp
qed

end
