(* ===== verification/ConfigFacts.thy ===== *)
theory ConfigFacts
  imports Session
begin

text \<open>
  What a configuration that \<open>resolve\<close> accepts promises to the rest of the program, which configurations
  it accepts, and that it reports every problem at once.
\<close>

section \<open>Endpoints\<close>

text \<open>
  An endpoint is accepted exactly if it has a host and a user, a port from 1 to 65535 where 0 means 993,
  and exactly one of a password and a readable password file.
\<close>

lemma resolveEndpoint_accepts_iff:
  "snd (resolveEndpoint h raw) = None \<longleftrightarrow>
     re_Host raw \<noteq> [] \<and> re_User raw \<noteq> [] \<and> (re_Port raw = 0 \<or> 1 \<le> re_Port raw \<and> re_Port raw \<le> 65535) \<and>
     (re_Password raw \<noteq> [] \<and> re_PasswordFile raw = [] \<or>
      re_Password raw = [] \<and> re_PasswordFile raw \<noteq> [] \<and> (\<exists>b. os_ReadFile h (re_PasswordFile raw) = Inr b))"
  by (auto simp: resolveEndpoint_def Let_def defaultInt_def split: sum.split)

lemma endpoint_fields:
  assumes "snd (resolveEndpoint h raw) = None"
  shows "ep_Host (fst (resolveEndpoint h raw)) \<noteq> []" and "ep_User (fst (resolveEndpoint h raw)) \<noteq> []"
    and "1 \<le> ep_Port (fst (resolveEndpoint h raw))" and "ep_Port (fst (resolveEndpoint h raw)) \<le> 65535"
    and "ep_Folder (fst (resolveEndpoint h raw)) \<noteq> []" and "ep_Inbox (fst (resolveEndpoint h raw)) \<noteq> []"
  using assms by (auto simp: resolveEndpoint_def Let_def defaultStr_def split: if_splits sum.splits)

text \<open>
  Where the fields of an endpoint come from.  Exactly one of a password and a password file has been given, and
  the password is the one given, or what the file holds, without the white space around it.
\<close>

definition endpoint_from :: "host \<Rightarrow> rawEndpoint \<Rightarrow> Endpoint \<Rightarrow> bool" where
  "endpoint_from h raw e \<longleftrightarrow>
     ep_Host e = re_Host raw \<and> ep_User e = re_User raw \<and> ep_Port e = (if re_Port raw = 0 then 993 else re_Port raw) \<and>
     ep_Folder e = (if re_Folder raw = [] then ''INBOX'' else re_Folder raw) \<and>
     ep_Inbox e = (if re_Inbox raw = [] then ''INBOX'' else re_Inbox raw) \<and> ep_TLS e = (re_TLS raw \<noteq> Some False) \<and>
     (re_Password raw \<noteq> [] \<and> re_PasswordFile raw = [] \<and> ep_Password e = re_Password raw \<or>
      re_Password raw = [] \<and> re_PasswordFile raw \<noteq> [] \<and> (\<exists>b. os_ReadFile h (re_PasswordFile raw) = Inr b \<and> ep_Password e = TrimSpace b))"

lemma resolveEndpoint_from: "snd (resolveEndpoint h raw) = None \<Longrightarrow> endpoint_from h raw (fst (resolveEndpoint h raw))"
  by (cases "re_TLS raw")
    (auto simp: endpoint_from_def resolveEndpoint_def Let_def defaultStr_def defaultInt_def defaultBool_def split: if_splits sum.splits)

section \<open>Mirrors\<close>

text \<open>The values of a mirror that the rest of the program relies on.\<close>

definition endpoint_ok :: "Endpoint \<Rightarrow> bool" where
  "endpoint_ok e \<longleftrightarrow> ep_Host e \<noteq> [] \<and> ep_User e \<noteq> [] \<and> 1 \<le> ep_Port e \<and> ep_Port e \<le> 65535 \<and> ep_Folder e \<noteq> [] \<and> ep_Inbox e \<noteq> []"

definition mirror_ok :: "Mirror \<Rightarrow> bool" where
  "mirror_ok m \<longleftrightarrow>
     nameRe (mi_Name m) \<and> endpoint_ok (mi_Source m) \<and> endpoint_ok (mi_Dest m) \<and>
     mi_Seed m \<in> {SeedEmpty, SeedAlways, SeedNever} \<and>
     0 < mi_PollInterval m \<and> 0 < mi_IdleReset m \<and> 1 \<le> mi_UIDBatch m \<and>
     (la_Propagate (mi_Labels m) \<longrightarrow> la_Enabled (mi_Labels m)) \<and>
     (\<exists>c. la_KeywordReplacement (mi_Labels m) = [c] \<and> isKeywordByte c) \<and>
     distinct (destFolders m) \<and> list_all (\<lambda>f. f \<noteq> []) (destFolders m)"

text \<open>The checks that are left for a mirror when the defaults are filled in and the endpoints are fine.\<close>

definition mirror_accepted :: "host \<Rightarrow> rawMirror \<Rightarrow> Mirror \<Rightarrow> bool" where
  "mirror_accepted h rm m \<longleftrightarrow>
     snd (resolveEndpoint h (rm_Source rm)) = None \<and> snd (resolveEndpoint h (rm_Dest rm)) = None \<and>
     mi_Seed m \<in> {SeedEmpty, SeedAlways, SeedNever} \<and>
     0 \<le> mi_PollInterval m \<and> 0 \<le> mi_IdleReset m \<and> 1 \<le> mi_UIDBatch m \<and>
     (la_Propagate (mi_Labels m) \<longrightarrow> la_Enabled (mi_Labels m)) \<and>
     (\<exists>c. la_KeywordReplacement (mi_Labels m) = [c] \<and> isKeywordByte c) \<and> distinct (destFolders m)"

lemma failIf_Nil [simp]: "failIf b e = [] \<longleftrightarrow> \<not> b"
  by (simp add: failIf_def)

lemma checkMirror_iff:
  "checkEndpoint h a (rm_Source rm) = [] \<and> checkEndpoint h b (rm_Dest rm) = [] \<and> checkMirror at m = [] \<longleftrightarrow> mirror_accepted h rm m"
proof -
  have one: "length r = 1 \<and> isKeywordByte (hd r) \<longleftrightarrow> (\<exists>c. r = [c] \<and> isKeywordByte c)" for r
    by (cases r) auto
  show ?thesis
    unfolding mirror_accepted_def checkMirror_def one [symmetric]
    by (auto simp: checkEndpoint_def destFolders_def Let_def split: option.split)
qed

lemma accepted_ok:
  assumes "mirror_accepted h rm (resolveMirror h dir rm)" and "nameRe (rm_Name rm)"
  shows "mirror_ok (resolveMirror h dir rm)"
proof -
  let ?m = "resolveMirror h dir rm"
  have "mi_PollInterval ?m \<noteq> 0" "mi_IdleReset ?m \<noteq> 0"
    by (simp_all add: resolveMirror_def defaultDur_def Minute_def Second_def)
  moreover have "endpoint_ok (mi_Source ?m)" "endpoint_ok (mi_Dest ?m)"
    using assms(1) endpoint_fields by (simp_all add: mirror_accepted_def endpoint_ok_def resolveMirror_def)
  moreover have "list_all (\<lambda>f. f \<noteq> []) (destFolders ?m)"
    using \<open>endpoint_ok (mi_Dest ?m)\<close> by (simp add: destFolders_def endpoint_ok_def resolveMirror_def defaultStr_def)
  ultimately show ?thesis
    using assms by (auto simp: mirror_accepted_def mirror_ok_def) (simp_all add: resolveMirror_def)
qed

section \<open>The list of mirrors\<close>

lemma checkName_iff: "checkName at names n = [] \<longleftrightarrow> nameRe n \<and> n \<notin> set names"
  by (auto simp: checkName_def nameRe_def)

lemma checkStatePath_iff: "checkStatePath at ps path = [] \<longleftrightarrow> Clean path \<notin> fst ` set ps"
  by (auto simp: checkStatePath_def map_of_eq_None_iff split: option.split) (metis map_of_eq_None_iff option.distinct(1))

lemma resolveMirrors_snd: "snd (resolveMirrors h dir i names ps rms) = map (resolveMirror h dir) rms"
  by (induction rms arbitrary: i names ps) (simp, simp add: Let_def split: prod.split, metis snd_conv)

lemma resolveMirrors_accepts:
  "fst (resolveMirrors h dir i names ps rms) = [] \<longleftrightarrow>
     distinct (map rm_Name rms) \<and> set (map rm_Name rms) \<inter> set names = {} \<and>
     distinct (map (\<lambda>rm. Clean (mi_StatePath (resolveMirror h dir rm))) rms) \<and>
     set (map (\<lambda>rm. Clean (mi_StatePath (resolveMirror h dir rm))) rms) \<inter> fst ` set ps = {} \<and>
     list_all (\<lambda>rm. nameRe (rm_Name rm) \<and> mirror_accepted h rm (resolveMirror h dir rm)) rms"
proof (induction rms arbitrary: i names ps)
  case (Cons rm rms)
  let ?m = "resolveMirror h dir rm" and ?at = "whereOf i rm"
  have "fst (resolveMirrors h dir i names ps (rm # rms)) = [] \<longleftrightarrow>
      checkName ?at names (rm_Name rm) = [] \<and> checkStatePath ?at ps (mi_StatePath ?m) = [] \<and>
      (checkEndpoint h (?at @ '' source'') (rm_Source rm) = [] \<and> checkEndpoint h (?at @ '' dest'') (rm_Dest rm) = [] \<and>
        checkMirror ?at ?m = []) \<and>
      fst (resolveMirrors h dir (i + 1) (rm_Name rm # names) ((Clean (mi_StatePath ?m), rm_Name rm) # ps) rms) = []"
    by (simp add: Let_def split: prod.split)
  then show ?case
    unfolding Cons.IH checkName_iff checkStatePath_iff checkMirror_iff by auto
qed simp

section \<open>The whole configuration\<close>

lemma resolved_config:
  assumes "resolve h raw = Inr cfg"
  shows "cf_LogLevel cfg \<in> {''debug'', ''info'', ''warn'', ''error''} \<and> cf_Mirrors cfg \<noteq> [] \<and>
    distinct (map mi_Name (cf_Mirrors cfg)) \<and> distinct (map (Clean \<circ> mi_StatePath) (cf_Mirrors cfg)) \<and>
    list_all mirror_ok (cf_Mirrors cfg) \<and>
    list_all2 (\<lambda>rm m. endpoint_from h (rm_Source rm) (mi_Source m) \<and> endpoint_from h (rm_Dest rm) (mi_Dest m)) (rc_Mirrors raw) (cf_Mirrors cfg)"
proof -
  let ?dir = "defaultStr (rc_StateDir raw) ''/state''"
  obtain errs ms where r: "resolveMirrors h ?dir 0 [] [] (rc_Mirrors raw) = (errs, ms)" by force
  have none: "errs = []" and level: "cf_LogLevel cfg \<in> {''debug'', ''info'', ''warn'', ''error''}"
    and some: "rc_Mirrors raw \<noteq> []" and "cf_Mirrors cfg = ms"
    using assms by (auto simp: resolve_def Let_def r failIf_def split: prod.splits option.splits if_splits)
  then have ms: "cf_Mirrors cfg = map (resolveMirror h ?dir) (rc_Mirrors raw)"
    using resolveMirrors_snd [of h ?dir 0 "[]" "[]" "rc_Mirrors raw"] by (simp add: r)
  have name: "map mi_Name (map (resolveMirror h ?dir) rms) = map rm_Name rms" for rms by (induction rms) (simp_all add: resolveMirror_def)
  have "list_all (\<lambda>rm. nameRe (rm_Name rm) \<and> mirror_accepted h rm (resolveMirror h ?dir rm)) (rc_Mirrors raw)"
    and "distinct (map rm_Name (rc_Mirrors raw))"
    and "distinct (map (\<lambda>rm. Clean (mi_StatePath (resolveMirror h ?dir rm))) (rc_Mirrors raw))"
    using resolveMirrors_accepts [of h ?dir 0 "[]" "[]" "rc_Mirrors raw"] none by (simp_all add: r)
  moreover from this(1) have "list_all2 (\<lambda>rm m. endpoint_from h (rm_Source rm) (mi_Source m) \<and> endpoint_from h (rm_Dest rm) (mi_Dest m))
      (rc_Mirrors raw) (cf_Mirrors cfg)"
    unfolding ms list_all2_map2
    by (auto simp: list_all_iff mirror_accepted_def resolveMirror_def resolveEndpoint_from intro!: list.rel_refl_strong)
  ultimately show ?thesis
    using level some accepted_ok unfolding name ms by (auto simp: comp_def list_all_iff)
qed

text \<open>
  C30. What \<open>resolve\<close> returns can be relied on: a known log level, at least one mirror, distinct names and
  distinct state files, and for every mirror complete endpoints, positive intervals and batch, a known seed
  mode, a keyword replacement of one character, and destination folders that are all different.  An endpoint has
  a host, a user, a port and folders, from the file or by default, and the one password that was given: that of
  \<open>password\<close>, which is not empty, or the trimmed contents of the readable file of \<open>password_file\<close>, which are
  empty if the file is blank.
\<close>

theorem resolve_valid:
  "case resolve h raw of Inl errs \<Rightarrow> errs \<noteq> []
   | Inr cfg \<Rightarrow> cf_LogLevel cfg \<in> {''debug'', ''info'', ''warn'', ''error''} \<and> cf_Mirrors cfg \<noteq> [] \<and>
       distinct (map mi_Name (cf_Mirrors cfg)) \<and> distinct (map (Clean \<circ> mi_StatePath) (cf_Mirrors cfg)) \<and>
       list_all mirror_ok (cf_Mirrors cfg) \<and>
       list_all2 (\<lambda>rm m. endpoint_from h (rm_Source rm) (mi_Source m) \<and> endpoint_from h (rm_Dest rm) (mi_Dest m)) (rc_Mirrors raw) (cf_Mirrors cfg)"
proof (cases "resolve h raw")
  case (Inl errs)
  then show ?thesis by (auto simp: resolve_def Let_def split: prod.splits option.splits if_splits)
next
  case (Inr cfg)
  then show ?thesis using resolved_config [OF Inr] by simp
qed

text \<open>A file with one mirror and nothing but the required entries is accepted.\<close>

definition unset :: Node where
  "unset = \<lparr> nd_Kind = 0, nd_Tag = [], nd_Decode = Inr [] \<rparr>"

definition small_endpoint :: rawEndpoint where
  "small_endpoint = \<lparr> re_Host = ''imap'', re_Port = 0, re_User = ''u'', re_Password = ''p'', re_PasswordFile = [],
     re_Folder = [], re_Inbox = [], re_TLS = None \<rparr>"

definition small_config :: rawConfig where
  "small_config = \<lparr> rc_HealthAddr = unset, rc_LogLevel = [], rc_StateDir = [], rc_LockPath = [],
     rc_Mirrors = [\<lparr> rm_Name = ''home'', rm_StatePath = [], rm_PollInterval = 0, rm_IdleReset = 0, rm_UIDBatch = 0,
       rm_Seed = [], rm_DestGuard = None, rm_CarrySeen = None, rm_Source = small_endpoint, rm_Dest = small_endpoint,
       rm_Archive = \<lparr> rar_Enabled = False, rar_Folder = [] \<rparr>,
       rm_Sent = \<lparr> rse_Enabled = False, rse_Folder = [], rse_SourceFolder = [] \<rparr>,
       rm_Labels = \<lparr> rla_Enabled = False, rla_Propagate = False, rla_Exclude = [], rla_KeywordPrefix = [],
         rla_KeywordReplacement = [] \<rparr> \<rparr>] \<rparr>"

lemma small_config_accepted: "\<exists>cfg. resolve h small_config = Inr cfg"
proof -
  have "ToLower ul ''info'' = ''info''" "ToLower ul ''empty'' = ''empty''" for ul
    by (simp_all add: ToLower_def byte_def ascii_lower_def)
  then show ?thesis
    by (simp add: resolve_def small_config_def unset_def small_endpoint_def optString_def defaultStr_def failIf_def
        resolveMirror_def checkName_def nameRe_def name_char_def byte_def checkStatePath_def checkEndpoint_def
        resolveEndpoint_def defaultInt_def defaultDur_def defaultBool_def checkMirror_def isKeywordByte_def
        SeedEmpty_def Minute_def Second_def Let_def)
qed

section \<open>The documented rules\<close>

text \<open>
  The rules of the README and of the example file over the entries of the file, where an empty text and a zero
  stand for an entry that is not there.
\<close>

definition endpoint_rules :: "host \<Rightarrow> rawEndpoint \<Rightarrow> bool" where
  "endpoint_rules h e \<longleftrightarrow> re_Host e \<noteq> [] \<and> re_User e \<noteq> [] \<and> (re_Port e = 0 \<or> 1 \<le> re_Port e \<and> re_Port e \<le> 65535) \<and>
     (re_Password e \<noteq> [] \<and> re_PasswordFile e = [] \<or>
      re_Password e = [] \<and> re_PasswordFile e \<noteq> [] \<and> (\<exists>b. os_ReadFile h (re_PasswordFile e) = Inr b))"

text \<open>Labels are sanitised with one keyword character; the destination folders in use are different.\<close>

definition folder_rules :: "rawMirror \<Rightarrow> bool" where
  "folder_rules rm \<longleftrightarrow>
     (let dest = (if re_Folder (rm_Dest rm) = [] then ''INBOX'' else re_Folder (rm_Dest rm));
          archive = (if rar_Folder (rm_Archive rm) = [] then ''Archive'' else rar_Folder (rm_Archive rm));
          sent = (if rse_Folder (rm_Sent rm) = [] then ''Sent'' else rse_Folder (rm_Sent rm))
      in (rar_Enabled (rm_Archive rm) \<longrightarrow> archive \<noteq> dest) \<and> (rse_Enabled (rm_Sent rm) \<longrightarrow> sent \<noteq> dest) \<and>
         (rar_Enabled (rm_Archive rm) \<and> rse_Enabled (rm_Sent rm) \<longrightarrow> sent \<noteq> archive))"

definition mirror_rules :: "host \<Rightarrow> rawMirror \<Rightarrow> bool" where
  "mirror_rules h rm \<longleftrightarrow>
     rm_Name rm \<noteq> [] \<and> set (rm_Name rm) \<subseteq> set ''abcdefghijklmnopqrstuvwxyz0123456789_-'' \<and>
     endpoint_rules h (rm_Source rm) \<and> endpoint_rules h (rm_Dest rm) \<and>
     (rm_Seed rm = [] \<or> ToLower (unicode_lower h) (rm_Seed rm) \<in> {''empty'', ''always'', ''never''}) \<and>
     0 \<le> rm_PollInterval rm \<and> 0 \<le> rm_IdleReset rm \<and> 0 \<le> rm_UIDBatch rm \<and>
     (rla_Propagate (rm_Labels rm) \<longrightarrow> rla_Enabled (rm_Labels rm)) \<and>
     (rla_KeywordReplacement (rm_Labels rm) = [] \<or>
      (\<exists>c \<in> set ''ABCDEFGHIJKLMNOPQRSTUVWXYZabcdefghijklmnopqrstuvwxyz0123456789_-''. rla_KeywordReplacement (rm_Labels rm) = [c])) \<and>
     folder_rules rm"

text \<open>The state file: as given, or \<open>{state_dir}/{name}.db\<close>; two spellings of one path are one file.\<close>

definition state_file :: "rawConfig \<Rightarrow> rawMirror \<Rightarrow> string" where
  "state_file raw rm = Clean (if rm_StatePath rm \<noteq> [] then rm_StatePath rm
     else path_Join [if rc_StateDir raw = [] then ''/state'' else rc_StateDir raw, rm_Name rm @ ''.db''])"

definition config_rules :: "host \<Rightarrow> rawConfig \<Rightarrow> bool" where
  "config_rules h raw \<longleftrightarrow>
     (nd_Kind (rc_HealthAddr raw) = 0 \<or> nd_Tag (rc_HealthAddr raw) = ''!!null'' \<or> (\<exists>v. nd_Decode (rc_HealthAddr raw) = Inr v)) \<and>
     (rc_LogLevel raw = [] \<or> ToLower (unicode_lower h) (rc_LogLevel raw) \<in> {''debug'', ''info'', ''warn'', ''error''}) \<and>
     rc_Mirrors raw \<noteq> [] \<and> list_all (mirror_rules h) (rc_Mirrors raw) \<and>
     distinct (map rm_Name (rc_Mirrors raw)) \<and> distinct (map (state_file raw) (rc_Mirrors raw))"

lemma char_lit: "c \<in> set s \<longleftrightarrow> byte c \<in> set (map byte s)"
  by (auto simp: byte_def)

lemma char_byte: "c = d \<longleftrightarrow> byte c = byte d"
  by (simp add: byte_def)

lemma name_char_lit: "name_char c \<longleftrightarrow> c \<in> set ''abcdefghijklmnopqrstuvwxyz0123456789_-''"
proof -
  have "map byte ''abcdefghijklmnopqrstuvwxyz0123456789_-'' = [97..<123] @ [48..<58] @ [byte (CHR ''_''), byte (CHR ''-'')]" by code_simp
  from this [THEN arg_cong [of _ _ set]] show ?thesis unfolding name_char_def char_lit [of c] char_byte [of c]
    by (simp only: set_append set_upt list.set Un_iff insert_iff empty_iff atLeastLessThan_iff) auto
qed

lemma keyword_char_lit: "isKeywordByte c \<longleftrightarrow> c \<in> set ''ABCDEFGHIJKLMNOPQRSTUVWXYZabcdefghijklmnopqrstuvwxyz0123456789_-''"
proof -
  have "map byte ''ABCDEFGHIJKLMNOPQRSTUVWXYZabcdefghijklmnopqrstuvwxyz0123456789_-'' =
      [65..<91] @ [97..<123] @ [48..<58] @ [byte (CHR ''_''), byte (CHR ''-'')]" by code_simp
  from this [THEN arg_cong [of _ _ set]] show ?thesis unfolding isKeywordByte_def char_lit [of c] char_byte [of c]
    by (simp only: set_append set_upt list.set Un_iff insert_iff empty_iff atLeastLessThan_iff) auto
qed

lemma lower_defaults: "ToLower ul ''info'' = ''info''" "ToLower ul ''empty'' = ''empty''"
  by (simp_all add: ToLower_def byte_def ascii_lower_def)

lemma name_rules: "nameRe n \<longleftrightarrow> n \<noteq> [] \<and> set n \<subseteq> set ''abcdefghijklmnopqrstuvwxyz0123456789_-''"
  unfolding nameRe_def list_all_iff name_char_lit by blast

lemma folder_rules_iff:
  "distinct (destFolders (resolveMirror h dir rm)) \<longleftrightarrow> folder_rules rm"
proof -
  have "ep_Folder (fst (resolveEndpoint h raw)) = (if re_Folder raw = [] then ''INBOX'' else re_Folder raw)" for raw
    by (auto simp: resolveEndpoint_def Let_def defaultStr_def split: sum.split)
  then show ?thesis by (auto simp: folder_rules_def destFolders_def resolveMirror_def defaultStr_def Let_def)
qed

lemma mirror_rules_iff:
  "nameRe (rm_Name rm) \<and> mirror_accepted h rm (resolveMirror h dir rm) \<longleftrightarrow> mirror_rules h rm"
proof -
  let ?m = "resolveMirror h dir rm"
  have seed: "mi_Seed ?m \<in> {SeedEmpty, SeedAlways, SeedNever} \<longleftrightarrow>
      rm_Seed rm = [] \<or> ToLower (unicode_lower h) (rm_Seed rm) \<in> {''empty'', ''always'', ''never''}"
    using lower_defaults by (simp add: resolveMirror_def defaultStr_def SeedEmpty_def SeedAlways_def SeedNever_def)
  have intervals: "0 \<le> mi_PollInterval ?m \<longleftrightarrow> 0 \<le> rm_PollInterval rm" "0 \<le> mi_IdleReset ?m \<longleftrightarrow> 0 \<le> rm_IdleReset rm"
    "1 \<le> mi_UIDBatch ?m \<longleftrightarrow> 0 \<le> rm_UIDBatch rm"
    by (auto simp: resolveMirror_def defaultDur_def defaultInt_def Minute_def Second_def)
  have labels: "(la_Propagate (mi_Labels ?m) \<longrightarrow> la_Enabled (mi_Labels ?m)) \<longleftrightarrow> (rla_Propagate (rm_Labels rm) \<longrightarrow> rla_Enabled (rm_Labels rm))"
    by (simp add: resolveMirror_def)
  have "isKeywordByte (CHR ''_'')" by (simp add: isKeywordByte_def)
  then have replacement: "(\<exists>c. la_KeywordReplacement (mi_Labels ?m) = [c] \<and> isKeywordByte c) \<longleftrightarrow>
      rla_KeywordReplacement (rm_Labels rm) = [] \<or> (\<exists>c. rla_KeywordReplacement (rm_Labels rm) = [c] \<and> isKeywordByte c)"
    by (auto simp: resolveMirror_def defaultStr_def)
  show ?thesis
    unfolding mirror_accepted_def mirror_rules_def endpoint_rules_def resolveEndpoint_accepts_iff seed intervals labels replacement
      folder_rules_iff name_rules
    unfolding keyword_char_lit by blast
qed

text \<open>
  C31. \<open>resolve\<close> accepts exactly the configurations that meet the documented rules: an address that is a text or
  null, a log level, at least one mirror, different names and state files, and for each mirror a name, endpoints
  with a host, a user, a port and exactly one of a password and a readable password file, a seed mode, intervals
  and a batch that are not negative, propagation only with labels, one keyword character as a replacement, and
  different destination folders.
\<close>

theorem resolve_accepts_iff: "(\<exists>cfg. resolve h raw = Inr cfg) \<longleftrightarrow> config_rules h raw"
proof -
  let ?dir = "defaultStr (rc_StateDir raw) ''/state''"
  obtain v b e where o: "optString (rc_HealthAddr raw) = (v, b, e)" by (cases "optString (rc_HealthAddr raw)")
  obtain errs ms where r: "resolveMirrors h ?dir 0 [] [] (rc_Mirrors raw) = (errs, ms)" by force
  have health: "e = None \<longleftrightarrow> nd_Kind (rc_HealthAddr raw) = 0 \<or> nd_Tag (rc_HealthAddr raw) = ''!!null'' \<or> (\<exists>v. nd_Decode (rc_HealthAddr raw) = Inr v)"
    using o by (auto simp: optString_def split: if_splits sum.splits)
  have level: "ToLower (unicode_lower h) (defaultStr (rc_LogLevel raw) ''info'') \<in> {''debug'', ''info'', ''warn'', ''error''} \<longleftrightarrow>
      rc_LogLevel raw = [] \<or> ToLower (unicode_lower h) (rc_LogLevel raw) \<in> {''debug'', ''info'', ''warn'', ''error''}"
    using lower_defaults by (simp add: defaultStr_def)
  have path: "(\<lambda>rm. Clean (mi_StatePath (resolveMirror h ?dir rm))) = state_file raw"
    by (simp add: state_file_def resolveMirror_def defaultStr_def fun_eq_iff)
  have "errs = [] \<longleftrightarrow> distinct (map rm_Name (rc_Mirrors raw)) \<and> distinct (map (state_file raw) (rc_Mirrors raw)) \<and>
      list_all (mirror_rules h) (rc_Mirrors raw)"
    using resolveMirrors_accepts [of h ?dir 0 "[]" "[]" "rc_Mirrors raw"] unfolding r path mirror_rules_iff by simp
  moreover have "(\<exists>cfg. resolve h raw = Inr cfg) \<longleftrightarrow> e = None \<and>
      ToLower (unicode_lower h) (defaultStr (rc_LogLevel raw) ''info'') \<in> {''debug'', ''info'', ''warn'', ''error''} \<and>
      rc_Mirrors raw \<noteq> [] \<and> errs = []"
    by (cases e) (auto simp: resolve_def Let_def o r failIf_def)
  ultimately show ?thesis unfolding config_rules_def health level by blast
qed

text \<open>
  C32. Every problem is reported at once: when a configuration is refused, the messages contain those of
  the own checks of every mirror, wherever it stands in the file and whatever is wrong with the others.
\<close>

theorem resolve_reports_all:
  "(case resolve h raw of Inr cfg \<Rightarrow> True | Inl errs \<Rightarrow>
     list_all (\<lambda>(i, rm).
         set (checkEndpoint h (whereOf i rm @ '' source'') (rm_Source rm)) \<union>
         set (checkEndpoint h (whereOf i rm @ '' dest'') (rm_Dest rm)) \<union>
         set (checkMirror (whereOf i rm) (resolveMirror h (defaultStr (rc_StateDir raw) ''/state'') rm)) \<subseteq> set errs)
       (zip [0..<length (rc_Mirrors raw)] (rc_Mirrors raw)))"
proof -
  let ?dir = "defaultStr (rc_StateDir raw) ''/state''"
  let ?own = "\<lambda>i rm. set (checkEndpoint h (whereOf i rm @ '' source'') (rm_Source rm)) \<union>
     set (checkEndpoint h (whereOf i rm @ '' dest'') (rm_Dest rm)) \<union> set (checkMirror (whereOf i rm) (resolveMirror h ?dir rm))"
  have all: "?own (i + j) (rms ! j) \<subseteq> set (fst (resolveMirrors h ?dir i names ps rms))" if "j < length rms" for i j names ps rms
    using that
  proof (induction rms arbitrary: i j names ps)
    case (Cons rm rms)
    show ?case
    proof (cases j)
      case 0
      then show ?thesis by (auto simp: Let_def split: prod.split)
    next
      case (Suc k)
      then have "?own (i + 1 + k) (rms ! k) \<subseteq> set (fst (resolveMirrors h ?dir (i + 1) (rm_Name rm # names)
          ((Clean (mi_StatePath (resolveMirror h ?dir rm)), rm_Name rm) # ps) rms))"
        by (intro Cons.IH) (use Cons.prems Suc in simp)
      then show ?thesis using Suc by (auto simp: Let_def split: prod.split)
    qed
  qed simp
  have "set (fst (resolveMirrors h ?dir 0 [] [] (rc_Mirrors raw))) \<subseteq> set errs" if "resolve h raw = Inl errs" for errs
    using that by (auto simp: resolve_def Let_def split: prod.splits option.splits if_splits)
  then show ?thesis
    using all [of _ "rc_Mirrors raw" 0] by (fastforce simp: list_all_iff set_zip split: sum.split)
qed

end
