(* ===== verification/Daemon.thy ===== *)
theory Daemon
  imports Session
begin

text \<open>
  The process (\<open>cmd/umleiter/main.go\<close>) and its startup lock (\<open>internal/lock/lock.go\<close>): exit codes,
  one goroutine per mirror, the health endpoint, and several instances on one lock file.
\<close>

section \<open>The startup lock\<close>

text \<open>The flock library: \<open>TryLock\<close> and \<open>Unlock\<close> on a path, in one process.\<close>

record 'w flock =
  fl_TryLock :: "string \<Rightarrow> ('w, bool) prog"
  fl_Unlock :: "string \<Rightarrow> ('w, unit) prog"

record Lock =
  lk_fl :: string

definition Acquire :: "'w flock \<Rightarrow> string \<Rightarrow> ('w, Lock) prog" where
  "Acquire F path =
     bindM (wrapM ''lock %s: %w'' [path] (fl_TryLock F path)) (\<lambda>ok.
     if \<not> ok then throwM (Msg ''lock %s: held by another umleiter instance (never run two syncers against the same state)'' [path])
     else returnM \<lparr> lk_fl = path \<rparr>)"

definition Release :: "'w flock \<Rightarrow> Lock \<Rightarrow> ('w, unit) prog" where
  "Release F l = fl_Unlock F (lk_fl l)"

section \<open>The mirrors of an instance\<close>

text \<open>
  Each mirror runs in a goroutine: \<open>None\<close> while it runs, then what \<open>mirror.Run\<close> returned.  \<open>ft_stopped\<close>
  is the end of the context, by a signal or by \<open>stop()\<close>.
\<close>

record fleet =
  ft_mirrors :: "gerr option option list"
  ft_failed :: bool
  ft_stopped :: bool

definition launch :: "Config \<Rightarrow> fleet" where
  "launch cfg = \<lparr> ft_mirrors = map (\<lambda>_. None) (cf_Mirrors cfg), ft_failed = False, ft_stopped = False \<rparr>"

definition mirrorEnds :: "nat \<Rightarrow> gerr option \<Rightarrow> fleet \<Rightarrow> fleet" where
  "mirrorEnds i r f = (let f' = f\<lparr> ft_mirrors := (ft_mirrors f)[i := Some r] \<rparr> in
     case r of None \<Rightarrow> f' | Some e \<Rightarrow> f'\<lparr> ft_failed := True, ft_stopped := True \<rparr>)"

text \<open>
  Mirror \<open>i\<close> may end with \<open>r\<close> if \<open>mirrorRun\<close> does, from some state file and some world: the mirrors
  share nothing but the context, whose end is part of the world of each.
\<close>

definition outcome :: "(nat \<Rightarrow> 'w platform) \<Rightarrow> (nat \<Rightarrow> ('w mst, unit) prog) \<Rightarrow> Config \<Rightarrow> nat \<Rightarrow> gerr option \<Rightarrow> bool" where
  "outcome P os_open cfg i r \<longleftrightarrow> (\<exists>s s'. mirrorRun (P i) (os_open i) (cf_Mirrors cfg ! i) s =
     Some (case r of None \<Rightarrow> Inr () | Some e \<Rightarrow> Inl e, s'))"

inductive fleet_step :: "(nat \<Rightarrow> gerr option \<Rightarrow> bool) \<Rightarrow> fleet \<Rightarrow> fleet \<Rightarrow> bool" for ends where
  ended: "i < length (ft_mirrors f) \<Longrightarrow> ft_mirrors f ! i = None \<Longrightarrow> ends i r \<Longrightarrow> fleet_step ends f (mirrorEnds i r f)"
| signalled: "fleet_step ends f (f\<lparr> ft_stopped := True \<rparr>)"

inductive_cases fleet_stepE: "fleet_step ends f g"

definition waited :: "fleet \<Rightarrow> bool" where
  "waited f \<longleftrightarrow> list_all (\<lambda>r. r \<noteq> None) (ft_mirrors f)"

definition exitCode :: "fleet \<Rightarrow> int" where
  "exitCode f = (if ft_failed f then 1 else 0)"

section \<open>The process\<close>

text \<open>
  \<open>work\<close> runs the mirrors until \<open>wg.Wait()\<close> returns; its result is the fleet at that moment.  The deferred
  \<open>Release\<close> follows whatever happens, and its error is ignored.
\<close>

definition run :: "host \<Rightarrow> 'w flock \<Rightarrow> (Config \<Rightarrow> ('w, fleet) prog) \<Rightarrow> ('w, int) prog" where
  "run h F work =
     (case LoadFile h (Path h) of
        Inl errs \<Rightarrow> returnM 2
      | Inr cfg \<Rightarrow>
          bindM (tryM (Acquire F (cf_LockPath cfg))) (\<lambda>r.
          case r of
            Inl e \<Rightarrow> returnM 1
          | Inr l \<Rightarrow>
              bindM (tryM (work cfg)) (\<lambda>q.
              bindM (tryM (Release F l)) (\<lambda>_.
              case q of Inl e \<Rightarrow> throwM e | Inr f \<Rightarrow> returnM (exitCode f)))))"

text \<open>The liveness of one mirror: its name, the staleness that is allowed, its last heartbeat in Unix seconds.\<close>

record mirrorHealth =
  mh_name :: string
  mh_staleness :: duration
  mh_beat :: int

definition healthOf :: "Config \<Rightarrow> int \<Rightarrow> mirrorHealth list" where
  "healthOf cfg now = map (\<lambda>m. \<lparr> mh_name = mi_Name m, mh_staleness = 3 * mi_PollInterval m, mh_beat = now \<rparr>) (cf_Mirrors cfg)"

definition stale :: "duration \<Rightarrow> mirrorHealth \<Rightarrow> bool" where
  "stale now m \<longleftrightarrow> now - mh_beat m * Second > mh_staleness m"

definition StatusOK :: int where "StatusOK = 200"

definition StatusServiceUnavailable :: int where "StatusServiceUnavailable = 503"

text \<open>The handler of \<open>/healthz\<close>: the status, and the name in the error text.  \<open>now\<close> is in nanoseconds.\<close>

fun healthz :: "duration \<Rightarrow> mirrorHealth list \<Rightarrow> int \<times> string option" where
  "healthz now [] = (StatusOK, None)"
| "healthz now (m # ms) = (if stale now m then (StatusServiceUnavailable, Some (mh_name m)) else healthz now ms)"

text \<open>\<open>get\<close> is the HTTP client with its timeout: the status code of the answer.\<close>

definition healthcheck :: "host \<Rightarrow> (string \<Rightarrow> ('w, int) prog) \<Rightarrow> ('w, int) prog" where
  "healthcheck h get =
     (let probe = (\<lambda>addr. bindM (tryM (get (''http://'' @ (if hd addr = CHR '':'' then ''127.0.0.1'' @ addr else addr) @ ''/healthz'')))
            (\<lambda>r. returnM (case r of Inl e \<Rightarrow> 1 | Inr code \<Rightarrow> if code \<noteq> StatusOK then 1 else 0))) in
      case LoadFile h (Path h) of
        Inl errs \<Rightarrow> probe '':8080''
      | Inr cfg \<Rightarrow> if cf_HealthAddr cfg = [] then returnM 0 else probe (cf_HealthAddr cfg))"

datatype slogLevel = LevelDebug | LevelInfo | LevelWarn | LevelError

definition newLogger :: "string \<Rightarrow> slogLevel" where
  "newLogger level =
     (if level = ''debug'' then LevelDebug else if level = ''warn'' then LevelWarn
      else if level = ''error'' then LevelError else LevelInfo)"

definition main :: "string list \<Rightarrow> host \<Rightarrow> 'w flock \<Rightarrow> (Config \<Rightarrow> ('w, fleet) prog) \<Rightarrow> (string \<Rightarrow> ('w, int) prog) \<Rightarrow> ('w, int) prog" where
  "main args h F work get =
     (if 1 < length args \<and> args ! 1 = ''-healthcheck'' then healthcheck h get else run h F work)"

section \<open>The exit code\<close>

definition fleet_ok :: "(nat \<Rightarrow> gerr option \<Rightarrow> bool) \<Rightarrow> nat \<Rightarrow> fleet \<Rightarrow> bool" where
  "fleet_ok ends n f \<longleftrightarrow> length (ft_mirrors f) = n \<and> (\<forall>i < n. \<forall>r. ft_mirrors f ! i = Some r \<longrightarrow> ends i r) \<and>
     (ft_failed f \<longleftrightarrow> (\<exists>i < n. \<exists>e. ft_mirrors f ! i = Some (Some e))) \<and> (ft_failed f \<longrightarrow> ft_stopped f)"

lemma fleet_ok_step: "fleet_step ends f g \<Longrightarrow> fleet_ok ends n f \<Longrightarrow> fleet_ok ends n g"
proof (erule fleet_stepE)
  fix i r
  assume f: "fleet_ok ends n f" and g: "g = mirrorEnds i r f" and i: "i < length (ft_mirrors f)" "ft_mirrors f ! i = None" "ends i r"
  have at: "ft_mirrors g ! j = (if j = i then Some r else ft_mirrors f ! j)" if "j < n" for j
    using that f by (simp add: g fleet_ok_def mirrorEnds_def Let_def nth_list_update split: option.split)
  have "(\<exists>j < n. \<exists>e. ft_mirrors g ! j = Some (Some e)) \<longleftrightarrow> ft_failed f \<or> r \<noteq> None"
    using f i at unfolding fleet_ok_def by (metis not_Some_eq option.inject)
  then show "fleet_ok ends n g"
    using f i at by (auto simp: fleet_ok_def g mirrorEnds_def Let_def split: option.splits)
qed (simp add: fleet_ok_def)

lemma fleet_ok_reached: "(fleet_step ends)\<^sup>*\<^sup>* (launch cfg) f \<Longrightarrow> fleet_ok ends (length (cf_Mirrors cfg)) f"
proof (induction rule: rtranclp_induct)
  case base
  show ?case by (simp add: fleet_ok_def launch_def)
qed (rule fleet_ok_step)

text \<open>A mirror ends with an error only if its state file cannot be used.\<close>

lemma mirrorRun_error:
  "mirrorRun P os_open m s = Some (Inl e, s') \<Longrightarrow>
     (\<exists>e'. e = Wrap ''mirror %s: state open: %w'' [mi_Name m] e') \<or> e = SqlErr ''no such table''"
  by (cases s) (auto simp: mirrorRun_def split: option.splits sum.splits prod.splits)

text \<open>
  The process exits with 1 exactly if a mirror could not use its state file, and then all other mirrors
  have been told to stop: in every interleaving of the mirrors and the signals.
\<close>

lemma exit_code_reports_failure:
  assumes "(fleet_step (outcome P os_open cfg))\<^sup>*\<^sup>* (launch cfg) f"
  shows "(exitCode f = 1 \<longleftrightarrow> (\<exists>i < length (cf_Mirrors cfg). \<exists>e. ft_mirrors f ! i = Some (Some e) \<and>
       ((\<exists>e'. e = Wrap ''mirror %s: state open: %w'' [mi_Name (cf_Mirrors cfg ! i)] e') \<or> e = SqlErr ''no such table''))) \<and>
    (exitCode f = 1 \<longrightarrow> ft_stopped f)"
proof -
  have ok: "fleet_ok (outcome P os_open cfg) (length (cf_Mirrors cfg)) f" by (rule fleet_ok_reached [OF assms])
  have err: "(\<exists>e'. e = Wrap ''mirror %s: state open: %w'' [mi_Name (cf_Mirrors cfg ! i)] e') \<or> e = SqlErr ''no such table''"
    if "i < length (cf_Mirrors cfg)" "ft_mirrors f ! i = Some (Some e)" for i e
  proof -
    have "outcome P os_open cfg i (Some e)" using ok that by (simp add: fleet_ok_def)
    then show ?thesis using mirrorRun_error by (fastforce simp: outcome_def)
  qed
  then show ?thesis using ok by (auto simp: fleet_ok_def exitCode_def)
qed

text \<open>
  The exit code says what went wrong: 2 without touching the lock when the configuration is refused,
  1 without starting a mirror when the lock is not obtained, and otherwise the outcome of the mirrors,
  always after the lock has been released.
\<close>

lemma run_exit_codes:
  "run h F work w =
     (case LoadFile h (Path h) of
        Inl errs \<Rightarrow> Some (Inr 2, w)
      | Inr cfg \<Rightarrow>
          (case fl_TryLock F (cf_LockPath cfg) w of
             None \<Rightarrow> None
           | Some (Inl e, w1) \<Rightarrow> Some (Inr 1, w1)
           | Some (Inr False, w1) \<Rightarrow> Some (Inr 1, w1)
           | Some (Inr True, w1) \<Rightarrow>
               (case work cfg w1 of
                  None \<Rightarrow> None
                | Some (q, w2) \<Rightarrow>
                    (case fl_Unlock F (cf_LockPath cfg) w2 of
                       None \<Rightarrow> None
                     | Some (_, w3) \<Rightarrow> Some (map_sum id exitCode q, w3)))))"
  by (auto simp: run_def Acquire_def Release_def prog_defs split: sum.split option.split prod.split bool.split)

section \<open>The health endpoint\<close>

text \<open>
  The health endpoint answers 200 exactly if no mirror has been without a heartbeat for longer than three
  poll intervals; otherwise it answers 503 and names a mirror that has.
\<close>

lemma healthz_reports_stale:
  "(fst (healthz now ms) = StatusOK \<longleftrightarrow> list_all (\<lambda>m. \<not> stale now m) ms) \<and>
   (case healthz now ms of (code, name) \<Rightarrow>
      code = StatusOK \<and> name = None \<or> code = StatusServiceUnavailable \<and> (\<exists>m \<in> set ms. stale now m \<and> name = Some (mh_name m)))"
  by (induction ms) (auto simp: StatusOK_def StatusServiceUnavailable_def split: prod.splits)

section \<open>Several instances\<close>

datatype phase = Starting | Syncing string | Gone

inductive instance_step :: "(nat \<Rightarrow> 'w flock) \<Rightarrow> 'w \<times> (nat \<Rightarrow> phase) \<Rightarrow> 'w \<times> (nat \<Rightarrow> phase) \<Rightarrow> bool" for F where
  acquired: "ph i = Starting \<Longrightarrow> Acquire (F i) path w = Some (Inr l, w') \<Longrightarrow>
    instance_step F (w, ph) (w', ph(i := Syncing (lk_fl l)))"
| refused: "ph i = Starting \<Longrightarrow> Acquire (F i) path w = Some (Inl e, w') \<Longrightarrow> instance_step F (w, ph) (w', ph(i := Gone))"
| released: "ph i = Syncing path \<Longrightarrow> Release (F i) \<lparr> lk_fl = path \<rparr> w = Some (r, w') \<Longrightarrow>
    instance_step F (w, ph) (w', ph(i := Gone))"

text \<open>What the operating system promises of exclusive file locks: \<open>holder w p\<close> is the process that holds \<open>p\<close>.\<close>

locale flock_service =
  fixes F :: "nat \<Rightarrow> 'w flock" and holder :: "'w \<Rightarrow> string \<Rightarrow> nat option"
  assumes try_law: "fl_TryLock (F i) p w = Some (r, w') \<Longrightarrow>
      (if r = Inr True then holder w p = None \<and> holder w' = (holder w)(p := Some i) else holder w' = holder w)"
    and unlock_law: "fl_Unlock (F i) p w = Some (q, w') \<Longrightarrow> holder w p = Some i \<Longrightarrow>
      holder w' = holder w \<or> holder w' = (holder w)(p := None)"
begin

definition held :: "'w \<times> (nat \<Rightarrow> phase) \<Rightarrow> bool" where
  "held s \<longleftrightarrow> (\<forall>i p. snd s i = Syncing p \<longrightarrow> holder (fst s) p = Some i)"

lemma Acquire_holds:
  assumes "Acquire (F i) path w = Some (r, w')"
  shows "case r of Inl e \<Rightarrow> holder w' = holder w
    | Inr l \<Rightarrow> lk_fl l = path \<and> holder w path = None \<and> holder w' = (holder w)(path := Some i)"
proof -
  obtain q w1 where t: "fl_TryLock (F i) path w = Some (q, w1)"
    using assms by (cases "fl_TryLock (F i) path w") (auto simp: Acquire_def prog_defs)
  then show ?thesis
    using assms try_law [OF t] by (auto simp: Acquire_def prog_defs split: sum.splits if_splits)
qed

lemma step_held: "instance_step F s t \<Longrightarrow> held s \<Longrightarrow> held t"
proof (induction rule: instance_step.induct)
  case (acquired ph i path w l w')
  then show ?case using Acquire_holds [OF acquired(2)] by (auto simp: held_def)
next
  case (refused ph i path w e w')
  then show ?case using Acquire_holds [OF refused(2)] by (auto simp: held_def)
next
  case (released ph i path w r w')
  then have "holder w path = Some i" by (simp add: held_def)
  with released unlock_law [of i path w r w'] show ?case
    by (auto simp: held_def Release_def) (metis option.inject)
qed

lemma reachable_held: "(instance_step F)\<^sup>*\<^sup>* s t \<Longrightarrow> held s \<Longrightarrow> held t"
  by (induction rule: rtranclp_induct) (auto intro: step_held)

end

definition lock_table :: "nat \<Rightarrow> (string \<Rightarrow> nat option) flock" where
  "lock_table i = \<lparr> fl_TryLock = (\<lambda>p t. if t p = None then Some (Inr True, t(p := Some i)) else Some (Inr False, t)),
     fl_Unlock = (\<lambda>p t. Some (Inr (), if t p = Some i then t(p := None) else t)) \<rparr>"

interpretation lock_table: flock_service lock_table "\<lambda>t. t"
  by unfold_locales (auto simp: lock_table_def split: if_splits)

text \<open>
  C33. However many instances are started on one lock path, in whatever order they start and stop, at most
  one of them is past the startup lock at any time.
\<close>

theorem one_instance_per_lock:
  assumes "flock_service F holder" and "(instance_step F)\<^sup>*\<^sup>* (w, \<lambda>_. Starting) (w', ph)"
    and "ph i = Syncing path" and "ph j = Syncing path"
  shows "i = j"
proof -
  have "flock_service.held holder (w', ph)"
    by (rule flock_service.reachable_held [OF assms(1,2)]) (simp add: flock_service.held_def [OF assms(1)])
  then have "\<forall>i p. ph i = Syncing p \<longrightarrow> holder w' p = Some i"
    by (simp add: flock_service.held_def [OF assms(1)])
  then show ?thesis using assms(3,4) by (metis option.inject)
qed

theorem one_instance_per_lock_witness:
  "\<exists>t. (instance_step lock_table)\<^sup>*\<^sup>* (\<lambda>_. None, \<lambda>_. Starting) (t, (\<lambda>_. Starting)(0 := Syncing ''lock'', 1 := Gone)) \<and>
     (\<forall>j. ((\<lambda>_ :: nat. Starting)(0 := Syncing ''lock'', 1 := Gone)) j = Syncing ''lock'' \<longrightarrow> 0 = j)"
proof -
  let ?t = "(\<lambda>_. None)(''lock'' := Some 0) :: string \<Rightarrow> nat option"
  let ?ph = "(\<lambda>_ :: nat. Starting)(0 := Syncing ''lock'')"
  have "instance_step lock_table (\<lambda>_. None, \<lambda>_. Starting) (?t, ?ph)"
    using instance_step.acquired [of "\<lambda>_. Starting" 0 lock_table "''lock''" "\<lambda>_. None" "\<lparr> lk_fl = ''lock'' \<rparr>" ?t]
    by (simp add: Acquire_def lock_table_def prog_defs)
  moreover have "instance_step lock_table (?t, ?ph) (?t, ?ph(1 := Gone))"
    by (rule instance_step.refused [where path = "''lock''"])
      (simp_all add: Acquire_def lock_table_def prog_defs)
  ultimately have r: "(instance_step lock_table)\<^sup>*\<^sup>* (\<lambda>_. None, \<lambda>_. Starting) (?t, ?ph(1 := Gone))" by simp
  have "0 = j" if "(?ph(1 := Gone)) j = Syncing ''lock''" for j
    by (rule one_instance_per_lock [OF lock_table.flock_service_axioms r]) (simp, rule that)
  then show ?thesis using r by auto
qed

end
