(* ===== verification/Spec2Isabelle.thy ===== *)
theory Spec2Isabelle
  imports Interleaving Backfill Scans Marks Seeding ClientFacts ConfigFacts Daemon
begin

text \<open>
  umleiter mirrors a mailbox from one IMAP server to another.  For every mirror of its configuration the
  daemon connects to both servers, copies each message of the source folder that is not in its dedup set to
  a destination folder, and keeps watching: a push of the source or the poll interval starts the next pass.
  Beside the copies it follows the folders in which a message is labelled, archived or sent, and moves and
  tags the copies accordingly.  What it has done is kept in a SQLite file.  The rule behind the order of its
  steps is that the stored state stays behind reality: a message is recorded after the destination has
  confirmed it, and a mark is advanced after its window is done, so that a crash costs work but no mail.

  This development translates that code (\<open>cmd/\<close> and \<open>internal/\<close>) into definitions and proves what the rule
  promises.


  \<^bold>\<open>How programs are modelled\<close>

  A Go function that has effects is a \<open>prog\<close> (theory \<open>Prelude\<close>): from a state it returns an error or a
  value, with the state afterwards, or \<open>None\<close> when it does not return at all.  An error that a Go function
  returns is a value of \<open>gerr\<close>, with \<open>Wrap\<close> for \<open>fmt.Errorf("...%w")\<close>; every early return of the source is a
  branch.  \<open>hoare P m Q E\<close> says what holds after a return without and with an error, \<open>steps R m\<close> that every
  run stays in the relation \<open>R\<close>, \<open>settles\<close> that the program returns.  None of them but \<open>settles\<close> promises a
  return; the termination theorems do.

  The state \<open>'w st\<close> of the reconciler is the database, the summary of the pass and the outside world \<open>'w\<close>,
  a parameter.  What lies outside the repository is a record of functions on that world, which may do
  anything and fail at any call: the database driver, the clock, the context and Go's order of map iteration
  (\<open>runtime\<close>), the two connections (\<open>Source\<close>, \<open>Dest\<close>, the interfaces of \<open>reconcile.go\<close>), the go-imap library
  (\<open>imapclient\<close>), dialing, waiting and sleeping (\<open>platform\<close>), files, environment and the YAML decoder
  (\<open>host\<close>), and file locks (\<open>flock\<close>).  SHA-256 and the lower-case table of Unicode are arguments.
  Integers have the width of the source where it matters: UIDs, UIDVALIDITY and marks are 32-bit words that
  wrap around, and a duration is checked against 64 bits.  A string is its bytes.


  \<^bold>\<open>Theories and code\<close>

  Foundations:

    \<^item> \<open>Prelude\<close>: errors, programs, the rules of \<open>hoare\<close>, \<open>steps\<close> and \<open>settles\<close>, loops.
    \<^item> \<open>GoStrings\<close>, \<open>Durations\<close>: the functions of Go's \<open>strings\<close>, \<open>strconv\<close>, \<open>utf8\<close> and \<open>time\<close> that the
      program uses.
    \<^item> \<open>Mail\<close>: the records that pass between the packages, and \<open>runtime\<close>, \<open>Source\<close> and \<open>Dest\<close>.

  The program, one theory per part, with the names of the source:

    \<^item> \<open>Key\<close>: \<open>reconcile/key.go\<close>.  \<open>Labels\<close>: \<open>reconcile/labels.go\<close>, with \<open>missingKeywords\<close> and \<open>flagSig\<close>.
    \<^item> \<open>Store\<close>: \<open>state/store.go\<close>, the five tables as lists of rows, each SQL statement a function, each
      method a program with its transaction.  \<open>Migrate\<close>: \<open>state/migrate.go\<close> and \<open>Open\<close>.
    \<^item> \<open>Reconciler\<close>, \<open>Membership\<close>, \<open>Propagate\<close>, \<open>Mirror\<close>: \<open>reconcile/reconcile.go\<close> and
      \<open>reconcile/membership.go\<close>.  The closures of the source that fill local variables are programs on a
      pair of the state and those variables (\<open>withVars\<close>, \<open>outer\<close>).
    \<^item> \<open>Interleaving\<close>: the two goroutines of \<open>copyPipeline\<close> and their channel as a step relation.
    \<^item> \<open>Imapx\<close>: \<open>imapx/client.go\<close>.  \<open>Config\<close>: \<open>config/config.go\<close>.  \<open>Session\<close>: \<open>mirror/mirror.go\<close>.
      \<open>Daemon\<close>: \<open>cmd/umleiter/main.go\<close> and \<open>lock/lock.go\<close>, with the goroutines of the mirrors and the
      instances on one lock file as step relations.

  What is proved about them:

    \<^item> \<open>StoreFacts\<close>, \<open>StoreSpec\<close>: every store method happens as a whole or not at all and implements an
      operation on an abstract state, and a read answers from it (\<open>store\<close>: the copied keys, the members with
      their UIDs, the queue with its ids, two maps; \<open>books\<close> is what the reconciler sees of it, without UIDs
      and ids).  The only errors are those of the driver, apart from a stored mark that is not a number.
    \<^item> \<open>Rules\<close>, \<open>Phases\<close>, \<open>Pipeline\<close>, \<open>Windows\<close>: a relation that the primitive calls keep is kept by every
      phase of a pass; the pipeline as a loop with an invariant.
    \<^item> \<open>Soundness\<close>, \<open>Uniqueness\<close>, \<open>Completeness\<close>: the three guarantees of a pass, against servers that keep
      a contract: what is recorded has been stored, nothing is stored twice, nothing is skipped.
      \<open>Termination\<close>: a pass ends.
    \<^item> \<open>Supervision\<close>: what every session keeps, the supervision loop keeps.  \<open>Platform\<close>: the contracts of a
      platform under which this holds for the three guarantees.
    \<^item> \<open>RoutingFacts\<close>, \<open>Rebuild\<close>, \<open>Watch\<close>: the membership scan as a refinement of the folder that it watches.
    \<^item> \<open>Mailboxes\<close>, \<open>Edits\<close>: what the methods of the client that select a folder find in it, and what moving and
      tagging by Message-ID make of the mailboxes.
    \<^item> \<open>Placement\<close>, \<open>Backfill\<close>: where propagation and backfill leave the messages, and with what keywords.
    \<^item> \<open>Scans\<close>, \<open>Marks\<close>, \<open>Seeding\<close>: the windowed scan and when it ends, the stored marks, seeding.
    \<^item> \<open>ImapxFacts\<close>, \<open>Answers\<close>, \<open>ClientFacts\<close>: the methods of the client over a library that keeps the
      contract of IMAP.  \<open>ConfigFacts\<close>: which configurations are accepted, and what they promise.
    \<^item> \<open>Server\<close>, \<open>ServerFetch\<close>, \<open>ServerFacts\<close>, \<open>ServerContract\<close>: a pair of mail servers that fail whenever a
      plan says so.  They model no code; they are the world on which the contracts are shown to hold.
      \<open>Reference\<close>, \<open>ReferenceLedger\<close>, \<open>ReferenceRun\<close>, \<open>ReferenceEnd\<close>: the program on these servers.
    \<^item> \<open>Passes\<close>: the guarantees of a pass and of a mirror that runs over any number of sessions, on every
      platform that keeps the contracts.


  \<^bold>\<open>Interfaces\<close>

  Where one part relies on another, the promise is a locale and its provider an interpretation.

    \<^item> \<open>dedup_set\<close> and \<open>membership\<close> are what the reconciler relies on of the tables; the statements of
      \<open>Store\<close> provide them.
    \<^item> \<open>runtime_relation\<close>, \<open>reading_relation\<close>, \<open>local_relation\<close>, \<open>marking_relation\<close>, \<open>calling_relation\<close>,
      \<open>dest_relation\<close>, \<open>phase_relation\<close>, \<open>recording_relation\<close> and \<open>pass_relation\<close> say which calls keep a
      relation, from the driver alone to the whole of \<open>Run\<close>.  \<open>keys\<close>, \<open>tables\<close> and \<open>untouched\<close> interpret
      them on the store.
    \<^item> \<open>plain_client\<close>, \<open>reading_client\<close>, \<open>moving_client\<close>, \<open>writing_client\<close>, \<open>fetch_library\<close>,
      \<open>search_library\<close>, \<open>mailbox_library\<close>, \<open>editing_library\<close> and \<open>ending_client\<close> are the contract of go-imap
      and IMAP that the client relies on; \<open>editing_platform\<close> adds a database, a context and a clock that leave
      the mailboxes alone.  A header search finds what a relation \<open>hits\<close> says, which on IMAP servers is that the
      field contains the text.
    \<^item> \<open>truthful_servers\<close>, \<open>counting_servers\<close>, \<open>complete_source\<close> and \<open>responsive_servers\<close> are the contracts of
      the reconciler with the two connections.  They are interpreted on the reconciler of \<open>Session\<close> with
      the client of \<open>Imapx\<close> over the reference servers, so the assumptions of a pass are discharged by the
      program's own client.
    \<^item> \<open>pipeline\<close> is the invariant of the append loop; \<open>Soundness\<close>, \<open>Uniqueness\<close> and \<open>Completeness\<close> each
      give one.  \<open>session_frame\<close> says what connecting, waiting and hanging up leave alone, \<open>supervised\<close> what a
      session keeps.  \<open>truthful_platform\<close>, \<open>counting_platform\<close> and \<open>complete_platform\<close> are the contracts of a pass
      for every session, with that frame; each is a \<open>supervised\<close> and is interpreted on the program's clients over
      the reference servers.
    \<^item> \<open>flock_service\<close> is the lock file; it is interpreted on a table of lock holders.


  \<^bold>\<open>Concurrency\<close>

  \<open>Mirror\<close> writes \<open>copyPipeline\<close> as a sequential program: the source has streamed all bodies before the first is
  appended.  \<open>copyPipeline_interleavings\<close> justifies this: every interleaving of the two goroutines ends with the
  database, the destination and the result of that program, or of one whose stream the end of the context
  cut off.  The end of the context is a step of the environment; only after it can the sending goroutine give up
  its message.  Beside it stand the bounds of the channel and the ring, and that the goroutines never block each
  other, without the help of the context.  The mirrors of a process share nothing but the context; \<open>fleet_step\<close> lets them end in any order.


  \<^bold>\<open>Loops and bounds\<close>

  A loop of the source that may run forever is a \<open>partial_function (option)\<close> (\<open>untilM\<close>, \<open>scanLoop\<close>,
  \<open>orMessageIDCriteria\<close>), so not returning is \<open>None\<close>; \<open>passes_return\<close>, \<open>scanWindows_returns_iff\<close> and
  \<open>client_loops_return\<close> say when they return.  The only fuel is the number of appends in the ring for
  \<open>drainRing\<close>, which removes one in every round.  \<open>supervise\<close> and \<open>idleLoop\<close> are meant to run until the context or
  the connection ends; the theorems about \<open>supervise\<close> are also stated for its first \<open>n\<close> rounds (\<open>rounds\<close>), for
  every \<open>n\<close>.  A crash at any point is a world in which every later call fails, so it is covered by the
  statements about programs that return an error.

  A scan needs room for one more batch above UIDNEXT: windows are counted in 32 bits, and a scan near the
  end of the UID space may not end (\<open>scanWindows_returns_iff\<close>).  Theorems about scans state this bound.


  \<^bold>\<open>Not modelled\<close>

    \<^item> Log output: \<open>slog\<close> calls and the handler of \<open>newLogger\<close>; no decision depends on them.
    \<^item> The libraries themselves: go-imap, the header parser of go-message, the SQLite driver, \<open>flock\<close>,
      \<open>yaml.v3\<close>, \<open>net/http\<close>, SHA-256.  Each is a parameter; the health server is its handler \<open>healthz\<close>.
    \<^item> \<open>Notify\<close> and the timeout of the logout are channel plumbing: a push is one of the outcomes of the
      wait of the mirror loop.
    \<^item> \<open>mirrorRun\<close> opens a file of schema version 2 that lacks one of its tables with an error, where the
      program would fail at the first statement that uses the table.
    \<^item> \<open>ParseDuration\<close> rounds fractions like a double, without the limits of a double's exponent.
    \<^item> Tests, container images and example files.
\<close>

end
